(* ===== verification/Prelude.thy ===== *)
theory Prelude imports Main "HOL-Library.Word" "HOL-Library.List_Lexorder" "HOL-Library.Char_ord" "HOL-Library.Sublist" "HOL-Library.Product_Lexorder" "HOL-Library.AList" begin

text \<open>
  What every theory of the development shares: the names of Go's machine types, the
  error-or-value result of a fallible Go function, the three-way comparison results of
  Go's \<open>Compare\<close> functions, and generic list and map lemmas.

  Go strings are byte strings: they are \<open>char list\<close>s, ordered bytewise (the library's
  lexicographic order of \<open>List_Lexorder\<close> over \<open>Char_ord\<close>), as Go's \<open><\<close> on
  strings is. A Go map whose iteration order the program sorts away is an association
  list or a total function with the zero value as default.
\<close>

section \<open>Types\<close>

type_synonym gostring = string

type_synonym u64 = "64 word"

text \<open>\<^verbatim>\<open>(value, error)\<close> results: \<open>Inl\<close> the error, \<open>Inr\<close> the value.\<close>

type_synonym ('e, 'a) res = "'e + 'a"

definition bindE :: "('e, 'a) res \<Rightarrow> ('a \<Rightarrow> ('e, 'b) res) \<Rightarrow> ('e, 'b) res" where
  "bindE m f = (case m of Inl e \<Rightarrow> Inl e | Inr a \<Rightarrow> f a)"

lemma bindE_simps [simp]:
  "bindE (Inl e) f = Inl e"
  "bindE (Inr a) f = f a"
  by (simp_all add: bindE_def)

lemma bindE_Inr_iff: "bindE m f = Inr b \<longleftrightarrow> (\<exists>a. m = Inr a \<and> f a = Inr b)"
  by (cases m) simp_all

lemma bindE_Inl_iff: "bindE m f = Inl e \<longleftrightarrow> m = Inl e \<or> (\<exists>a. m = Inr a \<and> f a = Inl e)"
  by (cases m) auto

text \<open>A failing traversal: the loop \<^verbatim>\<open>for ... { if err != nil { return nil, err } }\<close>.\<close>

fun mapE :: "('a \<Rightarrow> ('e, 'b) res) \<Rightarrow> 'a list \<Rightarrow> ('e, 'b list) res" where
  "mapE f [] = Inr []"
| "mapE f (x # xs) = bindE (f x) (\<lambda>y. bindE (mapE f xs) (\<lambda>ys. Inr (y # ys)))"

lemma mapE_Inr_iff:
  "mapE f xs = Inr ys \<longleftrightarrow> list_all2 (\<lambda>x y. f x = Inr y) xs ys"
proof (induction xs arbitrary: ys)
  case Nil
  then show ?case by auto
next
  case (Cons x xs)
  then show ?case
    by (cases ys) (auto simp: bindE_Inr_iff)
qed

section \<open>Fact collections\<close>

named_theorems sem_simps \<open>membership characterisations of the set operations\<close>
named_theorems wf_intros \<open>operations that keep well-formedness\<close>

section \<open>Lists\<close>

lemma sorted_wrt_filter_imp: "sorted_wrt R xs \<Longrightarrow> sorted_wrt R (filter P xs)"
  by (induction xs) auto

lemma distinct_map_filter: "distinct (map f xs) \<Longrightarrow> distinct (map f (filter P xs))"
  by (induction xs) auto

lemma distinct_map_unique:
  "distinct (map f xs) \<Longrightarrow> x \<in> set xs \<Longrightarrow> y \<in> set xs \<Longrightarrow> f x = f y \<Longrightarrow> x = y"
  by (induction xs) (auto simp: rev_image_eqI)

lemma find_SomeD: "find P xs = Some x \<Longrightarrow> x \<in> set xs \<and> P x"
  by (induction xs) (auto split: if_splits)

lemma find_None_iff_all: "find P xs = None \<longleftrightarrow> (\<forall>x \<in> set xs. \<not> P x)"
  by (induction xs) auto

text \<open>Induction for a sweep that advances one of two lists at each step.\<close>

lemma sweep_induct [case_names NilL NilR Cons]:
  assumes "\<And>bs. P [] bs" and "\<And>a as. P (a # as) []"
    and "\<And>a as b bs. P as (b # bs) \<Longrightarrow> P (a # as) bs \<Longrightarrow> P (a # as) (b # bs)"
  shows "P as bs"
proof (induction as arbitrary: bs)
  case Nil
  show ?case by (rule assms(1))
next
  case (Cons a as)
  show ?case
    by (induction bs) (auto intro: assms Cons.IH)
qed

lemma dropWhile_Cons_holds: "dropWhile P xs = y # ys \<Longrightarrow> \<not> P y"
  by (induction xs) (auto split: if_splits)

lemma dropWhile_suffix_ex: "\<exists>zs. xs = zs @ dropWhile P xs \<and> (\<forall>z \<in> set zs. P z)"
  by (metis set_takeWhileD takeWhile_dropWhile_id)

lemma append_sep_inj:
  "c \<notin> set xs \<Longrightarrow> c \<notin> set xs' \<Longrightarrow> xs @ c # ys = xs' @ c # ys' \<Longrightarrow> xs = xs' \<and> ys = ys'"
proof (induction xs arbitrary: xs')
  case Nil
  then show ?case by (cases xs') auto
next
  case (Cons x xs)
  then show ?case by (cases xs') auto
qed

text \<open>
  \<^verbatim>\<open>slices.Sort\<close> and \<^verbatim>\<open>slices.Sorted(maps.Keys(m))\<close> on strings: the library's
  insertion sort, which returns the one ascending arrangement.
\<close>

definition sortStrings :: "gostring list \<Rightarrow> gostring list" where
  "sortStrings xs = sort xs"

lemma set_sortStrings [simp]: "set (sortStrings xs) = set xs"
  by (simp add: sortStrings_def)

lemma distinct_sortStrings [simp]: "distinct (sortStrings xs) = distinct xs"
  by (simp add: sortStrings_def)

text \<open>
  \<^verbatim>\<open>slices.SortFunc\<close> with a three-way comparison. The program sorts only lists whose
  elements the comparison tells apart, so that the ascending arrangement is unique and the
  instability of Go's sort cannot show.
\<close>

fun insertBy :: "('a \<Rightarrow> 'a \<Rightarrow> int) \<Rightarrow> 'a \<Rightarrow> 'a list \<Rightarrow> 'a list" where
  "insertBy cmp x [] = [x]"
| "insertBy cmp x (y # ys) = (if cmp x y \<le> 0 then x # y # ys else y # insertBy cmp x ys)"

fun sortBy :: "('a \<Rightarrow> 'a \<Rightarrow> int) \<Rightarrow> 'a list \<Rightarrow> 'a list" where
  "sortBy cmp [] = []"
| "sortBy cmp (x # xs) = insertBy cmp x (sortBy cmp xs)"

lemma set_insertBy [simp]: "set (insertBy cmp x xs) = insert x (set xs)"
  by (induction xs) auto

lemma set_sortBy [simp]: "set (sortBy cmp xs) = set xs"
  by (induction xs) simp_all

lemma sortBy_empty_iff [simp]: "sortBy cmp xs = [] \<longleftrightarrow> xs = []"
  using set_sortBy [of cmp xs] by (metis set_empty)

lemma length_insertBy [simp]: "length (insertBy cmp x xs) = Suc (length xs)"
  by (induction xs) auto

lemma length_sortBy [simp]: "length (sortBy cmp xs) = length xs"
  by (induction xs) simp_all

lemma distinct_map_insertBy [simp]:
  "distinct (map f (insertBy cmp x xs)) \<longleftrightarrow> f x \<notin> f ` set xs \<and> distinct (map f xs)"
  by (induction xs) auto

lemma distinct_map_sortBy [simp]: "distinct (map f (sortBy cmp xs)) \<longleftrightarrow> distinct (map f xs)"
  by (induction xs) auto

text \<open>A three-way comparison is a total preorder when its sign is.\<close>

definition totalCmp :: "('a \<Rightarrow> 'a \<Rightarrow> int) \<Rightarrow> bool" where
  "totalCmp cmp \<longleftrightarrow> (\<forall>x y. cmp x y \<le> 0 \<or> cmp y x \<le> 0) \<and>
     (\<forall>x y z. cmp x y \<le> 0 \<longrightarrow> cmp y z \<le> 0 \<longrightarrow> cmp x z \<le> 0)"

lemma sorted_insertBy:
  assumes "totalCmp cmp"
  shows "sorted_wrt (\<lambda>a b. cmp a b \<le> 0) xs \<Longrightarrow> sorted_wrt (\<lambda>a b. cmp a b \<le> 0) (insertBy cmp x xs)"
proof (induction xs)
  case (Cons y ys)
  have "cmp x z \<le> 0" if "cmp x y \<le> 0" "z \<in> set ys" for z
    using assms Cons.prems that by (auto simp: totalCmp_def)
  moreover have "cmp y x \<le> 0" if "\<not> cmp x y \<le> 0"
    using assms that by (auto simp: totalCmp_def)
  ultimately show ?case using Cons by auto
qed simp

lemma sorted_sortBy: "totalCmp cmp \<Longrightarrow> sorted_wrt (\<lambda>a b. cmp a b \<le> 0) (sortBy cmp xs)"
  by (induction xs) (auto intro: sorted_insertBy)

text \<open>\<^verbatim>\<open>strings.Compare\<close>.\<close>

definition compareStr :: "gostring \<Rightarrow> gostring \<Rightarrow> int" where
  "compareStr a b = (if a < b then -1 else if b < a then 1 else 0)"

lemma totalCmp_key: "totalCmp (\<lambda>a b. compareStr (f a) (f b))"
  by (auto simp: totalCmp_def compareStr_def split: if_splits)

lemma compareStr_le: "compareStr a b \<le> 0 \<longleftrightarrow> a \<le> b"
  by (auto simp: compareStr_def)

section \<open>Finite maps as association lists\<close>

text \<open>
  \<^verbatim>\<open>slices.Sorted(maps.Keys(m))\<close>: the keys of the map an association list denotes,
  each once, ascending.
\<close>

definition sortedKeys :: "(gostring \<times> 'a) list \<Rightarrow> gostring list" where
  "sortedKeys m = sort (remdups (map fst m))"

lemma set_sortedKeys [simp]: "set (sortedKeys m) = fst ` set m"
  by (simp add: sortedKeys_def)

lemma sortedKeys_lookup: "k \<in> set (sortedKeys m) \<longleftrightarrow> map_of m k \<noteq> None"
  by (simp add: map_of_eq_None_iff)

lemma sorted_sortedKeys [simp]: "sorted (sortedKeys m)" "distinct (sortedKeys m)"
  by (simp_all add: sortedKeys_def)

text \<open>An appending update of one key: Go's \<^verbatim>\<open>m[k] = v\<close>.\<close>

lemma map_of_update [simp]: "map_of (AList.update k v m) = (map_of m)(k \<mapsto> v)"
  by (rule update_conv')

end
