(* ===== verification/Pieces.thy ===== *)
theory Pieces imports Prelude begin

text \<open>
  The generic piece algebra of \<^verbatim>\<open>internal/galaxy/solver/verset.go\<close>: sets of points of a
  totally ordered line as sorted lists of half-open runs. The operations are translated
  over an arbitrary comparison function, as the Go generics are; the locale \<open>subline\<close>
  states what a comparison function must satisfy, and inside it each operation is proved
  to compute its set operation on canonical lists and to keep them canonical. The two
  sublines the program uses are interpreted in \<open>VerSet\<close>.
\<close>

section \<open>Runs and the operations on them\<close>

text \<open>
  \<^verbatim>\<open>piece[B]\<close>. The pair \<^verbatim>\<open>(hi, hiInf)\<close> is the one field \<open>p_hi\<close>: \<open>None\<close> stands for
  \<^verbatim>\<open>hiInf = true\<close>, where \<^verbatim>\<open>hi\<close> is meaningless and never read.
\<close>

record 'b piece =
  p_lo :: 'b
  p_hi :: "'b option"

definition mkPiece :: "'b \<Rightarrow> 'b option \<Rightarrow> 'b piece" where
  "mkPiece l h = \<lparr> p_lo = l, p_hi = h \<rparr>"

lemma mkPiece_sel [simp]: "p_lo (mkPiece l h) = l" "p_hi (mkPiece l h) = h"
  by (simp_all add: mkPiece_def)

definition minHi :: "('b \<Rightarrow> 'b \<Rightarrow> int) \<Rightarrow> 'b piece \<Rightarrow> 'b piece \<Rightarrow> 'b option" where
  "minHi cmp a b =
     (case p_hi a of
        None \<Rightarrow> p_hi b
      | Some ha \<Rightarrow> (case p_hi b of
            None \<Rightarrow> Some ha
          | Some hb \<Rightarrow> if cmp ha hb \<le> 0 then Some ha else Some hb))"

definition advanceFirst :: "('b \<Rightarrow> 'b \<Rightarrow> int) \<Rightarrow> 'b piece \<Rightarrow> 'b piece \<Rightarrow> bool" where
  "advanceFirst cmp a b =
     (case p_hi a of
        None \<Rightarrow> False
      | Some ha \<Rightarrow> (case p_hi b of None \<Rightarrow> True | Some hb \<Rightarrow> cmp ha hb \<le> 0))"

definition maxLo :: "('b \<Rightarrow> 'b \<Rightarrow> int) \<Rightarrow> 'b piece \<Rightarrow> 'b piece \<Rightarrow> 'b" where
  "maxLo cmp a b = (if 0 < cmp (p_lo b) (p_lo a) then p_lo b else p_lo a)"

text \<open>The test \<^verbatim>\<open>hiInf || cmp(lo, hi) < 0\<close>: the run from \<open>lo\<close> to \<open>hi\<close> is not empty.\<close>

definition runNonempty :: "('b \<Rightarrow> 'b \<Rightarrow> int) \<Rightarrow> 'b \<Rightarrow> 'b option \<Rightarrow> bool" where
  "runNonempty cmp l h = (case h of None \<Rightarrow> True | Some h' \<Rightarrow> cmp l h' < 0)"

text \<open>The sweep over two lists; the two list arguments are \<^verbatim>\<open>a[i:]\<close> and \<^verbatim>\<open>b[j:]\<close>.\<close>

fun intersectPieces :: "('b \<Rightarrow> 'b \<Rightarrow> int) \<Rightarrow> 'b piece list \<Rightarrow> 'b piece list \<Rightarrow> 'b piece list" where
  "intersectPieces cmp [] bs = []"
| "intersectPieces cmp (a # as) [] = []"
| "intersectPieces cmp (a # as) (b # bs) =
     (if runNonempty cmp (maxLo cmp a b) (minHi cmp a b)
      then [mkPiece (maxLo cmp a b) (minHi cmp a b)] else []) @
     (if p_hi a = None \<and> p_hi b = None then []
      else if advanceFirst cmp a b then intersectPieces cmp as (b # bs)
      else intersectPieces cmp (a # as) bs)"

text \<open>The loop of \<^verbatim>\<open>complementPieces\<close>, with \<^verbatim>\<open>cur\<close> as an argument.\<close>

fun complementFrom :: "('b \<Rightarrow> 'b \<Rightarrow> int) \<Rightarrow> 'b \<Rightarrow> 'b piece list \<Rightarrow> 'b piece list" where
  "complementFrom cmp cur [] = [mkPiece cur None]"
| "complementFrom cmp cur (p # ps) =
     (if cmp cur (p_lo p) < 0 then [mkPiece cur (Some (p_lo p))] else []) @
     (case p_hi p of None \<Rightarrow> [] | Some h \<Rightarrow> complementFrom cmp h ps)"

definition complementPieces :: "('b \<Rightarrow> 'b \<Rightarrow> int) \<Rightarrow> 'b \<Rightarrow> 'b piece list \<Rightarrow> 'b piece list" where
  "complementPieces cmp minB a = complementFrom cmp minB a"

definition unionPieces :: "('b \<Rightarrow> 'b \<Rightarrow> int) \<Rightarrow> 'b \<Rightarrow> 'b piece list \<Rightarrow> 'b piece list \<Rightarrow> 'b piece list" where
  "unionPieces cmp minB a b =
     complementPieces cmp minB
       (intersectPieces cmp (complementPieces cmp minB a) (complementPieces cmp minB b))"

text \<open>The inner loop of \<^verbatim>\<open>subsetPieces\<close> skips the runs of \<open>b\<close> that end at or before \<open>pa.lo\<close>.\<close>

definition endsBefore :: "('b \<Rightarrow> 'b \<Rightarrow> int) \<Rightarrow> 'b \<Rightarrow> 'b piece \<Rightarrow> bool" where
  "endsBefore cmp x q = (case p_hi q of None \<Rightarrow> False | Some h \<Rightarrow> cmp h x \<le> 0)"

fun subsetPieces :: "('b \<Rightarrow> 'b \<Rightarrow> int) \<Rightarrow> 'b piece list \<Rightarrow> 'b piece list \<Rightarrow> bool" where
  "subsetPieces cmp [] b = True"
| "subsetPieces cmp (pa # as) b =
     (case dropWhile (endsBefore cmp (p_lo pa)) b of
        [] \<Rightarrow> False
      | q # qs \<Rightarrow>
          if 0 < cmp (p_lo q) (p_lo pa) then False
          else (case p_hi q of
                  None \<Rightarrow> subsetPieces cmp as (q # qs)
                | Some hq \<Rightarrow>
                    (case p_hi pa of
                       None \<Rightarrow> False
                     | Some hp \<Rightarrow> if 0 < cmp hp hq then False else subsetPieces cmp as (q # qs))))"

fun disjointPieces :: "('b \<Rightarrow> 'b \<Rightarrow> int) \<Rightarrow> 'b piece list \<Rightarrow> 'b piece list \<Rightarrow> bool" where
  "disjointPieces cmp [] bs = True"
| "disjointPieces cmp (a # as) [] = True"
| "disjointPieces cmp (a # as) (b # bs) =
     (if runNonempty cmp (maxLo cmp a b) (minHi cmp a b) then False
      else if p_hi a = None \<and> p_hi b = None then True
      else if advanceFirst cmp a b then disjointPieces cmp as (b # bs)
      else disjointPieces cmp (a # as) bs)"

definition equalPiece :: "('b \<Rightarrow> 'b \<Rightarrow> int) \<Rightarrow> 'b piece \<Rightarrow> 'b piece \<Rightarrow> bool" where
  "equalPiece cmp a b =
     (cmp (p_lo a) (p_lo b) = 0 \<and>
      (case p_hi a of
         None \<Rightarrow> p_hi b = None
       | Some ha \<Rightarrow> (case p_hi b of None \<Rightarrow> False | Some hb \<Rightarrow> cmp ha hb = 0)))"

definition equalPieces :: "('b \<Rightarrow> 'b \<Rightarrow> int) \<Rightarrow> 'b piece list \<Rightarrow> 'b piece list \<Rightarrow> bool" where
  "equalPieces cmp a b = list_all2 (equalPiece cmp) a b"

fun containsPoint :: "('b \<Rightarrow> 'b \<Rightarrow> int) \<Rightarrow> 'b piece list \<Rightarrow> 'b \<Rightarrow> bool" where
  "containsPoint cmp [] x = False"
| "containsPoint cmp (p # ps) x =
     (if cmp x (p_lo p) < 0 then False
      else (case p_hi p of
              None \<Rightarrow> True
            | Some h \<Rightarrow> if cmp x h < 0 then True else containsPoint cmp ps x))"

section \<open>Canonical lists\<close>

text \<open>
  The invariant the source states for every stored list: each run nonempty, the runs
  ascending, disjoint and not abutting; and every bound a point of the subline.
\<close>

definition runBefore :: "('b \<Rightarrow> 'b \<Rightarrow> int) \<Rightarrow> 'b piece \<Rightarrow> 'b piece \<Rightarrow> bool" where
  "runBefore cmp p q = (case p_hi p of None \<Rightarrow> False | Some h \<Rightarrow> cmp h (p_lo q) < 0)"

definition canonical :: "('b \<Rightarrow> 'b \<Rightarrow> int) \<Rightarrow> 'b piece list \<Rightarrow> bool" where
  "canonical cmp ps \<longleftrightarrow>
     (\<forall>p \<in> set ps. runNonempty cmp (p_lo p) (p_hi p)) \<and> sorted_wrt (runBefore cmp) ps"

definition boundsIn :: "('b \<Rightarrow> bool) \<Rightarrow> 'b piece list \<Rightarrow> bool" where
  "boundsIn D ps \<longleftrightarrow> (\<forall>p \<in> set ps. D (p_lo p) \<and> (\<forall>h. p_hi p = Some h \<longrightarrow> D h))"

text \<open>Membership of a point in one run.\<close>

definition inRun :: "('b \<Rightarrow> 'b \<Rightarrow> int) \<Rightarrow> 'b \<Rightarrow> 'b piece \<Rightarrow> bool" where
  "inRun cmp x p \<longleftrightarrow> cmp (p_lo p) x \<le> 0 \<and> (\<forall>h. p_hi p = Some h \<longrightarrow> cmp x h < 0)"

lemma canonical_Nil [simp]: "canonical cmp []"
  by (simp add: canonical_def)

lemma canonical_Cons:
  "canonical cmp (p # ps) \<longleftrightarrow>
     runNonempty cmp (p_lo p) (p_hi p) \<and> (\<forall>q \<in> set ps. runBefore cmp p q) \<and> canonical cmp ps"
  by (auto simp: canonical_def)

lemma boundsIn_simps [simp]:
  "boundsIn D []"
  "boundsIn D (p # ps) \<longleftrightarrow> D (p_lo p) \<and> (\<forall>h. p_hi p = Some h \<longrightarrow> D h) \<and> boundsIn D ps"
  "boundsIn D (ps @ qs) \<longleftrightarrow> boundsIn D ps \<and> boundsIn D qs"
  by (auto simp: boundsIn_def)

section \<open>What a subline is, and correctness of the algebra on it\<close>

text \<open>
  A comparison function that is a total preorder, a set of points and a minimum. The
  laws are those of the release order and of semver precedence on prereleases.
\<close>

locale subline =
  fixes cmp :: "'b \<Rightarrow> 'b \<Rightarrow> int" and D :: "'b \<Rightarrow> bool" and minB :: 'b
  assumes flip: "cmp x y < 0 \<longleftrightarrow> 0 < cmp y x"
    and trans: "cmp x y \<le> 0 \<Longrightarrow> cmp y z \<le> 0 \<Longrightarrow> cmp x z \<le> 0"
    and least: "D x \<Longrightarrow> cmp minB x \<le> 0"
    and minB_in: "D minB"
begin

lemma not_less: "\<not> cmp x y < 0 \<longleftrightarrow> cmp y x \<le> 0"
  by (simp add: flip not_less)

lemma less_flip: "0 < cmp x y \<longleftrightarrow> cmp y x < 0"
  by (simp add: flip)

lemma not_le: "\<not> cmp x y \<le> 0 \<longleftrightarrow> cmp y x < 0"
  using flip [of y x] by linarith

lemma nonneg_iff: "0 \<le> cmp x y \<longleftrightarrow> cmp y x \<le> 0"
  using flip [of x y] flip [of y x] by linarith

lemma less_not_le: "cmp x y < 0 \<Longrightarrow> cmp y x \<le> 0 \<Longrightarrow> R"
  using not_less [of x y] by blast

lemma refl: "cmp x x = 0"
  using flip [of x x] by linarith

lemma less_le_trans: "cmp x y < 0 \<Longrightarrow> cmp y z \<le> 0 \<Longrightarrow> cmp x z < 0"
  by (meson not_less trans)

lemma le_less_trans: "cmp x y \<le> 0 \<Longrightarrow> cmp y z < 0 \<Longrightarrow> cmp x z < 0"
  by (meson not_less trans)

lemma less_trans: "cmp x y < 0 \<Longrightarrow> cmp y z < 0 \<Longrightarrow> cmp x z < 0"
  using less_le_trans [of x y z] by simp

lemma eq_iff: "cmp x y = 0 \<longleftrightarrow> cmp x y \<le> 0 \<and> cmp y x \<le> 0"
  using flip [of x y] flip [of y x] by linarith

lemma le_cases: "cmp x y \<le> 0 \<or> cmp y x \<le> 0"
  using not_less [of x y] by linarith

lemmas order_facts = less_le_trans le_less_trans less_trans trans

lemma runBefore_trans:
  "runBefore cmp p q \<Longrightarrow> runNonempty cmp (p_lo q) (p_hi q) \<Longrightarrow> runBefore cmp q r \<Longrightarrow> runBefore cmp p r"
  by (auto simp: runBefore_def runNonempty_def split: option.splits intro: less_trans)

text \<open>A point of a later run is past the end of an earlier one.\<close>

lemma runBefore_not_in:
  "runBefore cmp p q \<Longrightarrow> cmp (p_lo q) x \<le> 0 \<Longrightarrow> \<not> inRun cmp x p"
  by (auto simp: runBefore_def inRun_def not_less split: option.splits)
    (meson less_imp_le less_le_trans not_less)

lemma containsPoint_iff:
  "canonical cmp ps \<Longrightarrow> containsPoint cmp ps x \<longleftrightarrow> (\<exists>p \<in> set ps. inRun cmp x p)"
proof (induction ps)
  case Nil
  then show ?case by simp
next
  case (Cons p ps)
  from Cons.prems have can: "canonical cmp ps" and ne: "runNonempty cmp (p_lo p) (p_hi p)"
    and bef: "\<forall>q \<in> set ps. runBefore cmp p q"
    by (auto simp: canonical_Cons)
  have later: "cmp x (p_lo q) < 0" if lt: "cmp x (p_lo p) < 0" and q: "q \<in> set ps" for q
  proof -
    obtain h where "p_hi p = Some h" "cmp h (p_lo q) < 0"
      using bef q by (auto simp: runBefore_def split: option.splits)
    with ne lt show ?thesis
      by (auto simp: runNonempty_def intro: less_trans)
  qed
  show ?case
  proof (cases "cmp x (p_lo p) < 0")
    case True
    then have "\<not> inRun cmp x p" by (simp add: inRun_def less_flip [symmetric])
    moreover have "\<not> inRun cmp x q" if "q \<in> set ps" for q
      using later [OF True that] by (simp add: inRun_def less_flip [symmetric])
    ultimately show ?thesis using True by simp
  next
    case False
    show ?thesis
    proof (cases "inRun cmp x p")
      case True
      with False show ?thesis by (auto simp: inRun_def split: option.splits)
    next
      case out: False
      with False obtain h where "p_hi p = Some h" and "\<not> cmp x h < 0"
        by (auto simp: inRun_def not_less)
      with False out Cons.IH [OF can] show ?thesis by simp
    qed
  qed
qed

lemma inRun_bounds:
  "inRun cmp x (mkPiece (maxLo cmp a b) (minHi cmp a b)) \<longleftrightarrow> inRun cmp x a \<and> inRun cmp x b"
  by (auto simp: inRun_def maxLo_def minHi_def less_flip not_less split: option.splits if_splits)
    (metis less_imp_le not_less order_facts)+

lemma inRun_nonempty: "inRun cmp x (mkPiece l h) \<Longrightarrow> runNonempty cmp l h"
  by (auto simp: inRun_def runNonempty_def split: option.splits intro: le_less_trans)

subsection \<open>Intersection\<close>

lemma intersect_elems:
  "r \<in> set (intersectPieces cmp as bs) \<Longrightarrow>
     \<exists>a \<in> set as. \<exists>b \<in> set bs. r = mkPiece (maxLo cmp a b) (minHi cmp a b) \<and>
       runNonempty cmp (p_lo r) (p_hi r)"
  by (induction cmp as bs rule: intersectPieces.induct) (auto split: if_splits)

text \<open>The run with the smaller end meets no later run of the other list.\<close>

lemma advance_disjoint:
  assumes "advanceFirst cmp a b" and "runBefore cmp b b'"
  shows "\<not> (inRun cmp x a \<and> inRun cmp x b')"
proof
  assume in2: "inRun cmp x a \<and> inRun cmp x b'"
  obtain ha hb where h: "p_hi a = Some ha" "p_hi b = Some hb" "cmp ha hb \<le> 0" "cmp hb (p_lo b') < 0"
    using assms by (auto simp: advanceFirst_def runBefore_def split: option.splits)
  with in2 have "cmp x ha < 0" "cmp (p_lo b') x \<le> 0" by (auto simp: inRun_def)
  with h show False by (meson less_not_le le_less_trans less_le_trans less_imp_le)
qed

lemma not_advance_disjoint:
  assumes "\<not> advanceFirst cmp a b" and "\<not> (p_hi a = None \<and> p_hi b = None)" and "runBefore cmp a a'"
  shows "\<not> (inRun cmp x a' \<and> inRun cmp x b)"
proof
  assume in2: "inRun cmp x a' \<and> inRun cmp x b"
  obtain ha where ha: "p_hi a = Some ha" "cmp ha (p_lo a') < 0"
    using assms(3) by (auto simp: runBefore_def split: option.splits)
  with assms obtain hb where hb: "p_hi b = Some hb" "cmp hb ha < 0"
    by (auto simp: advanceFirst_def not_le split: option.splits)
  with in2 ha have "cmp x hb < 0" "cmp (p_lo a') x \<le> 0" by (auto simp: inRun_def)
  with ha hb show False by (meson less_not_le less_trans less_le_trans less_imp_le)
qed

lemma both_infinite_disjoint:
  "p_hi a = None \<Longrightarrow> runBefore cmp a a' \<Longrightarrow> R"
  by (simp add: runBefore_def)

lemma intersect_sem:
  "canonical cmp as \<Longrightarrow> canonical cmp bs \<Longrightarrow>
     (\<exists>r \<in> set (intersectPieces cmp as bs). inRun cmp x r) \<longleftrightarrow>
     (\<exists>a \<in> set as. inRun cmp x a) \<and> (\<exists>b \<in> set bs. inRun cmp x b)"
proof (induction as bs rule: sweep_induct)
  case (Cons a as b bs)
  note can = Cons.prems[unfolded canonical_Cons]
  have hd: "(\<exists>r \<in> set (if runNonempty cmp (maxLo cmp a b) (minHi cmp a b)
      then [mkPiece (maxLo cmp a b) (minHi cmp a b)] else []). inRun cmp x r) \<longleftrightarrow>
      inRun cmp x a \<and> inRun cmp x b"
    using inRun_bounds [of x a b] inRun_nonempty by (auto split: if_splits)
  consider (inf) "p_hi a = None" "p_hi b = None"
    | (fst) "\<not> (p_hi a = None \<and> p_hi b = None)" "advanceFirst cmp a b"
    | (snd) "\<not> (p_hi a = None \<and> p_hi b = None)" "\<not> advanceFirst cmp a b"
    by (cases "p_hi a = None \<and> p_hi b = None"; cases "advanceFirst cmp a b") auto
  then show ?case
  proof cases
    case inf
    with can have "as = []" "bs = []"
      by (cases as; cases bs; auto simp: runBefore_def)+
    with inf hd show ?thesis by simp
  next
    case fst
    have "\<not> (inRun cmp x a \<and> inRun cmp x b')" if "b' \<in> set bs" for b'
      using can that advance_disjoint [OF fst(2)] by blast
    with fst hd Cons.IH(1) can show ?thesis
      by (auto simp: canonical_Cons simp del: split_paired_Ex)
  next
    case snd
    have "\<not> (inRun cmp x a' \<and> inRun cmp x b)" if "a' \<in> set as" for a'
      using can that not_advance_disjoint [OF snd(2) snd(1)] by auto
    with snd hd Cons.IH(2) can show ?thesis
      by (auto simp: canonical_Cons)
  qed
qed auto

lemma intersect_after:
  assumes "r \<in> set (intersectPieces cmp as bs)"
  shows "\<exists>a \<in> set as. \<exists>b \<in> set bs. cmp (p_lo a) (p_lo r) \<le> 0 \<and> cmp (p_lo b) (p_lo r) \<le> 0"
proof -
  from intersect_elems [OF assms] obtain a b where "a \<in> set as" "b \<in> set bs"
    and "r = mkPiece (maxLo cmp a b) (minHi cmp a b)" by blast
  then show ?thesis
    by (intro bexI [of _ a] bexI [of _ b]) (auto simp: maxLo_def refl not_less less_flip)
qed

lemma canonical_intersect [wf_intros]:
  "canonical cmp as \<Longrightarrow> canonical cmp bs \<Longrightarrow> canonical cmp (intersectPieces cmp as bs)"
proof (induction as bs rule: sweep_induct)
  case (Cons a as b bs)
  note can = Cons.prems[unfolded canonical_Cons]
  let ?r = "mkPiece (maxLo cmp a b) (minHi cmp a b)"
  have bef: "runBefore cmp ?r r"
    if "runBefore cmp a c \<and> advanceFirst cmp a b \<or> runBefore cmp b c \<and> \<not> advanceFirst cmp a b"
      and le: "cmp (p_lo c) (p_lo r) \<le> 0" for r c
    using that by (auto simp: runBefore_def minHi_def advanceFirst_def not_le
        split: option.splits if_splits intro: less_le_trans elim: less_not_le)
  show ?case
  proof (cases "p_hi a = None \<and> p_hi b = None")
    case True
    then show ?thesis by (simp add: canonical_Cons)
  next
    case False
    show ?thesis
    proof (cases "advanceFirst cmp a b")
      case True
      have "runBefore cmp ?r r" if "r \<in> set (intersectPieces cmp as (b # bs))" for r
        using intersect_after [OF that] can True bef by blast
      with True False Cons.IH(1) can show ?thesis by (auto simp: canonical_Cons)
    next
      case adv: False
      have "runBefore cmp ?r r" if "r \<in> set (intersectPieces cmp (a # as) bs)" for r
        using intersect_after [OF that] can adv bef by blast
      with adv False Cons.IH(2) can show ?thesis by (auto simp: canonical_Cons)
    qed
  qed
qed auto

lemma boundsIn_intersect [wf_intros]:
  "boundsIn D as \<Longrightarrow> boundsIn D bs \<Longrightarrow> boundsIn D (intersectPieces cmp as bs)"
  unfolding boundsIn_def
proof (intro ballI)
  fix r
  assume D: "\<forall>p \<in> set as. D (p_lo p) \<and> (\<forall>h. p_hi p = Some h \<longrightarrow> D h)"
    "\<forall>p \<in> set bs. D (p_lo p) \<and> (\<forall>h. p_hi p = Some h \<longrightarrow> D h)"
    and "r \<in> set (intersectPieces cmp as bs)"
  from intersect_elems [OF this(3)] obtain a b where "a \<in> set as" "b \<in> set bs"
    "r = mkPiece (maxLo cmp a b) (minHi cmp a b)" by blast
  with D show "D (p_lo r) \<and> (\<forall>h. p_hi r = Some h \<longrightarrow> D h)"
    by (auto simp: maxLo_def minHi_def split: option.splits if_splits)
qed

subsection \<open>Complement and union\<close>

lemma complement_after:
  "canonical cmp ps \<Longrightarrow> \<forall>p \<in> set ps. cmp cur (p_lo p) \<le> 0 \<Longrightarrow>
     r \<in> set (complementFrom cmp cur ps) \<Longrightarrow> cmp cur (p_lo r) \<le> 0"
proof (induction ps arbitrary: cur)
  case Nil
  then show ?case by (simp add: refl)
next
  case (Cons p ps)
  show ?case
  proof (cases "p_hi p")
    case None
    with Cons.prems show ?thesis by (auto simp: refl split: if_splits)
  next
    case (Some h)
    with Cons.prems have lt: "cmp (p_lo p) h < 0" and nx: "\<forall>q \<in> set ps. cmp h (p_lo q) \<le> 0"
      by (auto simp: canonical_Cons runNonempty_def runBefore_def less_imp_le)
    with Cons.prems have "cmp cur h \<le> 0"
      by (meson less_imp_le list.set_intros(1) trans)
    moreover have "cmp h (p_lo r) \<le> 0" if "r \<in> set (complementFrom cmp h ps)"
      using Cons.IH [OF _ nx that] Cons.prems(1) by (simp add: canonical_Cons)
    ultimately show ?thesis
      using Cons.prems(3) Some by (auto simp: refl split: if_splits intro: trans)
  qed
qed

lemma complementFrom_sem:
  "canonical cmp ps \<Longrightarrow> \<forall>p \<in> set ps. cmp cur (p_lo p) \<le> 0 \<Longrightarrow> cmp cur x \<le> 0 \<Longrightarrow>
     (\<exists>r \<in> set (complementFrom cmp cur ps). inRun cmp x r) \<longleftrightarrow> \<not> (\<exists>p \<in> set ps. inRun cmp x p)"
proof (induction ps arbitrary: cur)
  case Nil
  then show ?case by (simp add: inRun_def)
next
  case (Cons p ps)
  have can: "canonical cmp ps" using Cons.prems(1) by (simp add: canonical_Cons)
  have hd: "(\<exists>r \<in> set (if cmp cur (p_lo p) < 0 then [mkPiece cur (Some (p_lo p))] else []). inRun cmp x r)
      \<longleftrightarrow> cmp x (p_lo p) < 0"
    using Cons.prems(3) by (auto simp: inRun_def intro: le_less_trans)
  show ?case
  proof (cases "p_hi p")
    case None
    with Cons.prems(1) have "ps = []"
      by (cases ps) (auto simp: canonical_Cons runBefore_def)
    with None hd show ?thesis by (auto simp: inRun_def not_le)
  next
    case (Some h)
    with Cons.prems(1) have lt: "cmp (p_lo p) h < 0" and nx: "\<forall>q \<in> set ps. cmp h (p_lo q) < 0"
      by (auto simp: canonical_Cons runNonempty_def runBefore_def)
    then have nx': "\<forall>q \<in> set ps. cmp h (p_lo q) \<le> 0" by (simp add: less_imp_le)
    show ?thesis
    proof (cases "cmp h x \<le> 0")
      case True
      with lt have "\<not> cmp x (p_lo p) < 0" and "\<not> inRun cmp x p"
        using Some by (auto simp: inRun_def not_less intro: less_imp_le less_le_trans elim: less_not_le)
      with Cons.IH [OF can nx' True] hd Some show ?thesis by auto
    next
      case False
      have "\<not> inRun cmp x r" if "r \<in> set (complementFrom cmp h ps)" for r
        using complement_after [OF can nx' that] False by (auto simp: inRun_def intro: trans)
      moreover have "\<not> inRun cmp x q" if "q \<in> set ps" for q
        using nx' that False trans [of h "p_lo q" x] by (auto simp: inRun_def)
      moreover have "inRun cmp x p \<longleftrightarrow> \<not> cmp x (p_lo p) < 0"
        using False Some by (auto simp: inRun_def not_le not_less)
      ultimately show ?thesis using hd Some by auto
    qed
  qed
qed

lemma canonical_complementFrom:
  "canonical cmp ps \<Longrightarrow> \<forall>p \<in> set ps. cmp cur (p_lo p) \<le> 0 \<Longrightarrow> canonical cmp (complementFrom cmp cur ps)"
proof (induction ps arbitrary: cur)
  case Nil
  then show ?case by (simp add: canonical_Cons runNonempty_def)
next
  case (Cons p ps)
  have can: "canonical cmp ps" using Cons.prems(1) by (simp add: canonical_Cons)
  show ?case
  proof (cases "p_hi p")
    case None
    then show ?thesis by (simp add: canonical_Cons runNonempty_def)
  next
    case (Some h)
    with Cons.prems(1) have lt: "cmp (p_lo p) h < 0" and nx: "\<forall>q \<in> set ps. cmp h (p_lo q) \<le> 0"
      by (auto simp: canonical_Cons runNonempty_def runBefore_def less_imp_le)
    have "cmp (p_lo p) (p_lo r) < 0" if "r \<in> set (complementFrom cmp h ps)" for r
      using complement_after [OF can nx that] lt by (rule less_le_trans [rotated])
    with Cons.IH [OF can nx] Some show ?thesis
      by (auto simp: canonical_Cons runNonempty_def runBefore_def)
  qed
qed

lemma boundsIn_complementFrom:
  "boundsIn D ps \<Longrightarrow> D cur \<Longrightarrow> boundsIn D (complementFrom cmp cur ps)"
  by (induction ps arbitrary: cur) (auto split: option.splits)

lemma complement_least:
  "boundsIn D ps \<Longrightarrow> \<forall>p \<in> set ps. cmp minB (p_lo p) \<le> 0"
  by (auto simp: boundsIn_def intro: least)

lemma complement_sem:
  "canonical cmp ps \<Longrightarrow> boundsIn D ps \<Longrightarrow> D x \<Longrightarrow>
     (\<exists>r \<in> set (complementPieces cmp minB ps). inRun cmp x r) \<longleftrightarrow> \<not> (\<exists>p \<in> set ps. inRun cmp x p)"
  unfolding complementPieces_def
  by (rule complementFrom_sem) (auto dest: complement_least intro: least)

lemma canonical_complement [wf_intros]:
  "canonical cmp ps \<Longrightarrow> boundsIn D ps \<Longrightarrow> canonical cmp (complementPieces cmp minB ps)"
  unfolding complementPieces_def by (rule canonical_complementFrom) (auto dest: complement_least)

lemma boundsIn_complement [wf_intros]:
  "boundsIn D ps \<Longrightarrow> boundsIn D (complementPieces cmp minB ps)"
  unfolding complementPieces_def by (simp add: boundsIn_complementFrom minB_in)

lemma canonical_union [wf_intros]:
  "canonical cmp as \<Longrightarrow> boundsIn D as \<Longrightarrow> canonical cmp bs \<Longrightarrow> boundsIn D bs \<Longrightarrow>
     canonical cmp (unionPieces cmp minB as bs)"
  unfolding unionPieces_def by (intro wf_intros)

lemma boundsIn_union [wf_intros]:
  "boundsIn D as \<Longrightarrow> boundsIn D bs \<Longrightarrow> boundsIn D (unionPieces cmp minB as bs)"
  unfolding unionPieces_def by (intro wf_intros)

text \<open>The three operations, read through \<^verbatim>\<open>containsPoint\<close>.\<close>

lemma contains_intersect:
  "canonical cmp as \<Longrightarrow> canonical cmp bs \<Longrightarrow>
     containsPoint cmp (intersectPieces cmp as bs) x \<longleftrightarrow> containsPoint cmp as x \<and> containsPoint cmp bs x"
  by (simp add: containsPoint_iff intersect_sem wf_intros)

lemma contains_complement:
  "canonical cmp ps \<Longrightarrow> boundsIn D ps \<Longrightarrow> D x \<Longrightarrow>
     containsPoint cmp (complementPieces cmp minB ps) x \<longleftrightarrow> \<not> containsPoint cmp ps x"
  using complement_sem by (simp add: containsPoint_iff wf_intros)

lemma contains_union:
  "canonical cmp as \<Longrightarrow> boundsIn D as \<Longrightarrow> canonical cmp bs \<Longrightarrow> boundsIn D bs \<Longrightarrow> D x \<Longrightarrow>
     containsPoint cmp (unionPieces cmp minB as bs) x \<longleftrightarrow> containsPoint cmp as x \<or> containsPoint cmp bs x"
  unfolding unionPieces_def
  by (simp add: contains_complement contains_intersect wf_intros)

subsection \<open>Comparing sets\<close>

lemma lo_in_run: "canonical cmp ps \<Longrightarrow> p \<in> set ps \<Longrightarrow> inRun cmp (p_lo p) p"
  by (auto simp: canonical_def runNonempty_def inRun_def refl split: option.splits)

lemma lo_contained: "canonical cmp ps \<Longrightarrow> p \<in> set ps \<Longrightarrow> containsPoint cmp ps (p_lo p)"
  using lo_in_run by (auto simp: containsPoint_iff)

lemma nonempty_has_point:
  "canonical cmp ps \<Longrightarrow> boundsIn D ps \<Longrightarrow> ps \<noteq> [] \<Longrightarrow> \<exists>x. D x \<and> containsPoint cmp ps x"
  using lo_contained [of ps "hd ps"] by (cases ps) (auto simp del: containsPoint.simps)

lemma disjointPieces_intersect:
  "disjointPieces cmp as bs \<longleftrightarrow> intersectPieces cmp as bs = []"
  by (induction cmp as bs rule: disjointPieces.induct) auto

lemma disjointPieces_iff:
  assumes "canonical cmp as" "boundsIn D as" "canonical cmp bs" "boundsIn D bs"
  shows "disjointPieces cmp as bs \<longleftrightarrow> \<not> (\<exists>x. D x \<and> containsPoint cmp as x \<and> containsPoint cmp bs x)"
proof -
  have "canonical cmp (intersectPieces cmp as bs)" "boundsIn D (intersectPieces cmp as bs)"
    using assms by (auto intro: wf_intros)
  then have "intersectPieces cmp as bs \<noteq> [] \<longleftrightarrow>
      (\<exists>x. D x \<and> containsPoint cmp (intersectPieces cmp as bs) x)"
    using nonempty_has_point by force
  with assms show ?thesis
    by (auto simp: disjointPieces_intersect contains_intersect)
qed

text \<open>
  The subset test: sound and complete, because every bound is a point. The list that the
  inner loop has skipped ends before every later run of \<open>a\<close>.
\<close>

lemma endsBefore_not_in: "endsBefore cmp l q \<Longrightarrow> cmp l x \<le> 0 \<Longrightarrow> \<not> inRun cmp x q"
  by (auto simp: endsBefore_def inRun_def split: option.splits) (meson less_not_le trans)

lemma canonical_dropWhile: "canonical cmp ps \<Longrightarrow> canonical cmp (dropWhile P ps)"
  by (induction ps) (auto simp: canonical_Cons)

lemma boundsIn_dropWhile: "boundsIn D ps \<Longrightarrow> boundsIn D (dropWhile P ps)"
  by (induction ps) auto

lemma dropWhile_endsBefore_mem:
  "cmp l x \<le> 0 \<Longrightarrow>
     (\<exists>q \<in> set (dropWhile (endsBefore cmp l) bs). inRun cmp x q) \<longleftrightarrow> (\<exists>q \<in> set bs. inRun cmp x q)"
  by (induction bs) (auto dest: endsBefore_not_in)

lemma canonical_lo_le:
  "canonical cmp (p # ps) \<Longrightarrow> q \<in> set ps \<Longrightarrow> cmp (p_lo p) (p_lo q) \<le> 0"
  by (auto simp: canonical_Cons runBefore_def runNonempty_def split: option.splits)
    (meson less_imp_le less_trans)

lemma subsetPieces_sound:
  "canonical cmp as \<Longrightarrow> canonical cmp bs \<Longrightarrow> subsetPieces cmp as bs \<Longrightarrow>
     a \<in> set as \<Longrightarrow> inRun cmp x a \<Longrightarrow> \<exists>b \<in> set bs. inRun cmp x b"
proof (induction as arbitrary: bs)
  case Nil
  then show ?case by simp
next
  case (Cons p as)
  from Cons.prems(3) obtain q qs where dw: "dropWhile (endsBefore cmp (p_lo p)) bs = q # qs"
    and lo: "cmp (p_lo q) (p_lo p) \<le> 0"
    by (auto split: list.splits if_splits simp: less_flip not_less)
  have can: "canonical cmp (q # qs)" using Cons.prems(2) canonical_dropWhile by (metis dw)
  have rest: "subsetPieces cmp as (q # qs)"
    and hi: "\<And>hq. p_hi q = Some hq \<Longrightarrow> \<exists>hp. p_hi p = Some hp \<and> cmp hp hq \<le> 0"
    using Cons.prems(3) dw by (auto split: option.splits if_splits simp: less_flip not_less)
  have "cmp (p_lo p) x \<le> 0"
  proof (cases "a = p")
    case True
    with Cons.prems show ?thesis by (simp add: inRun_def)
  next
    case False
    with Cons.prems have "cmp (p_lo p) (p_lo a) \<le> 0" by (auto intro: canonical_lo_le)
    with Cons.prems(5) show ?thesis by (auto simp: inRun_def intro: trans)
  qed
  note bk = dropWhile_endsBefore_mem [OF this, of bs, unfolded dw]
  show ?case
  proof (cases "a = p")
    case True
    have "inRun cmp x q"
      unfolding inRun_def
    proof (intro conjI allI impI)
      show "cmp (p_lo q) x \<le> 0" using lo \<open>cmp (p_lo p) x \<le> 0\<close> by (rule trans)
      fix hq assume "p_hi q = Some hq"
      with hi Cons.prems(5) True show "cmp x hq < 0"
        by (auto simp: inRun_def intro: less_le_trans)
    qed
    with bk show ?thesis by auto
  next
    case False
    with Cons.IH [OF _ can rest] Cons.prems bk show ?thesis by (auto simp: canonical_Cons)
  qed
qed

lemma subsetPieces_complete:
  "canonical cmp as \<Longrightarrow> boundsIn D as \<Longrightarrow> canonical cmp bs \<Longrightarrow> boundsIn D bs \<Longrightarrow>
     (\<And>a x. a \<in> set as \<Longrightarrow> inRun cmp x a \<Longrightarrow> D x \<Longrightarrow> \<exists>b \<in> set bs. inRun cmp x b) \<Longrightarrow> subsetPieces cmp as bs"
proof (induction as arbitrary: bs)
  case Nil
  then show ?case by simp
next
  case (Cons p as)
  let ?dw = "dropWhile (endsBefore cmp (p_lo p)) bs"
  have mem: "\<exists>b \<in> set ?dw. inRun cmp x b" if "a \<in> set (p # as)" "inRun cmp x a" "D x" for a x
  proof -
    have "cmp (p_lo p) (p_lo a) \<le> 0"
      using that(1) Cons.prems(1) by (auto simp: refl intro: canonical_lo_le)
    then have "cmp (p_lo p) x \<le> 0" using that(2) by (auto simp: inRun_def intro: trans)
    with Cons.prems(5) [OF that] show ?thesis by (simp add: dropWhile_endsBefore_mem)
  qed
  have Dlo: "D (p_lo p)" using Cons.prems(2) by simp
  have plo: "inRun cmp (p_lo p) p" using Cons.prems(1) lo_in_run by simp
  from mem [OF _ plo Dlo] obtain q qs where dw: "?dw = q # qs" by (cases ?dw) auto
  have can: "canonical cmp (q # qs)" "boundsIn D (q # qs)"
    using Cons.prems(3,4) canonical_dropWhile boundsIn_dropWhile by (metis dw)+
  have inq: "inRun cmp (p_lo p) q"
  proof -
    obtain b where b: "b \<in> set (q # qs)" "inRun cmp (p_lo p) b"
      using mem [OF _ plo Dlo] dw by auto
    have "\<not> endsBefore cmp (p_lo p) q" using dw by (rule dropWhile_Cons_holds)
    then have "\<not> runBefore cmp q b"
      using b(2) by (auto simp: endsBefore_def inRun_def not_le runBefore_def split: option.splits
          intro: less_le_trans elim: less_not_le dest: less_trans)
    with b can(1) show ?thesis by (auto simp: canonical_Cons)
  qed
  have hi: "\<exists>hp. p_hi p = Some hp \<and> cmp hp hq \<le> 0" if hq: "p_hi q = Some hq" for hq
  proof (rule ccontr)
    assume no: "\<nexists>hp. p_hi p = Some hp \<and> cmp hp hq \<le> 0"
    have "cmp (p_lo p) hq < 0" using inq hq by (simp add: inRun_def)
    then have "inRun cmp hq p" using no by (auto simp: inRun_def not_le intro: less_imp_le)
    moreover have "D hq" using can(2) hq by simp
    ultimately obtain b where b: "b \<in> set (q # qs)" "inRun cmp hq b"
      using mem dw by fastforce
    with hq can(1) show False
      by (auto simp: inRun_def refl canonical_Cons runBefore_def elim: less_not_le)
  qed
  have "subsetPieces cmp as (q # qs)"
    using Cons.prems(1,2) can mem dw by (intro Cons.IH) (auto simp: canonical_Cons)
  with hi inq show ?case
    by (auto simp: dw inRun_def less_flip not_less split: option.splits elim: less_not_le)
qed

lemma subsetPieces_iff:
  assumes "canonical cmp as" "boundsIn D as" "canonical cmp bs" "boundsIn D bs"
  shows "subsetPieces cmp as bs \<longleftrightarrow> (\<forall>x. D x \<longrightarrow> containsPoint cmp as x \<longrightarrow> containsPoint cmp bs x)"
  using subsetPieces_sound [OF assms(1,3)] subsetPieces_complete [OF assms]
  unfolding containsPoint_iff [OF assms(1)] containsPoint_iff [OF assms(3)] by blast

lemma equalPiece_in: "equalPiece cmp a b \<Longrightarrow> inRun cmp x a \<Longrightarrow> inRun cmp x b"
  by (auto simp: equalPiece_def inRun_def eq_iff split: option.splits intro: trans less_le_trans)

lemma equalPiece_sym: "equalPiece cmp a b \<Longrightarrow> equalPiece cmp b a"
  by (auto simp: equalPiece_def eq_iff split: option.splits)

lemma equalPieces_sym: "equalPieces cmp as bs \<Longrightarrow> equalPieces cmp bs as"
  unfolding equalPieces_def by (auto simp: list_all2_conv_all_nth intro: equalPiece_sym)

lemma equalPiece_refl: "equalPiece cmp a a"
  by (simp add: equalPiece_def refl split: option.split)

lemma equalPieces_refl: "equalPieces cmp as as"
  by (simp add: equalPieces_def list.rel_refl equalPiece_refl)

lemma equalPieces_contains:
  assumes "equalPieces cmp as bs" "canonical cmp as" "canonical cmp bs"
  shows "containsPoint cmp as x \<longleftrightarrow> containsPoint cmp bs x"
proof -
  have "\<exists>b \<in> set bs. inRun cmp x b" if "equalPieces cmp as bs" "\<exists>a \<in> set as. inRun cmp x a" for as bs
    using that unfolding equalPieces_def
    by (induction rule: list_all2_induct) (auto dest: equalPiece_in)
  with assms equalPieces_sym show ?thesis by (simp add: containsPoint_iff) blast
qed

text \<open>
  Canonical lists with the same points are structurally equal up to precedence: the first
  runs start at the least point, and end at the first point left out.
\<close>

lemma first_run_lo:
  assumes "canonical cmp (p # ps)" "inRun cmp x q" "q \<in> set (p # ps)"
  shows "cmp (p_lo p) x \<le> 0"
  using assms by (auto simp: inRun_def intro: trans canonical_lo_le)

lemma first_run_end_out:
  assumes "canonical cmp (p # ps)" "p_hi p = Some h"
  shows "\<not> (\<exists>q \<in> set (p # ps). inRun cmp h q)"
  using assms by (auto simp: inRun_def refl canonical_Cons runBefore_def elim: less_not_le)

lemma canonical_unique:
  "canonical cmp as \<Longrightarrow> boundsIn D as \<Longrightarrow> canonical cmp bs \<Longrightarrow> boundsIn D bs \<Longrightarrow>
     (\<And>x. D x \<Longrightarrow> (\<exists>a \<in> set as. inRun cmp x a) \<longleftrightarrow> (\<exists>b \<in> set bs. inRun cmp x b)) \<Longrightarrow> equalPieces cmp as bs"
proof (induction as arbitrary: bs)
  case Nil
  have "bs = []"
  proof (rule ccontr)
    assume "bs \<noteq> []"
    then obtain b where "b \<in> set bs" by (cases bs) auto
    with Nil.prems lo_in_run [of bs b] show False by (auto simp: boundsIn_def)
  qed
  then show ?case by (simp add: equalPieces_def)
next
  case (Cons a as)
  have la: "inRun cmp (p_lo a) a" "D (p_lo a)" using Cons.prems lo_in_run by auto
  then obtain b bs' where bs: "bs = b # bs'" using Cons.prems(5) [of "p_lo a"] by (cases bs) auto
  have lb: "inRun cmp (p_lo b) b" "D (p_lo b)" using Cons.prems bs lo_in_run by auto
  have lo: "cmp (p_lo a) (p_lo b) = 0"
    unfolding eq_iff
  proof
    show "cmp (p_lo a) (p_lo b) \<le> 0"
      using lb Cons.prems(5) [OF lb(2)] first_run_lo [OF Cons.prems(1)] by (auto simp: bs)
    show "cmp (p_lo b) (p_lo a) \<le> 0"
      using la Cons.prems(5) [OF la(2)] first_run_lo [of b bs'] Cons.prems(3) by (auto simp: bs)
  qed
  have end1: "\<exists>h'. p_hi q = Some h' \<and> cmp h' h \<le> 0"
    if "canonical cmp (p # ps)" "p_hi p = Some h" "D h" "cmp (p_lo q) (p_lo p) \<le> 0"
      "\<And>x. D x \<Longrightarrow> inRun cmp x q \<Longrightarrow> \<exists>p' \<in> set (p # ps). inRun cmp x p'" for p q ps h
  proof (rule ccontr)
    assume no: "\<nexists>h'. p_hi q = Some h' \<and> cmp h' h \<le> 0"
    have "cmp (p_lo p) h \<le> 0"
      using that(1,2) by (auto simp: canonical_Cons runNonempty_def)
    with no that(4) have "inRun cmp h q" by (auto simp: inRun_def not_le intro: trans)
    with that first_run_end_out show False by blast
  qed
  have hi: "case p_hi a of None \<Rightarrow> p_hi b = None
      | Some ha \<Rightarrow> (case p_hi b of None \<Rightarrow> False | Some hb \<Rightarrow> cmp ha hb = 0)"
  proof -
    have ab: "\<exists>h'. p_hi b = Some h' \<and> cmp h' h \<le> 0" if "p_hi a = Some h" for h
      using end1 [OF Cons.prems(1) that, of b] that Cons.prems(2,5) lo bs by (auto simp: eq_iff)
    have ba: "\<exists>h'. p_hi a = Some h' \<and> cmp h' h \<le> 0" if "p_hi b = Some h" for h
      using end1 [of b bs' h a] that Cons.prems(3,4,5) lo bs by (auto simp: eq_iff)
    from ab ba show ?thesis by (auto simp: eq_iff split: option.splits) fastforce+
  qed
  then have eq: "equalPiece cmp a b" using lo by (simp add: equalPiece_def)
  have "equalPieces cmp as bs'"
  proof (rule Cons.IH)
    fix x assume "D x"
    have tl: "(\<exists>q \<in> set qs. inRun cmp x q) \<longleftrightarrow> (\<exists>q \<in> set (p # qs). inRun cmp x q) \<and> \<not> inRun cmp x p"
      if "canonical cmp (p # qs)" for p qs
      using that runBefore_not_in [of p _ x] by (auto simp: canonical_Cons inRun_def)
    have "inRun cmp x a \<longleftrightarrow> inRun cmp x b" using eq equalPiece_sym equalPiece_in by blast
    moreover have "canonical cmp (b # bs')" using Cons.prems(3) bs by simp
    ultimately show "(\<exists>a \<in> set as. inRun cmp x a) \<longleftrightarrow> (\<exists>b \<in> set bs'. inRun cmp x b)"
      using tl [OF Cons.prems(1)] tl [of b bs'] Cons.prems(5) [OF \<open>D x\<close>] bs by simp
  qed (use Cons.prems bs in \<open>auto simp: canonical_Cons\<close>)
  with eq show ?case by (simp add: equalPieces_def bs)
qed

lemma equalPieces_iff:
  assumes "canonical cmp as" "boundsIn D as" "canonical cmp bs" "boundsIn D bs"
  shows "equalPieces cmp as bs \<longleftrightarrow> (\<forall>x. D x \<longrightarrow> containsPoint cmp as x = containsPoint cmp bs x)"
  using equalPieces_contains [OF _ assms(1,3)] canonical_unique [OF assms]
  by (auto simp: containsPoint_iff assms)

end

end
