(* ===== verification/GoStrings.thy ===== *)
theory GoStrings imports Prelude begin

text \<open>
  The functions of Go's \<open>strings\<close> and \<open>fmt\<close> packages that the program calls, on byte
  strings. \<open>TrimSpace\<close> trims the UTF-8 encodings of the runes Go's \<open>unicode.IsSpace\<close>
  accepts, so it is exact on arbitrary bytes; the other functions are bytewise in Go too.
\<close>

section \<open>Searching\<close>

definition hasPrefix :: "gostring \<Rightarrow> gostring \<Rightarrow> bool" where
  "hasPrefix s p \<longleftrightarrow> prefix p s"

definition hasSuffix :: "gostring \<Rightarrow> gostring \<Rightarrow> bool" where
  "hasSuffix s p \<longleftrightarrow> suffix p s"

fun indexStr :: "gostring \<Rightarrow> gostring \<Rightarrow> nat option" where
  "indexStr [] p = (if p = [] then Some 0 else None)"
| "indexStr (c # cs) p = (if prefix p (c # cs) then Some 0 else map_option Suc (indexStr cs p))"

definition containsStr :: "gostring \<Rightarrow> gostring \<Rightarrow> bool" where
  "containsStr s p \<longleftrightarrow> indexStr s p \<noteq> None"

definition trimPrefix :: "gostring \<Rightarrow> gostring \<Rightarrow> gostring" where
  "trimPrefix s p = (if prefix p s then drop (length p) s else s)"

text \<open>\<^verbatim>\<open>strings.CutSuffix\<close>: the value and whether the suffix was there.\<close>

definition cutSuffix :: "gostring \<Rightarrow> gostring \<Rightarrow> gostring \<times> bool" where
  "cutSuffix s p = (if suffix p s then (take (length s - length p) s, True) else (s, False))"

text \<open>\<^verbatim>\<open>strings.Replace(s, old, new, 1)\<close>, with a non-empty \<open>old\<close>.\<close>

definition replaceFirst :: "gostring \<Rightarrow> gostring \<Rightarrow> gostring \<Rightarrow> gostring" where
  "replaceFirst s old new =
     (case indexStr s old of
        None \<Rightarrow> s
      | Some i \<Rightarrow> take i s @ new @ drop (i + length old) s)"

section \<open>Splitting and joining\<close>

text \<open>\<^verbatim>\<open>strings.Split(s, sep)\<close> with a non-empty separator; \<open>acc\<close> is the current field, reversed.\<close>

function splitAux :: "gostring \<Rightarrow> gostring \<Rightarrow> gostring \<Rightarrow> gostring list" where
  "splitAux sep acc [] = [rev acc]"
| "splitAux sep acc (c # cs) =
     (if prefix sep (c # cs) then rev acc # splitAux sep [] (drop (length sep - 1) cs)
      else splitAux sep (c # acc) cs)"
  by pat_completeness auto
termination
  by (relation "measure (\<lambda>(sep, acc, s). length s)") auto

definition splitStr :: "gostring \<Rightarrow> gostring \<Rightarrow> gostring list" where
  "splitStr s sep = splitAux sep [] s"

fun joinStr :: "gostring list \<Rightarrow> gostring \<Rightarrow> gostring" where
  "joinStr [] sep = []"
| "joinStr [x] sep = x"
| "joinStr (x # y # ys) sep = x @ sep @ joinStr (y # ys) sep"

lemma splitAux_nonempty [simp]: "splitAux sep acc s \<noteq> []"
  by (induction sep acc s rule: splitAux.induct) auto

lemma splitStr_nonempty [simp]: "splitStr s sep \<noteq> []"
  by (simp add: splitStr_def)

lemma joinStr_Cons: "ys \<noteq> [] \<Longrightarrow> joinStr (x # ys) sep = x @ sep @ joinStr ys sep"
  by (cases ys) auto

lemma joinStr_splitAux: "sep \<noteq> [] \<Longrightarrow> joinStr (splitAux sep acc s) sep = rev acc @ s"
proof (induction sep acc s rule: splitAux.induct)
  case (1 sep acc)
  then show ?case by simp
next
  case (2 sep acc c cs)
  show ?case
  proof (cases "prefix sep (c # cs)")
    case True
    then obtain zs where zs: "c # cs = sep @ zs" by (auto elim: prefixE)
    with "2.prems" have drp: "drop (length sep - 1) cs = zs"
      by (cases sep) auto
    have "joinStr (splitAux sep acc (c # cs)) sep = rev acc @ sep @ zs"
      using True "2.IH"(1) [OF True "2.prems"] by (simp add: joinStr_Cons drp [simplified])
    with zs show ?thesis by simp
  next
    case False
    with 2 show ?thesis by simp
  qed
qed

lemma joinStr_splitStr: "sep \<noteq> [] \<Longrightarrow> joinStr (splitStr s sep) sep = s"
  by (simp add: splitStr_def joinStr_splitAux)

text \<open>A single-byte separator does not occur in a field.\<close>

lemma splitAux_char_free:
  "sep \<notin> set acc \<Longrightarrow> x \<in> set (splitAux [sep] acc s) \<Longrightarrow> sep \<notin> set x"
proof (induction "[sep]" acc s arbitrary: x rule: splitAux.induct)
  case (1 acc)
  then show ?case by simp
next
  case (2 acc c cs)
  then show ?case by (auto split: if_splits)
qed

lemma splitStr_char_free: "x \<in> set (splitStr s [sep]) \<Longrightarrow> sep \<notin> set x"
  by (auto simp: splitStr_def dest: splitAux_char_free [rotated])

lemma splitAux_char_append:
  "sep \<notin> set x \<Longrightarrow> splitAux [sep] acc (x @ sep # s) = (rev acc @ x) # splitAux [sep] [] s"
  by (induction x arbitrary: acc) auto

lemma splitAux_char_last: "sep \<notin> set x \<Longrightarrow> splitAux [sep] acc x = [rev acc @ x]"
  by (induction x arbitrary: acc) auto

lemma splitStr_joinStr:
  "xs \<noteq> [] \<Longrightarrow> \<forall>x \<in> set xs. sep \<notin> set x \<Longrightarrow> splitStr (joinStr xs [sep]) [sep] = xs"
  unfolding splitStr_def
proof (induction xs)
  case Nil
  then show ?case by simp
next
  case (Cons x xs)
  then show ?case
    by (cases xs) (simp_all add: splitAux_char_append splitAux_char_last)
qed

text \<open>The bytes of a split or joined string.\<close>

lemma set_joinStr: "c \<in> set (joinStr xs sep) \<Longrightarrow> c \<in> set sep \<or> (\<exists>x \<in> set xs. c \<in> set x)"
  by (induction xs sep rule: joinStr.induct) auto

lemma set_splitStr: "sep \<noteq> [] \<Longrightarrow> c \<in> set s \<Longrightarrow> c \<in> set sep \<or> (\<exists>x \<in> set (splitStr s sep). c \<in> set x)"
  using set_joinStr [of c "splitStr s sep" sep] by (simp add: joinStr_splitStr)

section \<open>Trimming white space\<close>

text \<open>The UTF-8 encodings of the runes for which \<open>unicode.IsSpace\<close> holds.\<close>

definition goSpaces :: "gostring list" where
  "goSpaces = map (map char_of)
     ([[9], [10], [11], [12], [13], [32], [194, 133], [194, 160 :: nat],
       [225, 154, 128], [226, 128, 168], [226, 128, 169], [226, 128, 175],
       [226, 129, 159], [227, 128, 128]] @ map (\<lambda>k. [226, 128, 128 + k]) [0..<11])"

function trimLeftOf :: "gostring list \<Rightarrow> gostring \<Rightarrow> gostring" where
  "trimLeftOf ws s =
     (case find (\<lambda>w. w \<noteq> [] \<and> prefix w s) ws of
        None \<Rightarrow> s
      | Some w \<Rightarrow> trimLeftOf ws (drop (length w) s))"
  by pat_completeness auto
termination
proof (relation "measure (\<lambda>(ws, s). length s)", goal_cases)
  case 1
  show ?case by simp
next
  case (2 ws s w)
  then have "w \<noteq> [] \<and> prefix w s" by (auto dest: find_SomeD)
  then show ?case by (auto elim: prefixE)
qed

declare trimLeftOf.simps [simp del]

definition trimSpace :: "gostring \<Rightarrow> gostring" where
  "trimSpace s = rev (trimLeftOf (map rev goSpaces) (rev (trimLeftOf goSpaces s)))"

lemma trimLeftOf_suffix: "suffix (trimLeftOf ws s) s"
proof (induction ws s rule: trimLeftOf.induct)
  case (1 ws s)
  show ?case
  proof (cases "find (\<lambda>w. w \<noteq> [] \<and> prefix w s) ws")
    case None
    then show ?thesis by (simp add: trimLeftOf.simps [of ws s])
  next
    case (Some w)
    with 1 have "suffix (trimLeftOf ws (drop (length w) s)) (drop (length w) s)" by blast
    with Some show ?thesis
      by (simp add: trimLeftOf.simps [of ws s]) (meson suffix_drop suffix_order.trans)
  qed
qed

lemma trimLeftOf_stop: "w \<in> set ws \<Longrightarrow> w \<noteq> [] \<Longrightarrow> \<not> prefix w (trimLeftOf ws s)"
proof (induction ws s rule: trimLeftOf.induct)
  case (1 ws s)
  show ?case
  proof (cases "find (\<lambda>w. w \<noteq> [] \<and> prefix w s) ws")
    case None
    then have "trimLeftOf ws s = s" by (simp add: trimLeftOf.simps [of ws s])
    with None "1.prems" show ?thesis by (auto simp: find_None_iff_all)
  next
    case (Some v)
    with 1 show ?thesis by (simp add: trimLeftOf.simps [of ws s])
  qed
qed

lemma trimLeftOf_bytes: "c \<in> set s \<Longrightarrow> c \<in> set (trimLeftOf ws s) \<or> (\<exists>w \<in> set ws. c \<in> set w)"
proof (induction ws s rule: trimLeftOf.induct)
  case (1 ws s)
  show ?case
  proof (cases "find (\<lambda>w. w \<noteq> [] \<and> prefix w s) ws")
    case None
    with 1(2) show ?thesis by (simp add: trimLeftOf.simps [of ws s])
  next
    case (Some w)
    then have w: "w \<in> set ws" "prefix w s" by (auto dest: find_SomeD)
    from w(2) have "s = w @ drop (length w) s" by (auto elim: prefixE)
    with 1(2) have "c \<in> set w \<or> c \<in> set (drop (length w) s)" by (metis Un_iff set_append)
    with 1(1) [OF Some] w(1) Some show ?thesis by (auto simp: trimLeftOf.simps [of ws s])
  qed
qed

text \<open>Trimming removes bytes of white space only.\<close>

lemma trimSpace_bytes: "c \<in> set s \<Longrightarrow> c \<in> set (trimSpace s) \<or> (\<exists>w \<in> set goSpaces. c \<in> set w)"
  using trimLeftOf_bytes [of c s goSpaces] trimLeftOf_bytes [of c "rev (trimLeftOf goSpaces s)" "List.map rev goSpaces"]
  by (auto simp: trimSpace_def)

text \<open>No white space of Go holds a printable ASCII byte.\<close>

lemma goSpaces_octets:
  "w \<in> set goSpaces \<Longrightarrow> c \<in> set w \<Longrightarrow> of_char c \<le> (32 :: nat) \<or> 128 \<le> (of_char c :: nat)"
  by (auto simp: goSpaces_def)

lemma goSpaces_nonempty: "w \<in> set goSpaces \<Longrightarrow> w \<noteq> []"
  by (auto simp: goSpaces_def)

lemma goSpaces_graphic:
  "33 \<le> (of_char c :: nat) \<Longrightarrow> of_char c \<le> (127 :: nat) \<Longrightarrow> \<forall>w \<in> set goSpaces. c \<notin> set w"
  using goSpaces_octets [of _ c] by fastforce

lemma trimLeftOf_id: "\<forall>w \<in> set ws. w = [] \<or> \<not> prefix w s \<Longrightarrow> trimLeftOf ws s = s"
  by (auto simp: trimLeftOf.simps [of ws s] find_None_iff_all split: option.splits dest!: find_SomeD)

section \<open>Formatting\<close>

definition digitChar :: "int \<Rightarrow> char" where
  "digitChar d = ''0123456789'' ! nat d"

text \<open>Decimal digits of a non-negative integer, over \<open>int\<close> so that they evaluate in binary.\<close>

function intDec :: "int \<Rightarrow> gostring" where
  "intDec n = (if n < 10 then [digitChar n] else intDec (n div 10) @ [digitChar (n mod 10)])"
  by pat_completeness auto
termination
  by (relation "measure nat") auto

declare intDec.simps [simp del]

text \<open>\<^verbatim>\<open>fmt.Sprintf("%d", n)\<close> for a \<^verbatim>\<open>uint64\<close> and for a non-negative \<^verbatim>\<open>int\<close>.\<close>

definition fmtU64 :: "u64 \<Rightarrow> gostring" where
  "fmtU64 w = intDec (uint w)"

definition fmtNat :: "nat \<Rightarrow> gostring" where
  "fmtNat n = intDec (int n)"

definition digits :: "char list" where
  "digits = ''0123456789''"

definition isDigit :: "char \<Rightarrow> bool" where
  "isDigit c \<longleftrightarrow> c \<in> set digits"

definition digitVal :: "char \<Rightarrow> int" where
  "digitVal c = of_char c - 48"

definition parseDec :: "gostring \<Rightarrow> int" where
  "parseDec s = foldl (\<lambda>n c. 10 * n + digitVal c) 0 s"

lemma digit_cases:
  "0 \<le> d \<Longrightarrow> d < 10 \<Longrightarrow> d \<in> {0, 1, 2, 3, 4, 5, 6, 7, 8, 9 :: int}"
  by simp presburger

lemma digitVal_digitChar: "0 \<le> d \<Longrightarrow> d < 10 \<Longrightarrow> digitVal (digitChar d) = d"
  by (drule (1) digit_cases) (auto simp: digitVal_def digitChar_def eval_nat_numeral)

lemma isDigit_digitChar: "0 \<le> d \<Longrightarrow> d < 10 \<Longrightarrow> isDigit (digitChar d)"
  by (drule (1) digit_cases) (auto simp: isDigit_def digits_def digitChar_def eval_nat_numeral)

lemma intDec_digits: "0 \<le> n \<Longrightarrow> \<forall>c \<in> set (intDec n). isDigit c"
proof (induction n rule: intDec.induct)
  case (1 n)
  then show ?case
    by (subst intDec.simps) (auto simp: isDigit_digitChar pos_imp_zdiv_nonneg_iff)
qed

lemma intDec_nonempty [simp]: "intDec n \<noteq> []"
  by (subst intDec.simps) simp

lemma parseDec_intDec: "0 \<le> n \<Longrightarrow> parseDec (intDec n) = n"
proof (induction n rule: intDec.induct)
  case (1 n)
  then show ?case
    by (subst intDec.simps) (auto simp: parseDec_def digitVal_digitChar pos_imp_zdiv_nonneg_iff)
qed

lemma fmtU64_inj: "fmtU64 v = fmtU64 w \<Longrightarrow> v = w"
  by (metis fmtU64_def parseDec_intDec uint_ge_0 word_uint_eq_iff)

lemma fmtU64_digits: "c \<in> set (fmtU64 w) \<Longrightarrow> isDigit c"
  using intDec_digits [of "uint w"] by (simp add: fmtU64_def)

end
