(* ===== verification/Semver.thy ===== *)
theory Semver imports GoStrings begin

text \<open>
  The interface of the one third-party library the solver computes with,
  \<^verbatim>\<open>github.com/Masterminds/semver/v3\<close>, whose source is not part of the repository.
  A value of type \<open>'v\<close> stands for a \<^verbatim>\<open>*semver.Version\<close>; the record \<open>semver\<close> holds the
  functions the solver calls on it, and every definition of the solver takes such a
  record. the locale \<open>semver_lib\<close> states the documented behaviour the proofs rely on: SemVer 2.0
  precedence (section 11 of the specification) and the accessors of a constructed
  version. The second half gives a concrete implementation of SemVer 2.0 precedence and
  proves that it satisfies the laws.
\<close>

section \<open>The interface\<close>

record 'v semver =
  sv_major :: "'v \<Rightarrow> u64"
  sv_minor :: "'v \<Rightarrow> u64"
  sv_patch :: "'v \<Rightarrow> u64"
  sv_prerelease :: "'v \<Rightarrow> gostring"
  sv_compare :: "'v \<Rightarrow> 'v \<Rightarrow> int"
  sv_new :: "u64 \<Rightarrow> u64 \<Rightarrow> u64 \<Rightarrow> gostring \<Rightarrow> gostring \<Rightarrow> 'v"
  sv_string :: "'v \<Rightarrow> gostring"
  sv_newVersion :: "gostring \<Rightarrow> (gostring, 'v) res"
  sv_newConstraint :: "gostring \<Rightarrow> (gostring, unit) res"

text \<open>The release triple, as a tuple in precedence order.\<close>

definition sv_triple :: "'v semver \<Rightarrow> 'v \<Rightarrow> u64 \<times> u64 \<times> u64" where
  "sv_triple S v = (sv_major S v, sv_minor S v, sv_patch S v)"

text \<open>
  The laws. \<open>Compare\<close> is a total preorder; it decides by the triple first; a release
  ranks above every prerelease of its triple; build metadata does not count (two versions
  with one triple and one prerelease string are equal in precedence); the prerelease
  \<open>"0"\<close> is the lowest of its triple; and appending \<open>".0"\<close> to a prerelease gives its
  immediate successor. The constructor \<open>New\<close> stores what it is given.
\<close>

locale semver_lib =
  fixes S :: "'v semver"
  assumes cmp_refl: "sv_compare S v v = 0"
    and cmp_flip: "sv_compare S v w < 0 \<longleftrightarrow> 0 < sv_compare S w v"
    and cmp_trans: "sv_compare S u v \<le> 0 \<Longrightarrow> sv_compare S v w \<le> 0 \<Longrightarrow> sv_compare S u w \<le> 0"
    and cmp_triple: "sv_triple S v < sv_triple S w \<Longrightarrow> sv_compare S v w < 0"
    and cmp_release: "sv_triple S v = sv_triple S w \<Longrightarrow> sv_prerelease S v \<noteq> [] \<Longrightarrow>
          sv_prerelease S w = [] \<Longrightarrow> sv_compare S v w < 0"
    and cmp_metadata: "sv_triple S v = sv_triple S w \<Longrightarrow> sv_prerelease S v = sv_prerelease S w \<Longrightarrow>
          sv_compare S v w = 0"
    and cmp_floor: "sv_triple S v = sv_triple S w \<Longrightarrow> sv_prerelease S v = ''0'' \<Longrightarrow>
          sv_prerelease S w \<noteq> [] \<Longrightarrow> sv_compare S v w \<le> 0"
    and cmp_succ: "sv_triple S v = sv_triple S s \<Longrightarrow> sv_prerelease S v \<noteq> [] \<Longrightarrow>
          sv_prerelease S s = sv_prerelease S v @ ''.0'' \<Longrightarrow> sv_compare S v s < 0"
    and cmp_succ_least: "sv_triple S v = sv_triple S s \<Longrightarrow> sv_triple S v = sv_triple S w \<Longrightarrow>
          sv_prerelease S v \<noteq> [] \<Longrightarrow> sv_prerelease S w \<noteq> [] \<Longrightarrow>
          sv_prerelease S s = sv_prerelease S v @ ''.0'' \<Longrightarrow>
          sv_compare S v w < 0 \<Longrightarrow> sv_compare S s w \<le> 0"
    and new_accessors: "sv_major S (sv_new S a b c p m) = a" "sv_minor S (sv_new S a b c p m) = b"
          "sv_patch S (sv_new S a b c p m) = c" "sv_prerelease S (sv_new S a b c p m) = p"
begin

declare cmp_refl [simp] new_accessors [simp]

lemma new_triple [simp]: "sv_triple S (sv_new S a b c p m) = (a, b, c)"
  by (simp add: sv_triple_def)

lemma triple_le_of_cmp: "sv_compare S v w \<le> 0 \<Longrightarrow> sv_triple S v \<le> sv_triple S w"
  using cmp_triple [of w v] cmp_flip [of w v] by (meson leI not_le)

lemma cmp_eq_sym: "sv_compare S v w = 0 \<Longrightarrow> sv_compare S w v = 0"
  by (metis cmp_flip less_irrefl not_less_iff_gr_or_eq)

text \<open>Equal precedence means one triple and prereleases on both sides or on neither.\<close>

lemma cmp_eq_triple: "sv_compare S v w = 0 \<Longrightarrow> sv_triple S v = sv_triple S w"
  using triple_le_of_cmp [of v w] triple_le_of_cmp [of w v] cmp_eq_sym by simp

lemma cmp_eq_release: "sv_compare S v w = 0 \<Longrightarrow> sv_prerelease S v = [] \<longleftrightarrow> sv_prerelease S w = []"
  by (metis cmp_eq_sym cmp_eq_triple cmp_release less_irrefl)

end

section \<open>SemVer 2.0, concretely\<close>

datatype version20 =
  Version20 (v20_major: u64) (v20_minor: u64) (v20_patch: u64) (v20_pre: gostring) (v20_meta: gostring)

text \<open>
  The precedence key of one dot-separated identifier: numeric identifiers by value and
  below all others, which compare in ASCII order.
\<close>

definition identKey :: "gostring \<Rightarrow> nat \<times> int \<times> gostring" where
  "identKey s = (if s \<noteq> [] \<and> (\<forall>c \<in> set s. isDigit c) then (0, parseDec s, []) else (1, 0, s))"

definition preKey :: "gostring \<Rightarrow> (nat \<times> int \<times> gostring) list" where
  "preKey p = map identKey (splitStr p ''.'')"

definition key20 :: "version20 \<Rightarrow> (u64 \<times> u64 \<times> u64) \<times> nat \<times> (nat \<times> int \<times> gostring) list" where
  "key20 v = ((v20_major v, v20_minor v, v20_patch v),
              (if v20_pre v = [] then (1, []) else (0, preKey (v20_pre v))))"

definition compare20 :: "version20 \<Rightarrow> version20 \<Rightarrow> int" where
  "compare20 v w = (if key20 v < key20 w then -1 else if key20 w < key20 v then 1 else 0)"

text \<open>\<^verbatim>\<open>MAJOR[.MINOR[.PATCH]][-PRE][+META]\<close> after an optional \<^verbatim>\<open>v\<close>.\<close>

definition cut :: "gostring \<Rightarrow> char \<Rightarrow> gostring \<times> gostring \<times> bool" where
  "cut s c = (takeWhile (\<lambda>d. d \<noteq> c) s, drop 1 (dropWhile (\<lambda>d. d \<noteq> c) s), c \<in> set s)"

definition isNum20 :: "gostring \<Rightarrow> bool" where
  "isNum20 s \<longleftrightarrow> s \<noteq> [] \<and> (\<forall>c \<in> set s. isDigit c) \<and> parseDec s < 2 ^ 64"

definition isIdents20 :: "gostring \<Rightarrow> bool" where
  "isIdents20 s \<longleftrightarrow> (\<forall>i \<in> set (splitStr s ''.''). i \<noteq> [] \<and>
     (\<forall>c \<in> set i. c \<in> set ''0123456789ABCDEFGHIJKLMNOPQRSTUVWXYZabcdefghijklmnopqrstuvwxyz-''))"

definition newVersion20 :: "gostring \<Rightarrow> (gostring, version20) res" where
  "newVersion20 raw =
     (let (body, meta, hasMeta) = cut (trimPrefix raw ''v'') CHR ''+'';
          (core, pre, hasPre) = cut body CHR ''-'';
          segs = splitStr core ''.'';
          num = (\<lambda>i. if i < length segs then of_int (parseDec (segs ! i)) else 0)
      in if length segs \<le> 3 \<and> (\<forall>s \<in> set segs. isNum20 s) \<and>
            (hasPre \<longrightarrow> isIdents20 pre) \<and> (hasMeta \<longrightarrow> isIdents20 meta)
         then Inr (Version20 (num 0) (num 1) (num 2) pre meta)
         else Inl ''invalid semantic version'')"

definition string20 :: "version20 \<Rightarrow> gostring" where
  "string20 v = fmtU64 (v20_major v) @ ''.'' @ fmtU64 (v20_minor v) @ ''.'' @ fmtU64 (v20_patch v) @
     (if v20_pre v = [] then [] else ''-'' @ v20_pre v) @
     (if v20_meta v = [] then [] else ''+'' @ v20_meta v)"

text \<open>
  \<open>C\<close> decides which constraint expressions parse: the grammar is a parameter, since the
  solver reads it only as a yes or no.
\<close>

definition semver20 :: "(gostring \<Rightarrow> bool) \<Rightarrow> version20 semver" where
  "semver20 C = \<lparr> sv_major = v20_major, sv_minor = v20_minor, sv_patch = v20_patch,
     sv_prerelease = v20_pre, sv_compare = compare20, sv_new = Version20, sv_string = string20,
     sv_newVersion = newVersion20,
     sv_newConstraint = (\<lambda>s. if C s then Inr () else Inl ''improper constraint'') \<rparr>"

lemma semver20_simps [simp]:
  "sv_major (semver20 C) = v20_major" "sv_minor (semver20 C) = v20_minor"
  "sv_patch (semver20 C) = v20_patch" "sv_prerelease (semver20 C) = v20_pre"
  "sv_compare (semver20 C) = compare20" "sv_new (semver20 C) = Version20"
  "sv_string (semver20 C) = string20" "sv_newVersion (semver20 C) = newVersion20"
  "sv_newConstraint (semver20 C) = (\<lambda>s. if C s then Inr () else Inl ''improper constraint'')"
  by (simp_all add: semver20_def)

lemma identKey_zero: "identKey ''0'' = (0, 0, [])"
  by (simp add: identKey_def isDigit_def digits_def parseDec_def digitVal_def)

lemma digitVal_nonneg: "isDigit c \<Longrightarrow> 0 \<le> digitVal c"
  by (auto simp: isDigit_def digits_def digitVal_def)

lemma foldl_digits_nonneg:
  "\<forall>c \<in> set s. isDigit c \<Longrightarrow> 0 \<le> n \<Longrightarrow> 0 \<le> foldl (\<lambda>n c. 10 * n + digitVal c) n s"
  by (induction s arbitrary: n) (auto simp: digitVal_nonneg)

lemma parseDec_nonneg: "\<forall>c \<in> set s. isDigit c \<Longrightarrow> 0 \<le> parseDec s"
  by (simp add: parseDec_def foldl_digits_nonneg)

lemma identKey_zero_le: "identKey ''0'' \<le> identKey s"
  by (simp add: identKey_zero) (simp add: identKey_def less_eq_prod_def parseDec_nonneg)

lemma preKey_nonempty [simp]: "preKey p \<noteq> []"
  by (simp add: preKey_def)

lemma splitAux_append_zero:
  "splitAux ''.'' acc (p @ ''.0'') = splitAux ''.'' acc p @ [''0'']"
  by (induction "''.''" acc p rule: splitAux.induct) auto

lemma preKey_succ: "preKey (p @ ''.0'') = preKey p @ [identKey ''0'']"
  by (simp add: preKey_def splitStr_def splitAux_append_zero)

lemma preKey_zero: "preKey ''0'' = [identKey ''0'']"
  by (simp add: preKey_def splitStr_def)

lemma list_less_snoc: "(xs :: 'a :: order list) < xs @ [y]"
  by (induction xs) simp_all

lemma identKey_zero_least: "z \<in> set (preKey p) \<Longrightarrow> identKey ''0'' \<le> z"
  using identKey_zero_le by (auto simp: preKey_def)

lemma list_snoc_least:
  fixes xs ys :: "'a :: linorder list"
  shows "\<forall>z \<in> set ys. y \<le> z \<Longrightarrow> xs < ys \<Longrightarrow> xs @ [y] \<le> ys"
proof (induction xs arbitrary: ys)
  case Nil
  then obtain z zs where "ys = z # zs" by (cases ys) auto
  with Nil show ?case by auto
next
  case (Cons x xs)
  then show ?case by (cases ys) auto
qed

lemma compare20_neg: "compare20 v w < 0 \<longleftrightarrow> key20 v < key20 w"
  by (auto simp: compare20_def)

lemma compare20_pos: "0 < compare20 v w \<longleftrightarrow> key20 w < key20 v"
  by (auto simp: compare20_def)

lemma compare20_le: "compare20 v w \<le> 0 \<longleftrightarrow> key20 v \<le> key20 w"
  by (auto simp: compare20_def)

lemma compare20_eq: "compare20 v w = 0 \<longleftrightarrow> key20 v = key20 w"
  by (auto simp: compare20_def)

lemmas compare20_iffs = compare20_neg compare20_pos compare20_le compare20_eq

lemma key20_less_triple: "sv_triple (semver20 C) v < sv_triple (semver20 C) w \<Longrightarrow> key20 v < key20 w"
  by (simp add: key20_def sv_triple_def)

interpretation semver20: semver_lib "semver20 C" for C
proof (unfold_locales, goal_cases)
  case (1 v)
  show ?case by (simp add: compare20_def)
next
  case (2 v w)
  show ?case by (simp add: compare20_iffs)
next
  case (3 u v w)
  then show ?case by (simp add: compare20_iffs)
next
  case (4 v w)
  then show ?case by (simp add: compare20_iffs key20_less_triple)
next
  case (5 v w)
  then show ?case by (simp add: compare20_iffs key20_def sv_triple_def)
next
  case (6 v w)
  then show ?case by (simp add: compare20_iffs key20_def sv_triple_def)
next
  case (8 v s)
  then show ?case
    by (simp add: compare20_iffs key20_def sv_triple_def less_prod_def preKey_succ list_less_snoc)
next
  case (9 v s w)
  then have "preKey (v20_pre v) < preKey (v20_pre w)"
    by (simp add: compare20_iffs key20_def sv_triple_def less_prod_def)
  then have "preKey (v20_pre v) @ [identKey ''0''] \<le> preKey (v20_pre w)"
    by (intro list_snoc_least) (auto intro: identKey_zero_least)
  with 9 show ?case
    by (simp add: compare20_iffs key20_def sv_triple_def less_eq_prod_def preKey_succ)
next
  case (7 v w)
  have "[] < preKey (v20_pre w)"
    by (cases "preKey (v20_pre w)") auto
  then have "[] @ [identKey ''0''] \<le> preKey (v20_pre w)"
    by (intro list_snoc_least) (auto intro: identKey_zero_least)
  with 7 show ?case
    by (simp add: compare20_iffs key20_def sv_triple_def preKey_zero)
qed simp_all

end
