(* ===== verification/VerSet.thy ===== *)
theory VerSet imports Pieces Semver begin

text \<open>
  \<^verbatim>\<open>internal/galaxy/solver/verset.go\<close> over the piece algebra, and the \<^verbatim>\<open>Version\<close> of
  \<^verbatim>\<open>provider.go\<close>: an exact set of versions is a pair of piece lists, one over release
  triples and one over prereleases. The theory interprets \<open>subline\<close> for both orders and
  proves that the set operations are the Boolean operations on membership, that the
  comparisons are exact, and what each bound and each piece constructor contains.
\<close>

section \<open>Versions and bounds\<close>

record 'v version =
  v_parsed :: 'v
  v_original :: gostring

definition newVersion :: "'v semver \<Rightarrow> gostring \<Rightarrow> (gostring, 'v version) res" where
  "newVersion S raw =
     (case sv_newVersion S raw of
        Inl err \<Rightarrow> Inl err
      | Inr parsed \<Rightarrow> Inr \<lparr> v_parsed = parsed, v_original = raw \<rparr>)"

text \<open>A version value is the parse of its own original string: \<^verbatim>\<open>NewVersion\<close> builds no other.\<close>

definition wellParsed :: "'v semver \<Rightarrow> 'v version \<Rightarrow> bool" where
  "wellParsed S v \<longleftrightarrow> newVersion S (v_original v) = Inr v"

datatype relBound = RelBound (rb_major: u64) (rb_minor: u64) (rb_patch: u64)

definition rb_triple :: "relBound \<Rightarrow> u64 \<times> u64 \<times> u64" where
  "rb_triple b = (rb_major b, rb_minor b, rb_patch b)"

lemma rb_triple_inj: "rb_triple a = rb_triple b \<longleftrightarrow> a = b"
  by (cases a; cases b) (simp add: rb_triple_def)

text \<open>The release order is lexicographic on the triple: a linear order of the library.\<close>

instantiation relBound :: linorder begin

definition less_eq_relBound :: "relBound \<Rightarrow> relBound \<Rightarrow> bool" where
  "less_eq_relBound a b \<longleftrightarrow> rb_triple a \<le> rb_triple b"

definition less_relBound :: "relBound \<Rightarrow> relBound \<Rightarrow> bool" where
  "less_relBound a b \<longleftrightarrow> rb_triple a < rb_triple b"

instance
  by standard (auto simp: less_eq_relBound_def less_relBound_def rb_triple_inj [symmetric])

end

definition cmpUint64 :: "u64 \<Rightarrow> u64 \<Rightarrow> int" where
  "cmpUint64 a b = (if a < b then -1 else if b < a then 1 else 0)"

definition cmpRel :: "relBound \<Rightarrow> relBound \<Rightarrow> int" where
  "cmpRel a b =
     (if rb_major a \<noteq> rb_major b then cmpUint64 (rb_major a) (rb_major b)
      else if rb_minor a \<noteq> rb_minor b then cmpUint64 (rb_minor a) (rb_minor b)
      else cmpUint64 (rb_patch a) (rb_patch b))"

lemma cmpRel_less: "cmpRel a b < 0 \<longleftrightarrow> a < b"
  by (auto simp: cmpRel_def cmpUint64_def less_relBound_def rb_triple_def less_prod_def)

lemma cmpRel_greater: "0 < cmpRel a b \<longleftrightarrow> b < a"
  by (auto simp: cmpRel_def cmpUint64_def less_relBound_def rb_triple_def less_prod_def)

lemma cmpRel_le: "cmpRel a b \<le> 0 \<longleftrightarrow> a \<le> b"
  by (metis cmpRel_greater not_le)

lemma cmpRel_eq: "cmpRel a b = 0 \<longleftrightarrow> a = b"
  using cmpRel_greater [of a b] cmpRel_less [of a b] by auto

lemma cmpRel_ge: "0 \<le> cmpRel a b \<longleftrightarrow> b \<le> a"
  using cmpRel_less [of a b] by (auto simp: not_less [symmetric])

lemmas cmpRel_iffs = cmpRel_less cmpRel_greater cmpRel_le cmpRel_ge cmpRel_eq

text \<open>The Go zero value \<^verbatim>\<open>relBound{}\<close>, the least bound.\<close>

definition relMin :: relBound where
  "relMin = RelBound 0 0 0"

lemma relMin_least [simp]: "relMin \<le> b"
  by (auto simp: relMin_def less_eq_relBound_def rb_triple_def less_eq_prod_def word_gt_0)

interpretation rel: subline cmpRel "\<lambda>_. True" relMin
  by unfold_locales (auto simp: cmpRel_iffs)

definition cmpPre :: "'v semver \<Rightarrow> 'v \<Rightarrow> 'v \<Rightarrow> int" where
  "cmpPre S a b = sv_compare S a b"

definition preMinBound :: "'v semver \<Rightarrow> 'v" where
  "preMinBound S = sv_new S 0 0 0 ''0'' []"

definition isPre :: "'v semver \<Rightarrow> 'v \<Rightarrow> bool" where
  "isPre S v \<longleftrightarrow> sv_prerelease S v \<noteq> []"

definition relOf :: "'v semver \<Rightarrow> 'v \<Rightarrow> relBound" where
  "relOf S v = RelBound (sv_major S v) (sv_minor S v) (sv_patch S v)"

lemma rb_triple_relOf [simp]: "rb_triple (relOf S v) = sv_triple S v"
  by (simp add: rb_triple_def relOf_def sv_triple_def)

lemma relOf_eq_iff: "relOf S v = relOf S w \<longleftrightarrow> sv_triple S v = sv_triple S w"
  by (simp add: rb_triple_inj [symmetric])

lemma relOf_less_iff: "relOf S v < relOf S w \<longleftrightarrow> sv_triple S v < sv_triple S w"
  by (simp add: less_relBound_def)

section \<open>The set value\<close>

text \<open>
  \<^verbatim>\<open>verSet\<close>. The pair \<^verbatim>\<open>(single, hasSingle)\<close> is the one field \<open>vs_single\<close>: it is read
  only through \<^verbatim>\<open>decidedVersion\<close>, which returns the pair.
\<close>

record 'v verSet =
  vs_single :: "'v version option"
  vs_display :: gostring
  vs_rel :: "relBound piece list"
  vs_pre :: "'v piece list"

definition mkVerSet :: "relBound piece list \<Rightarrow> 'v piece list \<Rightarrow> 'v verSet" where
  "mkVerSet r p = \<lparr> vs_single = None, vs_display = [], vs_rel = r, vs_pre = p \<rparr>"

lemma mkVerSet_sel [simp]:
  "vs_single (mkVerSet r p) = None" "vs_display (mkVerSet r p) = []"
  "vs_rel (mkVerSet r p) = r" "vs_pre (mkVerSet r p) = p"
  by (simp_all add: mkVerSet_def)

definition emptyVerSet :: "'v verSet" where
  "emptyVerSet = mkVerSet [] []"

definition fullVerSet :: "'v semver \<Rightarrow> 'v verSet" where
  "fullVerSet S = \<lparr> vs_single = None, vs_display = ''any'',
     vs_rel = [mkPiece relMin None], vs_pre = [mkPiece (preMinBound S) None] \<rparr>"

definition vsContains :: "'v semver \<Rightarrow> 'v verSet \<Rightarrow> 'v version \<Rightarrow> bool" where
  "vsContains S s v =
     (if sv_prerelease S (v_parsed v) = [] then containsPoint cmpRel (vs_rel s) (relOf S (v_parsed v))
      else containsPoint (cmpPre S) (vs_pre s) (v_parsed v))"

definition vsIntersect :: "'v semver \<Rightarrow> 'v verSet \<Rightarrow> 'v verSet \<Rightarrow> 'v verSet" where
  "vsIntersect S s o' = mkVerSet (intersectPieces cmpRel (vs_rel s) (vs_rel o'))
     (intersectPieces (cmpPre S) (vs_pre s) (vs_pre o'))"

definition vsUnion :: "'v semver \<Rightarrow> 'v verSet \<Rightarrow> 'v verSet \<Rightarrow> 'v verSet" where
  "vsUnion S s o' = mkVerSet (unionPieces cmpRel relMin (vs_rel s) (vs_rel o'))
     (unionPieces (cmpPre S) (preMinBound S) (vs_pre s) (vs_pre o'))"

definition vsComplement :: "'v semver \<Rightarrow> 'v verSet \<Rightarrow> 'v verSet" where
  "vsComplement S s = mkVerSet (complementPieces cmpRel relMin (vs_rel s))
     (complementPieces (cmpPre S) (preMinBound S) (vs_pre s))"

definition vsDifference :: "'v semver \<Rightarrow> 'v verSet \<Rightarrow> 'v verSet \<Rightarrow> 'v verSet" where
  "vsDifference S s o' = vsIntersect S s (vsComplement S o')"

definition vsIsEmpty :: "'v verSet \<Rightarrow> bool" where
  "vsIsEmpty s \<longleftrightarrow> vs_rel s = [] \<and> vs_pre s = []"

definition vsIsFull :: "'v semver \<Rightarrow> 'v verSet \<Rightarrow> bool" where
  "vsIsFull S s \<longleftrightarrow>
     length (vs_rel s) = 1 \<and> p_hi (hd (vs_rel s)) = None \<and> p_lo (hd (vs_rel s)) = relMin \<and>
     length (vs_pre s) = 1 \<and> p_hi (hd (vs_pre s)) = None \<and>
     cmpPre S (p_lo (hd (vs_pre s))) (preMinBound S) = 0"

definition vsSubsetOf :: "'v semver \<Rightarrow> 'v verSet \<Rightarrow> 'v verSet \<Rightarrow> bool" where
  "vsSubsetOf S s o' \<longleftrightarrow> subsetPieces cmpRel (vs_rel s) (vs_rel o') \<and>
     subsetPieces (cmpPre S) (vs_pre s) (vs_pre o')"

definition vsDisjointFrom :: "'v semver \<Rightarrow> 'v verSet \<Rightarrow> 'v verSet \<Rightarrow> bool" where
  "vsDisjointFrom S s o' \<longleftrightarrow> disjointPieces cmpRel (vs_rel s) (vs_rel o') \<and>
     disjointPieces (cmpPre S) (vs_pre s) (vs_pre o')"

definition vsEqualSet :: "'v semver \<Rightarrow> 'v verSet \<Rightarrow> 'v verSet \<Rightarrow> bool" where
  "vsEqualSet S s o' \<longleftrightarrow> equalPieces cmpRel (vs_rel s) (vs_rel o') \<and>
     equalPieces (cmpPre S) (vs_pre s) (vs_pre o')"

definition decidedVersion :: "'v verSet \<Rightarrow> 'v version option" where
  "decidedVersion s = vs_single s"

text \<open>\<^verbatim>\<open>writeCanonical\<close>: the bytes hashed for a set.\<close>

definition fmtRel :: "relBound \<Rightarrow> gostring" where
  "fmtRel b = fmtU64 (rb_major b) @ ''.'' @ fmtU64 (rb_minor b) @ ''.'' @ fmtU64 (rb_patch b)"

definition writeCanonical :: "'v semver \<Rightarrow> 'v verSet \<Rightarrow> gostring" where
  "writeCanonical S s =
     concat (map (\<lambda>p. ''R'' @ fmtRel (p_lo p) @ '','' @
        (case p_hi p of None \<Rightarrow> ''inf;'' | Some h \<Rightarrow> fmtRel h @ '';'')) (vs_rel s)) @
     concat (map (\<lambda>p. ''P'' @ sv_string S (p_lo p) @ '','' @
        (case p_hi p of None \<Rightarrow> ''inf;'' | Some h \<Rightarrow> sv_string S h @ '';'')) (vs_pre s))"

section \<open>Bound arithmetic\<close>

definition maxUint64 :: u64 where
  "maxUint64 = 18446744073709551615"

definition succRel :: "relBound \<Rightarrow> relBound option" where
  "succRel b = (if rb_patch b = maxUint64 then None
     else Some (RelBound (rb_major b) (rb_minor b) (rb_patch b + 1)))"

definition nextMinor :: "relBound \<Rightarrow> relBound option" where
  "nextMinor b = (if rb_minor b = maxUint64 then None
     else Some (RelBound (rb_major b) (rb_minor b + 1) 0))"

definition nextMajor :: "relBound \<Rightarrow> relBound option" where
  "nextMajor b = (if rb_major b = maxUint64 then None else Some (RelBound (rb_major b + 1) 0 0))"

definition preFloor :: "'v semver \<Rightarrow> relBound \<Rightarrow> 'v" where
  "preFloor S b = sv_new S (rb_major b) (rb_minor b) (rb_patch b) ''0'' []"

definition succPre :: "'v semver \<Rightarrow> 'v \<Rightarrow> 'v" where
  "succPre S w = sv_new S (sv_major S w) (sv_minor S w) (sv_patch S w) (sv_prerelease S w @ ''.0'') []"

definition stripMeta :: "'v semver \<Rightarrow> 'v \<Rightarrow> 'v" where
  "stripMeta S w = sv_new S (sv_major S w) (sv_minor S w) (sv_patch S w) (sv_prerelease S w) []"

definition relCeilStrict :: "'v semver \<Rightarrow> 'v \<Rightarrow> relBound option" where
  "relCeilStrict S con = (if sv_prerelease S con \<noteq> [] then Some (relOf S con) else succRel (relOf S con))"

definition preCeil :: "'v semver \<Rightarrow> 'v \<Rightarrow> 'v option" where
  "preCeil S con = (if sv_prerelease S con \<noteq> [] then Some (stripMeta S con)
     else (case succRel (relOf S con) of None \<Rightarrow> None | Some nx \<Rightarrow> Some (preFloor S nx)))"

definition preCeilStrict :: "'v semver \<Rightarrow> 'v \<Rightarrow> 'v option" where
  "preCeilStrict S con = (if sv_prerelease S con \<noteq> [] then Some (succPre S (stripMeta S con))
     else preCeil S con)"

section \<open>Piece constructors\<close>

text \<open>A bound with its \<^verbatim>\<open>ok\<close> flag is an option, \<open>None\<close> for an overflowed successor.\<close>

definition relFrom :: "relBound option \<Rightarrow> relBound piece list" where
  "relFrom lo = (case lo of None \<Rightarrow> [] | Some l \<Rightarrow> [mkPiece l None])"

definition relUpto :: "relBound option \<Rightarrow> relBound piece list" where
  "relUpto hi = (case hi of None \<Rightarrow> relFrom (Some relMin)
     | Some h \<Rightarrow> if 0 \<le> cmpRel relMin h then [] else [mkPiece relMin (Some h)])"

definition relRange :: "relBound \<Rightarrow> relBound option \<Rightarrow> relBound piece list" where
  "relRange lo hi = (case hi of None \<Rightarrow> relFrom (Some lo)
     | Some h \<Rightarrow> if 0 \<le> cmpRel lo h then [] else [mkPiece lo (Some h)])"

definition relPoint :: "relBound \<Rightarrow> relBound piece list" where
  "relPoint t = relRange t (succRel t)"

definition preFrom :: "'v option \<Rightarrow> 'v piece list" where
  "preFrom lo = (case lo of None \<Rightarrow> [] | Some l \<Rightarrow> [mkPiece l None])"

definition preUpto :: "'v semver \<Rightarrow> 'v option \<Rightarrow> 'v piece list" where
  "preUpto S hi = (case hi of None \<Rightarrow> preFrom (Some (preMinBound S))
     | Some h \<Rightarrow> if 0 \<le> cmpPre S (preMinBound S) h then [] else [mkPiece (preMinBound S) (Some h)])"

definition preRange :: "'v semver \<Rightarrow> 'v option \<Rightarrow> 'v option \<Rightarrow> 'v piece list" where
  "preRange S lo hi = (case lo of None \<Rightarrow> []
     | Some l \<Rightarrow> (case hi of None \<Rightarrow> preFrom (Some l)
          | Some h \<Rightarrow> if 0 \<le> cmpPre S l h then [] else [mkPiece l (Some h)]))"

section \<open>Well-formed sets and the algebra on them\<close>

text \<open>
  Both lists canonical, every prerelease bound a prerelease, and a carried version the parse
  of its original string.
\<close>

definition wfVerSet :: "'v semver \<Rightarrow> 'v verSet \<Rightarrow> bool" where
  "wfVerSet S s \<longleftrightarrow> canonical cmpRel (vs_rel s) \<and> canonical (cmpPre S) (vs_pre s) \<and>
     boundsIn (isPre S) (vs_pre s) \<and> (\<forall>v. vs_single s = Some v \<longrightarrow> wellParsed S v)"

lemma boundsIn_True [simp]: "boundsIn (\<lambda>_. True) ps"
  by (simp add: boundsIn_def)

lemma canonical_single [simp]:
  "canonical cmp [mkPiece l h] \<longleftrightarrow> runNonempty cmp l h"
  by (simp add: canonical_Cons)

context semver_lib begin

lemma preMin_isPre [simp]: "isPre S (preMinBound S)"
  by (simp add: isPre_def preMinBound_def)

lemma preMin_least: "isPre S v \<Longrightarrow> cmpPre S (preMinBound S) v \<le> 0"
proof -
  assume v: "isPre S v"
  have zero: "sv_triple S (preMinBound S) \<le> sv_triple S v"
    using relMin_least [of "relOf S v"]
    by (simp add: less_eq_relBound_def) (simp add: relMin_def rb_triple_def preMinBound_def)
  show "cmpPre S (preMinBound S) v \<le> 0"
  proof (cases "sv_triple S (preMinBound S) = sv_triple S v")
    case True
    with v show ?thesis
      by (simp add: cmpPre_def isPre_def cmp_floor preMinBound_def)
  next
    case False
    with zero have "sv_triple S (preMinBound S) < sv_triple S v" by simp
    then show ?thesis using cmp_triple by (simp add: cmpPre_def less_imp_le)
  qed
qed

end

sublocale semver_lib \<subseteq> pre: subline "cmpPre S" "isPre S" "preMinBound S"
proof
  show "cmpPre S x y < 0 \<longleftrightarrow> 0 < cmpPre S y x" for x y
    by (simp add: cmpPre_def cmp_flip)
  show "cmpPre S x y \<le> 0 \<Longrightarrow> cmpPre S y z \<le> 0 \<Longrightarrow> cmpPre S x z \<le> 0" for x y z
    unfolding cmpPre_def by (rule cmp_trans)
  show "isPre S x \<Longrightarrow> cmpPre S (preMinBound S) x \<le> 0" for x
    by (rule preMin_least)
  show "isPre S (preMinBound S)"
    by (rule preMin_isPre)
qed

text \<open>Every point of either subline is the point of some version.\<close>

definition relVersion :: "'v semver \<Rightarrow> relBound \<Rightarrow> 'v version" where
  "relVersion S b = \<lparr> v_parsed = sv_new S (rb_major b) (rb_minor b) (rb_patch b) [] [], v_original = [] \<rparr>"

definition preVersion :: "'v \<Rightarrow> 'v version" where
  "preVersion w = \<lparr> v_parsed = w, v_original = [] \<rparr>"

context semver_lib begin

lemma vsContains_rel: "vsContains S s (relVersion S b) \<longleftrightarrow> containsPoint cmpRel (vs_rel s) b"
  by (simp add: vsContains_def relVersion_def relOf_def)

lemma vsContains_pre: "isPre S w \<Longrightarrow> vsContains S s (preVersion w) \<longleftrightarrow> containsPoint (cmpPre S) (vs_pre s) w"
  by (simp add: vsContains_def preVersion_def isPre_def)

text \<open>A statement about all versions is one about all release triples and all prereleases.\<close>

lemma versions_iff:
  "(\<forall>v. P (vsContains S s v) (vsContains S t v)) \<longleftrightarrow>
     (\<forall>b. P (containsPoint cmpRel (vs_rel s) b) (containsPoint cmpRel (vs_rel t) b)) \<and>
     (\<forall>w. isPre S w \<longrightarrow> P (containsPoint (cmpPre S) (vs_pre s) w) (containsPoint (cmpPre S) (vs_pre t) w))"
  (is "?L \<longleftrightarrow> ?R")
proof
  assume all: ?L
  have "P (containsPoint cmpRel (vs_rel s) b) (containsPoint cmpRel (vs_rel t) b)" for b
    using all [rule_format, of "relVersion S b"] by (simp add: vsContains_rel)
  moreover have "P (containsPoint (cmpPre S) (vs_pre s) w) (containsPoint (cmpPre S) (vs_pre t) w)"
    if "isPre S w" for w
    using all [rule_format, of "preVersion w"] by (simp add: vsContains_pre that)
  ultimately show ?R by blast
next
  assume ?R
  then show ?L by (auto simp: vsContains_def isPre_def)
qed

lemma wf_empty [wf_intros]: "wfVerSet S emptyVerSet"
  by (simp add: wfVerSet_def emptyVerSet_def)

lemma wf_full [wf_intros]: "wfVerSet S (fullVerSet S)"
  by (simp add: wfVerSet_def fullVerSet_def runNonempty_def)

lemma wf_intersect [wf_intros]: "wfVerSet S s \<Longrightarrow> wfVerSet S t \<Longrightarrow> wfVerSet S (vsIntersect S s t)"
  by (simp add: wfVerSet_def vsIntersect_def rel.canonical_intersect pre.canonical_intersect
      pre.boundsIn_intersect)

lemma wf_complement [wf_intros]: "wfVerSet S s \<Longrightarrow> wfVerSet S (vsComplement S s)"
  by (simp add: wfVerSet_def vsComplement_def rel.canonical_complement pre.canonical_complement
      pre.boundsIn_complement)

lemma wf_union [wf_intros]: "wfVerSet S s \<Longrightarrow> wfVerSet S t \<Longrightarrow> wfVerSet S (vsUnion S s t)"
  by (simp add: wfVerSet_def vsUnion_def rel.canonical_union pre.canonical_union pre.boundsIn_union)

lemma wf_difference [wf_intros]: "wfVerSet S s \<Longrightarrow> wfVerSet S t \<Longrightarrow> wfVerSet S (vsDifference S s t)"
  unfolding vsDifference_def by (intro wf_intros)

lemma contains_empty [sem_simps]: "\<not> vsContains S emptyVerSet v"
  by (simp add: vsContains_def emptyVerSet_def)

lemma contains_full [sem_simps]: "vsContains S (fullVerSet S) v"
proof (cases "isPre S (v_parsed v)")
  case True
  then have "\<not> cmpPre S (v_parsed v) (preMinBound S) < 0"
    using preMin_least pre.not_less by blast
  with True show ?thesis by (simp add: vsContains_def fullVerSet_def isPre_def)
next
  case False
  then show ?thesis by (simp add: vsContains_def fullVerSet_def isPre_def cmpRel_iffs not_less)
qed

lemma contains_intersect [sem_simps]:
  "wfVerSet S s \<Longrightarrow> wfVerSet S t \<Longrightarrow>
     vsContains S (vsIntersect S s t) v \<longleftrightarrow> vsContains S s v \<and> vsContains S t v"
  by (simp add: vsContains_def vsIntersect_def wfVerSet_def rel.contains_intersect pre.contains_intersect)

lemma contains_complement [sem_simps]:
  "wfVerSet S s \<Longrightarrow> vsContains S (vsComplement S s) v \<longleftrightarrow> \<not> vsContains S s v"
  by (simp add: vsContains_def vsComplement_def wfVerSet_def rel.contains_complement
      pre.contains_complement isPre_def)

lemma contains_union [sem_simps]:
  "wfVerSet S s \<Longrightarrow> wfVerSet S t \<Longrightarrow>
     vsContains S (vsUnion S s t) v \<longleftrightarrow> vsContains S s v \<or> vsContains S t v"
  by (simp add: vsContains_def vsUnion_def wfVerSet_def rel.contains_union pre.contains_union isPre_def)

lemma contains_difference [sem_simps]:
  "wfVerSet S s \<Longrightarrow> wfVerSet S t \<Longrightarrow>
     vsContains S (vsDifference S s t) v \<longleftrightarrow> vsContains S s v \<and> \<not> vsContains S t v"
  by (simp add: vsDifference_def sem_simps wf_intros)

lemma subset_iff:
  assumes "wfVerSet S s" "wfVerSet S t"
  shows "vsSubsetOf S s t \<longleftrightarrow> (\<forall>v. vsContains S s v \<longrightarrow> vsContains S t v)"
  using assms unfolding versions_iff [of "(\<longrightarrow>)"]
  by (simp add: vsSubsetOf_def wfVerSet_def rel.subsetPieces_iff pre.subsetPieces_iff)

lemma disjoint_iff:
  assumes "wfVerSet S s" "wfVerSet S t"
  shows "vsDisjointFrom S s t \<longleftrightarrow> (\<forall>v. \<not> (vsContains S s v \<and> vsContains S t v))"
  using assms unfolding versions_iff [of "\<lambda>a b. \<not> (a \<and> b)"]
  by (auto simp: vsDisjointFrom_def wfVerSet_def rel.disjointPieces_iff pre.disjointPieces_iff)

lemma equal_iff:
  assumes "wfVerSet S s" "wfVerSet S t"
  shows "vsEqualSet S s t \<longleftrightarrow> (\<forall>v. vsContains S s v = vsContains S t v)"
  using assms unfolding versions_iff [of "(=)"]
  by (simp add: vsEqualSet_def wfVerSet_def rel.equalPieces_iff pre.equalPieces_iff)

lemma isEmpty_iff:
  assumes "wfVerSet S s"
  shows "vsIsEmpty s \<longleftrightarrow> (\<forall>v. \<not> vsContains S s v)"
proof
  assume "vsIsEmpty s"
  then show "\<forall>v. \<not> vsContains S s v" by (simp add: vsIsEmpty_def vsContains_def)
next
  assume none: "\<forall>v. \<not> vsContains S s v"
  then have "\<not> containsPoint cmpRel (vs_rel s) b" for b
    using vsContains_rel by blast
  moreover have "\<not> containsPoint (cmpPre S) (vs_pre s) w" if "isPre S w" for w
    using none vsContains_pre [OF that] by blast
  ultimately show "vsIsEmpty s"
    using assms rel.nonempty_has_point [of "vs_rel s"] pre.nonempty_has_point [of "vs_pre s"]
    unfolding vsIsEmpty_def wfVerSet_def by auto
qed

lemma isFull_iff:
  assumes "wfVerSet S s"
  shows "vsIsFull S s \<longleftrightarrow> (\<forall>v. vsContains S s v)"
proof -
  have "vsIsFull S s \<longleftrightarrow> vsEqualSet S s (fullVerSet S)"
    unfolding vsIsFull_def vsEqualSet_def fullVerSet_def equalPieces_def
    by (cases "vs_rel s"; cases "vs_pre s")
      (auto simp: equalPiece_def cmpRel_iffs list_all2_Cons2 split: option.splits)
  then show ?thesis using assms by (simp add: equal_iff wf_intros sem_simps)
qed

text \<open>Membership depends on the precedence point only, so metadata never matters.\<close>

lemma contains_point_cong:
  assumes "wfVerSet S s" "sv_compare S (v_parsed v) (v_parsed w) = 0"
  shows "vsContains S s v \<longleftrightarrow> vsContains S s w"
proof -
  have "inRun (cmpPre S) (v_parsed v) p \<longleftrightarrow> inRun (cmpPre S) (v_parsed w) p" for p
    using assms(2) cmp_eq_sym [OF assms(2)]
    by (auto simp: inRun_def cmpPre_def)
      (metis cmp_trans order_refl pre.le_less_trans cmpPre_def)+
  with assms show ?thesis
    by (simp add: vsContains_def wfVerSet_def pre.containsPoint_iff cmp_eq_release [OF assms(2)]
        relOf_eq_iff cmp_eq_triple)
      (metis cmp_eq_triple relOf_eq_iff)
qed

end

section \<open>What the bounds and constructors mean\<close>

lemma maxUint64_eq: "maxUint64 = - 1"
  by (simp add: maxUint64_def)

lemma maxUint64_succ:
  assumes "x \<noteq> maxUint64"
  shows "x + 1 \<le> y \<longleftrightarrow> x < y"
proof -
  have "unat x < 2 ^ 64 - 1"
  proof (rule ccontr)
    assume "\<not> unat x < 2 ^ 64 - 1"
    moreover have "unat x < 2 ^ 64" using unsigned_less [of x, where ?'a = nat] by simp
    ultimately have "unat x = unat maxUint64" by (simp add: maxUint64_def)
    with assms show False using word_unat_eq_iff by blast
  qed
  then have "unat (x + 1) = unat x + 1" by (simp add: unat_word_ariths)
  then show ?thesis by (simp add: word_le_nat_alt word_less_nat_alt Suc_le_eq)
qed

lemma maxUint64_le: "x \<le> maxUint64"
  by (simp add: maxUint64_eq)

lemma less_relBound_iff:
  "a < b \<longleftrightarrow> rb_major a < rb_major b \<or> (rb_major a = rb_major b \<and>
     (rb_minor a < rb_minor b \<or> (rb_minor a = rb_minor b \<and> rb_patch a < rb_patch b)))"
  by (auto simp: less_relBound_def rb_triple_def less_prod_def)

lemma le_relBound_iff:
  "a \<le> b \<longleftrightarrow> rb_major a < rb_major b \<or> (rb_major a = rb_major b \<and>
     (rb_minor a < rb_minor b \<or> (rb_minor a = rb_minor b \<and> rb_patch a \<le> rb_patch b)))"
  by (auto simp: less_eq_relBound_def rb_triple_def less_eq_prod_def)

text \<open>A successor is the least bound above; the row starts likewise.\<close>

lemma succRel_le: "succRel b = Some h \<Longrightarrow> h \<le> t \<longleftrightarrow> b < t"
  by (auto simp: succRel_def le_relBound_iff less_relBound_iff maxUint64_succ split: if_splits)

lemma nextMinor_le: "nextMinor b = Some h \<Longrightarrow>
    h \<le> t \<longleftrightarrow> rb_major b < rb_major t \<or> rb_major b = rb_major t \<and> rb_minor b < rb_minor t"
  using maxUint64_succ [of "rb_minor b" "rb_minor t"]
  by (auto simp: nextMinor_def le_relBound_iff order_le_less word_gt_0 split: if_splits)

lemma nextMajor_le: "nextMajor b = Some h \<Longrightarrow> h \<le> t \<longleftrightarrow> rb_major b < rb_major t"
  using maxUint64_succ [of "rb_major b" "rb_major t"]
  by (auto simp: nextMajor_def le_relBound_iff order_le_less word_gt_0 split: if_splits)

lemma nextMajor_None: "nextMajor b = None \<Longrightarrow> \<not> rb_major b < rb_major t"
  using maxUint64_le [of "rb_major t"] by (auto simp: nextMajor_def leD split: if_splits)

lemma contains_relFrom [sem_simps]:
  "containsPoint cmpRel (relFrom lo) t \<longleftrightarrow> (\<exists>l. lo = Some l \<and> l \<le> t)"
  by (cases lo) (auto simp: relFrom_def cmpRel_iffs)

lemma contains_relRange [sem_simps]:
  "containsPoint cmpRel (relRange lo hi) t \<longleftrightarrow> lo \<le> t \<and> (\<forall>h. hi = Some h \<longrightarrow> t < h)"
  by (cases hi) (auto simp: relRange_def sem_simps cmpRel_iffs)

lemma contains_relUpto [sem_simps]:
  "containsPoint cmpRel (relUpto hi) t \<longleftrightarrow> (\<forall>h. hi = Some h \<longrightarrow> t < h)"
  using relMin_least [of t]
  by (cases hi) (auto simp: relUpto_def sem_simps cmpRel_iffs dest: le_less_trans less_le_trans)

lemma contains_Nil [sem_simps]: "\<not> containsPoint cmp [] t"
  by simp

lemma canonical_rel [wf_intros]:
  "canonical cmpRel (relFrom lo)" "canonical cmpRel (relRange l hi)" "canonical cmpRel (relUpto hi)"
  "canonical cmpRel (relPoint t)"
  by (auto simp: relFrom_def relRange_def relUpto_def relPoint_def runNonempty_def cmpRel_iffs
      split: option.splits)

context semver_lib begin

lemma contains_preFrom [sem_simps]:
  "containsPoint (cmpPre S) (preFrom lo) w \<longleftrightarrow> (\<exists>l. lo = Some l \<and> cmpPre S l w \<le> 0)"
  by (cases lo) (auto simp: preFrom_def pre.not_less elim: pre.less_not_le)

lemma contains_preRange [sem_simps]:
  "containsPoint (cmpPre S) (preRange S lo hi) w \<longleftrightarrow>
     (\<exists>l. lo = Some l \<and> cmpPre S l w \<le> 0 \<and> (\<forall>h. hi = Some h \<longrightarrow> cmpPre S w h < 0))"
  by (cases lo; cases hi)
    (auto simp: preRange_def sem_simps pre.not_less pre.nonneg_iff
      dest: pre.le_less_trans elim: pre.less_not_le)

lemma contains_preUpto [sem_simps]:
  "isPre S w \<Longrightarrow> containsPoint (cmpPre S) (preUpto S hi) w \<longleftrightarrow> (\<forall>h. hi = Some h \<longrightarrow> cmpPre S w h < 0)"
  using preMin_least [of w]
  by (cases hi)
    (auto simp: preUpto_def sem_simps pre.not_less pre.nonneg_iff
      dest: pre.le_less_trans elim: pre.less_not_le)

lemma canonical_pre [wf_intros]:
  "canonical (cmpPre S) (preFrom lo)" "canonical (cmpPre S) (preRange S lo hi)"
  "canonical (cmpPre S) (preUpto S hi)"
  by (auto simp: preFrom_def preRange_def preUpto_def runNonempty_def not_le split: option.splits)

lemma boundsIn_pre [wf_intros]:
  "(\<And>l. lo = Some l \<Longrightarrow> isPre S l) \<Longrightarrow> boundsIn (isPre S) (preFrom lo)"
  "(\<And>l. lo = Some l \<Longrightarrow> isPre S l) \<Longrightarrow> (\<And>h. hi = Some h \<Longrightarrow> isPre S h) \<Longrightarrow> boundsIn (isPre S) (preRange S lo hi)"
  "(\<And>h. hi = Some h \<Longrightarrow> isPre S h) \<Longrightarrow> boundsIn (isPre S) (preUpto S hi)"
  by (auto simp: preFrom_def preRange_def preUpto_def split: option.splits)

lemma bounds_isPre [simp]:
  "isPre S (preFloor S b)" "isPre S (succPre S w)" "isPre S (stripMeta S w) \<longleftrightarrow> isPre S w"
  by (simp_all add: isPre_def preFloor_def succPre_def stripMeta_def)

lemma bounds_prerelease [simp]:
  "sv_prerelease S (preFloor S b) \<noteq> []" "sv_prerelease S (succPre S w) \<noteq> []"
  by (simp_all add: preFloor_def succPre_def)

lemma triple_bounds [simp]:
  "sv_triple S (preFloor S b) = rb_triple b" "sv_triple S (succPre S w) = sv_triple S w"
  "sv_triple S (stripMeta S w) = sv_triple S w" "sv_prerelease S (stripMeta S w) = sv_prerelease S w"
  "relOf S (preFloor S b) = b" "relOf S (succPre S w) = relOf S w" "relOf S (stripMeta S w) = relOf S w"
  by (simp_all add: preFloor_def succPre_def stripMeta_def rb_triple_def sv_triple_def relOf_def)

lemma stripMeta_eq: "sv_compare S (stripMeta S w) w = 0"
  by (rule cmp_metadata) simp_all

lemma stripMeta_cmp [simp]:
  "cmpPre S (stripMeta S w) v \<le> 0 \<longleftrightarrow> cmpPre S w v \<le> 0" "cmpPre S (stripMeta S w) v < 0 \<longleftrightarrow> cmpPre S w v < 0"
  "cmpPre S v (stripMeta S w) \<le> 0 \<longleftrightarrow> cmpPre S v w \<le> 0" "cmpPre S v (stripMeta S w) < 0 \<longleftrightarrow> cmpPre S v w < 0"
  using stripMeta_eq [of w] cmp_eq_sym [OF stripMeta_eq [of w]]
  by (auto simp: cmpPre_def [symmetric] pre.eq_iff
      intro: pre.trans pre.le_less_trans pre.less_le_trans)

text \<open>Precedence against a release, in terms of triples.\<close>

lemma cmp_release_le:
  assumes "sv_prerelease S w = []"
  shows "sv_compare S c w \<le> 0 \<longleftrightarrow> relOf S c \<le> relOf S w"
proof
  show "sv_compare S c w \<le> 0 \<Longrightarrow> relOf S c \<le> relOf S w"
    using triple_le_of_cmp by (simp add: less_eq_relBound_def)
  assume "relOf S c \<le> relOf S w"
  then consider "sv_triple S c < sv_triple S w" | "sv_triple S c = sv_triple S w"
    unfolding less_eq_relBound_def by fastforce
  then show "sv_compare S c w \<le> 0"
  proof cases
    case 1
    then show ?thesis using cmp_triple by (simp add: less_imp_le)
  next
    case 2
    then show ?thesis
      using assms cmp_release [of c w] cmp_metadata [of c w] by (cases "sv_prerelease S c = []") auto
  qed
qed

lemma cmp_release_less:
  assumes "sv_prerelease S w = []"
  shows "sv_compare S c w < 0 \<longleftrightarrow> relOf S c < relOf S w \<or> relOf S c = relOf S w \<and> isPre S c"
proof (cases "sv_triple S c = sv_triple S w")
  case True
  then show ?thesis
    using assms cmp_release [of c w] cmp_metadata [of c w]
    by (cases "sv_prerelease S c = []") (auto simp: isPre_def relOf_eq_iff less_relBound_def)
next
  case False
  then show ?thesis
    using cmp_triple [of c w] cmp_triple [of w c] pre.less_not_le [of w c False]
    by (auto simp: relOf_eq_iff less_relBound_def cmpPre_def neq_iff)
qed

text \<open>A prerelease against a release: the release's own prereleases lie below it.\<close>

lemma cmp_pre_release:
  assumes "isPre S w" "sv_prerelease S c = []"
  shows "sv_compare S c w < 0 \<longleftrightarrow> relOf S c < relOf S w"
    and "sv_compare S c w \<le> 0 \<longleftrightarrow> relOf S c < relOf S w"
proof -
  have "sv_compare S w c \<le> 0 \<longleftrightarrow> relOf S w \<le> relOf S c"
    and "sv_compare S w c < 0 \<longleftrightarrow> relOf S w \<le> relOf S c"
    using cmp_release_less [OF assms(2), of w] cmp_release_le [OF assms(2), of w] assms(1) by auto
  then show "sv_compare S c w < 0 \<longleftrightarrow> relOf S c < relOf S w"
    and "sv_compare S c w \<le> 0 \<longleftrightarrow> relOf S c < relOf S w"
    using pre.not_less [of c w] pre.not_le [of c w] by (auto simp: cmpPre_def not_le [symmetric])
qed

lemma preFloor_le:
  assumes "isPre S w"
  shows "cmpPre S (preFloor S b) w \<le> 0 \<longleftrightarrow> b \<le> relOf S w"
proof
  show "cmpPre S (preFloor S b) w \<le> 0 \<Longrightarrow> b \<le> relOf S w"
    using triple_le_of_cmp [of "preFloor S b" w] by (simp add: cmpPre_def less_eq_relBound_def)
  assume "b \<le> relOf S w"
  then consider "rb_triple b < sv_triple S w" | "rb_triple b = sv_triple S w"
    unfolding less_eq_relBound_def by fastforce
  then show "cmpPre S (preFloor S b) w \<le> 0"
  proof cases
    case 1
    then show ?thesis using cmp_triple [of "preFloor S b" w] by (simp add: cmpPre_def less_imp_le)
  next
    case 2
    then show ?thesis
      using cmp_floor [of "preFloor S b" w] assms by (simp add: cmpPre_def isPre_def preFloor_def rb_triple_def)
  qed
qed

lemma preFloor_greater: "isPre S w \<Longrightarrow> cmpPre S w (preFloor S b) < 0 \<longleftrightarrow> relOf S w < b"
  using preFloor_le [of w b] pre.not_le [of "preFloor S b" w] by (auto simp: not_le)

text \<open>The successor of a prerelease: nothing lies between.\<close>

lemma succPre_le:
  assumes "isPre S c" "isPre S w"
  shows "cmpPre S (succPre S c) w \<le> 0 \<longleftrightarrow> cmpPre S c w < 0"
proof
  have "cmpPre S c (succPre S c) < 0"
    using cmp_succ [of c "succPre S c"] assms by (simp add: cmpPre_def isPre_def succPre_def sv_triple_def)
  then show "cmpPre S (succPre S c) w \<le> 0 \<Longrightarrow> cmpPre S c w < 0" by (rule pre.less_le_trans)
  assume lt: "cmpPre S c w < 0"
  then have "sv_triple S c \<le> sv_triple S w" using triple_le_of_cmp by (simp add: cmpPre_def)
  then consider "sv_triple S c < sv_triple S w" | "sv_triple S c = sv_triple S w" by fastforce
  then show "cmpPre S (succPre S c) w \<le> 0"
  proof cases
    case 1
    then show ?thesis using cmp_triple [of "succPre S c" w] by (simp add: cmpPre_def less_imp_le)
  next
    case 2
    then show ?thesis
      using lt assms cmp_succ_least [of c "succPre S c" w]
      by (simp add: cmpPre_def isPre_def succPre_def sv_triple_def)
  qed
qed

lemma succPre_greater: "isPre S c \<Longrightarrow> isPre S w \<Longrightarrow> cmpPre S w (succPre S c) < 0 \<longleftrightarrow> cmpPre S w c \<le> 0"
  using succPre_le [of c w] pre.not_le [of "succPre S c" w] pre.not_less [of c w] by auto

end

section \<open>Display\<close>

definition renderRelPiece :: "relBound piece \<Rightarrow> gostring" where
  "renderRelPiece p =
     (let lo = fmtRel (p_lo p) in
      case p_hi p of
        None \<Rightarrow> ''>='' @ lo
      | Some h \<Rightarrow>
          if (case succRel (p_lo p) of None \<Rightarrow> False | Some nx \<Rightarrow> cmpRel nx h = 0) then ''='' @ lo
          else if p_lo p = relMin then ''<'' @ fmtRel h
          else ''>='' @ lo @ '',<'' @ fmtRel h)"

definition renderPrePieces :: "'v semver \<Rightarrow> 'v piece list \<Rightarrow> gostring" where
  "renderPrePieces S pre =
     (if pre = [] then []
      else if length pre = 1 \<and> p_hi (hd pre) = None \<and> cmpPre S (p_lo (hd pre)) (preMinBound S) = 0
      then ''(all prereleases)''
      else ''(prereleases '' @ joinStr (map (\<lambda>p. case p_hi p of
             None \<Rightarrow> ''>='' @ sv_string S (p_lo p)
           | Some h \<Rightarrow> ''>='' @ sv_string S (p_lo p) @ '',<'' @ sv_string S h) pre) '' || '' @ '')'')"

definition displayLabel :: "'v semver \<Rightarrow> 'v verSet \<Rightarrow> gostring" where
  "displayLabel S s =
     (if vs_display s \<noteq> [] then vs_display s
      else if vsIsEmpty s then ''no versions''
      else if vsIsFull S s then ''any''
      else
        (let label = joinStr (map renderRelPiece (vs_rel s)) '' || '';
             pre = renderPrePieces S (vs_pre s)
         in if pre \<noteq> [] then (if label = [] then pre else label @ '' '' @ pre) else label))"

end
