(* ===== verification/Regexp.thy ===== *)
theory Regexp imports GoStrings begin

text \<open>
  The fragment of Go's \<open>regexp\<close> package that the constraint parser uses: leftmost-first
  matching with capture groups over byte strings. A pattern is a datatype value; the
  matcher returns every way to match, in the order a backtracking matcher tries them, so
  the first one is the match Go reports.
\<close>

datatype re =
    Eps
  | Cls "char list"
  | Lit gostring
  | Seq re re
  | Alt re re
  | Star re
  | Cap nat re
  | Bol
  | Eol

type_synonym caps = "(nat \<times> gostring) list"

text \<open>Greedy repetition of a step; a step that consumes nothing ends it.\<close>

fun starMatch :: "nat \<Rightarrow> (gostring \<Rightarrow> caps \<Rightarrow> (gostring \<times> caps) list) \<Rightarrow> gostring \<Rightarrow> caps \<Rightarrow> (gostring \<times> caps) list" where
  "starMatch 0 m s c = [(s, c)]"
| "starMatch (Suc k) m s c =
     concat (map (\<lambda>(s', c'). if length s' < length s then starMatch k m s' c' else []) (m s c)) @ [(s, c)]"

text \<open>\<open>n\<close> is the length of the whole text: \<^verbatim>\<open>^\<close> holds where nothing has been consumed.\<close>

fun reMatch :: "nat \<Rightarrow> re \<Rightarrow> gostring \<Rightarrow> caps \<Rightarrow> (gostring \<times> caps) list" where
  "reMatch n Eps s c = [(s, c)]"
| "reMatch n (Cls cs) s c = (case s of [] \<Rightarrow> [] | x # xs \<Rightarrow> if x \<in> set cs then [(xs, c)] else [])"
| "reMatch n (Lit l) s c = (if prefix l s then [(drop (length l) s, c)] else [])"
| "reMatch n (Seq a b) s c = concat (map (\<lambda>(s', c'). reMatch n b s' c') (reMatch n a s c))"
| "reMatch n (Alt a b) s c = reMatch n a s c @ reMatch n b s c"
| "reMatch n (Star r) s c = starMatch (length s) (reMatch n r) s c"
| "reMatch n (Cap k r) s c =
     map (\<lambda>(s', c'). (s', AList.update k (take (length s - length s') s) c')) (reMatch n r s c)"
| "reMatch n Bol s c = (if length s = n then [(s, c)] else [])"
| "reMatch n Eol s c = (if s = [] then [(s, c)] else [])"

text \<open>The leftmost match from here on: its text, what follows it, its groups.\<close>

fun reFind :: "nat \<Rightarrow> re \<Rightarrow> gostring \<Rightarrow> (gostring \<times> gostring \<times> caps) option" where
  "reFind n r s =
     (case reMatch n r s [] of
        (s', c) # _ \<Rightarrow> Some (take (length s - length s') s, s', c)
      | [] \<Rightarrow> (case s of [] \<Rightarrow> None | _ # xs \<Rightarrow> reFind n r xs))"

declare reFind.simps [simp del]

text \<open>\<^verbatim>\<open>FindStringSubmatch\<close>: the groups as a function, an unmatched group being \<^verbatim>\<open>""\<close>.\<close>

definition group :: "caps \<Rightarrow> nat \<Rightarrow> gostring" where
  "group c k = (case map_of c k of None \<Rightarrow> [] | Some s \<Rightarrow> s)"

definition findSubmatch :: "re \<Rightarrow> gostring \<Rightarrow> (gostring \<times> (nat \<Rightarrow> gostring)) option" where
  "findSubmatch r s = map_option (\<lambda>(m, _, c). (m, group c)) (reFind (length s) r s)"

text \<open>
  \<^verbatim>\<open>FindAllStringSubmatch(s, -1)\<close> for the program's patterns, none of which matches the
  empty string: successive leftmost matches, each starting where the previous ended.
\<close>

fun findAllFuel :: "nat \<Rightarrow> nat \<Rightarrow> re \<Rightarrow> gostring \<Rightarrow> (gostring \<times> (nat \<Rightarrow> gostring)) list" where
  "findAllFuel 0 n r s = []"
| "findAllFuel (Suc k) n r s =
     (case reFind n r s of
        None \<Rightarrow> []
      | Some (m, s', c) \<Rightarrow> (m, group c) # (if m = [] then [] else findAllFuel k n r s'))"

definition findAll :: "re \<Rightarrow> gostring \<Rightarrow> (gostring \<times> (nat \<Rightarrow> gostring)) list" where
  "findAll r s = findAllFuel (Suc (length s)) (length s) r s"

definition rePlus :: "re \<Rightarrow> re" where
  "rePlus r = Seq r (Star r)"

definition reOpt :: "re \<Rightarrow> re" where
  "reOpt r = Alt r Eps"

fun reSeqs :: "re list \<Rightarrow> re" where
  "reSeqs [] = Eps"
| "reSeqs [r] = r"
| "reSeqs (r # r' # rs) = Seq r (reSeqs (r' # rs))"

fun reAlts :: "re list \<Rightarrow> re" where
  "reAlts [] = Cls []"
| "reAlts [r] = r"
| "reAlts (r # r' # rs) = Alt r (reAlts (r' # rs))"

section \<open>A match is a piece of the text\<close>

lemma starMatch_suffix:
  assumes "\<And>s c s' c'. (s', c') \<in> set (m s c) \<Longrightarrow> suffix s' s"
  shows "(s', c') \<in> set (starMatch k m s c) \<Longrightarrow> suffix s' s"
proof (induction k arbitrary: s c)
  case 0
  then show ?case by simp
next
  case (Suc k)
  from Suc.prems consider "s' = s"
    | s1 c1 where "(s1, c1) \<in> set (m s c)" "(s', c') \<in> set (starMatch k m s1 c1)"
    by (auto split: if_splits)
  then show ?case
  proof cases
    case 2
    from Suc.IH [OF 2(2)] assms [OF 2(1)] show ?thesis by (rule suffix_order.trans)
  qed simp
qed

lemma reMatch_suffix: "(s', c') \<in> set (reMatch n r s c) \<Longrightarrow> suffix s' s"
proof (induction r arbitrary: s c s' c')
  case (Seq a b)
  from Seq.prems obtain s1 c1 where "(s1, c1) \<in> set (reMatch n a s c)" "(s', c') \<in> set (reMatch n b s1 c1)"
    by auto
  with Seq.IH show ?case by (meson suffix_order.trans)
next
  case (Star r)
  then show ?case using starMatch_suffix [of "reMatch n r"] by auto
next
  case (Cls cs)
  then show ?case by (auto split: list.splits if_splits simp: suffix_Cons)
next
  case (Lit l)
  then show ?case by (auto split: if_splits simp: suffix_drop)
qed (auto split: if_splits)

text \<open>The match, what precedes it and what follows it make up the text.\<close>

lemma reFind_parts: "reFind n r s = Some (m, s', c) \<Longrightarrow> \<exists>p. s = p @ m @ s'"
proof (induction n r s rule: reFind.induct)
  case (1 n r s)
  show ?case
  proof (cases "reMatch n r s []")
    case (Cons x xs)
    obtain s1 c1 where x: "x = (s1, c1)" by (cases x)
    have suf: "suffix s1 s" using reMatch_suffix [of s1 c1 n r s "[]"] Cons x by simp
    from "1.prems" Cons x have eqs: "m = take (length s - length s1) s" "s' = s1"
      by (auto simp: reFind.simps [of n r s])
    from suf obtain p where "s = p @ s1" by (auto simp: suffix_def)
    with eqs show ?thesis by auto
  next
    case Nil
    with "1.prems" obtain y ys where s: "s = y # ys" and rec: "reFind n r ys = Some (m, s', c)"
      by (auto simp: reFind.simps [of n r s] split: list.splits)
    from "1.IH" [OF Nil s rec] obtain p where "ys = p @ m @ s'" ..
    with s show ?thesis by (intro exI [of _ "y # p"]) simp
  qed
qed

end
