(* ===== verification/Helpers.thy ===== *)
theory Helpers imports GoStrings begin

text \<open>
  Pure helpers of \<^verbatim>\<open>internal/galaxy/helpers\<close>: constraint normalisation and the name,
  path, digest and message-safety predicates the rest of the program trusts.
\<close>

section \<open>Constraints\<close>

definition normalizeClause :: "gostring \<Rightarrow> gostring" where
  "normalizeClause part =
     (let p = trimSpace part in
      if hasPrefix p ''=='' \<and> \<not> hasPrefix p ''==='' then ''='' @ drop 2 p else p)"

definition normalizeConstraint :: "gostring \<Rightarrow> gostring" where
  "normalizeConstraint value =
     (let trimmed = trimSpace value in
      if trimmed = [] \<or> trimmed = ''*'' then []
      else if \<not> containsStr trimmed ''=='' then trimmed
      else joinStr (map normalizeClause (splitStr trimmed '','')) '','')"

end
