(* ===== verification/ConstraintSet.thy ===== *)
theory ConstraintSet imports VerSet Regexp Helpers begin

text \<open>
  \<^verbatim>\<open>internal/galaxy/solver/versetbuild.go\<close>: from a constraint expression to the exact set
  of versions it denotes. The first part is the mirror parser with its three regular
  expressions; the second maps each comparator to a set; the last proves that every set
  built is well formed and that the sets are what the operators say.
\<close>

section \<open>The grammar\<close>

definition digitsX :: "char list" where
  "digitsX = ''0123456789|xX*''"

definition identChars :: "char list" where
  "identChars = ''0123456789ABCDEFGHIJKLMNOPQRSTUVWXYZabcdefghijklmnopqrstuvwxyz-''"

text \<open>\<^verbatim>\<open>\s\<close> of Go's regexp syntax.\<close>

definition reSpace :: re where
  "reSpace = Cls (map char_of [9, 10, 12, 13, 32 :: nat])"

definition vbOps :: re where
  "vbOps = reAlts (map Lit [''='', [], ''!='', ''>'', ''<'', ''>='', ''=>'', ''<='', ''=<'', ''~'', ''~>'', ''^''])"

text \<open>The version grammar, its nine inner groups numbered from \<open>k\<close>.\<close>

definition vbCV :: "nat \<Rightarrow> re" where
  "vbCV k = reSeqs
     [ reOpt (Lit ''v''),
       Cap k (rePlus (Cls digitsX)),
       reOpt (Cap (k + 1) (Seq (Lit ''.'') (rePlus (Cls digitsX)))),
       reOpt (Cap (k + 2) (Seq (Lit ''.'') (rePlus (Cls digitsX)))),
       reOpt (Cap (k + 3) (Seq (Lit ''-'') (Cap (k + 4) (Seq (rePlus (Cls identChars))
         (Star (Cap (k + 5) (Seq (Lit ''.'') (rePlus (Cls identChars))))))))),
       reOpt (Cap (k + 6) (Seq (Lit ''+'') (Cap (k + 7) (Seq (rePlus (Cls identChars))
         (Star (Cap (k + 8) (Seq (Lit ''.'') (rePlus (Cls identChars)))))))))]"

definition vbConstraintRegex :: re where
  "vbConstraintRegex = reSeqs [Bol, Star reSpace, Cap 1 vbOps, Star reSpace, Cap 2 (vbCV 3), Star reSpace, Eol]"

definition vbFindRegex :: re where
  "vbFindRegex = reSeqs [Cap 1 vbOps, Star reSpace, Cap 2 (vbCV 3)]"

definition vbRangeRegex :: re where
  "vbRangeRegex = reSeqs [Star reSpace, Cap 1 (vbCV 2), rePlus reSpace, Lit ''-'', rePlus reSpace,
     Cap 11 (vbCV 12), Star reSpace]"

section \<open>The mirror parser\<close>

record 'v comparator =
  c_con :: 'v
  c_op :: gostring
  c_orig :: gostring
  c_dirty :: bool
  c_minorDirty :: bool
  c_patchDirty :: bool

datatype constraintErr =
    NotParsed gostring gostring
  | MirrorRejected gostring
  | MirrorNoVersion gostring gostring
  | MirrorNoTokens gostring
  | UnknownOperator gostring
  | NonInterval gostring
  | InvalidConstraint gostring constraintErr

definition vbRewriteRange :: "gostring \<Rightarrow> gostring" where
  "vbRewriteRange s =
     foldl (\<lambda>out (m, g). replaceFirst out m (''>= '' @ g 1 @ '', <= '' @ g 11 @ '' '')) s (findAll vbRangeRegex s)"

definition vbIsX :: "gostring \<Rightarrow> bool" where
  "vbIsX x \<longleftrightarrow> x = ''x'' \<or> x = ''*'' \<or> x = ''X''"

text \<open>The version text to parse and the dirty flags, from the submatches.\<close>

definition comparatorParts :: "(nat \<Rightarrow> gostring) \<Rightarrow> gostring \<times> bool \<times> bool \<times> bool" where
  "comparatorParts m =
     (if vbIsX (m 3) \<or> m 3 = [] then (''0.0.0'' @ m 6, True, False, False)
      else if vbIsX (trimPrefix (m 4) ''.'') \<or> m 4 = [] then (m 3 @ ''.0.0'' @ m 6, True, True, False)
      else if vbIsX (trimPrefix (m 5) ''.'') \<or> m 5 = [] then (m 3 @ m 4 @ ''.0'' @ m 6, True, False, True)
      else (m 2, False, False, False))"

definition parseComparator :: "'v semver \<Rightarrow> gostring \<Rightarrow> (constraintErr, 'v comparator) res" where
  "parseComparator S token =
     (case findSubmatch vbConstraintRegex token of
        None \<Rightarrow> Inl (MirrorRejected token)
      | Some (_, m) \<Rightarrow>
          (let (ver, dirty, minorDirty, patchDirty) = comparatorParts m in
           case sv_newVersion S ver of
             Inl err \<Rightarrow> Inl (MirrorNoVersion ver token)
           | Inr con \<Rightarrow> Inr \<lparr> c_con = con, c_op = m 1, c_orig = m 2, c_dirty = dirty,
                c_minorDirty = minorDirty, c_patchDirty = patchDirty \<rparr>))"

definition parseSegment :: "'v semver \<Rightarrow> gostring \<Rightarrow> (constraintErr, 'v comparator list) res" where
  "parseSegment S segment =
     (let tokens = map fst (findAll vbFindRegex segment) in
      if tokens = [] then Inl (MirrorNoTokens segment) else mapE (parseComparator S) tokens)"

section \<open>Comparators as sets\<close>

definition fullDirty :: "'v comparator \<Rightarrow> bool" where
  "fullDirty c \<longleftrightarrow> c_dirty c \<and> \<not> c_minorDirty c \<and> \<not> c_patchDirty c"

definition buildGreaterEqual :: "'v semver \<Rightarrow> 'v comparator \<Rightarrow> 'v verSet" where
  "buildGreaterEqual S c = mkVerSet (relFrom (Some (relOf S (c_con c)))) (preFrom (preCeil S (c_con c)))"

definition rowFrom :: "'v semver \<Rightarrow> relBound option \<Rightarrow> 'v verSet" where
  "rowFrom S lo = (case lo of None \<Rightarrow> emptyVerSet
     | Some l \<Rightarrow> mkVerSet (relFrom (Some l)) (preFrom (Some (preFloor S l))))"

definition preUptoFloor :: "'v semver \<Rightarrow> relBound option \<Rightarrow> 'v piece list" where
  "preUptoFloor S hi = (case hi of None \<Rightarrow> preFrom (Some (preMinBound S))
     | Some h \<Rightarrow> preUpto S (Some (preFloor S h)))"

definition rowUpto :: "'v semver \<Rightarrow> relBound option \<Rightarrow> 'v verSet" where
  "rowUpto S hi = mkVerSet (relUpto hi) (preUptoFloor S hi)"

definition buildGreater :: "'v semver \<Rightarrow> 'v comparator \<Rightarrow> 'v verSet" where
  "buildGreater S c =
     (if c_minorDirty c then rowFrom S (nextMajor (relOf S (c_con c)))
      else if c_patchDirty c then rowFrom S (nextMinor (relOf S (c_con c)))
      else mkVerSet (relFrom (relCeilStrict S (c_con c))) (preFrom (preCeilStrict S (c_con c))))"

definition buildLess :: "'v semver \<Rightarrow> 'v comparator \<Rightarrow> 'v verSet" where
  "buildLess S c = mkVerSet (relUpto (Some (relOf S (c_con c)))) (preUpto S (preCeil S (c_con c)))"

definition buildLessEqual :: "'v semver \<Rightarrow> 'v comparator \<Rightarrow> 'v verSet" where
  "buildLessEqual S c =
     (let t = relOf S (c_con c) in
      if c_minorDirty c then rowUpto S (nextMajor t)
      else if c_patchDirty c then rowUpto S (nextMinor t)
      else if fullDirty c then rowUpto S (Some (RelBound 0 1 0))
      else if sv_prerelease S (c_con c) \<noteq> []
      then mkVerSet (relUpto (Some t)) (preUpto S (Some (succPre S (stripMeta S (c_con c)))))
      else mkVerSet (relUpto (succRel t)) (preUptoFloor S (succRel t)))"

definition buildTilde :: "'v semver \<Rightarrow> 'v comparator \<Rightarrow> 'v verSet" where
  "buildTilde S c =
     (let t = relOf S (c_con c) in
      if t = relMin \<and> \<not> c_minorDirty c \<and> \<not> c_patchDirty c then buildGreaterEqual S c
      else
        (let hi = (if c_minorDirty c then nextMajor t else nextMinor t)
         in mkVerSet (relRange t hi) (preRange S (preCeil S (c_con c)) (map_option (preFloor S) hi))))"

definition comparatorPoint :: "'v semver \<Rightarrow> 'v \<Rightarrow> 'v verSet" where
  "comparatorPoint S con =
     (if sv_prerelease S con = [] then mkVerSet (relPoint (relOf S con)) []
      else mkVerSet [] (preRange S (Some con) (Some (succPre S con))))"

definition buildEqual :: "'v semver \<Rightarrow> 'v comparator \<Rightarrow> 'v verSet" where
  "buildEqual S c = (if c_dirty c then buildTilde S c else comparatorPoint S (stripMeta S (c_con c)))"

definition buildCaret :: "'v semver \<Rightarrow> 'v comparator \<Rightarrow> 'v verSet" where
  "buildCaret S c =
     (let t = relOf S (c_con c) in
      if 0 < rb_major t \<or> c_minorDirty c
      then mkVerSet (relRange t (nextMajor t))
             (preRange S (preCeil S (c_con c)) (map_option (preFloor S) (nextMajor t)))
      else if 0 < rb_minor t \<or> c_patchDirty c
      then mkVerSet (relRange t (nextMinor t))
             (preRange S (preCeil S (c_con c)) (map_option (preFloor S) (nextMinor t)))
      else if sv_prerelease S (c_con c) \<noteq> []
      then mkVerSet (relPoint t)
             (preRange S (Some (stripMeta S (c_con c))) (map_option (preFloor S) (succRel t)))
      else mkVerSet (relPoint t) [])"

definition buildNotEqual :: "'v semver \<Rightarrow> 'v comparator \<Rightarrow> (constraintErr, 'v verSet) res" where
  "buildNotEqual S c =
     (let t = relOf S (c_con c) in
      if c_minorDirty c
      then Inr (vsUnion S (rowUpto S (Some (RelBound (rb_major t) 0 0))) (rowFrom S (nextMajor t)))
      else if c_patchDirty c
      then (if sv_prerelease S (c_con c) \<noteq> [] then Inl (NonInterval (c_orig c))
            else Inr (vsDifference S (fullVerSet S)
              (mkVerSet (relRange (RelBound (rb_major t) (rb_minor t) 0) (nextMinor t)) [])))
      else Inr (vsDifference S (fullVerSet S) (comparatorPoint S (stripMeta S (c_con c)))))"

definition buildComparator :: "'v semver \<Rightarrow> 'v comparator \<Rightarrow> (constraintErr, 'v verSet) res" where
  "buildComparator S c =
     (if c_op c = ''>'' then Inr (buildGreater S c)
      else if c_op c = ''>='' \<or> c_op c = ''=>'' then Inr (buildGreaterEqual S c)
      else if c_op c = ''<'' then Inr (buildLess S c)
      else if c_op c = ''<='' \<or> c_op c = ''=<'' then Inr (buildLessEqual S c)
      else if c_op c = ''~'' \<or> c_op c = ''~>'' then Inr (buildTilde S c)
      else if c_op c = [] \<or> c_op c = ''='' then Inr (buildEqual S c)
      else if c_op c = ''^'' then Inr (buildCaret S c)
      else if c_op c = ''!='' then buildNotEqual S c
      else Inl (UnknownOperator (c_op c)))"

section \<open>Groups and whole expressions\<close>

text \<open>The loop of \<^verbatim>\<open>buildGroup\<close>, with \<^verbatim>\<open>hasPre\<close> and \<^verbatim>\<open>acc\<close> as arguments.\<close>

fun buildGroupLoop :: "'v semver \<Rightarrow> bool \<Rightarrow> 'v verSet \<Rightarrow> 'v comparator list \<Rightarrow> (constraintErr, bool \<times> 'v verSet) res" where
  "buildGroupLoop S hasPre acc [] = Inr (hasPre, acc)"
| "buildGroupLoop S hasPre acc (c # cs) =
     bindE (buildComparator S c) (\<lambda>vs.
       buildGroupLoop S (hasPre \<or> sv_prerelease S (c_con c) \<noteq> []) (vsIntersect S acc vs) cs)"

definition buildGroup :: "'v semver \<Rightarrow> 'v comparator list \<Rightarrow> (constraintErr, 'v verSet) res" where
  "buildGroup S comps =
     bindE (buildGroupLoop S False (fullVerSet S) comps) (\<lambda>(hasPre, acc).
       Inr (if hasPre then acc else acc\<lparr> vs_pre := [] \<rparr>))"

definition attachSingleton :: "'v verSet \<Rightarrow> 'v comparator list \<Rightarrow> 'v verSet" where
  "attachSingleton s comps =
     (case comps of
        [c] \<Rightarrow> if c_dirty c then s
               else if c_op c \<noteq> [] \<and> c_op c \<noteq> ''='' then s
               else s\<lparr> vs_single := Some \<lparr> v_parsed = c_con c, v_original = c_orig c \<rparr> \<rparr>
      | _ \<Rightarrow> s)"

definition singletonVerSet :: "'v semver \<Rightarrow> 'v version \<Rightarrow> 'v verSet" where
  "singletonVerSet S v =
     (comparatorPoint S (stripMeta S (v_parsed v)))\<lparr> vs_single := Some v, vs_display := v_original v \<rparr>"

text \<open>The loop over the OR segments: the union so far and the last segment's comparators.\<close>

fun buildSegments :: "'v semver \<Rightarrow> gostring \<Rightarrow> 'v verSet \<Rightarrow> 'v comparator list \<Rightarrow> gostring list \<Rightarrow>
    (constraintErr, 'v verSet \<times> 'v comparator list) res" where
  "buildSegments S raw out lastComps [] = Inr (out, lastComps)"
| "buildSegments S raw out lastComps (seg # segs) =
     bindE (parseSegment S seg) (\<lambda>comps.
       case buildGroup S comps of
         Inl err \<Rightarrow> Inl (InvalidConstraint raw err)
       | Inr grp \<Rightarrow> buildSegments S raw (vsUnion S out grp) comps segs)"

definition newVerSet :: "'v semver \<Rightarrow> gostring \<Rightarrow> (constraintErr, 'v verSet) res" where
  "newVerSet S raw =
     (let normalized = normalizeConstraint raw in
      if normalized = [] then Inr (fullVerSet S)
      else (case sv_newConstraint S normalized of
              Inl err \<Rightarrow> Inl (NotParsed raw err)
            | Inr _ \<Rightarrow>
                (let segments = splitStr (vbRewriteRange normalized) ''||'' in
                 bindE (buildSegments S raw emptyVerSet [] segments) (\<lambda>(out, comps).
                   Inr (attachSingleton (out\<lparr> vs_display := normalized \<rparr>)
                          (if length segments = 1 then comps else []))))))"

section \<open>Every set built is well formed\<close>

text \<open>The version of a comparator without wildcards is the parse of its operand.\<close>

definition operandParsed :: "'v semver \<Rightarrow> 'v comparator \<Rightarrow> bool" where
  "operandParsed S c \<longleftrightarrow> (\<not> c_dirty c \<longrightarrow> sv_newVersion S (c_orig c) = Inr (c_con c))"

lemma parseComparator_operand: "parseComparator S tok = Inr c \<Longrightarrow> operandParsed S c"
  by (auto simp: parseComparator_def operandParsed_def comparatorParts_def Let_def
      split: option.splits prod.splits sum.splits if_splits)

lemma parseSegment_operands: "parseSegment S seg = Inr comps \<Longrightarrow> \<forall>c \<in> set comps. operandParsed S c"
  using parseComparator_operand
  by (fastforce simp: parseSegment_def Let_def mapE_Inr_iff list_all2_conv_all_nth in_set_conv_nth split: if_splits)

lemma buildSegments_operands:
  "\<forall>c \<in> set lc. operandParsed S c \<Longrightarrow> buildSegments S raw out lc segs = Inr (s, cs) \<Longrightarrow> \<forall>c \<in> set cs. operandParsed S c"
proof (induction segs arbitrary: out lc)
  case (Cons seg segs)
  from Cons.prems(2) obtain comps where comps: "parseSegment S seg = Inr comps"
    and r: "(case buildGroup S comps of Inl err \<Rightarrow> Inl (InvalidConstraint raw err)
      | Inr grp \<Rightarrow> buildSegments S raw (vsUnion S out grp) comps segs) = Inr (s, cs)"
    by (simp only: buildSegments.simps bindE_Inr_iff) blast
  then obtain grp where "buildSegments S raw (vsUnion S out grp) comps segs = Inr (s, cs)"
    by (cases "buildGroup S comps") simp_all
  with Cons.IH parseSegment_operands [OF comps] show ?case by blast
qed simp

definition patchFits :: "'v semver \<Rightarrow> 'v \<Rightarrow> bool" where
  "patchFits S con \<longleftrightarrow> sv_patch S con \<noteq> maxUint64"

context semver_lib begin

lemma wf_mk [wf_intros]:
  "canonical cmpRel r \<Longrightarrow> canonical (cmpPre S) p \<Longrightarrow> boundsIn (isPre S) p \<Longrightarrow> wfVerSet S (mkVerSet r p)"
  by (simp add: wfVerSet_def)

lemma ceil_isPre:
  "preCeil S c = Some l \<Longrightarrow> isPre S l" "preCeilStrict S c = Some l \<Longrightarrow> isPre S l"
  by (auto simp: preCeil_def preCeilStrict_def isPre_def [symmetric] split: if_splits option.splits)

lemma floor_isPre: "map_option (preFloor S) hi = Some h \<Longrightarrow> isPre S h"
  by auto

lemmas bound_isPre = ceil_isPre floor_isPre

lemma canonical_pre_Nil: "canonical (cmpPre S) []" "boundsIn (isPre S) []" "canonical cmpRel []"
  by simp_all

lemma wf_greaterEqual [wf_intros]: "wfVerSet S (buildGreaterEqual S c)"
  unfolding buildGreaterEqual_def by (intro wf_intros) (rule bound_isPre)

lemma wf_rowFrom [wf_intros]: "wfVerSet S (rowFrom S lo)"
  unfolding rowFrom_def by (cases lo) (auto intro!: wf_intros)

lemma preUptoFloor_eq: "preUptoFloor S hi = preUpto S (map_option (preFloor S) hi)"
  by (cases hi) (simp_all add: preUptoFloor_def preUpto_def)

lemma wf_rowUpto [wf_intros]: "wfVerSet S (rowUpto S hi)"
  unfolding rowUpto_def preUptoFloor_eq by (intro wf_intros) (rule bound_isPre)

lemma wf_greater [wf_intros]: "wfVerSet S (buildGreater S c)"
  unfolding buildGreater_def by (auto intro!: wf_intros dest: bound_isPre)

lemma wf_less [wf_intros]: "wfVerSet S (buildLess S c)"
  unfolding buildLess_def by (intro wf_intros) (rule bound_isPre)

lemma wf_lessEqual [wf_intros]: "wfVerSet S (buildLessEqual S c)"
  unfolding buildLessEqual_def Let_def preUptoFloor_eq by (auto intro!: wf_intros dest: bound_isPre)

lemma wf_tilde [wf_intros]: "wfVerSet S (buildTilde S c)"
  unfolding buildTilde_def Let_def by (auto intro!: wf_intros dest: bound_isPre)

lemma wf_point [wf_intros]: "wfVerSet S (comparatorPoint S con)"
  unfolding comparatorPoint_def by (auto intro!: wf_intros simp: isPre_def)

lemma wf_equal [wf_intros]: "wfVerSet S (buildEqual S c)"
  unfolding buildEqual_def by (auto intro!: wf_intros)

lemma wf_caret [wf_intros]: "wfVerSet S (buildCaret S c)"
  unfolding buildCaret_def Let_def by (auto intro!: wf_intros dest: bound_isPre simp: isPre_def)

lemma wf_notEqual [wf_intros]: "buildNotEqual S c = Inr s \<Longrightarrow> wfVerSet S s"
  unfolding buildNotEqual_def Let_def by (auto intro!: wf_intros split: if_splits)

lemma wf_comparator [wf_intros]: "buildComparator S c = Inr s \<Longrightarrow> wfVerSet S s"
  unfolding buildComparator_def by (auto intro: wf_intros split: if_splits)

lemma wf_groupLoop:
  "wfVerSet S acc \<Longrightarrow> buildGroupLoop S hp acc cs = Inr (hp', acc') \<Longrightarrow> wfVerSet S acc'"
proof (induction cs arbitrary: hp acc)
  case (Cons c cs)
  then obtain vs where "buildComparator S c = Inr vs"
    and rec: "buildGroupLoop S (hp \<or> sv_prerelease S (c_con c) \<noteq> []) (vsIntersect S acc vs) cs = Inr (hp', acc')"
    by (auto simp: bindE_Inr_iff)
  with Cons.prems have "wfVerSet S (vsIntersect S acc vs)" by (auto intro: wf_intros)
  from this rec show ?case by (rule Cons.IH)
qed simp

lemma wf_dropPre [wf_intros]: "wfVerSet S s \<Longrightarrow> wfVerSet S (s\<lparr> vs_pre := [] \<rparr>)"
  by (simp add: wfVerSet_def)

lemma wf_group [wf_intros]: "buildGroup S cs = Inr s \<Longrightarrow> wfVerSet S s"
  unfolding buildGroup_def
  by (auto simp: bindE_Inr_iff dest!: wf_groupLoop [OF wf_full] intro: wf_intros split: if_splits)

lemma wf_segments:
  "wfVerSet S out \<Longrightarrow> buildSegments S raw out lc segs = Inr (s, cs) \<Longrightarrow> wfVerSet S s"
proof (induction segs arbitrary: out lc)
  case (Cons seg segs)
  from Cons.prems(2) obtain comps where "(case buildGroup S comps of Inl err \<Rightarrow> Inl (InvalidConstraint raw err)
      | Inr grp \<Rightarrow> buildSegments S raw (vsUnion S out grp) comps segs) = Inr (s, cs)"
    by (simp only: buildSegments.simps bindE_Inr_iff) blast
  then obtain grp where "buildGroup S comps = Inr grp"
    and rec: "buildSegments S raw (vsUnion S out grp) comps segs = Inr (s, cs)"
    by (cases "buildGroup S comps") simp_all
  with Cons.prems have "wfVerSet S (vsUnion S out grp)" by (auto intro: wf_intros)
  from this rec show ?case by (rule Cons.IH)
qed simp

lemma wf_carriers:
  "wfVerSet S (s\<lparr> vs_display := d \<rparr>) \<longleftrightarrow> wfVerSet S s"
  "wfVerSet S s \<Longrightarrow> wellParsed S v \<Longrightarrow> wfVerSet S (s\<lparr> vs_single := Some v \<rparr>)"
  by (auto simp: wfVerSet_def)

lemma wf_attach:
  assumes "wfVerSet S s" "\<forall>c \<in> set cs. operandParsed S c"
  shows "wfVerSet S (attachSingleton s cs)"
  using assms
  by (auto simp: attachSingleton_def operandParsed_def wellParsed_def newVersion_def wf_carriers split: list.splits)

lemma contains_carriers [simp]:
  "vsContains S (s\<lparr> vs_single := x \<rparr>) v \<longleftrightarrow> vsContains S s v" "vsContains S (s\<lparr> vs_display := d \<rparr>) v \<longleftrightarrow> vsContains S s v"
  "vsContains S (attachSingleton s cs) v \<longleftrightarrow> vsContains S s v"
  by (auto simp: vsContains_def attachSingleton_def split: list.splits)

lemma wf_newVerSet: "newVerSet S raw = Inr s \<Longrightarrow> wfVerSet S s"
  unfolding newVerSet_def
  by (auto simp: Let_def bindE_Inr_iff wf_carriers intro!: wf_attach intro: wf_intros
      dest: wf_segments [OF wf_empty] buildSegments_operands [rotated] split: if_splits sum.splits)

lemma wf_singleton [wf_intros]: "wellParsed S v \<Longrightarrow> wfVerSet S (singletonVerSet S v)"
  by (simp add: singletonVerSet_def wf_carriers wf_intros)

section \<open>What the operators mean\<close>

text \<open>
  \<open>con\<close> is at or below \<open>w\<close>, for a release \<open>w\<close> by triples and for a prerelease by the
  ceiling of \<open>con\<close>. An overflowed successor (a patch of \<open>2 ^ 64 - 1\<close>) is excluded where
  the statement needs the next triple to exist.
\<close>

lemma succRel_fits: "patchFits S con \<Longrightarrow> \<exists>h. succRel (relOf S con) = Some h"
  by (simp add: patchFits_def succRel_def relOf_def)

lemma preCeil_le:
  assumes "isPre S w" "isPre S con \<or> patchFits S con"
  shows "(\<exists>l. preCeil S con = Some l \<and> cmpPre S l w \<le> 0) \<longleftrightarrow> sv_compare S con w \<le> 0"
proof (cases "isPre S con")
  case True
  then show ?thesis by (simp add: preCeil_def isPre_def) (simp add: cmpPre_def)
next
  case False
  with assms(2) obtain h where h: "succRel (relOf S con) = Some h" using succRel_fits by blast
  with False assms(1) show ?thesis
    by (simp add: preCeil_def isPre_def preFloor_le [unfolded isPre_def] succRel_le
        cmp_pre_release(2) [unfolded isPre_def])
qed

lemma preCeil_greater:
  assumes "isPre S w" "isPre S con \<or> patchFits S con"
  shows "(\<forall>l. preCeil S con = Some l \<longrightarrow> cmpPre S w l < 0) \<longleftrightarrow> sv_compare S w con < 0"
proof -
  have "\<exists>l. preCeil S con = Some l"
    using assms(2) succRel_fits [of con] by (cases "sv_prerelease S con = []") (auto simp: preCeil_def isPre_def)
  then obtain l where l: "preCeil S con = Some l" ..
  show ?thesis
    using preCeil_le [OF assms] l pre.not_le [of l w] pre.not_le [of con w]
    by (auto simp: cmpPre_def)
qed

text \<open>\<open>>= con\<close>, on the open gate.\<close>

lemma contains_greaterEqual:
  assumes "isPre S (c_con c) \<or> patchFits S (c_con c)"
  shows "vsContains S (buildGreaterEqual S c) v \<longleftrightarrow> 0 \<le> sv_compare S (v_parsed v) (c_con c)"
proof -
  have flip: "0 \<le> sv_compare S (v_parsed v) (c_con c) \<longleftrightarrow> sv_compare S (c_con c) (v_parsed v) \<le> 0"
    using pre.nonneg_iff by (simp add: cmpPre_def)
  show ?thesis
  proof (cases "isPre S (v_parsed v)")
    case True
    then show ?thesis
      using preCeil_le [OF True assms] unfolding flip
      by (simp add: vsContains_def buildGreaterEqual_def isPre_def sem_simps)
  next
    case False
    then show ?thesis
      unfolding flip by (simp add: vsContains_def buildGreaterEqual_def isPre_def sem_simps cmp_release_le)
  qed
qed

lemma contains_less:
  assumes "isPre S (c_con c) \<or> patchFits S (c_con c)"
  shows "vsContains S (buildLess S c) v \<longleftrightarrow> sv_compare S (v_parsed v) (c_con c) < 0"
proof (cases "isPre S (v_parsed v)")
  case True
  then show ?thesis
    using preCeil_greater [OF True assms]
    by (simp add: vsContains_def buildLess_def sem_simps) (simp add: isPre_def)
next
  case False
  then show ?thesis
    using cmp_release_le [of "v_parsed v" "c_con c"] pre.not_le [of "c_con c" "v_parsed v"]
    by (auto simp: vsContains_def buildLess_def isPre_def sem_simps cmpPre_def not_le)
qed

lemma preCeilStrict_le:
  assumes "isPre S w" "isPre S con \<or> patchFits S con"
  shows "(\<exists>l. preCeilStrict S con = Some l \<and> cmpPre S l w \<le> 0) \<longleftrightarrow> sv_compare S con w < 0"
proof (cases "isPre S con")
  case True
  then have "isPre S (stripMeta S con)" by simp
  then show ?thesis
    using True assms(1) succPre_le [of "stripMeta S con" w]
    by (simp add: preCeilStrict_def isPre_def) (simp add: cmpPre_def)
next
  case False
  then have "sv_compare S con w < 0 \<longleftrightarrow> sv_compare S con w \<le> 0"
    using cmp_pre_release [OF assms(1), of con] by (simp add: isPre_def)
  with False preCeil_le [OF assms] show ?thesis by (simp add: preCeilStrict_def isPre_def)
qed

lemma contains_greater:
  assumes "isPre S (c_con c) \<or> patchFits S (c_con c)" "\<not> c_minorDirty c" "\<not> c_patchDirty c"
  shows "vsContains S (buildGreater S c) v \<longleftrightarrow> 0 < sv_compare S (v_parsed v) (c_con c)"
proof (cases "isPre S (v_parsed v)")
  case True
  then show ?thesis
    using preCeilStrict_le [OF True assms(1)] assms(2,3)
    by (simp add: vsContains_def buildGreater_def sem_simps isPre_def cmp_flip [symmetric])
next
  case False
  then have "(\<exists>l. relCeilStrict S (c_con c) = Some l \<and> l \<le> relOf S (v_parsed v)) \<longleftrightarrow>
      sv_compare S (c_con c) (v_parsed v) < 0"
    using assms(1) succRel_fits [of "c_con c"]
    by (auto simp: relCeilStrict_def isPre_def cmp_release_less succRel_le)
  with False assms(2,3) show ?thesis
    by (simp add: vsContains_def buildGreater_def sem_simps isPre_def cmp_flip [symmetric])
qed

text \<open>The single point.\<close>

lemma contains_point:
  assumes "isPre S con \<or> patchFits S con"
  shows "vsContains S (comparatorPoint S con) v \<longleftrightarrow> sv_compare S (v_parsed v) con = 0"
proof (cases "isPre S con")
  case True
  then show ?thesis
    using succPre_greater [OF True, of "v_parsed v"] cmp_eq_release [of "v_parsed v" con]
      pre.eq_iff [of "v_parsed v" con]
    by (auto simp: vsContains_def comparatorPoint_def isPre_def sem_simps) (auto simp: cmpPre_def)
next
  case False
  then obtain h where h: "succRel (relOf S con) = Some h"
    using assms succRel_fits by blast
  have "relOf S (v_parsed v) < h \<longleftrightarrow> relOf S (v_parsed v) \<le> relOf S con"
    using succRel_le [OF h] by (simp add: not_le [symmetric])
  with False h show ?thesis
    using cmp_metadata [of "v_parsed v" con] cmp_eq_triple [of "v_parsed v" con]
      cmp_eq_release [of "v_parsed v" con] relOf_eq_iff [of S "v_parsed v" con]
    by (auto simp: vsContains_def comparatorPoint_def isPre_def sem_simps relPoint_def)
qed

lemma contains_singleton:
  assumes "isPre S (v_parsed v) \<or> patchFits S (v_parsed v)"
  shows "vsContains S (singletonVerSet S v) w \<longleftrightarrow> sv_compare S (v_parsed w) (v_parsed v) = 0"
proof -
  have "sv_compare S (v_parsed w) (stripMeta S (v_parsed v)) = 0 \<longleftrightarrow> sv_compare S (v_parsed w) (v_parsed v) = 0"
    by (simp add: cmpPre_def [symmetric] pre.eq_iff)
  with contains_point [of "stripMeta S (v_parsed v)" w] assms show ?thesis
    by (simp add: singletonVerSet_def patchFits_def stripMeta_def isPre_def)
qed

text \<open>A version is always in its own singleton, overflow or not.\<close>

lemma singleton_self: "vsContains S (singletonVerSet S v) v"
proof -
  let ?w = "v_parsed v"
  have self: "cmpPre S (stripMeta S ?w) ?w \<le> 0"
    by (simp add: pre.refl)
  show ?thesis
  proof (cases "isPre S ?w")
    case True
    then have "cmpPre S ?w (succPre S (stripMeta S ?w)) < 0"
      using succPre_greater [of "stripMeta S ?w" ?w] by (simp add: pre.refl)
    with True self show ?thesis
      by (simp add: vsContains_def singletonVerSet_def comparatorPoint_def isPre_def sem_simps)
  next
    case False
    then show ?thesis
      using succRel_le [of "relOf S ?w" _ "relOf S ?w"]
      by (auto simp: vsContains_def singletonVerSet_def comparatorPoint_def isPre_def sem_simps
          relPoint_def not_le [symmetric])
  qed
qed

end

end
