(* ===== verification/Term.thy ===== *)
theory Term imports ConstraintSet begin

text \<open>
  \<^verbatim>\<open>internal/galaxy/solver/term.go\<close>: signed statements about one package over exact
  version sets, and the published universe of a package. The semantics of a term is a
  predicate on selections (partial maps from packages to versions); the lemmas say that
  the signed operations are the logical ones and that the three-valued relation of a term
  to an accumulation is exact.
\<close>

section \<open>Terms\<close>

record 'v solverTerm =
  t_pkg :: gostring
  t_set :: "'v verSet"
  t_pos :: bool

definition mkTerm :: "gostring \<Rightarrow> 'v verSet \<Rightarrow> bool \<Rightarrow> 'v solverTerm" where
  "mkTerm pkg s pos = \<lparr> t_pkg = pkg, t_set = s, t_pos = pos \<rparr>"

lemma mkTerm_sel [simp]: "t_pkg (mkTerm p s b) = p" "t_set (mkTerm p s b) = s" "t_pos (mkTerm p s b) = b"
  by (simp_all add: mkTerm_def)

definition negate :: "'v solverTerm \<Rightarrow> 'v solverTerm" where
  "negate t = mkTerm (t_pkg t) (t_set t) (\<not> t_pos t)"

definition accumSeed :: "gostring \<Rightarrow> 'v solverTerm" where
  "accumSeed pkg = mkTerm pkg emptyVerSet False"

definition termIntersect :: "'v semver \<Rightarrow> 'v solverTerm \<Rightarrow> 'v solverTerm \<Rightarrow> 'v solverTerm" where
  "termIntersect S a b =
     (if \<not> t_pos a \<and> vsIsEmpty (t_set a) then b
      else if \<not> t_pos b \<and> vsIsEmpty (t_set b) then a
      else if t_pos a \<and> t_pos b then mkTerm (t_pkg a) (vsIntersect S (t_set a) (t_set b)) True
      else if t_pos a then mkTerm (t_pkg a) (vsDifference S (t_set a) (t_set b)) True
      else if t_pos b then mkTerm (t_pkg a) (vsDifference S (t_set b) (t_set a)) True
      else mkTerm (t_pkg a) (vsUnion S (t_set a) (t_set b)) False)"

definition termSubset :: "'v semver \<Rightarrow> 'v solverTerm \<Rightarrow> 'v solverTerm \<Rightarrow> bool" where
  "termSubset S a b =
     (if t_pos a \<and> t_pos b then vsSubsetOf S (t_set a) (t_set b)
      else if t_pos a then vsDisjointFrom S (t_set a) (t_set b)
      else if t_pos b then False
      else vsSubsetOf S (t_set b) (t_set a))"

datatype termRelation = TermInconclusive | TermSatisfied | TermContradicted

definition relateAccum :: "'v semver \<Rightarrow> 'v solverTerm \<Rightarrow> 'v solverTerm \<Rightarrow> termRelation" where
  "relateAccum S accum t =
     (if termSubset S accum t then TermSatisfied
      else let joint = termIntersect S accum t in
        if t_pos joint \<and> vsIsEmpty (t_set joint) then TermContradicted else TermInconclusive)"

definition termPermits :: "'v semver \<Rightarrow> 'v solverTerm \<Rightarrow> 'v version \<Rightarrow> bool" where
  "termPermits S t v \<longleftrightarrow> vsContains S (t_set t) v = t_pos t"

definition termIsTautological :: "'v solverTerm \<Rightarrow> bool" where
  "termIsTautological t \<longleftrightarrow> \<not> t_pos t \<and> vsIsEmpty (t_set t)"

definition sameVersionSet :: "'v semver \<Rightarrow> 'v verSet \<Rightarrow> 'v verSet \<Rightarrow> bool" where
  "sameVersionSet S a b = vsEqualSet S a b"

definition sameTerm :: "'v semver \<Rightarrow> 'v solverTerm \<Rightarrow> 'v solverTerm \<Rightarrow> bool" where
  "sameTerm S a b \<longleftrightarrow> t_pkg a = t_pkg b \<and> t_pos a = t_pos b \<and> sameVersionSet S (t_set a) (t_set b)"

section \<open>Universes\<close>

definition compareVersionsDescending :: "'v semver \<Rightarrow> 'v version \<Rightarrow> 'v version \<Rightarrow> int" where
  "compareVersionsDescending S a b =
     (let c = sv_compare S (v_parsed b) (v_parsed a) in
      if c \<noteq> 0 then c
      else if v_original b < v_original a then -1
      else if v_original a < v_original b then 1
      else 0)"

fun dedupOriginals :: "gostring list \<Rightarrow> 'v version list \<Rightarrow> 'v version list" where
  "dedupOriginals seen [] = []"
| "dedupOriginals seen (v # vs) =
     (if v_original v \<in> set seen then dedupOriginals seen vs
      else v # dedupOriginals (v_original v # seen) vs)"

definition buildUniverse :: "'v semver \<Rightarrow> 'v version list \<Rightarrow> 'v version list" where
  "buildUniverse S versions = sortBy (compareVersionsDescending S) (dedupOriginals [] versions)"

record 'v packageUniverse =
  u_versions :: "'v version list"
  u_fetched :: bool

definition newPackageUniverse :: "'v packageUniverse" where
  "newPackageUniverse = \<lparr> u_versions = [], u_fetched = False \<rparr>"

definition setVersions :: "'v packageUniverse \<Rightarrow> 'v version list \<Rightarrow> 'v packageUniverse" where
  "setVersions u versions = u\<lparr> u_versions := versions, u_fetched := True \<rparr>"

section \<open>The meaning of a term\<close>

text \<open>A selection gives each selected package one version.\<close>

type_synonym 'v selection = "gostring \<rightharpoonup> 'v version"

definition holds :: "'v semver \<Rightarrow> 'v selection \<Rightarrow> 'v solverTerm \<Rightarrow> bool" where
  "holds S \<sigma> t \<longleftrightarrow>
     (case \<sigma> (t_pkg t) of None \<Rightarrow> \<not> t_pos t | Some v \<Rightarrow> vsContains S (t_set t) v = t_pos t)"

abbreviation wfTerm :: "'v semver \<Rightarrow> 'v solverTerm \<Rightarrow> bool" where
  "wfTerm S t \<equiv> wfVerSet S (t_set t)"

definition jointlyEmpty :: "'v solverTerm \<Rightarrow> bool" where
  "jointlyEmpty t \<longleftrightarrow> t_pos t \<and> vsIsEmpty (t_set t)"

lemma negate_sel [simp]:
  "t_pkg (negate t) = t_pkg t" "t_set (negate t) = t_set t" "t_pos (negate t) \<longleftrightarrow> \<not> t_pos t"
  by (simp_all add: negate_def)

lemma negate_negate [simp]: "negate (negate t) = t"
  by (simp add: negate_def mkTerm_def)

lemma accumSeed_sel [simp]:
  "t_pkg (accumSeed p) = p" "t_set (accumSeed p) = emptyVerSet" "\<not> t_pos (accumSeed p)"
  by (simp_all add: accumSeed_def)

lemma holds_negate: "holds S \<sigma> (negate t) \<longleftrightarrow> \<not> holds S \<sigma> t"
  by (auto simp: holds_def split: option.splits)

lemma holds_permits: "\<sigma> (t_pkg t) = Some v \<Longrightarrow> holds S \<sigma> t \<longleftrightarrow> termPermits S t v"
  by (simp add: holds_def termPermits_def)

lemma termIntersect_pkg: "t_pkg a = t_pkg b \<Longrightarrow> t_pkg (termIntersect S a b) = t_pkg a"
  by (simp add: termIntersect_def)

lemma isEmpty_contains: "vsIsEmpty s \<Longrightarrow> \<not> vsContains S s v"
  by (simp add: vsIsEmpty_def vsContains_def)

context semver_lib begin

lemma wfTerm_seed [wf_intros]: "wfTerm S (accumSeed p)"
  by (simp add: wf_intros)

lemma wfTerm_intersect [wf_intros]: "wfTerm S a \<Longrightarrow> wfTerm S b \<Longrightarrow> wfTerm S (termIntersect S a b)"
  by (simp add: termIntersect_def wf_intros)

lemma holds_seed: "holds S \<sigma> (accumSeed p)"
  by (auto simp: holds_def sem_simps split: option.splits)

lemma holds_intersect:
  assumes "wfTerm S a" "wfTerm S b" "t_pkg a = t_pkg b"
  shows "holds S \<sigma> (termIntersect S a b) \<longleftrightarrow> holds S \<sigma> a \<and> holds S \<sigma> b"
  using assms
  by (auto simp: holds_def termIntersect_def sem_simps isEmpty_contains split: option.splits)

lemma permits_intersect:
  assumes "wfTerm S a" "wfTerm S b"
  shows "termPermits S (termIntersect S a b) v \<longleftrightarrow> termPermits S a v \<and> termPermits S b v"
  using assms by (auto simp: termPermits_def termIntersect_def sem_simps isEmpty_contains)

lemma termSubset_holds:
  assumes "wfTerm S a" "wfTerm S b" "t_pkg a = t_pkg b" "termSubset S a b" "holds S \<sigma> a"
  shows "holds S \<sigma> b"
  using assms
  by (auto simp: holds_def termSubset_def subset_iff disjoint_iff split: option.splits if_splits)

text \<open>Entailment is exact: the selection with the package absent separates the polarities.\<close>

lemma termSubset_iff:
  assumes "wfTerm S a" "wfTerm S b" "t_pkg a = t_pkg b"
  shows "termSubset S a b \<longleftrightarrow> (\<forall>\<sigma>. holds S \<sigma> a \<longrightarrow> holds S \<sigma> b)"
proof
  show "termSubset S a b \<Longrightarrow> \<forall>\<sigma>. holds S \<sigma> a \<longrightarrow> holds S \<sigma> b"
    using termSubset_holds [OF assms] by blast
  assume ent: "\<forall>\<sigma>. holds S \<sigma> a \<longrightarrow> holds S \<sigma> b"
  have absent: "\<not> t_pos a \<longrightarrow> \<not> t_pos b"
    using spec [OF ent, of Map.empty] by (simp add: holds_def)
  have "vsContains S (t_set a) v = t_pos a \<longrightarrow> vsContains S (t_set b) v = t_pos b" for v
    using spec [OF ent, of "\<lambda>_. Some v"] by (simp add: holds_def)
  then show "termSubset S a b"
    using absent assms by (auto simp: termSubset_def subset_iff disjoint_iff)
qed

lemma unsatisfiable_iff:
  assumes "wfTerm S t"
  shows "jointlyEmpty t \<longleftrightarrow> (\<forall>\<sigma>. \<not> holds S \<sigma> t)"
proof
  assume "jointlyEmpty t"
  then show "\<forall>\<sigma>. \<not> holds S \<sigma> t"
    by (auto simp: jointlyEmpty_def holds_def isEmpty_contains split: option.splits)
next
  assume none: "\<forall>\<sigma>. \<not> holds S \<sigma> t"
  have "t_pos t" using spec [OF none, of Map.empty] by (simp add: holds_def)
  moreover have "vsContains S (t_set t) v \<noteq> t_pos t" for v
    using spec [OF none, of "\<lambda>_. Some v"] by (simp add: holds_def)
  ultimately show "jointlyEmpty t"
    using assms by (simp add: jointlyEmpty_def isEmpty_iff)
qed

lemma sameTerm_iff:
  assumes "wfTerm S a" "wfTerm S b"
  shows "sameTerm S a b \<longleftrightarrow> t_pkg a = t_pkg b \<and> t_pos a = t_pos b \<and>
           (\<forall>v. vsContains S (t_set a) v = vsContains S (t_set b) v)"
  using assms by (simp add: sameTerm_def sameVersionSet_def equal_iff)

lemma sameTerm_holds:
  "wfTerm S a \<Longrightarrow> wfTerm S b \<Longrightarrow> sameTerm S a b \<Longrightarrow> holds S \<sigma> a \<longleftrightarrow> holds S \<sigma> b"
  by (auto simp: sameTerm_iff holds_def split: option.splits)

lemma totalCmp_versions: "totalCmp (compareVersionsDescending S)"
  unfolding totalCmp_def
proof (intro conjI allI impI)
  fix x y z :: "'v version"
  let ?c = "\<lambda>a b. sv_compare S (v_parsed b) (v_parsed a)"
  have le: "compareVersionsDescending S a b \<le> 0 \<longleftrightarrow>
      ?c a b < 0 \<or> ?c a b = 0 \<and> v_original b \<le> v_original a" for a b
    by (auto simp: compareVersionsDescending_def Let_def)
  show "compareVersionsDescending S x y \<le> 0 \<or> compareVersionsDescending S y x \<le> 0"
    using cmp_flip [of "v_parsed x" "v_parsed y"] cmp_flip [of "v_parsed y" "v_parsed x"]
    by (auto simp: le)
  assume "compareVersionsDescending S x y \<le> 0" "compareVersionsDescending S y z \<le> 0"
  then show "compareVersionsDescending S x z \<le> 0"
    using pre.less_le_trans [of "v_parsed z" "v_parsed y" "v_parsed x"]
      pre.le_less_trans [of "v_parsed z" "v_parsed y" "v_parsed x"]
      pre.trans [of "v_parsed z" "v_parsed y" "v_parsed x"]
      pre.trans [of "v_parsed x" "v_parsed y" "v_parsed z"]
      cmp_eq_sym [of "v_parsed y" "v_parsed x"] cmp_eq_sym [of "v_parsed z" "v_parsed y"]
      cmp_flip [of "v_parsed x" "v_parsed z"]
    by (auto simp: le cmpPre_def)
qed

end

section \<open>Deduplication\<close>

lemma dedup_originals:
  "set (map v_original (dedupOriginals seen vs)) = v_original ` set vs - set seen"
  by (induction seen vs rule: dedupOriginals.induct) auto

lemma dedup_subset: "set (dedupOriginals seen vs) \<subseteq> set vs"
  by (induction seen vs rule: dedupOriginals.induct) auto

lemma dedup_distinct: "distinct (map v_original (dedupOriginals seen vs))"
proof (induction seen vs rule: dedupOriginals.induct)
  case (2 seen v vs)
  have "v_original v \<notin> v_original ` set (dedupOriginals (v_original v # seen) vs)"
    using dedup_originals [of "v_original v # seen" vs] by auto
  with 2 show ?case by auto
qed simp

lemma set_buildUniverse: "set (buildUniverse S vs) \<subseteq> set vs"
  using dedup_subset [of "[]" vs] by (simp add: buildUniverse_def)

lemma dedup_id:
  "distinct (map v_original vs) \<Longrightarrow> v_original ` set vs \<inter> set seen = {} \<Longrightarrow> dedupOriginals seen vs = vs"
  by (induction seen vs rule: dedupOriginals.induct) auto

lemma set_buildUniverse_distinct:
  "distinct (map v_original vs) \<Longrightarrow> set (buildUniverse S vs) = set vs"
  by (simp add: buildUniverse_def dedup_id)

end
