(* ===== verification/Incompat.thy ===== *)
theory Incompat imports Term begin

text \<open>
  \<^verbatim>\<open>internal/galaxy/solver/incompat.go\<close>: incompatibilities with their causes, the
  normalisation of a term list, and the append-only store. An incompatibility is a heap
  object of the program, compared by pointer in the report: \<open>inc_id\<close> is that identity,
  handed out by the solve state's allocation counter. The lemmas: normalisation sorts by
  package, leaves one term per package and keeps the conjunction; the store deduplicates
  and its package index is exact.
\<close>

section \<open>Causes and incompatibilities\<close>

datatype 'v cause =
    CauseRoot
  | CauseDependency (cd_parentVersion: "'v version") (cd_parent: gostring) (cd_dep: gostring) (cd_constraint: gostring)
  | CauseNoVersions "'v solverTerm"
  | CauseUnknownPackage gostring
  | CauseConflict (cc_left: "'v incompat") (cc_right: "'v incompat")
and 'v incompat =
    Incompat (inc_id: nat) (inc_cause: "'v cause") (inc_terms: "'v solverTerm list")

text \<open>The constant of \<^verbatim>\<open>provider.go\<close>: a leading NUL sorts the synthetic root first.\<close>

definition rootPkg :: gostring where
  "rootPkg = CHR 0x00 # ''root''"

definition isTerminal :: "'v incompat \<Rightarrow> bool" where
  "isTerminal inc \<longleftrightarrow> inc_terms inc = [] \<or>
     (length (inc_terms inc) = 1 \<and> t_pos (hd (inc_terms inc)) \<and> t_pkg (hd (inc_terms inc)) = rootPkg)"

definition termForPackage :: "'v incompat \<Rightarrow> gostring \<Rightarrow> 'v solverTerm option" where
  "termForPackage inc pkg = find (\<lambda>t. t_pkg t = pkg) (inc_terms inc)"

section \<open>Normalisation\<close>

definition comparePackageAsc :: "'v solverTerm \<Rightarrow> 'v solverTerm \<Rightarrow> int" where
  "comparePackageAsc a b =
     (if t_pkg a < t_pkg b then -1 else if t_pkg b < t_pkg a then 1 else 0)"

definition mergeTermGroup :: "'v semver \<Rightarrow> 'v solverTerm list \<Rightarrow> 'v solverTerm" where
  "mergeTermGroup S grp =
     (if length grp = 1 then hd grp else foldl (termIntersect S) (hd grp) (tl grp))"

definition dropPositiveRoot :: "'v solverTerm list \<Rightarrow> 'v solverTerm list" where
  "dropPositiveRoot terms = filter (\<lambda>t. \<not> (t_pos t \<and> t_pkg t = rootPkg)) terms"

definition dropTautological :: "'v solverTerm list \<Rightarrow> 'v solverTerm list" where
  "dropTautological terms =
     (let out = filter (\<lambda>t. \<not> termIsTautological t) terms in if out = [] then terms else out)"

text \<open>\<open>order\<close>: the packages in order of first occurrence; the grp of one is a filter.\<close>

fun pkgOrder :: "gostring list \<Rightarrow> 'v solverTerm list \<Rightarrow> gostring list" where
  "pkgOrder seen [] = []"
| "pkgOrder seen (t # ts) =
     (if t_pkg t \<in> set seen then pkgOrder seen ts else t_pkg t # pkgOrder (t_pkg t # seen) ts)"

definition termGroup :: "'v solverTerm list \<Rightarrow> gostring \<Rightarrow> 'v solverTerm list" where
  "termGroup terms pkg = filter (\<lambda>t. t_pkg t = pkg) terms"

definition normalizeTerms :: "'v semver \<Rightarrow> 'v solverTerm list \<Rightarrow> 'v solverTerm list" where
  "normalizeTerms S terms =
     (let merged = sortBy comparePackageAsc
            (map (\<lambda>pkg. mergeTermGroup S (termGroup terms pkg)) (pkgOrder [] terms));
          merged = (if 1 < length merged then dropPositiveRoot merged else merged)
      in if 1 < length merged then dropTautological merged else merged)"

section \<open>The store\<close>

text \<open>
  \<^verbatim>\<open>byPkg\<close> and \<^verbatim>\<open>content\<close> are read with Go's zero value (the empty slice) for an absent
  key: total functions.
\<close>

record 'v incompatStore =
  st_byPkg :: "gostring \<Rightarrow> nat list"
  st_content :: "u64 \<Rightarrow> nat list"
  st_all :: "'v incompat list"

definition newIncompatStore :: "'v incompatStore" where
  "newIncompatStore = \<lparr> st_byPkg = (\<lambda>_. []), st_content = (\<lambda>_. []), st_all = [] \<rparr>"

definition incompatEqual :: "'v semver \<Rightarrow> 'v incompat \<Rightarrow> 'v incompat \<Rightarrow> bool" where
  "incompatEqual S a b \<longleftrightarrow> list_all2 (sameTerm S) (inc_terms a) (inc_terms b)"

text \<open>64-bit FNV-1a of \<^verbatim>\<open>hash/fnv\<close>.\<close>

definition fnv1a :: "gostring \<Rightarrow> u64" where
  "fnv1a s = foldl (\<lambda>h c. xor h (of_int (of_char c)) * 1099511628211) 14695981039346656037 s"

definition hashIncompat :: "'v semver \<Rightarrow> 'v incompat \<Rightarrow> u64" where
  "hashIncompat S inc = fnv1a (concat (map (\<lambda>t. t_pkg t @ [CHR 0x00] @
     (if t_pos t then [CHR 0x01] else [CHR 0x00]) @ writeCanonical S (t_set t) @ [CHR 0xFF]) (inc_terms inc)))"

fun indexPackages :: "nat \<Rightarrow> gostring list \<Rightarrow> 'v solverTerm list \<Rightarrow> (gostring \<Rightarrow> nat list) \<Rightarrow> (gostring \<Rightarrow> nat list)" where
  "indexPackages idx seen [] byPkg = byPkg"
| "indexPackages idx seen (t # ts) byPkg =
     (if t_pkg t \<in> set seen then indexPackages idx seen ts byPkg
      else indexPackages idx (t_pkg t # seen) ts (byPkg(t_pkg t := byPkg (t_pkg t) @ [idx])))"

definition storeAdd :: "'v semver \<Rightarrow> 'v incompatStore \<Rightarrow> 'v incompat \<Rightarrow> nat \<times> bool \<times> 'v incompatStore" where
  "storeAdd S s inc =
     (let h = hashIncompat S inc in
      case find (\<lambda>cand. incompatEqual S (st_all s ! cand) inc) (st_content s h) of
        Some cand \<Rightarrow> (cand, False, s)
      | None \<Rightarrow>
          (let idx = length (st_all s) in
           (idx, True,
            s\<lparr> st_all := st_all s @ [inc],
               st_content := (st_content s)(h := st_content s h @ [idx]),
               st_byPkg := indexPackages idx [] (inc_terms inc) (st_byPkg s) \<rparr>)))"

definition byPackageNewestFirst :: "'v incompatStore \<Rightarrow> gostring \<Rightarrow> nat list" where
  "byPackageNewestFirst s pkg = rev (st_byPkg s pkg)"

section \<open>Normalisation: shape and meaning\<close>

lemma set_pkgOrder: "set (pkgOrder seen ts) = t_pkg ` set ts - set seen"
  by (induction seen ts rule: pkgOrder.induct) auto

lemma distinct_pkgOrder: "distinct (pkgOrder seen ts)"
  by (induction seen ts rule: pkgOrder.induct) (auto simp: set_pkgOrder)

lemma comparePackageAsc_le: "comparePackageAsc a b \<le> 0 \<longleftrightarrow> t_pkg a \<le> t_pkg b"
  by (auto simp: comparePackageAsc_def)

lemma totalCmp_packages: "totalCmp comparePackageAsc"
  by (auto simp: totalCmp_def comparePackageAsc_le)

lemma foldl_intersect_pkg:
  "\<forall>u \<in> set ts. t_pkg u = t_pkg t \<Longrightarrow> t_pkg (foldl (termIntersect S) t ts) = t_pkg t"
proof (induction ts arbitrary: t)
  case (Cons u ts)
  have "t_pkg u = t_pkg t" using Cons.prems by simp
  then have eq: "t_pkg (termIntersect S t u) = t_pkg t" by (intro termIntersect_pkg) (rule sym)
  have "t_pkg (foldl (termIntersect S) (termIntersect S t u) ts) = t_pkg (termIntersect S t u)"
    using Cons.prems eq by (intro Cons.IH) simp
  with eq show ?case by simp
qed simp

lemma mergeTermGroup_pkg:
  assumes "grp \<noteq> []" "\<forall>u \<in> set grp. t_pkg u = pkg"
  shows "t_pkg (mergeTermGroup S grp) = pkg"
  using assms foldl_intersect_pkg [of "tl grp" "hd grp" S]
  by (cases grp) (auto simp: mergeTermGroup_def)

definition mergedTerms :: "'v semver \<Rightarrow> 'v solverTerm list \<Rightarrow> 'v solverTerm list" where
  "mergedTerms S terms = sortBy comparePackageAsc
     (map (\<lambda>pkg. mergeTermGroup S (termGroup terms pkg)) (pkgOrder [] terms))"

lemma termGroup_nonempty: "pkg \<in> t_pkg ` set terms \<Longrightarrow> termGroup terms pkg \<noteq> []"
  by (auto simp: termGroup_def filter_empty_conv)

lemma merged_pkg:
  "pkg \<in> t_pkg ` set terms \<Longrightarrow> t_pkg (mergeTermGroup S (termGroup terms pkg)) = pkg"
  by (rule mergeTermGroup_pkg [OF termGroup_nonempty]) (auto simp: termGroup_def)

lemma map_pkg_merged:
  "map t_pkg (map (\<lambda>pkg. mergeTermGroup S (termGroup terms pkg)) (pkgOrder [] terms)) = pkgOrder [] terms"
proof -
  have "map (\<lambda>pkg. t_pkg (mergeTermGroup S (termGroup terms pkg))) (pkgOrder [] terms) = map id (pkgOrder [] terms)"
    by (rule map_cong [OF refl]) (auto simp: set_pkgOrder intro!: merged_pkg)
  then show ?thesis by (simp add: comp_def)
qed

text \<open>One term per package, ascending.\<close>

definition normalTerms :: "'v solverTerm list \<Rightarrow> bool" where
  "normalTerms ts \<longleftrightarrow> sorted_wrt (\<lambda>a b. t_pkg a < t_pkg b) ts"

lemma normalTerms_distinct: "normalTerms ts \<Longrightarrow> distinct (map t_pkg ts)"
  unfolding normalTerms_def by (induction ts) fastforce+

lemma normalTerms_filter: "normalTerms ts \<Longrightarrow> normalTerms (filter P ts)"
  by (simp add: normalTerms_def sorted_wrt_filter_imp)

lemma sorted_distinct_normal:
  "sorted_wrt (\<lambda>a b. t_pkg a \<le> t_pkg b) ts \<Longrightarrow> distinct (map t_pkg ts) \<Longrightarrow> normalTerms ts"
  by (induction ts) (auto simp: normalTerms_def order_less_le image_iff)

lemma normal_merged: "normalTerms (mergedTerms S terms)"
  unfolding mergedTerms_def
proof (rule sorted_distinct_normal)
  show "sorted_wrt (\<lambda>a b. t_pkg a \<le> t_pkg b)
      (sortBy comparePackageAsc (map (\<lambda>pkg. mergeTermGroup S (termGroup terms pkg)) (pkgOrder [] terms)))"
    using sorted_sortBy [OF totalCmp_packages] by (simp add: comparePackageAsc_le)
  show "distinct (map t_pkg (sortBy comparePackageAsc
      (map (\<lambda>pkg. mergeTermGroup S (termGroup terms pkg)) (pkgOrder [] terms))))"
    by (simp only: distinct_map_sortBy map_pkg_merged distinct_pkgOrder)
qed

lemma normalizeTerms_cases:
  obtains P Q where "normalizeTerms S terms = filter Q (filter P (mergedTerms S terms))"
    and "P = (\<lambda>_. True) \<or> P = (\<lambda>t. \<not> (t_pos t \<and> t_pkg t = rootPkg))"
    and "Q = (\<lambda>_. True) \<or> Q = (\<lambda>t. \<not> termIsTautological t)"
proof -
  let ?m = "mergedTerms S terms"
  obtain P where P: "(if 1 < length ?m then dropPositiveRoot ?m else ?m) = filter P ?m"
    "P = (\<lambda>_. True) \<or> P = (\<lambda>t. \<not> (t_pos t \<and> t_pkg t = rootPkg))"
    unfolding dropPositiveRoot_def by (metis filter_True)
  obtain Q where Q: "(if 1 < length (filter P ?m) then dropTautological (filter P ?m) else filter P ?m) = filter Q (filter P ?m)"
    "Q = (\<lambda>_. True) \<or> Q = (\<lambda>t. \<not> termIsTautological t)"
    unfolding dropTautological_def Let_def by (metis filter_True)
  have "normalizeTerms S terms = filter Q (filter P ?m)"
    unfolding normalizeTerms_def mergedTerms_def [symmetric] Let_def P(1) Q(1) ..
  with P(2) Q(2) show thesis by (intro that)
qed

lemma normal_normalizeTerms: "normalTerms (normalizeTerms S terms)"
  by (rule normalizeTerms_cases [of S terms]) (simp add: normalTerms_filter normal_merged)

lemma set_mergedTerms:
  "set (mergedTerms S terms) = (\<lambda>pkg. mergeTermGroup S (termGroup terms pkg)) ` t_pkg ` set terms"
  by (simp add: mergedTerms_def set_pkgOrder)

lemma normalizeTerms_subset: "set (normalizeTerms S terms) \<subseteq> set (mergedTerms S terms)"
  by (rule normalizeTerms_cases [of S terms]) auto

context semver_lib begin

lemma wf_foldl_intersect: "\<forall>u \<in> set (t # ts). wfTerm S u \<Longrightarrow> wfTerm S (foldl (termIntersect S) t ts)"
  by (induction ts arbitrary: t) (simp_all add: wfTerm_intersect)

lemma holds_foldl_intersect:
  assumes "\<forall>u \<in> set (t # ts). wfTerm S u \<and> t_pkg u = pkg"
  shows "holds S \<sigma> (foldl (termIntersect S) t ts) \<longleftrightarrow> (\<forall>u \<in> set (t # ts). holds S \<sigma> u)"
  using assms
proof (induction ts arbitrary: t)
  case (Cons u ts)
  have "t_pkg (termIntersect S t u) = pkg" "wfTerm S (termIntersect S t u)"
    using Cons.prems by (auto simp: termIntersect_pkg wfTerm_intersect)
  with Cons.prems have "holds S \<sigma> (foldl (termIntersect S) (termIntersect S t u) ts) \<longleftrightarrow>
      (\<forall>u \<in> set (termIntersect S t u # ts). holds S \<sigma> u)"
    by (intro Cons.IH) auto
  with Cons.prems show ?case by (auto simp: holds_intersect)
qed simp

lemma wf_mergeTermGroup:
  "grp \<noteq> [] \<Longrightarrow> \<forall>u \<in> set grp. wfTerm S u \<Longrightarrow> wfTerm S (mergeTermGroup S grp)"
  using wf_foldl_intersect [of "hd grp" "tl grp"] by (cases grp) (auto simp: mergeTermGroup_def)

lemma holds_mergeTermGroup:
  assumes "grp \<noteq> []" "\<forall>u \<in> set grp. wfTerm S u \<and> t_pkg u = pkg"
  shows "holds S \<sigma> (mergeTermGroup S grp) \<longleftrightarrow> (\<forall>u \<in> set grp. holds S \<sigma> u)"
proof (cases grp)
  case (Cons t ts)
  with assms(2) holds_foldl_intersect [of t ts pkg \<sigma>] show ?thesis
    by (auto simp: mergeTermGroup_def)
qed (use assms in simp)

lemma holds_mergedTerms:
  assumes "\<forall>t \<in> set terms. wfTerm S t"
  shows "(\<forall>t \<in> set (mergedTerms S terms). holds S \<sigma> t) \<longleftrightarrow> (\<forall>t \<in> set terms. holds S \<sigma> t)"
proof -
  have "holds S \<sigma> (mergeTermGroup S (termGroup terms pkg)) \<longleftrightarrow>
      (\<forall>t \<in> set terms. t_pkg t = pkg \<longrightarrow> holds S \<sigma> t)" if "pkg \<in> t_pkg ` set terms" for pkg
    using assms holds_mergeTermGroup [OF termGroup_nonempty [OF that], of pkg \<sigma>]
    by (auto simp: termGroup_def)
  then show ?thesis by (auto simp: set_mergedTerms)
qed

lemma wf_normalizeTerms:
  assumes "\<forall>t \<in> set terms. wfTerm S t"
  shows "\<forall>t \<in> set (normalizeTerms S terms). wfTerm S t"
proof
  fix t assume "t \<in> set (normalizeTerms S terms)"
  then obtain pkg where pkg: "pkg \<in> t_pkg ` set terms" and t: "t = mergeTermGroup S (termGroup terms pkg)"
    using normalizeTerms_subset [of S terms] unfolding set_mergedTerms by blast
  show "wfTerm S t"
    unfolding t using assms by (intro wf_mergeTermGroup termGroup_nonempty pkg) (auto simp: termGroup_def)
qed

lemma holds_tautological: "termIsTautological t \<Longrightarrow> holds S \<sigma> t"
  by (auto simp: termIsTautological_def holds_def isEmpty_contains split: option.splits)

text \<open>
  Normalisation keeps the conjunction for every selection in which the positive root terms
  hold after merging; the root terms it drops are exactly those.
\<close>

lemma holds_normalizeTerms:
  assumes wf: "\<forall>t \<in> set terms. wfTerm S t"
    and root: "\<forall>t \<in> set (mergedTerms S terms). t_pkg t = rootPkg \<and> t_pos t \<longrightarrow> holds S \<sigma> t"
  shows "(\<forall>t \<in> set (normalizeTerms S terms). holds S \<sigma> t) \<longleftrightarrow> (\<forall>t \<in> set terms. holds S \<sigma> t)"
proof (rule normalizeTerms_cases [of S terms])
  fix P Q
  assume eq: "normalizeTerms S terms = filter Q (filter P (mergedTerms S terms))"
    and P: "P = (\<lambda>_. True) \<or> P = (\<lambda>t :: 'v solverTerm. \<not> (t_pos t \<and> t_pkg t = rootPkg))"
    and Q: "Q = (\<lambda>_. True) \<or> Q = (\<lambda>t :: 'v solverTerm. \<not> termIsTautological t)"
  have "holds S \<sigma> t" if "t \<in> set (mergedTerms S terms)" "\<not> (P t \<and> Q t)" for t
    using that P Q root holds_tautological [of t \<sigma>] by auto
  then have "(\<forall>t \<in> set (normalizeTerms S terms). holds S \<sigma> t) \<longleftrightarrow> (\<forall>t \<in> set (mergedTerms S terms). holds S \<sigma> t)"
    unfolding eq by auto
  then show ?thesis using holds_mergedTerms [OF wf] by simp
qed

end

section \<open>The store's invariant\<close>

definition names :: "'v incompat \<Rightarrow> gostring \<Rightarrow> bool" where
  "names inc pkg \<longleftrightarrow> pkg \<in> t_pkg ` set (inc_terms inc)"

definition storeInv :: "'v semver \<Rightarrow> 'v incompatStore \<Rightarrow> bool" where
  "storeInv S s \<longleftrightarrow>
     (\<forall>pkg. st_byPkg s pkg = filter (\<lambda>i. names (st_all s ! i) pkg) [0..<length (st_all s)]) \<and>
     (\<forall>h. st_content s h = filter (\<lambda>i. hashIncompat S (st_all s ! i) = h) [0..<length (st_all s)]) \<and>
     sorted_wrt (\<lambda>a b. \<not> (hashIncompat S a = hashIncompat S b \<and> incompatEqual S a b)) (st_all s)"

lemma storeInv_new: "storeInv S newIncompatStore"
  by (simp add: storeInv_def newIncompatStore_def)

lemma indexPackages_eq:
  "indexPackages idx seen ts byPkg pkg =
     byPkg pkg @ (if pkg \<in> t_pkg ` set ts - set seen then [idx] else [])"
proof (induction idx seen ts byPkg rule: indexPackages.induct)
  case (2 idx seen t ts byPkg)
  show ?case
  proof (cases "t_pkg t \<in> set seen")
    case True
    with 2(1) show ?thesis by auto
  next
    case False
    then show ?thesis
      by (simp only: indexPackages.simps if_False 2(2) [OF False]) auto
  qed
qed simp

lemma storeAdd_cases:
  obtains (found) cand where "storeAdd S s inc = (cand, False, s)"
      "cand \<in> set (st_content s (hashIncompat S inc))" "incompatEqual S (st_all s ! cand) inc"
  | (new) s' where "storeAdd S s inc = (length (st_all s), True, s')" "st_all s' = st_all s @ [inc]"
      "\<forall>cand \<in> set (st_content s (hashIncompat S inc)). \<not> incompatEqual S (st_all s ! cand) inc"
      "st_byPkg s' = indexPackages (length (st_all s)) [] (inc_terms inc) (st_byPkg s)"
      "st_content s' = (st_content s)(hashIncompat S inc := st_content s (hashIncompat S inc) @ [length (st_all s)])"
proof (cases "find (\<lambda>cand. incompatEqual S (st_all s ! cand) inc) (st_content s (hashIncompat S inc))")
  case None
  then have "storeAdd S s inc = (length (st_all s), True,
      s\<lparr> st_all := st_all s @ [inc],
         st_content := (st_content s)(hashIncompat S inc := st_content s (hashIncompat S inc) @ [length (st_all s)]),
         st_byPkg := indexPackages (length (st_all s)) [] (inc_terms inc) (st_byPkg s) \<rparr>)"
    by (simp add: storeAdd_def Let_def)
  with None show thesis
    by (intro new [OF _]) (assumption, simp_all add: find_None_iff_all)
next
  case (Some cand)
  then show thesis
    using find_SomeD [OF Some] by (intro found) (auto simp: storeAdd_def Let_def)
qed

lemma filter_nth_append:
  "filter (\<lambda>i. P ((xs @ [x]) ! i)) [0..<Suc (length xs)] =
     filter (\<lambda>i. P (xs ! i)) [0..<length xs] @ (if P x then [length xs] else [])"
proof -
  have "filter (\<lambda>i. P ((xs @ [x]) ! i)) [0..<length xs] = filter (\<lambda>i. P (xs ! i)) [0..<length xs]"
    by (rule filter_cong) (auto simp: nth_append)
  then show ?thesis by simp
qed

lemma storeInv_add:
  assumes inv: "storeInv S s"
  shows "storeInv S (snd (snd (storeAdd S s inc)))"
proof (cases rule: storeAdd_cases [of S s inc])
  case (found cand)
  with inv show ?thesis by simp
next
  case (new s')
  have "\<not> (hashIncompat S a = hashIncompat S inc \<and> incompatEqual S a inc)" if a: "a \<in> set (st_all s)" for a
  proof
    assume eq: "hashIncompat S a = hashIncompat S inc \<and> incompatEqual S a inc"
    from a obtain i where "i < length (st_all s)" "a = st_all s ! i" by (auto simp: in_set_conv_nth)
    with eq inv have "i \<in> set (st_content s (hashIncompat S inc))" by (simp add: storeInv_def)
    with new(3) eq \<open>a = _\<close> show False by blast
  qed
  with inv have "sorted_wrt (\<lambda>a b. \<not> (hashIncompat S a = hashIncompat S b \<and> incompatEqual S a b)) (st_all s')"
    unfolding new(2) storeInv_def by (simp add: sorted_wrt_append)
  moreover have "st_byPkg s' pkg = filter (\<lambda>i. names (st_all s' ! i) pkg) [0..<length (st_all s')]" for pkg
    using inv filter_nth_append [of "\<lambda>i. names i pkg" "st_all s" inc]
    unfolding new(2,4) storeInv_def indexPackages_eq names_def by auto
  moreover have "st_content s' h = filter (\<lambda>i. hashIncompat S (st_all s' ! i) = h) [0..<length (st_all s')]" for h
    using inv filter_nth_append [of "\<lambda>i. hashIncompat S i = h" "st_all s" inc]
    unfolding new(2,5) storeInv_def by auto
  ultimately show ?thesis using new(1) unfolding storeInv_def by simp
qed

text \<open>What \<open>add\<close> returns points at an incompatibility with the terms of the argument.\<close>

lemma storeAdd_result:
  assumes "storeInv S s" "storeAdd S s inc = (idx, added, s')"
  shows "idx < length (st_all s')"
    and "st_all s' = (if added then st_all s @ [inc] else st_all s)"
    and "added \<Longrightarrow> st_all s' ! idx = inc"
    and "\<not> added \<Longrightarrow> incompatEqual S (st_all s' ! idx) inc"
  using assms
  by (cases rule: storeAdd_cases [of S s inc]; auto simp: storeInv_def)+

lemma byPackageNewestFirst_iff:
  "storeInv S s \<Longrightarrow> i \<in> set (byPackageNewestFirst s pkg) \<longleftrightarrow> i < length (st_all s) \<and> names (st_all s ! i) pkg"
  by (auto simp: byPackageNewestFirst_def storeInv_def)

lemma byPackageNewestFirst_sorted:
  "storeInv S s \<Longrightarrow> sorted_wrt (\<lambda>i j. j < i) (byPackageNewestFirst s pkg)"
  by (simp add: byPackageNewestFirst_def storeInv_def sorted_wrt_rev sorted_wrt_filter_imp)

context semver_lib begin

lemma incompatEqual_holds:
  assumes "incompatEqual S a b" "\<forall>t \<in> set (inc_terms a). wfTerm S t" "\<forall>t \<in> set (inc_terms b). wfTerm S t"
  shows "(\<forall>t \<in> set (inc_terms a). holds S \<sigma> t) \<longleftrightarrow> (\<forall>t \<in> set (inc_terms b). holds S \<sigma> t)"
proof -
  have "list_all2 (sameTerm S) as bs \<Longrightarrow> \<forall>t \<in> set as. wfTerm S t \<Longrightarrow> \<forall>t \<in> set bs. wfTerm S t \<Longrightarrow>
      (\<forall>t \<in> set as. holds S \<sigma> t) \<longleftrightarrow> (\<forall>t \<in> set bs. holds S \<sigma> t)" for as bs
    by (induction rule: list_all2_induct) (auto simp: sameTerm_holds)
  with assms show ?thesis unfolding incompatEqual_def by blast
qed

end

end
