(* ===== verification/Partial.thy ===== *)
theory Partial imports Incompat begin

text \<open>
  \<^verbatim>\<open>internal/galaxy/solver/partial.go\<close>: the ordered assignment list with the per-package
  bookkeeping, and the errors a solve returns. The bookkeeping is the one abstraction
  \<open>pkgSummary\<close> of the assignment list, which every operation, the replay of a backtrack
  included, keeps.
\<close>

section \<open>Errors of a solve\<close>

text \<open>
  \<^verbatim>\<open>*ConflictError\<close> (with the incompatibility it was built for), an error wrapping
  \<^verbatim>\<open>errSolverBug\<close>, a wrapped provider failure, \<^verbatim>\<open>ctx.Err()\<close>, and a dependency
  constraint that does not parse.
\<close>

datatype ('e, 'v) solveErr =
    ConflictError (ce_inc: "'v incompat") (ce_proofLines: "gostring list") (ce_hints: "gostring list")
  | SolverBug gostring
  | ProviderError gostring 'e
  | ContextError 'e
  | InvalidDependency gostring gostring gostring constraintErr

section \<open>Assignments\<close>

text \<open>\<^verbatim>\<open>CauseIndex\<close> is \<open>None\<close> for the program's \<^verbatim>\<open>-1\<close>, a decision.\<close>

record 'v assignment =
  a_term :: "'v solverTerm"
  a_level :: nat
  a_cause :: "nat option"
  a_index :: nat

definition isDecision :: "'v assignment \<Rightarrow> bool" where
  "isDecision a \<longleftrightarrow> a_cause a = None"

definition decisionVersionOf :: "'v solverTerm \<Rightarrow> (('e, 'v) solveErr, 'v version) res" where
  "decisionVersionOf t =
     (case decidedVersion (t_set t) of
        None \<Rightarrow> Inl (SolverBug (''decision term for '' @ t_pkg t @ '' does not carry a singleton version''))
      | Some v \<Rightarrow> Inr v)"

section \<open>The partial solution\<close>

record 'v packageAssignments =
  pa_decisionVersion :: "'v version option"
  pa_indices :: "nat list"
  pa_accum :: "'v solverTerm"
  pa_decisionIdx :: "nat option"

record 'v partialSolution =
  ps_packages :: "(gostring \<times> 'v packageAssignments) list"
  ps_assignments :: "'v assignment list"
  ps_decisions :: nat

definition newPartialSolution :: "'v partialSolution" where
  "newPartialSolution = \<lparr> ps_packages = [], ps_assignments = [], ps_decisions = 0 \<rparr>"

definition currentLevel :: "'v partialSolution \<Rightarrow> nat" where
  "currentLevel ps = ps_decisions ps"

definition freshPackage :: "gostring \<Rightarrow> 'v packageAssignments" where
  "freshPackage pkg = \<lparr> pa_decisionVersion = None, pa_indices = [], pa_accum = accumSeed pkg, pa_decisionIdx = None \<rparr>"

text \<open>
  \<^verbatim>\<open>pkgState\<close>. The placeholder the program stores on a miss has no index and no decision:
  every reader treats it as an absent entry, so the model does not store it.
\<close>

definition lookupPackage :: "(gostring \<times> 'v packageAssignments) list \<Rightarrow> gostring \<Rightarrow> 'v packageAssignments" where
  "lookupPackage pk pkg = (case map_of pk pkg of Some p \<Rightarrow> p | None \<Rightarrow> freshPackage pkg)"

definition pkgState :: "'v partialSolution \<Rightarrow> gostring \<Rightarrow> 'v packageAssignments" where
  "pkgState ps pkg = lookupPackage (ps_packages ps) pkg"

definition psAppend :: "'v semver \<Rightarrow> 'v partialSolution \<Rightarrow> 'v solverTerm \<Rightarrow> nat \<Rightarrow> nat option \<Rightarrow> 'v partialSolution" where
  "psAppend S ps t level cause =
     (let idx = length (ps_assignments ps);
          a = \<lparr> a_term = t, a_level = level, a_cause = cause, a_index = idx \<rparr>;
          p = pkgState ps (t_pkg t);
          p = p\<lparr> pa_indices := pa_indices p @ [idx] \<rparr>;
          p = (if cause = None then p\<lparr> pa_decisionIdx := Some idx \<rparr> else p);
          p = p\<lparr> pa_accum := termIntersect S (pa_accum p) t \<rparr>
      in ps\<lparr> ps_assignments := ps_assignments ps @ [a],
             ps_packages := AList.update (t_pkg t) p (ps_packages ps) \<rparr>)"

definition decide :: "'v semver \<Rightarrow> 'v partialSolution \<Rightarrow> gostring \<Rightarrow> 'v version \<Rightarrow> 'v partialSolution" where
  "decide S ps pkg v =
     (let ps = (if pkg \<noteq> rootPkg then ps\<lparr> ps_decisions := ps_decisions ps + 1 \<rparr> else ps);
          ps = psAppend S ps (mkTerm pkg (singletonVerSet S v) True) (ps_decisions ps) None;
          p = (pkgState ps pkg)\<lparr> pa_decisionVersion := Some v \<rparr>
      in ps\<lparr> ps_packages := AList.update pkg p (ps_packages ps) \<rparr>)"

definition derive :: "'v semver \<Rightarrow> 'v partialSolution \<Rightarrow> 'v solverTerm \<Rightarrow> nat \<Rightarrow> 'v partialSolution" where
  "derive S ps t causeIndex = psAppend S ps t (ps_decisions ps) (Some causeIndex)"

definition hasEquivalentAssignment :: "'v semver \<Rightarrow> 'v partialSolution \<Rightarrow> 'v solverTerm \<Rightarrow> bool" where
  "hasEquivalentAssignment S ps t \<longleftrightarrow>
     (\<exists>idx \<in> set (pa_indices (pkgState ps (t_pkg t))). sameTerm S (a_term (ps_assignments ps ! idx)) t)"

fun rebuildLoop :: "'v semver \<Rightarrow> nat \<Rightarrow> (gostring \<times> 'v packageAssignments) list \<Rightarrow> 'v assignment list \<Rightarrow>
    (('e, 'v) solveErr, (gostring \<times> 'v packageAssignments) list) res" where
  "rebuildLoop S i rebuilt [] = Inr rebuilt"
| "rebuildLoop S i rebuilt (a # as) =
     (let p = lookupPackage rebuilt (t_pkg (a_term a));
          p = p\<lparr> pa_indices := pa_indices p @ [i] \<rparr>;
          p = p\<lparr> pa_accum := termIntersect S (pa_accum p) (a_term a) \<rparr>
      in if a_cause a = None then
           bindE (decisionVersionOf (a_term a)) (\<lambda>v.
             rebuildLoop S (Suc i) (AList.update (t_pkg (a_term a))
               (p\<lparr> pa_decisionIdx := Some i, pa_decisionVersion := Some v \<rparr>) rebuilt) as)
         else rebuildLoop S (Suc i) (AList.update (t_pkg (a_term a)) p rebuilt) as)"

definition rebuildPackageAssignments :: "'v semver \<Rightarrow> 'v partialSolution \<Rightarrow>
    (('e, 'v) solveErr, (gostring \<times> 'v packageAssignments) list) res" where
  "rebuildPackageAssignments S ps = rebuildLoop S 0 [] (ps_assignments ps)"

text \<open>The caller abandons the partial solution on an error, so the error carries no state.\<close>

definition backtrackTo :: "'v semver \<Rightarrow> 'v partialSolution \<Rightarrow> nat \<Rightarrow> (('e, 'v) solveErr, 'v partialSolution) res" where
  "backtrackTo S ps level =
     (let ps = ps\<lparr> ps_assignments := rev (dropWhile (\<lambda>a. level < a_level a) (rev (ps_assignments ps))),
                   ps_decisions := level \<rparr>
      in bindE (rebuildPackageAssignments S ps) (\<lambda>rebuilt. Inr (ps\<lparr> ps_packages := rebuilt \<rparr>)))"

section \<open>The bookkeeping is an abstraction of the assignments\<close>

definition termsOf :: "'v assignment list \<Rightarrow> gostring \<Rightarrow> 'v solverTerm list" where
  "termsOf as pkg = filter (\<lambda>t. t_pkg t = pkg) (map a_term as)"

definition accumOf :: "'v semver \<Rightarrow> 'v assignment list \<Rightarrow> gostring \<Rightarrow> 'v solverTerm" where
  "accumOf S as pkg = foldl (termIntersect S) (accumSeed pkg) (termsOf as pkg)"

definition indicesOf :: "'v assignment list \<Rightarrow> gostring \<Rightarrow> nat list" where
  "indicesOf as pkg = filter (\<lambda>i. t_pkg (a_term (as ! i)) = pkg) [0..<length as]"

definition decisionOf :: "'v assignment list \<Rightarrow> gostring \<Rightarrow> nat option" where
  "decisionOf as pkg = find (\<lambda>i. t_pkg (a_term (as ! i)) = pkg \<and> a_cause (as ! i) = None) (rev [0..<length as])"

definition pkgSummary :: "'v semver \<Rightarrow> 'v assignment list \<Rightarrow> gostring \<Rightarrow> 'v packageAssignments" where
  "pkgSummary S as pkg =
     \<lparr> pa_decisionVersion = (case decisionOf as pkg of None \<Rightarrow> None | Some i \<Rightarrow> decidedVersion (t_set (a_term (as ! i)))),
       pa_indices = indicesOf as pkg, pa_accum = accumOf S as pkg, pa_decisionIdx = decisionOf as pkg \<rparr>"

definition pkgInv :: "'v semver \<Rightarrow> 'v assignment list \<Rightarrow> (gostring \<times> 'v packageAssignments) list \<Rightarrow> bool" where
  "pkgInv S as pk \<longleftrightarrow> (\<forall>pkg. lookupPackage pk pkg = pkgSummary S as pkg) \<and> distinct (map fst pk)"

lemma lookup_update [simp]:
  "lookupPackage (AList.update k p pk) pkg = (if pkg = k then p else lookupPackage pk pkg)"
  by (simp add: lookupPackage_def)

lemma termsOf_snoc [simp]:
  "termsOf (as @ [a]) pkg = termsOf as pkg @ (if t_pkg (a_term a) = pkg then [a_term a] else [])"
  by (simp add: termsOf_def)

lemma termsOf_Nil [simp]: "termsOf [] pkg = []"
  by (simp add: termsOf_def)

lemma accumOf_snoc:
  "accumOf S (as @ [a]) pkg =
     (if t_pkg (a_term a) = pkg then termIntersect S (accumOf S as pkg) (a_term a) else accumOf S as pkg)"
  by (simp add: accumOf_def)

lemma indicesOf_snoc:
  "indicesOf (as @ [a]) pkg = indicesOf as pkg @ (if t_pkg (a_term a) = pkg then [length as] else [])"
  using filter_nth_append [of "\<lambda>a. t_pkg (a_term a) = pkg" as a] by (simp add: indicesOf_def)

lemma find_rev_upt_append:
  "find (\<lambda>i. P ((xs @ [x]) ! i)) (rev [0..<length xs]) = find (\<lambda>i. P (xs ! i)) (rev [0..<length xs])"
  by (rule find_cong) (auto simp: nth_append)

lemma decisionOf_snoc:
  "decisionOf (as @ [a]) pkg =
     (if t_pkg (a_term a) = pkg \<and> a_cause a = None then Some (length as) else decisionOf as pkg)"
  using find_rev_upt_append [of "\<lambda>a. t_pkg (a_term a) = pkg \<and> a_cause a = None" as a]
  by (simp add: decisionOf_def)

lemma decisionOf_Some:
  "decisionOf as pkg = Some i \<Longrightarrow> i < length as \<and> t_pkg (a_term (as ! i)) = pkg \<and> a_cause (as ! i) = None"
  using find_SomeD [of _ "rev [0..<length as]" i] by (fastforce simp: decisionOf_def)

lemma pkgSummary_snoc:
  "pkgSummary S (as @ [a]) pkg =
     (if t_pkg (a_term a) \<noteq> pkg then pkgSummary S as pkg
      else (let p = (pkgSummary S as pkg)\<lparr> pa_indices := indicesOf as pkg @ [length as],
                  pa_accum := termIntersect S (accumOf S as pkg) (a_term a) \<rparr>
            in if a_cause a = None then p\<lparr> pa_decisionIdx := Some (length as), pa_decisionVersion := decidedVersion (t_set (a_term a)) \<rparr>
               else p))"
  using decisionOf_Some [of as pkg]
  by (auto simp: pkgSummary_def accumOf_snoc indicesOf_snoc decisionOf_snoc Let_def nth_append split: option.splits)

lemma summary_sel [simp]:
  "pa_indices (pkgSummary S as pkg) = indicesOf as pkg" "pa_accum (pkgSummary S as pkg) = accumOf S as pkg"
  "pa_decisionIdx (pkgSummary S as pkg) = decisionOf as pkg"
  by (simp_all add: pkgSummary_def)

lemma pkgInv_Nil: "pkgInv S [] []"
  by (simp add: pkgInv_def lookupPackage_def pkgSummary_def freshPackage_def indicesOf_def
      decisionOf_def accumOf_def)

lemma distinct_update_keys: "distinct (map fst pk) \<Longrightarrow> distinct (map fst (AList.update k v pk))"
  by (rule distinct_update)

lemma pkgInv_snoc:
  assumes "pkgInv S as pk" "p = pkgSummary S (as @ [a]) (t_pkg (a_term a))"
  shows "pkgInv S (as @ [a]) (AList.update (t_pkg (a_term a)) p pk)"
  using assms by (auto simp: pkgInv_def pkgSummary_snoc distinct_update_keys)

lemma rebuildLoop_inv:
  "pkgInv S pre pk \<Longrightarrow> rebuildLoop S (length pre) pk as = (Inr pk' :: (('e, 'v) solveErr, (gostring \<times> 'v packageAssignments) list) res) \<Longrightarrow> pkgInv S (pre @ as) pk'"
proof (induction as arbitrary: pre pk)
  case (Cons a as)
  let ?p = "(lookupPackage pk (t_pkg (a_term a)))\<lparr> pa_indices := indicesOf pre (t_pkg (a_term a)) @ [length pre],
     pa_accum := termIntersect S (accumOf S pre (t_pkg (a_term a))) (a_term a) \<rparr>"
  have look: "lookupPackage pk (t_pkg (a_term a)) = pkgSummary S pre (t_pkg (a_term a))"
    using Cons.prems(1) by (simp add: pkgInv_def)
  show ?case
  proof (cases "a_cause a = None")
    case True
    with Cons.prems(2) look obtain v where v: "decidedVersion (t_set (a_term a)) = Some v"
      and rec: "rebuildLoop S (Suc (length pre)) (AList.update (t_pkg (a_term a))
        (?p\<lparr> pa_decisionIdx := Some (length pre), pa_decisionVersion := Some v \<rparr>) pk) as = (Inr pk' :: (('e, 'v) solveErr, (gostring \<times> 'v packageAssignments) list) res)"
      by (auto simp: Let_def bindE_Inr_iff decisionVersionOf_def split: option.splits)
    have "pkgInv S (pre @ [a]) (AList.update (t_pkg (a_term a))
        (?p\<lparr> pa_decisionIdx := Some (length pre), pa_decisionVersion := Some v \<rparr>) pk)"
      using v True by (intro pkgInv_snoc Cons.prems(1)) (simp add: pkgSummary_snoc look Let_def)
    from Cons.IH [OF this] rec show ?thesis by simp
  next
    case False
    with Cons.prems(2) look
    have rec: "rebuildLoop S (Suc (length pre)) (AList.update (t_pkg (a_term a)) ?p pk) as = (Inr pk' :: (('e, 'v) solveErr, (gostring \<times> 'v packageAssignments) list) res)"
      by (simp add: Let_def)
    have "pkgInv S (pre @ [a]) (AList.update (t_pkg (a_term a)) ?p pk)"
      using False by (intro pkgInv_snoc Cons.prems(1)) (auto simp: pkgSummary_snoc look Let_def)
    from Cons.IH [OF this] rec show ?thesis by simp
  qed
qed simp

lemma rebuildLoop_total:
  "\<forall>a \<in> set as. a_cause a = None \<longrightarrow> decidedVersion (t_set (a_term a)) \<noteq> None \<Longrightarrow>
     \<exists>pk'. rebuildLoop S i pk as = (Inr pk' :: (('e, 'v) solveErr, (gostring \<times> 'v packageAssignments) list) res)"
proof (induction as arbitrary: i pk)
  case (Cons a as)
  then show ?case
    by (cases "a_cause a = None") (auto simp: Let_def decisionVersionOf_def)
qed simp

section \<open>The invariant of the partial solution\<close>

text \<open>
  Every entry knows its position; levels never decrease along the list and stay within the
  current level; terms are well formed; a decision carries its version; the bookkeeping is
  the summary of the list.
\<close>

definition psInv :: "'v semver \<Rightarrow> 'v partialSolution \<Rightarrow> bool" where
  "psInv S ps \<longleftrightarrow>
     (\<forall>i < length (ps_assignments ps). a_index (ps_assignments ps ! i) = i) \<and>
     sorted (map a_level (ps_assignments ps)) \<and>
     (\<forall>a \<in> set (ps_assignments ps). a_level a \<le> ps_decisions ps \<and> wfTerm S (a_term a) \<and>
        (a_cause a = None \<longrightarrow> decidedVersion (t_set (a_term a)) \<noteq> None)) \<and>
     pkgInv S (ps_assignments ps) (ps_packages ps)"

lemma psInv_new: "psInv S newPartialSolution"
  by (simp add: psInv_def newPartialSolution_def pkgInv_Nil)

lemma psInv_summary: "psInv S ps \<Longrightarrow> pkgState ps pkg = pkgSummary S (ps_assignments ps) pkg"
  by (simp add: psInv_def pkgInv_def pkgState_def)

lemma psAppend_assignments [simp]:
  "ps_assignments (psAppend S ps t level cause) = ps_assignments ps @
     [\<lparr> a_term = t, a_level = level, a_cause = cause, a_index = length (ps_assignments ps) \<rparr>]"
  "ps_decisions (psAppend S ps t level cause) = ps_decisions ps"
  by (simp_all add: psAppend_def Let_def)

lemma decide_assignments [simp]:
  "ps_assignments (decide S ps pkg v) = ps_assignments ps @
     [\<lparr> a_term = mkTerm pkg (singletonVerSet S v) True, a_level = ps_decisions ps + (if pkg = rootPkg then 0 else 1),
        a_cause = None, a_index = length (ps_assignments ps) \<rparr>]"
  "ps_decisions (decide S ps pkg v) = ps_decisions ps + (if pkg = rootPkg then 0 else 1)"
  by (simp_all add: decide_def Let_def)

lemma derive_assignments [simp]:
  "ps_assignments (derive S ps t c) = ps_assignments ps @
     [\<lparr> a_term = t, a_level = ps_decisions ps, a_cause = Some c, a_index = length (ps_assignments ps) \<rparr>]"
  "ps_decisions (derive S ps t c) = ps_decisions ps"
  by (simp_all add: derive_def)

lemma singleton_decided [simp]: "decidedVersion (singletonVerSet S v) = Some v"
  by (simp add: decidedVersion_def singletonVerSet_def)

lemma snoc_index:
  "\<forall>i < length as. a_index (as ! i) = i \<Longrightarrow> a_index a = length as \<Longrightarrow>
     \<forall>i < length (as @ [a]). a_index ((as @ [a]) ! i) = i"
  by (auto simp: nth_append less_Suc_eq)

lemma psInv_derive:
  assumes inv: "psInv S ps" and wf: "wfTerm S t"
  shows "psInv S (derive S ps t c)"
proof -
  let ?a = "\<lparr> a_term = t, a_level = ps_decisions ps, a_cause = Some c, a_index = length (ps_assignments ps) \<rparr>"
  have "pkgState ps (t_pkg t) = pkgSummary S (ps_assignments ps) (t_pkg t)"
    using inv by (rule psInv_summary)
  then have "ps_packages (derive S ps t c) =
      AList.update (t_pkg (a_term ?a)) (pkgSummary S (ps_assignments ps @ [?a]) (t_pkg (a_term ?a))) (ps_packages ps)"
    by (simp add: derive_def psAppend_def Let_def pkgSummary_snoc)
  then have "pkgInv S (ps_assignments (derive S ps t c)) (ps_packages (derive S ps t c))"
    using inv pkgInv_snoc [of S "ps_assignments ps" "ps_packages ps" _ ?a] by (simp add: psInv_def)
  moreover have "sorted (map a_level (ps_assignments (derive S ps t c)))"
    using inv by (auto simp: psInv_def sorted_append)
  ultimately show ?thesis
    using inv wf snoc_index [of "ps_assignments ps" ?a] by (auto simp: psInv_def)
qed

context semver_lib begin

lemma psInv_decide:
  assumes inv: "psInv S ps" and v: "wellParsed S v"
  shows "psInv S (decide S ps pkg v)"
proof -
  let ?a = "\<lparr> a_term = mkTerm pkg (singletonVerSet S v) True, a_level = ps_decisions ps + (if pkg = rootPkg then 0 else 1),
        a_cause = None, a_index = length (ps_assignments ps) \<rparr>"
  have "lookupPackage (ps_packages ps) pkg = pkgSummary S (ps_assignments ps) pkg"
    using psInv_summary [OF inv] by (simp add: pkgState_def)
  then have "lookupPackage (ps_packages (decide S ps pkg v)) q =
      (if q = pkg then pkgSummary S (ps_assignments ps @ [?a]) q else lookupPackage (ps_packages ps) q)" for q
    by (auto simp: decide_def psAppend_def Let_def pkgSummary_snoc pkgState_def)
  moreover have "distinct (map fst (ps_packages (decide S ps pkg v)))"
    using inv by (simp add: decide_def psAppend_def Let_def distinct_update_keys psInv_def pkgInv_def)
  ultimately have "pkgInv S (ps_assignments (decide S ps pkg v)) (ps_packages (decide S ps pkg v))"
    using inv unfolding pkgInv_def psInv_def by (auto simp: pkgSummary_snoc)
  moreover have "sorted (map a_level (ps_assignments (decide S ps pkg v)))"
    using inv by (auto simp: psInv_def sorted_append)
  ultimately show ?thesis
    using inv snoc_index [of "ps_assignments ps" ?a] wf_singleton [OF v]
    by (auto simp: psInv_def le_SucI)
qed

end

text \<open>Backtracking keeps exactly the assignments of the levels up to the target.\<close>

lemma dropWhile_rev_sorted:
  "sorted (map f xs) \<Longrightarrow> rev (dropWhile (\<lambda>a. l < f a) (rev xs)) = filter (\<lambda>a. f a \<le> l) xs"
proof (induction xs rule: rev_induct)
  case (snoc x xs)
  then have "sorted (map f xs)" "\<forall>y \<in> set xs. f y \<le> f x" by (auto simp: sorted_append)
  moreover from this have "f x \<le> l \<Longrightarrow> filter (\<lambda>a. f a \<le> l) xs = xs" by (auto simp: filter_id_conv)
  ultimately show ?case using snoc.IH by auto
qed simp

lemma filter_sorted_prefix:
  "sorted (map f xs) \<Longrightarrow> \<exists>k. filter (\<lambda>a. f a \<le> l) xs = take k xs"
proof (induction xs)
  case (Cons x xs)
  show ?case
  proof (cases "f x \<le> l")
    case True
    from Cons obtain k where "filter (\<lambda>a. f a \<le> l) xs = take k xs" by auto
    with True show ?thesis by (intro exI [of _ "Suc k"]) simp
  next
    case False
    with Cons.prems have "filter (\<lambda>a. f a \<le> l) (x # xs) = []" by (auto simp: filter_empty_conv)
    then show ?thesis by (intro exI [of _ 0]) simp
  qed
qed simp

lemma backtrackTo_prefix:
  assumes "psInv S ps"
  obtains k where "filter (\<lambda>a. a_level a \<le> level) (ps_assignments ps) = take k (ps_assignments ps)"
  using filter_sorted_prefix [of a_level "ps_assignments ps" level] assms by (auto simp: psInv_def)

lemma backtrackTo_result:
  assumes inv: "psInv S ps"
  obtains ps' where "(backtrackTo S ps level :: (('e, 'v) solveErr, 'v partialSolution) res) = Inr ps'" "psInv S ps'" "ps_decisions ps' = level"
    "ps_assignments ps' = filter (\<lambda>a. a_level a \<le> level) (ps_assignments ps)"
proof -
  let ?as = "filter (\<lambda>a. a_level a \<le> level) (ps_assignments ps)"
  let ?ps = "ps\<lparr> ps_assignments := ?as, ps_decisions := level \<rparr>"
  have drop: "rev (dropWhile (\<lambda>a. level < a_level a) (rev (ps_assignments ps))) = ?as"
    using inv by (intro dropWhile_rev_sorted) (simp add: psInv_def)
  obtain pk where pk: "rebuildLoop S 0 [] ?as = (Inr pk :: (('e, 'v) solveErr, (gostring \<times> 'v packageAssignments) list) res)"
    using rebuildLoop_total [of ?as S 0 "[]"] inv by (auto simp: psInv_def)
  then have "(backtrackTo S ps level :: (('e, 'v) solveErr, 'v partialSolution) res) = Inr (?ps\<lparr> ps_packages := pk \<rparr>)"
    by (simp add: backtrackTo_def Let_def drop rebuildPackageAssignments_def)
  moreover have "psInv S (?ps\<lparr> ps_packages := pk \<rparr>)"
  proof -
    have "pkgInv S ?as pk" using rebuildLoop_inv [OF pkgInv_Nil, of S ?as pk] pk pkgInv_Nil by auto
    moreover obtain k where k: "?as = take k (ps_assignments ps)" by (rule backtrackTo_prefix [OF inv])
    then have "\<forall>i < length ?as. a_index (?as ! i) = i" "sorted (map a_level ?as)"
      using inv unfolding k psInv_def by (simp_all add: sorted_wrt_take take_map [symmetric])
    ultimately show ?thesis
      using inv by (auto simp: psInv_def)
  qed
  ultimately show thesis by (intro that) auto
qed

end
