(* ===== verification/SolveState.thy ===== *)
theory SolveState imports Partial begin

text \<open>
  The mutable state of one solve (\<^verbatim>\<open>solveState\<close> of \<^verbatim>\<open>solver.go\<close>), the provider seam and
  the requirement types of \<^verbatim>\<open>provider.go\<close>. The provider is the metadata the solver does
  not compute: a record of three functions, an argument of every definition that calls it.
  Within one solve the program asks for each universe and each dependency list once, so a
  function models what a provider answers in that solve.
\<close>

section \<open>The provider seam\<close>

record requirement =
  rq_package :: gostring
  rq_constraint :: gostring

record ('e, 'v) provider =
  pr_highest :: "gostring \<Rightarrow> ('e, 'v version option) res"
  pr_universe :: "gostring \<Rightarrow> ('e, 'v version list) res"
  pr_dependencies :: "gostring \<Rightarrow> 'v version \<Rightarrow> ('e, (gostring \<times> gostring) list) res"

text \<open>\<^verbatim>\<open>mustNewVersion\<close> panics at program start when the constant does not parse.\<close>

definition mustNewVersion :: "'v semver \<Rightarrow> gostring \<Rightarrow> 'v version" where
  "mustNewVersion S raw = projr (newVersion S raw)"

definition rootVersion :: "'v semver \<Rightarrow> 'v version" where
  "rootVersion S = mustNewVersion S ''0.0.0''"

section \<open>The state\<close>

text \<open>
  \<open>ss_nextPtr\<close> is the heap: the identity of the next allocated incompatibility. A universe
  that was never touched is the unfetched placeholder, so \<^verbatim>\<open>uniFor\<close> is a lookup.
\<close>

record ('e, 'v) solveState =
  ss_provider :: "('e, 'v) provider"
  ss_store :: "'v incompatStore"
  ss_ps :: "'v partialSolution"
  ss_universes :: "gostring \<Rightarrow> 'v packageUniverse"
  ss_conflictCounts :: "gostring \<Rightarrow> nat"
  ss_depsAdded :: "gostring \<Rightarrow> bool"
  ss_rootDeps :: "(gostring \<times> gostring) list"
  ss_nextPtr :: nat

definition rootDepsOf :: "requirement list \<Rightarrow> (gostring \<times> gostring) list" where
  "rootDepsOf reqs = foldl (\<lambda>m r. AList.update (rq_package r) (rq_constraint r) m) [] reqs"

definition newSolveState :: "'v semver \<Rightarrow> ('e, 'v) provider \<Rightarrow> requirement list \<Rightarrow> ('e, 'v) solveState" where
  "newSolveState S p reqs =
     \<lparr> ss_provider = p, ss_store = newIncompatStore, ss_ps = newPartialSolution,
       ss_universes = (\<lambda>_. newPackageUniverse)
         (rootPkg := setVersions newPackageUniverse [rootVersion S]),
       ss_conflictCounts = (\<lambda>_. 0), ss_depsAdded = (\<lambda>_. False),
       ss_rootDeps = rootDepsOf reqs, ss_nextPtr = 0 \<rparr>"

definition uniFor :: "('e, 'v) solveState \<Rightarrow> gostring \<Rightarrow> 'v packageUniverse" where
  "uniFor s pkg = ss_universes s pkg"

definition ensureUniverse :: "'v semver \<Rightarrow> ('e, 'v) solveState \<Rightarrow> gostring \<Rightarrow>
    (('e, 'v) solveErr, ('e, 'v) solveState) res" where
  "ensureUniverse S s pkg =
     (if pkg = rootPkg then Inr s
      else let u = uniFor s pkg in
        if u_fetched u then Inr s
        else case pr_universe (ss_provider s) pkg of
            Inl err \<Rightarrow> Inl (ProviderError (''fetching version universe for '' @ pkg) err)
          | Inr versions \<Rightarrow>
              Inr (s\<lparr> ss_universes := (ss_universes s)(pkg := setVersions u (buildUniverse S versions)) \<rparr>))"

text \<open>The composite literal \<^verbatim>\<open>&incompatibility{...}\<close>.\<close>

definition newIncompat :: "('e, 'v) solveState \<Rightarrow> 'v cause \<Rightarrow> 'v solverTerm list \<Rightarrow> 'v incompat \<times> ('e, 'v) solveState" where
  "newIncompat s c terms = (Incompat (ss_nextPtr s) c terms, s\<lparr> ss_nextPtr := ss_nextPtr s + 1 \<rparr>)"

definition addToStore :: "'v semver \<Rightarrow> ('e, 'v) solveState \<Rightarrow> 'v incompat \<Rightarrow> nat \<times> ('e, 'v) solveState" where
  "addToStore S s inc =
     (let (idx, _, st) = storeAdd S (ss_store s) inc in (idx, s\<lparr> ss_store := st \<rparr>))"

text \<open>What adding an incompatibility leaves in the store.\<close>

lemma set_storeAdd: "storeAdd S st inc = (idx, b, st') \<Longrightarrow> set (st_all st') \<subseteq> insert inc (set (st_all st))"
  by (cases rule: storeAdd_cases [of S st inc]) auto

lemma set_addToStore: "addToStore S s inc = (idx, s') \<Longrightarrow> set (st_all (ss_store s')) \<subseteq> insert inc (set (st_all (ss_store s)))"
  using set_storeAdd [of S "ss_store s" inc] by (auto simp: addToStore_def split: prod.splits)

lemma newIncompat_simps [simp]:
  "inc_cause (fst (newIncompat s c ts)) = c" "inc_terms (fst (newIncompat s c ts)) = ts"
  "snd (newIncompat s c ts) = s\<lparr> ss_nextPtr := ss_nextPtr s + 1 \<rparr>"
  by (simp_all add: newIncompat_def)

text \<open>A later requirement on one package replaces an earlier one.\<close>

lemma map_of_rootDeps:
  "map_of (rootDepsOf reqs) = map_of (rev (map (\<lambda>r. (rq_package r, rq_constraint r)) reqs))"
  unfolding rootDepsOf_def
  by (induction reqs rule: rev_induct) simp_all

end
