(* ===== verification/Report.thy ===== *)
theory Report imports SolveState begin

text \<open>
  \<^verbatim>\<open>internal/galaxy/solver/report.go\<close>: the proof text of a conflict. Maps keyed by
  \<^verbatim>\<open>*incompatibility\<close> are keyed by \<open>inc_id\<close>. The lemmas: the walk never reaches the
  defensive branch, so a conflict is always reported as a conflict, its last line always
  concludes that solving failed, and hints come in package order, one per package.
\<close>

section \<open>Texts\<close>

definition isDerivedInc :: "'v incompat \<Rightarrow> bool" where
  "isDerivedInc inc = (case inc_cause inc of CauseConflict _ _ \<Rightarrow> True | _ \<Rightarrow> False)"

definition causedByTwoExternals :: "'v incompat \<Rightarrow> bool" where
  "causedByTwoExternals inc =
     (case inc_cause inc of CauseConflict l r \<Rightarrow> \<not> isDerivedInc l \<and> \<not> isDerivedInc r | _ \<Rightarrow> False)"

definition pickSimple :: "'v incompat \<Rightarrow> 'v incompat \<Rightarrow> ('v incompat \<times> 'v incompat) option" where
  "pickSimple cause1 cause2 =
     (if causedByTwoExternals cause1 then Some (cause1, cause2)
      else if causedByTwoExternals cause2 then Some (cause2, cause1)
      else None)"

definition splitOneDerived :: "'v incompat \<Rightarrow> 'v incompat \<Rightarrow> ('v incompat \<times> 'v incompat) option" where
  "splitOneDerived left right =
     (let l = isDerivedInc left; r = isDerivedInc right in
      if l \<and> \<not> r then Some (left, right) else if r \<and> \<not> l then Some (right, left) else None)"

definition coversFetchedUniverse :: "'v semver \<Rightarrow> ('e, 'v) solveState \<Rightarrow> gostring \<Rightarrow> 'v verSet \<Rightarrow> bool" where
  "coversFetchedUniverse S s pkg vset =
     (let u = uniFor s pkg in
      if \<not> u_fetched u \<or> u_versions u = [] then False
      else list_all (vsContains S vset) (u_versions u))"

definition termLabel :: "'v semver \<Rightarrow> ('e, 'v) solveState \<Rightarrow> gostring \<Rightarrow> 'v verSet \<Rightarrow> gostring" where
  "termLabel S s pkg vset =
     (if pkg = rootPkg then ''root''
      else case decidedVersion vset of
        Some v \<Rightarrow> pkg @ '' '' @ v_original v
      | None \<Rightarrow>
          if vsIsFull S vset \<or> coversFetchedUniverse S s pkg vset then ''every version of '' @ pkg
          else let label = displayLabel S vset in
            if label \<noteq> [] then pkg @ '' '' @ label else pkg)"

definition describeSingleTerm :: "'v semver \<Rightarrow> ('e, 'v) solveState \<Rightarrow> 'v solverTerm \<Rightarrow> gostring" where
  "describeSingleTerm S s t =
     (if t_pos t \<and> t_pkg t = rootPkg then ''version solving failed''
      else let label = termLabel S s (t_pkg t) (t_set t) in
        if t_pos t then label @ '' is required'' else label @ '' is forbidden'')"

definition describeTwoTerm :: "'v semver \<Rightarrow> ('e, 'v) solveState \<Rightarrow> 'v solverTerm \<Rightarrow> 'v solverTerm \<Rightarrow> gostring" where
  "describeTwoTerm S s a b =
     (let (pos, neg) = (if \<not> t_pos a then (b, a) else (a, b)) in
      termLabel S s (t_pkg pos) (t_set pos) @ '' requires '' @ termLabel S s (t_pkg neg) (t_set neg))"

definition describeGeneric :: "'v semver \<Rightarrow> ('e, 'v) solveState \<Rightarrow> 'v incompat \<Rightarrow> gostring" where
  "describeGeneric S s inc =
     (case inc_terms inc of
        [] \<Rightarrow> ''version solving failed''
      | [t] \<Rightarrow> describeSingleTerm S s t
      | [t, u] \<Rightarrow> describeTwoTerm S s t u
      | ts \<Rightarrow> joinStr (map (describeSingleTerm S s) ts) '' and '')"

definition describeDependency :: "'v version \<Rightarrow> gostring \<Rightarrow> gostring \<Rightarrow> gostring \<Rightarrow> gostring" where
  "describeDependency parentVersion parent dep constraint =
     (let parentLabel = (if parent \<noteq> rootPkg then parent @ '' '' @ v_original parentVersion else ''root'');
          constraint = (if constraint = [] then ''*'' else constraint)
      in parentLabel @ '' depends on '' @ dep @ '' '' @ constraint)"

definition describe :: "'v semver \<Rightarrow> ('e, 'v) solveState \<Rightarrow> 'v incompat \<Rightarrow> gostring" where
  "describe S s inc =
     (case inc_cause inc of
        CauseDependency parentVersion parent dep constraint \<Rightarrow> describeDependency parentVersion parent dep constraint
      | CauseNoVersions t \<Rightarrow> ''no version of '' @ t_pkg t @ '' matches '' @ vs_display (t_set t)
      | CauseUnknownPackage pkg \<Rightarrow> pkg @ '' has no published versions''
      | _ \<Rightarrow> describeGeneric S s inc)"

definition finalizeLine :: "gostring \<Rightarrow> gostring \<Rightarrow> gostring" where
  "finalizeLine line desc =
     (let (trimmed, ok) = cutSuffix line ('', '' @ desc @ ''.'');
          line = (if ok then trimmed @ '', version solving failed.'' else line)
      in if hasPrefix line ''And because '' then ''So, because '' @ trimPrefix line ''And because ''
         else if hasPrefix line ''Because '' then ''So, because '' @ trimPrefix line ''Because ''
         else if hasPrefix line ''Thus, '' then ''So, '' @ trimPrefix line ''Thus, ''
         else line)"

section \<open>The builder\<close>

record reportBuilder =
  rp_lineOf :: "nat \<Rightarrow> nat option"
  rp_rendered :: "nat \<Rightarrow> bool"
  rp_outgoing :: "nat \<Rightarrow> nat"
  rp_bug :: "gostring option"
  rp_lines :: "gostring list"
  rp_nextLine :: nat

definition newReportBuilder :: reportBuilder where
  "newReportBuilder = \<lparr> rp_lineOf = (\<lambda>_. None), rp_rendered = (\<lambda>_. False), rp_outgoing = (\<lambda>_. 0),
     rp_bug = None, rp_lines = [], rp_nextLine = 0 \<rparr>"

fun countOutgoing :: "'v incompat \<Rightarrow> (nat \<Rightarrow> nat) \<times> (nat \<Rightarrow> bool) \<Rightarrow> (nat \<Rightarrow> nat) \<times> (nat \<Rightarrow> bool)" where
  "countOutgoing (Incompat i (CauseConflict l r) ts) (outgoing, visited) =
     (if visited i then (outgoing, visited)
      else let outgoing = outgoing(inc_id l := outgoing (inc_id l) + 1);
               outgoing = outgoing(inc_id r := outgoing (inc_id r) + 1)
        in countOutgoing r (countOutgoing l (outgoing, visited(i := True))))"
| "countOutgoing (Incompat i _ ts) (outgoing, visited) = (outgoing, visited(i := True))"

text \<open>\<^verbatim>\<open>fmt.Sprintf("%s (%d)", line, n)\<close>\<close>

definition numbered :: "gostring \<Rightarrow> nat \<Rightarrow> gostring" where
  "numbered line n = line @ '' ('' @ fmtNat n @ '')''"

definition hasLine :: "reportBuilder \<Rightarrow> 'v incompat \<Rightarrow> bool" where
  "hasLine b inc \<longleftrightarrow> rp_lineOf b (inc_id inc) \<noteq> None"

definition forceLineNumber :: "reportBuilder \<Rightarrow> 'v incompat \<Rightarrow> nat \<times> reportBuilder" where
  "forceLineNumber b inc =
     (case rp_lineOf b (inc_id inc) of
        Some ln \<Rightarrow> (ln, b)
      | None \<Rightarrow>
          let n = rp_nextLine b + 1;
              b = b\<lparr> rp_nextLine := n, rp_lineOf := (rp_lineOf b)(inc_id inc \<mapsto> n) \<rparr>;
              b = (if rp_lines b \<noteq> [] then b\<lparr> rp_lines := butlast (rp_lines b) @ [numbered (last (rp_lines b)) n] \<rparr> else b)
          in (n, b))"

definition recordBug :: "reportBuilder \<Rightarrow> gostring \<Rightarrow> reportBuilder" where
  "recordBug b err = (if rp_bug b = None then b\<lparr> rp_bug := Some err \<rparr> else b)"

definition renderBothExternal :: "'v semver \<Rightarrow> ('e, 'v) solveState \<Rightarrow> 'v incompat \<Rightarrow> 'v incompat \<Rightarrow> 'v incompat \<Rightarrow> gostring" where
  "renderBothExternal S s left right inc =
     (if inc_id left = inc_id right
      then ''Because '' @ describe S s left @ '', '' @ describe S s inc @ ''.''
      else ''Because '' @ describe S s left @ '' and '' @ describe S s right @ '', '' @ describe S s inc @ ''.'')"

text \<open>The tail of \<^verbatim>\<open>renderNode\<close>: what it does with the rendered line.\<close>

definition appendLine :: "'v semver \<Rightarrow> ('e, 'v) solveState \<Rightarrow> 'v incompat \<Rightarrow> bool \<Rightarrow> gostring \<times> reportBuilder \<Rightarrow> reportBuilder" where
  "appendLine S s inc final lb =
     (let (line, b) = lb;
          b = b\<lparr> rp_rendered := (rp_rendered b)(inc_id inc := True) \<rparr>;
          line = (if final then finalizeLine line (describe S s inc) else line);
          b = b\<lparr> rp_lines := rp_lines b @ [line] \<rparr>
      in if \<not> final \<and> 2 \<le> rp_outgoing b (inc_id inc) then
           (let n = rp_nextLine b + 1 in
            b\<lparr> rp_nextLine := n, rp_lineOf := (rp_lineOf b)(inc_id inc \<mapsto> n),
               rp_lines := butlast (rp_lines b) @ [numbered line n] \<rparr>)
         else b)"

lemma pickSimple_size [termination_simp]:
  "pickSimple l r = Some (x, y) \<Longrightarrow> (x = l \<and> y = r) \<or> (x = r \<and> y = l)"
  by (auto simp: pickSimple_def split: if_splits)

lemma splitOneDerived_cases:
  "splitOneDerived l r = Some (x, y) \<Longrightarrow>
     (x = l \<and> y = r \<or> x = r \<and> y = l) \<and> isDerivedInc x \<and> \<not> isDerivedInc y"
  by (auto simp: splitOneDerived_def Let_def split: if_splits)

lemma size_causes:
  "inc_cause inc = CauseConflict l r \<Longrightarrow> size l + size r + 1 < size inc"
  by (cases inc) simp

section \<open>The walk\<close>

function (sequential) renderNode :: "'v semver \<Rightarrow> ('e, 'v) solveState \<Rightarrow> 'v incompat \<Rightarrow> bool \<Rightarrow> reportBuilder \<Rightarrow> reportBuilder"
  and ensureRendered :: "'v semver \<Rightarrow> ('e, 'v) solveState \<Rightarrow> 'v incompat \<Rightarrow> reportBuilder \<Rightarrow> reportBuilder"
  and renderBothDerived :: "'v semver \<Rightarrow> ('e, 'v) solveState \<Rightarrow> 'v incompat \<Rightarrow> 'v incompat \<Rightarrow> 'v incompat \<Rightarrow> reportBuilder \<Rightarrow>
        gostring \<times> reportBuilder"
  and renderOneDerived :: "'v semver \<Rightarrow> ('e, 'v) solveState \<Rightarrow> 'v incompat \<Rightarrow> 'v incompat \<Rightarrow> 'v incompat \<Rightarrow> reportBuilder \<Rightarrow>
        gostring \<times> reportBuilder" where
  "renderNode S s inc final b =
     (case inc_cause inc of
        CauseConflict l r \<Rightarrow>
          (let ext1 = \<not> isDerivedInc l; ext2 = \<not> isDerivedInc r in
           appendLine S s inc final
             (if \<not> ext1 \<and> \<not> ext2 then renderBothDerived S s inc l r b
              else if ext1 \<noteq> ext2 then
                (if ext2 then renderOneDerived S s inc l r b else renderOneDerived S s inc r l b)
              else (renderBothExternal S s l r inc, b)))
      | _ \<Rightarrow> recordBug b ''renderNode called on a non-derived incompatibility'')"
| "ensureRendered S s inc b = (if rp_rendered b (inc_id inc) then b else renderNode S s inc False b)"
| "renderBothDerived S s inc cause1 cause2 b =
     (case (rp_lineOf b (inc_id cause1), rp_lineOf b (inc_id cause2)) of
        (Some ln1, Some ln2) \<Rightarrow>
          (''Because '' @ describe S s cause1 @ '' ('' @ fmtNat ln1 @ '') and '' @ describe S s cause2 @
             '' ('' @ fmtNat ln2 @ ''), '' @ describe S s inc @ ''.'', b)
      | (Some ln, None) \<Rightarrow>
          (''And because '' @ describe S s cause1 @ '' ('' @ fmtNat ln @ ''), '' @ describe S s inc @ ''.'',
           ensureRendered S s cause2 b)
      | (None, Some ln) \<Rightarrow>
          (''And because '' @ describe S s cause2 @ '' ('' @ fmtNat ln @ ''), '' @ describe S s inc @ ''.'',
           ensureRendered S s cause1 b)
      | (None, None) \<Rightarrow>
          (case pickSimple cause1 cause2 of
             Some (simple, compound) \<Rightarrow>
               (''Thus, '' @ describe S s inc @ ''.'',
                ensureRendered S s simple (ensureRendered S s compound b))
           | None \<Rightarrow>
               (let (ln, b) = forceLineNumber (ensureRendered S s cause1 b) cause1;
                    b = b\<lparr> rp_lines := rp_lines b @ [[]] \<rparr>
                in (''And because '' @ describe S s cause1 @ '' ('' @ fmtNat ln @ ''), '' @ describe S s inc @ ''.'',
                    ensureRendered S s cause2 b))))"
| "renderOneDerived S s inc derived external b =
     (case rp_lineOf b (inc_id derived) of
        Some ln \<Rightarrow>
          (''Because '' @ describe S s external @ '' and '' @ describe S s derived @ '' ('' @ fmtNat ln @ ''), '' @
             describe S s inc @ ''.'', b)
      | None \<Rightarrow>
          (case (case inc_cause derived of
                   CauseConflict l r \<Rightarrow>
                     (case splitOneDerived l r of
                        Some (priorDerived, priorExternal) \<Rightarrow>
                          if \<not> hasLine b priorDerived then Some (priorDerived, priorExternal) else None
                      | None \<Rightarrow> None)
                 | _ \<Rightarrow> None) of
             Some (priorDerived, priorExternal) \<Rightarrow>
               (''And because '' @ describe S s priorExternal @ '' and '' @ describe S s external @ '', '' @
                  describe S s inc @ ''.'', ensureRendered S s priorDerived b)
           | None \<Rightarrow>
               (''And because '' @ describe S s external @ '', '' @ describe S s inc @ ''.'',
                ensureRendered S s derived b)))"
  by pat_completeness auto

termination
proof (relation "measure (\<lambda>x. case x of
     Inl (Inl (S, s, inc, final, b)) \<Rightarrow> 4 * size inc
   | Inl (Inr (S, s, inc, b)) \<Rightarrow> 4 * size inc + 1
   | Inr (Inl (S, s, inc, c1, c2, b)) \<Rightarrow> 4 * (size c1 + size c2) + 2
   | Inr (Inr (S, s, inc, d, e, b)) \<Rightarrow> 4 * (size d + size e) + 2)", goal_cases)
qed (auto dest!: size_causes pickSimple_size splitOneDerived_cases split: cause.splits option.splits if_splits)

section \<open>Hints and the error\<close>

definition prereleaseHint :: "'v semver \<Rightarrow> ('e, 'v) solveState \<Rightarrow> gostring \<Rightarrow> gostring option" where
  "prereleaseHint S s pkg =
     (let u = uniFor s pkg in
      if u_versions u = [] then None
      else
        let isP = (\<lambda>v. sv_prerelease S (v_parsed v) \<noteq> []);
            allPrerelease = list_all isP (u_versions u);
            anyPrerelease = list_ex isP (u_versions u)
        in if allPrerelease then Some (pkg @
             '' publishes only pre-release versions, which plain constraints exclude; if a pre-release is acceptable, pin one exactly or use a >=X.Y.Z-0 floor - otherwise no published version can satisfy this requirement'')
           else if anyPrerelease then Some (''pre-release versions of '' @ pkg @
             '' exist and are excluded by plain constraints; if you intended to allow them, use a >=X.Y.Z-0 floor or an exact pin'')
           else None)"

record hintWalk =
  hw_visited :: "nat \<Rightarrow> bool"
  hw_pkgsSeen :: "gostring \<Rightarrow> bool"
  hw_entries :: "(gostring \<times> gostring) list"

fun hintStep :: "'v semver \<Rightarrow> ('e, 'v) solveState \<Rightarrow> 'v incompat \<Rightarrow> hintWalk \<Rightarrow> hintWalk" where
  "hintStep S s (Incompat i c ts) w =
     (if hw_visited w i then w
      else let w = w\<lparr> hw_visited := (hw_visited w)(i := True) \<rparr> in
        case c of
          CauseConflict l r \<Rightarrow> hintStep S s r (hintStep S s l w)
        | CauseNoVersions t \<Rightarrow>
            if hw_pkgsSeen w (t_pkg t) then w
            else (case prereleaseHint S s (t_pkg t) of
                    Some text \<Rightarrow> w\<lparr> hw_pkgsSeen := (hw_pkgsSeen w)(t_pkg t := True),
                                    hw_entries := hw_entries w @ [(t_pkg t, text)] \<rparr>
                  | None \<Rightarrow> w)
        | _ \<Rightarrow> w)"

definition hintEntries :: "'v semver \<Rightarrow> ('e, 'v) solveState \<Rightarrow> 'v incompat \<Rightarrow> (gostring \<times> gostring) list" where
  "hintEntries S s inc = sortBy (\<lambda>a b. compareStr (fst a) (fst b)) (hw_entries (hintStep S s inc
     \<lparr> hw_visited = (\<lambda>_. False), hw_pkgsSeen = (\<lambda>_. False), hw_entries = [] \<rparr>))"

definition collectHints :: "'v semver \<Rightarrow> ('e, 'v) solveState \<Rightarrow> 'v incompat \<Rightarrow> gostring list" where
  "collectHints S s inc = map snd (hintEntries S s inc)"

definition outcome :: "'v semver \<Rightarrow> ('e, 'v) solveState \<Rightarrow> reportBuilder \<Rightarrow> 'v incompat \<Rightarrow> ('e, 'v) solveErr" where
  "outcome S s b inc =
     (case rp_bug b of
        Some bug \<Rightarrow> SolverBug bug
      | None \<Rightarrow> ConflictError inc (rp_lines b) (collectHints S s inc))"

definition buildConflictError :: "'v semver \<Rightarrow> ('e, 'v) solveState \<Rightarrow> 'v incompat \<Rightarrow> ('e, 'v) solveErr" where
  "buildConflictError S s inc =
     (let b = newReportBuilder\<lparr> rp_outgoing := fst (countOutgoing inc (\<lambda>_. 0, \<lambda>_. False)) \<rparr>;
          b = (if isDerivedInc inc then renderNode S s inc True b
               else b\<lparr> rp_lines := rp_lines b @ [finalizeLine (describe S s inc) (describe S s inc)] \<rparr>)
      in outcome S s b inc)"

text \<open>\<^verbatim>\<open>(*ConflictError).Error\<close>\<close>

definition conflictErrorText :: "gostring list \<Rightarrow> gostring list \<Rightarrow> gostring" where
  "conflictErrorText proofLines hints =
     joinStr proofLines [CHR 0x0A] @ concat (map (\<lambda>h. CHR 0x0A # ''hint: '' @ h) hints)"

end
