(* ===== verification/Conflict.thy ===== *)
theory Conflict imports Report begin

text \<open>
  \<^verbatim>\<open>internal/galaxy/solver/conflict.go\<close>: conflict resolution. One pass over the
  assignments finds where each term of an incompatibility became satisfied; the loop merges
  the incompatibility with the cause of its latest satisfier until it can backjump or is
  terminal.
\<close>

section \<open>Satisfiers\<close>

text \<open>
  The loop state of \<^verbatim>\<open>computeFirstSatisfied\<close>: a package is \<open>done\<close> when it has an index;
  \<open>-1\<close> says the seed alone satisfies its term.
\<close>

record 'v satScan =
  sc_first :: "gostring \<Rightarrow> int option"
  sc_running :: "gostring \<Rightarrow> 'v solverTerm"

definition seedTerm :: "'v semver \<Rightarrow> 'v solverTerm option \<Rightarrow> 'v satScan \<Rightarrow> 'v solverTerm \<Rightarrow> 'v satScan" where
  "seedTerm S seed sc t =
     (let acc = accumSeed (t_pkg t) in
      case seed of
        Some sd \<Rightarrow>
          if t_pkg sd = t_pkg t then
            let acc = termIntersect S acc sd;
                first = (if termSubset S acc t then (sc_first sc)(t_pkg t \<mapsto> -1) else sc_first sc)
            in sc\<lparr> sc_first := first, sc_running := (sc_running sc)(t_pkg t := acc) \<rparr>
          else sc\<lparr> sc_running := (sc_running sc)(t_pkg t := acc) \<rparr>
      | None \<Rightarrow> sc\<lparr> sc_running := (sc_running sc)(t_pkg t := acc) \<rparr>)"

definition scanAssignment :: "'v semver \<Rightarrow> 'v incompat \<Rightarrow> 'v satScan \<Rightarrow> int \<times> 'v assignment \<Rightarrow> 'v satScan" where
  "scanAssignment S inc sc ia =
     (let (i, a) = ia in
      case termForPackage inc (t_pkg (a_term a)) of
        None \<Rightarrow> sc
      | Some t \<Rightarrow>
          if sc_first sc (t_pkg t) \<noteq> None then sc
          else let acc = termIntersect S (sc_running sc (t_pkg t)) (a_term a);
                   sc = sc\<lparr> sc_running := (sc_running sc)(t_pkg t := acc) \<rparr>
               in if termSubset S acc t then sc\<lparr> sc_first := (sc_first sc)(t_pkg t \<mapsto> i) \<rparr> else sc)"

definition computeFirstSatisfied :: "'v semver \<Rightarrow> 'v partialSolution \<Rightarrow> 'v incompat \<Rightarrow> 'v solverTerm option \<Rightarrow> nat \<Rightarrow>
    (gostring \<Rightarrow> int option)" where
  "computeFirstSatisfied S ps inc seed limit =
     (let sc = foldl (seedTerm S seed) \<lparr> sc_first = (\<lambda>_. None), sc_running = accumSeed \<rparr> (inc_terms inc);
          as = take limit (ps_assignments ps)
      in sc_first (foldl (scanAssignment S inc) sc (zip (map int [0..<length as]) as)))"

definition latestTerm :: "(gostring \<Rightarrow> int option) \<Rightarrow> int \<times> gostring \<Rightarrow> 'v solverTerm \<Rightarrow> int \<times> gostring" where
  "latestTerm firstIdx best t =
     (let idx = (case firstIdx (t_pkg t) of None \<Rightarrow> -1 | Some i \<Rightarrow> i) in
      if fst best < idx then (idx, t_pkg t) else best)"

text \<open>A satisfier comes with inc's term for its package; without one the term is never read.\<close>

definition earliestSatisfier :: "'v semver \<Rightarrow> 'v partialSolution \<Rightarrow> 'v incompat \<Rightarrow> ('v assignment \<times> 'v solverTerm) option" where
  "earliestSatisfier S ps inc =
     (let firstIdx = computeFirstSatisfied S ps inc None (length (ps_assignments ps));
          (maxIdx, maxPkg) = foldl (latestTerm firstIdx) (-1, []) (inc_terms inc)
      in if maxIdx < 0 then None
         else Some (ps_assignments ps ! nat maxIdx, the (termForPackage inc maxPkg)))"

definition earliestSatisfierBefore :: "'v semver \<Rightarrow> 'v partialSolution \<Rightarrow> 'v incompat \<Rightarrow> 'v assignment \<Rightarrow> 'v assignment option" where
  "earliestSatisfierBefore S ps inc satisfier =
     (let firstIdx = computeFirstSatisfied S ps inc (Some (a_term satisfier)) (a_index satisfier);
          (maxIdx, _) = foldl (latestTerm firstIdx) (-1, []) (inc_terms inc)
      in if maxIdx < 0 then None else Some (ps_assignments ps ! nat maxIdx))"

definition prevSatisfierLevel :: "'v semver \<Rightarrow> 'v partialSolution \<Rightarrow> 'v incompat \<Rightarrow> 'v assignment \<Rightarrow> nat" where
  "prevSatisfierLevel S ps inc satisfier =
     (case earliestSatisfierBefore S ps inc satisfier of None \<Rightarrow> 0 | Some a \<Rightarrow> a_level a)"

definition shouldBackjump :: "'v assignment \<Rightarrow> nat \<Rightarrow> bool" where
  "shouldBackjump satisfier prevLevel \<longleftrightarrow> isDecision satisfier \<or> prevLevel \<noteq> a_level satisfier"

section \<open>The resolution step\<close>

definition mergeTermsExcluding :: "'v incompat \<Rightarrow> 'v incompat \<Rightarrow> gostring \<Rightarrow> 'v solverTerm list" where
  "mergeTermsExcluding a b exclude =
     filter (\<lambda>t. t_pkg t \<noteq> exclude) (inc_terms a) @ filter (\<lambda>t. t_pkg t \<noteq> exclude) (inc_terms b)"

definition negatedDifferenceTerm :: "'v semver \<Rightarrow> 'v solverTerm \<Rightarrow> 'v solverTerm \<Rightarrow> 'v solverTerm" where
  "negatedDifferenceTerm S satisfierTerm incTerm = negate (termIntersect S satisfierTerm (negate incTerm))"

definition priorTerms :: "'v semver \<Rightarrow> 'v incompat \<Rightarrow> 'v incompat \<Rightarrow> 'v assignment \<Rightarrow> 'v solverTerm \<Rightarrow> 'v solverTerm list" where
  "priorTerms S inc cause satisfier satisfierTerm =
     (let prior = mergeTermsExcluding inc cause (t_pkg (a_term satisfier)) in
      if termSubset S (a_term satisfier) satisfierTerm then prior
      else prior @ [negatedDifferenceTerm S (a_term satisfier) satisfierTerm])"

definition mergeWithSatisfierCause :: "'v semver \<Rightarrow> ('e, 'v) solveState \<Rightarrow> 'v incompat \<Rightarrow> 'v assignment \<Rightarrow> 'v solverTerm \<Rightarrow>
    'v incompat \<times> ('e, 'v) solveState" where
  "mergeWithSatisfierCause S s inc satisfier satisfierTerm =
     (let cause = st_all (ss_store s) ! the (a_cause satisfier) in
      newIncompat s (CauseConflict inc cause)
        (normalizeTerms S (priorTerms S inc cause satisfier satisfierTerm)))"

definition backjump :: "'v semver \<Rightarrow> ('e, 'v) solveState \<Rightarrow> 'v incompat \<Rightarrow> nat \<Rightarrow> bool \<Rightarrow> nat \<Rightarrow>
    (('e, 'v) solveErr, nat \<times> 'v incompat \<times> ('e, 'v) solveState) res" where
  "backjump S s inc curIdx incChanged prevLevel =
     (let (curIdx, s) = (if incChanged then addToStore S s inc else (curIdx, s)) in
      bindE (backtrackTo S (ss_ps s) prevLevel) (\<lambda>ps. Inr (curIdx, inc, s\<lparr> ss_ps := ps \<rparr>)))"

section \<open>The loop\<close>

definition guardLimit :: int where
  "guardLimit = 10000"

function resolveLoop :: "'v semver \<Rightarrow> int \<Rightarrow> ('e, 'v) solveState \<Rightarrow> 'v incompat \<Rightarrow> nat \<Rightarrow> bool \<Rightarrow>
    (('e, 'v) solveErr, nat \<times> 'v incompat \<times> ('e, 'v) solveState) res" where
  "resolveLoop S guard s inc curIdx incChanged =
     (if guardLimit \<le> guard then Inl (buildConflictError S s inc)
      else if isTerminal inc then Inl (buildConflictError S s inc)
      else case earliestSatisfier S (ss_ps s) inc of
        None \<Rightarrow> Inl (SolverBug ''no satisfier found for a satisfied incompatibility'')
      | Some (satisfier, t) \<Rightarrow>
          let prevLevel = prevSatisfierLevel S (ss_ps s) inc satisfier in
          if shouldBackjump satisfier prevLevel then backjump S s inc curIdx incChanged prevLevel
          else let (inc', s') = mergeWithSatisfierCause S s inc satisfier t in
            resolveLoop S (guard + 1) s' inc' curIdx True)"
  by auto
termination
  by (relation "measure (\<lambda>(S, guard, _). nat (guardLimit - guard))") auto

declare resolveLoop.simps [simp del]

definition resolveConflict :: "'v semver \<Rightarrow> ('e, 'v) solveState \<Rightarrow> nat \<Rightarrow>
    (('e, 'v) solveErr, nat \<times> 'v incompat \<times> ('e, 'v) solveState) res" where
  "resolveConflict S s startIdx =
     (let inc = st_all (ss_store s) ! startIdx;
          counts = foldl (\<lambda>c t. c(t_pkg t := c (t_pkg t) + 1)) (ss_conflictCounts s) (inc_terms inc)
      in resolveLoop S 0 (s\<lparr> ss_conflictCounts := counts \<rparr>) inc startIdx False)"

end
