(* ===== verification/Propagate.thy ===== *)
theory Propagate imports Conflict begin

text \<open>
  \<^verbatim>\<open>internal/galaxy/solver/propagate.go\<close>: unit propagation. The changed set is a list
  without repetitions that is only ever popped by its least element. The outer loop is a
  partial function: a run that does not return has the value \<open>None\<close>.
\<close>

section \<open>Relations\<close>

datatype incRelation = IncInconclusive | IncSatisfied | IncAlmostSatisfied | IncContradicted

definition relation :: "'v semver \<Rightarrow> 'v solverTerm \<Rightarrow> 'v partialSolution \<Rightarrow> termRelation" where
  "relation S t ps =
     (let p = pkgState ps (t_pkg t) in
      if pa_indices p = [] then TermInconclusive else relateAccum S (pa_accum p) t)"

text \<open>The inconclusive term of an almost satisfied incompatibility comes along.\<close>

fun relateLoop :: "('v solverTerm \<Rightarrow> termRelation) \<Rightarrow> 'v solverTerm option \<Rightarrow> 'v solverTerm list \<Rightarrow> incRelation \<times> 'v solverTerm option" where
  "relateLoop rel unsat [] = (case unsat of None \<Rightarrow> (IncSatisfied, None) | Some t \<Rightarrow> (IncAlmostSatisfied, Some t))"
| "relateLoop rel unsat (t # ts) =
     (case rel t of
        TermContradicted \<Rightarrow> (IncContradicted, None)
      | TermInconclusive \<Rightarrow>
          if unsat \<noteq> None then (IncInconclusive, None) else relateLoop rel (Some t) ts
      | TermSatisfied \<Rightarrow> relateLoop rel unsat ts)"

definition relate :: "'v semver \<Rightarrow> 'v incompat \<Rightarrow> 'v partialSolution \<Rightarrow> incRelation \<times> 'v solverTerm option" where
  "relate S inc ps = relateLoop (\<lambda>t. relation S t ps) None (inc_terms inc)"

section \<open>Propagation\<close>

definition markChanged :: "gostring \<Rightarrow> gostring list \<Rightarrow> gostring list" where
  "markChanged p changed = (if p \<in> set changed then changed else p # changed)"

definition popSmallest :: "gostring list \<Rightarrow> gostring \<times> gostring list" where
  "popSmallest changed =
     (let smallest = foldl min (hd changed) (tl changed) in (smallest, removeAll smallest changed))"

definition deriveOnce :: "'v semver \<Rightarrow> ('e, 'v) solveState \<Rightarrow> 'v solverTerm \<Rightarrow> nat \<Rightarrow> gostring list \<Rightarrow>
    ('e, 'v) solveState \<times> gostring list" where
  "deriveOnce S s t causeIdx changed =
     (if hasEquivalentAssignment S (ss_ps s) t then (s, changed)
      else (s\<lparr> ss_ps := derive S (ss_ps s) t causeIdx \<rparr>, markChanged (t_pkg t) changed))"

definition resolveAndDerive :: "'v semver \<Rightarrow> ('e, 'v) solveState \<Rightarrow> nat \<Rightarrow>
    (('e, 'v) solveErr, ('e, 'v) solveState \<times> gostring list) res" where
  "resolveAndDerive S s idx =
     bindE (resolveConflict S s idx) (\<lambda>(rootIdx, rootCause, s').
       case relate S rootCause (ss_ps s') of
         (IncAlmostSatisfied, Some t) \<Rightarrow> Inr (deriveOnce S s' (negate t) rootIdx [])
       | _ \<Rightarrow> Inl (buildConflictError S s' rootCause))"

fun scanPackage :: "'v semver \<Rightarrow> nat list \<Rightarrow> ('e, 'v) solveState \<Rightarrow> gostring list \<Rightarrow>
    (('e, 'v) solveErr, bool \<times> ('e, 'v) solveState \<times> gostring list) res" where
  "scanPackage S [] s changed = Inr (False, s, changed)"
| "scanPackage S (idx # idxs) s changed =
     (case relate S (st_all (ss_store s) ! idx) (ss_ps s) of
        (IncSatisfied, _) \<Rightarrow> bindE (resolveAndDerive S s idx) (\<lambda>(s', changed'). Inr (True, s', changed'))
      | (IncAlmostSatisfied, Some unsat) \<Rightarrow>
          (let (s', changed') = deriveOnce S s (negate unsat) idx changed in scanPackage S idxs s' changed')
      | _ \<Rightarrow> scanPackage S idxs s changed)"

definition propagatePackage :: "'v semver \<Rightarrow> ('e, 'v) solveState \<Rightarrow> gostring \<Rightarrow> gostring list \<Rightarrow>
    (('e, 'v) solveErr, bool \<times> ('e, 'v) solveState \<times> gostring list) res" where
  "propagatePackage S s p changed = scanPackage S (byPackageNewestFirst (ss_store s) p) s changed"

partial_function (option) propagateLoop :: "'v semver \<Rightarrow> ('e, 'v) solveState \<Rightarrow> gostring list \<Rightarrow>
    (('e, 'v) solveErr, ('e, 'v) solveState) res option" where
  "propagateLoop S s changed =
     (if changed = [] then Some (Inr s)
      else case propagatePackage S s (fst (popSmallest changed)) (snd (popSmallest changed)) of
          Inl err \<Rightarrow> Some (Inl err)
        | Inr r \<Rightarrow> propagateLoop S (fst (snd r)) (snd (snd r)))"

declare propagateLoop.simps [code]

definition unitPropagation :: "'v semver \<Rightarrow> ('e, 'v) solveState \<Rightarrow> gostring \<Rightarrow>
    (('e, 'v) solveErr, ('e, 'v) solveState) res option" where
  "unitPropagation S s pkg = propagateLoop S s [pkg]"

end
