(* ===== verification/Decide.thy ===== *)
theory Decide imports Propagate begin

text \<open>
  \<^verbatim>\<open>internal/galaxy/solver/decide.go\<close>: choosing the next package and deciding it. Every
  function that changes the solve state returns the new state; a fast path that falls
  through returns the state and no outcome.
\<close>

section \<open>Choosing a package\<close>

definition packageIsExactPin :: "'v semver \<Rightarrow> ('e, 'v) solveState \<Rightarrow> gostring \<Rightarrow> 'v version option" where
  "packageIsExactPin S s pkg =
     (let p = pkgState (ss_ps s) pkg; u = uniFor s pkg in
      if u_fetched u then
        (let (only, count) = foldl (\<lambda>(only, count) v. if termPermits S (pa_accum p) v then (Some v, count + 1) else (only, count))
               (None, 0 :: int) (u_versions u)
         in if count = 1 then only else None)
      else if \<not> t_pos (pa_accum p) then None
      else decidedVersion (t_set (pa_accum p)))"

definition versionPassesAccum :: "'v semver \<Rightarrow> ('e, 'v) solveState \<Rightarrow> gostring \<Rightarrow> 'v version \<Rightarrow> bool" where
  "versionPassesAccum S s pkg v = termPermits S (pa_accum (pkgState (ss_ps s) pkg)) v"

definition probeWorthTrying :: "('e, 'v) solveState \<Rightarrow> gostring \<Rightarrow> bool" where
  "probeWorthTrying s pkg \<longleftrightarrow>
     (let p = pkgState (ss_ps s) pkg in pa_indices p \<noteq> [] \<and> t_pos (pa_accum p))"

definition candidatePackages :: "('e, 'v) solveState \<Rightarrow> gostring list" where
  "candidatePackages s =
     sort (map fst (filter (\<lambda>(pkg, p). \<not> (pa_decisionIdx p \<noteq> None \<or> pa_indices p = []) \<and> t_pos (pa_accum p))
       (ps_packages (ss_ps s))))"

definition pickByConflictCount :: "('e, 'v) solveState \<Rightarrow> gostring list \<Rightarrow> gostring option" where
  "pickByConflictCount s ns =
     (let best = fst (foldl (\<lambda>(best, bestCount) n.
            let c = ss_conflictCounts s n in if bestCount < c then (n, c) else (best, bestCount)) ([], 0) ns)
      in if best \<noteq> [] then Some best else None)"

definition countAllowed :: "'v semver \<Rightarrow> ('e, 'v) solveState \<Rightarrow> gostring \<Rightarrow> 'v packageUniverse \<Rightarrow> int" where
  "countAllowed S s pkg u =
     (let accum = pa_accum (pkgState (ss_ps s) pkg) in
      foldl (\<lambda>count v. if termPermits S accum v then count + 1 else count) 0 (u_versions u))"

definition pickByFewestCandidates :: "'v semver \<Rightarrow> ('e, 'v) solveState \<Rightarrow> gostring list \<Rightarrow> gostring option" where
  "pickByFewestCandidates S s ns =
     (let best = fst (foldl (\<lambda>(best, bestCount) n.
            let u = uniFor s n in
            if \<not> u_fetched u then (best, bestCount)
            else let c = countAllowed S s n u in
              if bestCount = -1 \<or> c < bestCount then (n, c) else (best, bestCount)) ([], -1) ns)
      in if best \<noteq> [] then Some best else None)"

definition pickPackage :: "'v semver \<Rightarrow> ('e, 'v) solveState \<Rightarrow> gostring option" where
  "pickPackage S s =
     (let ns = candidatePackages s in
      if ns = [] then None
      else case find (\<lambda>n. packageIsExactPin S s n \<noteq> None) ns of
        Some n \<Rightarrow> Some n
      | None \<Rightarrow>
          (case pickByConflictCount s ns of
             Some pkg \<Rightarrow> Some pkg
           | None \<Rightarrow>
               (case pickByFewestCandidates S s ns of
                  Some pkg \<Rightarrow> Some pkg
                | None \<Rightarrow> Some (hd ns))))"

section \<open>Deciding a version\<close>

definition dependenciesOf :: "('e, 'v) solveState \<Rightarrow> gostring \<Rightarrow> 'v version \<Rightarrow>
    (('e, 'v) solveErr, (gostring \<times> gostring) list) res" where
  "dependenciesOf s pkg v =
     (if pkg = rootPkg then Inr (ss_rootDeps s)
      else case pr_dependencies (ss_provider s) pkg v of
          Inl err \<Rightarrow> Inl (ProviderError (''fetching dependencies of '' @ pkg @ ''@'' @ v_original v) err)
        | Inr deps \<Rightarrow> Inr deps)"

definition dependencyTerms :: "'v semver \<Rightarrow> gostring \<Rightarrow> 'v version \<Rightarrow> gostring \<Rightarrow> 'v verSet \<Rightarrow> 'v solverTerm list" where
  "dependencyTerms S pkg v dep vset =
     (let parentTerm = mkTerm pkg (singletonVerSet S v) True in
      if vsIsEmpty vset then [parentTerm] else [parentTerm, mkTerm dep vset False])"

fun addDependencies :: "'v semver \<Rightarrow> gostring \<Rightarrow> 'v version \<Rightarrow> (gostring \<times> gostring) list \<Rightarrow> gostring list \<Rightarrow>
    ('e, 'v) solveState \<Rightarrow> nat list \<Rightarrow> (('e, 'v) solveErr, nat list \<times> ('e, 'v) solveState) res" where
  "addDependencies S pkg v deps [] s added = Inr (added, s)"
| "addDependencies S pkg v deps (dep # ns) s added =
     (let constraint = the (map_of deps dep) in
      case newVerSet S constraint of
        Inl err \<Rightarrow> Inl (InvalidDependency constraint pkg dep err)
      | Inr vset \<Rightarrow>
          let (inc, s) = newIncompat s (CauseDependency v pkg dep constraint) (dependencyTerms S pkg v dep vset);
              (idx, s) = addToStore S s inc
          in addDependencies S pkg v deps ns s (added @ [idx]))"

definition depsKey :: "gostring \<Rightarrow> 'v version \<Rightarrow> gostring" where
  "depsKey pkg v = pkg @ [CHR 0x00] @ v_original v"

definition dependencyIncompatibilities :: "'v semver \<Rightarrow> ('e, 'v) solveState \<Rightarrow> gostring \<Rightarrow> 'v version \<Rightarrow>
    (('e, 'v) solveErr, nat list \<times> ('e, 'v) solveState) res" where
  "dependencyIncompatibilities S s pkg v =
     (let key = depsKey pkg v in
      if ss_depsAdded s key then Inr ([], s)
      else bindE (dependenciesOf s pkg v) (\<lambda>deps.
        let s = s\<lparr> ss_depsAdded := (ss_depsAdded s)(key := True) \<rparr>
        in addDependencies S pkg v deps (sortedKeys deps) s []))"

definition tentativeRelation :: "'v semver \<Rightarrow> 'v partialSolution \<Rightarrow> gostring \<Rightarrow> 'v version \<Rightarrow> 'v solverTerm \<Rightarrow> termRelation" where
  "tentativeRelation S ps pkg v t =
     (if t_pkg t = pkg then (if termPermits S t v then TermSatisfied else TermContradicted)
      else relation S t ps)"

definition relateTentative :: "'v semver \<Rightarrow> 'v incompat \<Rightarrow> 'v partialSolution \<Rightarrow> gostring \<Rightarrow> 'v version \<Rightarrow> incRelation" where
  "relateTentative S inc ps pkg v = fst (relateLoop (tentativeRelation S ps pkg v) None (inc_terms inc))"

definition decideVersion :: "'v semver \<Rightarrow> ('e, 'v) solveState \<Rightarrow> gostring \<Rightarrow> 'v version \<Rightarrow>
    (('e, 'v) solveErr, gostring \<times> bool \<times> ('e, 'v) solveState) res" where
  "decideVersion S s pkg v =
     bindE (dependencyIncompatibilities S s pkg v) (\<lambda>(newIdx, s).
       if \<exists>idx \<in> set newIdx. relateTentative S (st_all (ss_store s) ! idx) (ss_ps s) pkg v = IncSatisfied
       then Inr (pkg, False, s)
       else Inr (pkg, False, s\<lparr> ss_ps := decide S (ss_ps s) pkg v \<rparr>))"

definition positiveFormSet :: "'v semver \<Rightarrow> 'v solverTerm \<Rightarrow> 'v verSet" where
  "positiveFormSet S accum = (if t_pos accum then t_set accum else vsComplement S (t_set accum))"

definition decideFromAllowed :: "'v semver \<Rightarrow> ('e, 'v) solveState \<Rightarrow> gostring \<Rightarrow>
    (('e, 'v) solveErr, gostring \<times> bool \<times> ('e, 'v) solveState) res" where
  "decideFromAllowed S s pkg =
     (let p = pkgState (ss_ps s) pkg; u = uniFor s pkg in
      case find (\<lambda>v. termPermits S (pa_accum p) v) (u_versions u) of
        Some v \<Rightarrow> decideVersion S s pkg v
      | None \<Rightarrow>
          if u_versions u = [] then
            (let (inc, s) = newIncompat s (CauseUnknownPackage pkg) [mkTerm pkg (fullVerSet S) True];
                 (_, s) = addToStore S s inc
             in Inr (pkg, False, s))
          else
            (let noVersionsTerm = mkTerm pkg (positiveFormSet S (pa_accum p)) True;
                 (inc, s) = newIncompat s (CauseNoVersions noVersionsTerm) [noVersionsTerm];
                 (_, s) = addToStore S s inc
             in Inr (pkg, False, s)))"

section \<open>The decision\<close>

text \<open>A fast path: an outcome to return as it is, or \<open>None\<close> to fall through.\<close>

type_synonym ('e, 'v) fastPath =
  "(('e, 'v) solveErr, (gostring \<times> bool) option \<times> ('e, 'v) solveState) res"

definition outcomeOf :: "(('e, 'v) solveErr, gostring \<times> bool \<times> ('e, 'v) solveState) res \<Rightarrow> ('e, 'v) fastPath" where
  "outcomeOf r = bindE r (\<lambda>(pkg, done, s). Inr (Some (pkg, done), s))"

definition tryDecidePin :: "'v semver \<Rightarrow> ('e, 'v) solveState \<Rightarrow> gostring \<Rightarrow> 'v version \<Rightarrow> ('e, 'v) fastPath" where
  "tryDecidePin S s pkg vp =
     (if u_fetched (uniFor s pkg) \<or> versionPassesAccum S s pkg vp then outcomeOf (decideVersion S s pkg vp)
      else bindE (ensureUniverse S s pkg) (\<lambda>s. Inr (None, s)))"

definition tryDecideByProbe :: "'v semver \<Rightarrow> ('e, 'v) solveState \<Rightarrow> gostring \<Rightarrow> ('e, 'v) fastPath" where
  "tryDecideByProbe S s pkg =
     (case pr_highest (ss_provider s) pkg of
        Inl err \<Rightarrow> Inl (ProviderError (''probing highest version of '' @ pkg) err)
      | Inr ov \<Rightarrow>
          (case ov of
             Some v \<Rightarrow>
               if versionPassesAccum S s pkg v then outcomeOf (decideVersion S s pkg v)
               else bindE (ensureUniverse S s pkg) (\<lambda>s. Inr (None, s))
           | None \<Rightarrow> bindE (ensureUniverse S s pkg) (\<lambda>s. Inr (None, s))))"

definition tryFastDecide :: "'v semver \<Rightarrow> ('e, 'v) solveState \<Rightarrow> gostring \<Rightarrow> ('e, 'v) fastPath" where
  "tryFastDecide S s pkg =
     (let u = uniFor s pkg in
      case packageIsExactPin S s pkg of
        Some vp \<Rightarrow> tryDecidePin S s pkg vp
      | None \<Rightarrow>
          if \<not> u_fetched u \<and> probeWorthTrying s pkg then tryDecideByProbe S s pkg
          else if \<not> u_fetched u then bindE (ensureUniverse S s pkg) (\<lambda>s. Inr (None, s))
          else Inr (None, s))"

definition makeDecision :: "'v semver \<Rightarrow> ('e, 'v) solveState \<Rightarrow>
    (('e, 'v) solveErr, gostring \<times> bool \<times> ('e, 'v) solveState) res" where
  "makeDecision S s =
     (case pickPackage S s of
        None \<Rightarrow> Inr ([], True, s)
      | Some pkg \<Rightarrow>
          bindE (tryFastDecide S s pkg) (\<lambda>(out, s).
            case out of
              Some (pkg, done) \<Rightarrow> Inr (pkg, done, s)
            | None \<Rightarrow> decideFromAllowed S s pkg))"

end
