(* ===== verification/Solver.thy ===== *)
theory Solver imports Decide begin

text \<open>
  \<^verbatim>\<open>Solve\<close> and the result extraction of \<^verbatim>\<open>internal/galaxy/solver/solver.go\<close>. The main loop
  counts iterations like the code, up to the fuel limit that is a package variable there
  and an argument here; \<open>ctxErr n\<close> is what \<^verbatim>\<open>ctx.Err()\<close> returns at iteration \<open>n\<close>.
\<close>

section \<open>The result\<close>

record solveResult =
  res_versions :: "(gostring \<times> gostring) list"
  res_graph :: "(gostring \<times> gostring list) list"

definition decidedDependencyNames :: "('e, 'v) solveState \<Rightarrow> gostring \<Rightarrow> 'v version \<Rightarrow> gostring list" where
  "decidedDependencyNames s pkg v =
     sort (concat (map (\<lambda>inc. case inc_cause inc of
         CauseDependency parentVersion parent dep constraint \<Rightarrow>
           if parent \<noteq> pkg \<or> v_original parentVersion \<noteq> v_original v then [] else [dep]
       | _ \<Rightarrow> []) (st_all (ss_store s))))"

definition decidedPackages :: "('e, 'v) solveState \<Rightarrow> (gostring \<times> 'v version) list" where
  "decidedPackages s = map (\<lambda>(pkg, p). (pkg, the (pa_decisionVersion p)))
     (filter (\<lambda>(pkg, p). pa_decisionIdx p \<noteq> None) (ps_packages (ss_ps s)))"

text \<open>A missing key of \<^verbatim>\<open>decidedDeps\<close> reads as the empty list.\<close>

definition edgesOf :: "(gostring \<times> gostring list) list \<Rightarrow> gostring \<Rightarrow> gostring list" where
  "edgesOf deps pkg = (case map_of deps pkg of None \<Rightarrow> [] | Some ds \<Rightarrow> ds)"

lemma edgesOf_absent: "pkg \<notin> fst ` set deps \<Longrightarrow> edgesOf deps pkg = []"
  by (simp add: edgesOf_def map_of_eq_None_iff [THEN iffD2])

lemma card_unvisited:
  fixes A B :: "'a set"
  assumes "finite A" "x \<in> A" "x \<notin> B"
  shows "card (A - insert x B) < card (A - B)"
  using assms by (intro psubset_card_mono) auto

text \<open>The stack's top is the list's head.\<close>

function reachLoop :: "(gostring \<times> gostring list) list \<Rightarrow> gostring list \<Rightarrow> gostring list \<Rightarrow> gostring list" where
  "reachLoop deps reachable [] = reachable"
| "reachLoop deps reachable (pkg # stack) =
     (if pkg \<in> set reachable then reachLoop deps reachable stack
      else reachLoop deps (pkg # reachable) (rev (edgesOf deps pkg) @ stack))"
  by pat_completeness auto

termination
proof (relation "(\<lambda>(deps, reachable, stack). card (fst ` set deps - set reachable)) <*mlex*>
    measure (\<lambda>(deps, reachable, stack). length stack)", goal_cases)
  case 1
  show ?case by (simp add: wf_mlex)
next
  case (2 deps reachable pkg stack)
  then show ?case by (simp add: mlex_prod_def)
next
  case (3 deps reachable pkg stack)
  show ?case
  proof (cases "pkg \<in> fst ` set deps")
    case True
    then have "card (fst ` set deps - set (pkg # reachable)) < card (fst ` set deps - set reachable)"
      using 3 unfolding list.set by (intro card_unvisited) auto
    then show ?thesis by (intro mlex_less) simp
  next
    case False
    then have "fst ` set deps - insert pkg (set reachable) = fst ` set deps - set reachable" by auto
    with False show ?thesis by (simp add: mlex_prod_def edgesOf_absent)
  qed
qed

definition extractResult :: "('e, 'v) solveState \<Rightarrow> (('e, 'v) solveErr, solveResult) res" where
  "extractResult s =
     (let decidedVer = decidedPackages s;
          decidedDeps = map (\<lambda>(pkg, v). (pkg, decidedDependencyNames s pkg v)) decidedVer;
          reachable = filter (\<lambda>pkg. pkg \<noteq> rootPkg) (reachLoop decidedDeps [] [rootPkg])
      in bindE (mapE (\<lambda>pkg. case map_of decidedVer pkg of
              None \<Rightarrow> Inl (SolverBug (''resolution reaches an undecided package '' @ pkg))
            | Some v \<Rightarrow> Inr (pkg, v_original v)) reachable) (\<lambda>versions.
           Inr \<lparr> res_versions = versions,
                 res_graph = map (\<lambda>pkg. (pkg, edgesOf decidedDeps pkg)) reachable \<rparr>))"

section \<open>Solve\<close>

definition rootIncompat :: "'v semver \<Rightarrow> ('e, 'v) solveState \<Rightarrow> 'v incompat \<times> ('e, 'v) solveState" where
  "rootIncompat S s = newIncompat s CauseRoot [mkTerm rootPkg (singletonVerSet S (rootVersion S)) False]"

definition fuelLimit :: int where
  "fuelLimit = 1000000"

function solveLoop :: "'v semver \<Rightarrow> int \<Rightarrow> (int \<Rightarrow> 'e option) \<Rightarrow> int \<Rightarrow> ('e, 'v) solveState \<Rightarrow> gostring \<Rightarrow>
    (('e, 'v) solveErr, solveResult) res option" where
  "solveLoop S limit ctxErr fuel s nxt =
     (if limit < fuel then Some (Inl (SolverBug ''iteration limit exceeded''))
      else case ctxErr fuel of
        Some err \<Rightarrow> Some (Inl (ContextError err))
      | None \<Rightarrow>
          (case unitPropagation S s nxt of
             None \<Rightarrow> None
           | Some (Inl err) \<Rightarrow> Some (Inl err)
           | Some (Inr s) \<Rightarrow>
               (case makeDecision S s of
                  Inl err \<Rightarrow> Some (Inl err)
                | Inr (pkg, done, s) \<Rightarrow>
                    if done then Some (extractResult s)
                    else solveLoop S limit ctxErr (fuel + 1) s pkg)))"
  by auto
termination
  by (relation "measure (\<lambda>(S, limit, ctxErr, fuel, _). nat (limit + 1 - fuel))") auto

declare solveLoop.simps [simp del]

definition solve :: "'v semver \<Rightarrow> int \<Rightarrow> (int \<Rightarrow> 'e option) \<Rightarrow> requirement list \<Rightarrow> ('e, 'v) provider \<Rightarrow>
    (('e, 'v) solveErr, solveResult) res option" where
  "solve S limit ctxErr reqs p =
     (let s = newSolveState S p reqs;
          (rootInc, s) = rootIncompat S s;
          (_, s) = addToStore S s rootInc
      in solveLoop S limit ctxErr 0 s rootPkg)"

end
