(* ===== verification/Solution.thy ===== *)
theory Solution imports Solver begin

text \<open>
  The specification the solver is proved against: what a selection of versions must
  satisfy. A selection is consistent when it selects the synthetic root and meets every
  requirement of every package it selects; it is published when each selected version is
  one the provider lists. The theory also states the provider's contract and extends the
  version library's interface by what the solver needs of parsing.
\<close>

section \<open>Selections\<close>

definition depMet :: "'v semver \<Rightarrow> 'v selection \<Rightarrow> gostring \<Rightarrow> gostring \<Rightarrow> bool" where
  "depMet S \<sigma> dep c \<longleftrightarrow> (\<exists>vset w. newVerSet S c = Inr vset \<and> \<sigma> dep = Some w \<and> vsContains S vset w)"

definition depsMet :: "'v semver \<Rightarrow> 'v selection \<Rightarrow> (gostring \<times> gostring) list \<Rightarrow> bool" where
  "depsMet S \<sigma> deps \<longleftrightarrow> (\<forall>dep c. map_of deps dep = Some c \<longrightarrow> depMet S \<sigma> dep c)"

definition consistent :: "'v semver \<Rightarrow> ('e, 'v) provider \<Rightarrow> requirement list \<Rightarrow> 'v selection \<Rightarrow> bool" where
  "consistent S P reqs \<sigma> \<longleftrightarrow>
     \<sigma> rootPkg = Some (rootVersion S) \<and> depsMet S \<sigma> (rootDepsOf reqs) \<and>
     (\<forall>pkg v. pkg \<noteq> rootPkg \<longrightarrow> \<sigma> pkg = Some v \<longrightarrow>
        (\<exists>deps. pr_dependencies P pkg v = Inr deps \<and> depsMet S \<sigma> deps))"

definition published :: "('e, 'v) provider \<Rightarrow> 'v selection \<Rightarrow> bool" where
  "published P \<sigma> \<longleftrightarrow>
     (\<forall>pkg v. pkg \<noteq> rootPkg \<longrightarrow> \<sigma> pkg = Some v \<longrightarrow> (\<exists>us. pr_universe P pkg = Inr us \<and> v \<in> set us))"

section \<open>The provider's contract\<close>

text \<open>
  A release whose patch number is \<open>2 ^ 64 - 1\<close> has no successor: its singleton set is too
  large (see \<open>VerSet\<close>), so the contract excludes it.
\<close>

definition versionFits :: "'v semver \<Rightarrow> 'v version \<Rightarrow> bool" where
  "versionFits S v \<longleftrightarrow> isPre S (v_parsed v) \<or> patchFits S (v_parsed v)"

text \<open>
  Versions come from \<^verbatim>\<open>NewVersion\<close>; universes are deduplicated by original string;
  dependencies are known of fitting versions only.
\<close>

definition parsedProvider :: "'v semver \<Rightarrow> ('e, 'v) provider \<Rightarrow> bool" where
  "parsedProvider S P \<longleftrightarrow>
     (\<forall>pkg v. pr_highest P pkg = Inr (Some v) \<longrightarrow> wellParsed S v) \<and>
     (\<forall>pkg us. pr_universe P pkg = Inr us \<longrightarrow> distinct (map v_original us) \<and> (\<forall>v \<in> set us. wellParsed S v)) \<and>
     (\<forall>pkg v deps. pr_dependencies P pkg v = Inr deps \<longrightarrow> versionFits S v)"

text \<open>The synthetic root is nobody's dependency, and no package depends on itself.\<close>

definition plainNames :: "('e, 'v) provider \<Rightarrow> requirement list \<Rightarrow> bool" where
  "plainNames P reqs \<longleftrightarrow>
     map_of (rootDepsOf reqs) rootPkg = None \<and>
     (\<forall>pkg v deps. pr_dependencies P pkg v = Inr deps \<longrightarrow> map_of deps rootPkg = None \<and> map_of deps pkg = None)"

text \<open>
  Published versions of equal precedence have the same dependencies: a dependency
  incompatibility is recorded for the precedence point of the version asked for.
\<close>

definition depsByPoint :: "'v semver \<Rightarrow> ('e, 'v) provider \<Rightarrow> bool" where
  "depsByPoint S P \<longleftrightarrow>
     (\<forall>pkg v w us deps. pr_universe P pkg = Inr us \<longrightarrow> w \<in> set us \<longrightarrow> pr_dependencies P pkg v = Inr deps \<longrightarrow>
        sv_compare S (v_parsed w) (v_parsed v) = 0 \<longrightarrow> pr_dependencies P pkg w = Inr deps)"

section \<open>What the solver needs of the version library\<close>

locale solver_lib = semver_lib S for S :: "'v semver" +
  assumes root_parses: "\<exists>v. sv_newVersion S ''0.0.0'' = Inr v \<and> sv_triple S v = (0, 0, 0) \<and> sv_prerelease S v = []"
    and parse_no_nul: "sv_newVersion S raw = Inr v \<Longrightarrow> CHR 0x00 \<notin> set raw"
begin

lemma rootVersion_facts:
  "sv_triple S (v_parsed (rootVersion S)) = (0, 0, 0)" "sv_prerelease S (v_parsed (rootVersion S)) = []"
  "v_original (rootVersion S) = ''0.0.0''"
  using root_parses by (auto simp: rootVersion_def mustNewVersion_def newVersion_def)

lemma wellParsed_root: "wellParsed S (rootVersion S)"
  using root_parses by (auto simp: wellParsed_def rootVersion_def mustNewVersion_def newVersion_def)

lemma wellParsed_inj: "wellParsed S v \<Longrightarrow> wellParsed S w \<Longrightarrow> v_original v = v_original w \<Longrightarrow> v = w"
  by (simp add: wellParsed_def)

lemma wellParsed_no_nul: "wellParsed S v \<Longrightarrow> CHR 0x00 \<notin> set (v_original v)"
  using parse_no_nul by (auto simp: wellParsed_def newVersion_def split: sum.splits)

lemma depsKey_inj:
  assumes "wellParsed S v" "wellParsed S w" "depsKey pkg v = depsKey qkg w"
  shows "pkg = qkg" "v = w"
proof -
  have nul: "CHR 0x00 \<notin> set (v_original v)" "CHR 0x00 \<notin> set (v_original w)"
    using assms wellParsed_no_nul by auto
  have "rev (v_original v) @ CHR 0x00 # rev pkg = rev (v_original w) @ CHR 0x00 # rev qkg"
    using arg_cong [OF assms(3), of rev] by (simp add: depsKey_def)
  then have "rev (v_original v) = rev (v_original w) \<and> rev pkg = rev qkg"
    using nul by (intro append_sep_inj [where c = "CHR 0x00"]) simp_all
  then show "pkg = qkg" "v = w" using assms wellParsed_inj by auto
qed

text \<open>The singleton of the root version is its point.\<close>

lemma root_fits: "versionFits S (rootVersion S)"
  using rootVersion_facts(1) by (simp add: versionFits_def patchFits_def sv_triple_def maxUint64_def)

lemma singleton_point:
  assumes "wfVerSet S s" "versionFits S v" "vsContains S (singletonVerSet S v) w"
  shows "vsContains S s w = vsContains S s v"
  using assms contains_point_cong [OF assms(1), of w v] by (simp add: versionFits_def contains_singleton)

lemma singleton_root_iff:
  "vsContains S (singletonVerSet S (rootVersion S)) v \<longleftrightarrow> sv_compare S (v_parsed (rootVersion S)) (v_parsed v) = 0"
  using root_fits cmp_eq_sym by (auto simp: versionFits_def contains_singleton)

lemma singleton_root_subset:
  assumes "wfVerSet S s" "vsContains S s (rootVersion S)"
    "vsContains S (singletonVerSet S (rootVersion S)) v"
  shows "vsContains S s v"
  using assms contains_point_cong [OF assms(1), of "rootVersion S" v] by (simp add: singleton_root_iff)

end

section \<open>The concrete library\<close>

lemma set_cut: "c \<in> set s \<Longrightarrow> c = d \<or> c \<in> set (fst (cut s d)) \<or> snd (snd (cut s d)) \<and> c \<in> set (fst (snd (cut s d)))"
proof -
  assume "c \<in> set s"
  then have "c \<in> set (takeWhile (\<lambda>e. e \<noteq> d) s @ dropWhile (\<lambda>e. e \<noteq> d) s)" by simp
  moreover have "dropWhile (\<lambda>e. e \<noteq> d) s = [] \<or> d \<in> set s \<and> hd (dropWhile (\<lambda>e. e \<noteq> d) s) = d"
    by (induction s) auto
  ultimately show ?thesis
    by (cases "dropWhile (\<lambda>e. e \<noteq> d) s") (auto simp: cut_def)
qed

lemma isIdents20_no_nul: "isIdents20 s \<Longrightarrow> CHR 0x00 \<notin> set s"
proof
  assume "isIdents20 s" "CHR 0x00 \<in> set s"
  with set_splitStr [of "''.''" "CHR 0x00" s] obtain x where "x \<in> set (splitStr s ''.'')" "CHR 0x00 \<in> set x"
    by auto
  with \<open>isIdents20 s\<close> show False by (fastforce simp: isIdents20_def)
qed

lemma isNum20_no_nul: "\<forall>x \<in> set (splitStr s ''.''). isNum20 x \<Longrightarrow> CHR 0x00 \<notin> set s"
proof
  assume num: "\<forall>x \<in> set (splitStr s ''.''). isNum20 x" and "CHR 0x00 \<in> set s"
  with set_splitStr [of "''.''" "CHR 0x00" s] obtain x where "x \<in> set (splitStr s ''.'')" "CHR 0x00 \<in> set x"
    by auto
  with num show False by (fastforce simp: isNum20_def isDigit_def digits_def)
qed

lemma newVersion20_no_nul:
  assumes "newVersion20 raw = Inr v"
  shows "CHR 0x00 \<notin> set raw"
proof
  assume nul: "CHR 0x00 \<in> set raw"
  let ?s = "trimPrefix raw ''v''"
  obtain body meta hasMeta core pre hasPre where
    c1: "cut ?s CHR ''+'' = (body, meta, hasMeta)" and c2: "cut body CHR ''-'' = (core, pre, hasPre)"
    by (metis prod_cases3)
  with assms have ok: "\<forall>x \<in> set (splitStr core ''.''). isNum20 x" "hasPre \<longrightarrow> isIdents20 pre" "hasMeta \<longrightarrow> isIdents20 meta"
    by (auto simp: newVersion20_def Let_def split: if_splits)
  have "CHR 0x00 \<in> set ?s"
    using nul by (auto simp: trimPrefix_def hasPrefix_def prefix_def split: if_splits)
  then have "CHR 0x00 \<in> set core \<or> hasPre \<and> CHR 0x00 \<in> set pre \<or> hasMeta \<and> CHR 0x00 \<in> set meta"
    using set_cut [of "CHR 0x00" ?s "CHR ''+''"] set_cut [of "CHR 0x00" body "CHR ''-''"] c1 c2 by auto
  with ok isNum20_no_nul isIdents20_no_nul show False by blast
qed

lemma parse20_zero: "newVersion20 ''0.0.0'' = Inr (Version20 0 0 0 [] [])"
  by code_simp

interpretation solver20: solver_lib "semver20 C" for C
proof
  show "\<exists>v. sv_newVersion (semver20 C) ''0.0.0'' = Inr v \<and> sv_triple (semver20 C) v = (0, 0, 0) \<and>
      sv_prerelease (semver20 C) v = []"
    by (simp add: parse20_zero sv_triple_def)
  show "sv_newVersion (semver20 C) raw = Inr v \<Longrightarrow> CHR 0x00 \<notin> set raw" for raw v
    by (simp add: newVersion20_no_nul)
qed

end
