(* ===== verification/Accum.thy ===== *)
theory Accum imports Solution begin

text \<open>
  What the accumulations and the satisfier scan mean: an accumulation is the conjunction
  of its package's terms, relations read entailment off it, and the scan of conflict
  resolution finds the first prefix whose accumulation entails a term.
\<close>

section \<open>Accumulations\<close>

definition wfAll :: "'v semver \<Rightarrow> 'v assignment list \<Rightarrow> bool" where
  "wfAll S as \<longleftrightarrow> (\<forall>a \<in> set as. wfTerm S (a_term a))"

lemma wfAll_simps [simp]: "wfAll S []" "wfAll S (as @ bs) \<longleftrightarrow> wfAll S as \<and> wfAll S bs"
  "wfAll S (a # as) \<longleftrightarrow> wfTerm S (a_term a) \<and> wfAll S as"
  by (auto simp: wfAll_def)

lemma wfAll_sub: "wfAll S as \<Longrightarrow> set bs \<subseteq> set as \<Longrightarrow> wfAll S bs"
  by (auto simp: wfAll_def)

lemma wfAll_filter [simp]: "wfAll S as \<Longrightarrow> wfAll S (filter P as)"
  by (auto simp: wfAll_def)

lemma wfAll_take [simp]: "wfAll S as \<Longrightarrow> wfAll S (take k as)"
  by (auto simp: wfAll_def dest: in_set_takeD)

lemma psInv_wfAll: "psInv S ps \<Longrightarrow> wfAll S (ps_assignments ps)"
  by (auto simp: psInv_def wfAll_def)

lemma accumOf_Nil [simp]: "accumOf S [] pkg = accumSeed pkg"
  by (simp add: accumOf_def)

lemma accumOf_pkg [simp]: "t_pkg (accumOf S as pkg) = pkg"
  by (induction as rule: rev_induct) (simp_all add: accumOf_snoc termIntersect_pkg)

lemma t_pos_intersect: "t_pos (termIntersect S a b) \<longleftrightarrow> t_pos a \<or> t_pos b"
  by (auto simp: termIntersect_def)

lemma t_pos_accumOf: "t_pos (accumOf S as pkg) \<longleftrightarrow> (\<exists>a \<in> set as. t_pkg (a_term a) = pkg \<and> t_pos (a_term a))"
  by (induction as rule: rev_induct) (auto simp: accumOf_snoc t_pos_intersect)

lemma indicesOf_empty: "indicesOf as pkg = [] \<longleftrightarrow> (\<forall>a \<in> set as. t_pkg (a_term a) \<noteq> pkg)"
  by (auto simp: indicesOf_def filter_empty_conv all_set_conv_all_nth)

context semver_lib begin

lemma wf_accumOf [wf_intros]: "wfAll S as \<Longrightarrow> wfTerm S (accumOf S as pkg)"
  by (induction as rule: rev_induct) (auto simp: accumOf_snoc wf_empty intro: wfTerm_intersect)

lemma holds_accumOf:
  "wfAll S as \<Longrightarrow> holds S \<sigma> (accumOf S as pkg) \<longleftrightarrow> (\<forall>a \<in> set as. t_pkg (a_term a) = pkg \<longrightarrow> holds S \<sigma> (a_term a))"
proof (induction as rule: rev_induct)
  case (snoc a as)
  then show ?case
    by (auto simp: accumOf_snoc holds_intersect wf_accumOf)
qed (simp add: holds_seed)

lemma permits_seed [simp]: "termPermits S (accumSeed pkg) v"
  by (simp add: termPermits_def sem_simps isEmpty_contains vsIsEmpty_def emptyVerSet_def)

lemma permits_accumOf:
  "wfAll S as \<Longrightarrow> termPermits S (accumOf S as pkg) v \<longleftrightarrow> (\<forall>a \<in> set as. t_pkg (a_term a) = pkg \<longrightarrow> termPermits S (a_term a) v)"
proof (induction as rule: rev_induct)
  case (snoc a as)
  then show ?case
    by (auto simp: accumOf_snoc permits_intersect wf_accumOf)
qed simp

lemma accumOf_entails_mono:
  assumes "wfAll S as" "wfTerm S t" "t_pkg t = pkg" "set bs \<subseteq> set as" "termSubset S (accumOf S bs pkg) t"
  shows "termSubset S (accumOf S as pkg) t"
proof -
  have wfb: "wfAll S bs" using assms(1,4) by (rule wfAll_sub)
  have "holds S \<sigma> t" if "holds S \<sigma> (accumOf S as pkg)" for \<sigma>
    using that assms wfb by (intro termSubset_holds [of "accumOf S bs pkg" t]) (auto simp: wf_accumOf holds_accumOf)
  with assms show ?thesis by (simp add: termSubset_iff wf_accumOf)
qed

lemma accumOf_entails:
  assumes "wfAll S as" "a \<in> set as" "wfTerm S t" "t_pkg t = t_pkg (a_term a)"
    "\<And>\<sigma>. holds S \<sigma> (a_term a) \<Longrightarrow> holds S \<sigma> t"
  shows "termSubset S (accumOf S as (t_pkg (a_term a))) t"
  using assms by (auto simp: termSubset_iff wf_accumOf holds_accumOf)

section \<open>Relations to the partial solution\<close>

lemma relateAccum_satisfied: "relateAccum S a t = TermSatisfied \<longleftrightarrow> termSubset S a t"
  by (auto simp: relateAccum_def Let_def)

lemma relateAccum_contradicted:
  assumes "wfTerm S a" "wfTerm S t" "t_pkg a = t_pkg t"
  shows "relateAccum S a t = TermContradicted \<longleftrightarrow> \<not> termSubset S a t \<and> (\<forall>\<sigma>. \<not> (holds S \<sigma> a \<and> holds S \<sigma> t))"
proof -
  have "jointlyEmpty (termIntersect S a t) \<longleftrightarrow> (\<forall>\<sigma>. \<not> (holds S \<sigma> a \<and> holds S \<sigma> t))"
    using assms by (simp add: unsatisfiable_iff wfTerm_intersect holds_intersect)
  then show ?thesis by (auto simp: relateAccum_def jointlyEmpty_def Let_def)
qed

text \<open>A contradicted term's negation is entailed; an inconclusive term has neither entailed.\<close>

lemma contradicted_entails:
  assumes "wfTerm S a" "wfTerm S t" "t_pkg a = t_pkg t" "relateAccum S a t = TermContradicted"
  shows "termSubset S a (negate t)"
  using assms by (auto simp: relateAccum_contradicted termSubset_iff holds_negate)

lemma inconclusive_entails:
  assumes "wfTerm S a" "wfTerm S t" "t_pkg a = t_pkg t" "relateAccum S a t = TermInconclusive"
  shows "\<not> termSubset S a t" "\<not> termSubset S a (negate t)"
proof -
  show nt: "\<not> termSubset S a t" using assms(4) by (auto simp: relateAccum_def)
  have "\<not> (\<not> termSubset S a t \<and> (\<forall>\<sigma>. \<not> (holds S \<sigma> a \<and> holds S \<sigma> t)))"
    unfolding relateAccum_contradicted [OF assms(1-3), symmetric] using assms(4) by simp
  with nt have "\<exists>\<sigma>. holds S \<sigma> a \<and> holds S \<sigma> t" by blast
  with assms show "\<not> termSubset S a (negate t)"
    by (auto simp: termSubset_iff holds_negate)
qed

lemma relation_eq:
  assumes "psInv S ps"
  shows "relation S t ps = (if \<forall>a \<in> set (ps_assignments ps). t_pkg (a_term a) \<noteq> t_pkg t then TermInconclusive
     else relateAccum S (accumOf S (ps_assignments ps) (t_pkg t)) t)"
  using psInv_summary [OF assms] by (simp add: relation_def Let_def indicesOf_empty)

end

lemma relateLoop_satisfied:
  "relateLoop rel u ts = (IncSatisfied, x) \<Longrightarrow> u = None \<and> (\<forall>t \<in> set ts. rel t = TermSatisfied)"
  by (induction rel u ts rule: relateLoop.induct) (auto split: termRelation.splits option.splits if_splits)

lemma relateLoop_almost:
  "relateLoop rel u ts = (IncAlmostSatisfied, x) \<Longrightarrow>
     (\<exists>t. x = Some t \<and> (u = Some t \<and> (\<forall>t' \<in> set ts. rel t' = TermSatisfied) \<or>
        u = None \<and> t \<in> set ts \<and> rel t = TermInconclusive \<and> (\<forall>t' \<in> set ts. rel t' = TermSatisfied \<or> rel t' = TermInconclusive)))"
  by (induction rel u ts rule: relateLoop.induct) (auto split: termRelation.splits option.splits if_splits)

lemma relate_satisfied: "relate S inc ps = (IncSatisfied, x) \<Longrightarrow> \<forall>t \<in> set (inc_terms inc). relation S t ps = TermSatisfied"
  using relateLoop_satisfied unfolding relate_def by blast

lemma relate_almost:
  "relate S inc ps = (IncAlmostSatisfied, x) \<Longrightarrow> \<exists>t. x = Some t \<and> t \<in> set (inc_terms inc) \<and> relation S t ps = TermInconclusive"
  using relateLoop_almost unfolding relate_def by fastforce

section \<open>The satisfier scan\<close>

lemma scan_first_bound:
  assumes "sc_first (foldl (scanAssignment S inc) sc (zip (map int [0..<length as]) as)) pkg = Some i"
    and "\<forall>p j. sc_first sc p = Some j \<longrightarrow> j < 0"
  shows "i < 0 \<or> nat i < length as \<and> t_pkg (a_term (as ! nat i)) = pkg"
  using assms(1)
proof (induction as arbitrary: i rule: rev_induct)
  case Nil
  with assms(2) show ?case by auto
next
  case (snoc a as)
  let ?sc = "foldl (scanAssignment S inc) sc (zip (map int [0..<length as]) as)"
  have step: "sc_first (scanAssignment S inc ?sc (int (length as), a)) pkg = Some i"
    using snoc.prems by simp
  show ?case
  proof (cases "sc_first ?sc pkg = Some i")
    case True
    with snoc.IH [OF True] show ?thesis by (auto simp: nth_append)
  next
    case False
    with step have "i = int (length as) \<and> pkg = t_pkg (a_term a)"
      by (auto simp: scanAssignment_def termForPackage_def Let_def split: option.splits if_splits dest!: find_SomeD)
    then show ?thesis by simp
  qed
qed

lemma seed_first_neg:
  "\<forall>p j. sc_first sc p = Some j \<longrightarrow> j < 0 \<Longrightarrow>
     sc_first (foldl (seedTerm S seed) sc ts) p = Some j \<Longrightarrow> j < 0"
proof (induction ts arbitrary: sc)
  case (Cons t ts)
  have "\<forall>p j. sc_first (seedTerm S seed sc t) p = Some j \<longrightarrow> j < 0"
    using Cons.prems(1) by (auto simp: seedTerm_def Let_def split: option.splits if_splits)
  with Cons show ?case by simp
qed simp

lemma computeFirst_bound:
  assumes "computeFirstSatisfied S ps inc seed limit pkg = Some i"
  shows "i < 0 \<or> (nat i < limit \<and> nat i < length (ps_assignments ps) \<and> t_pkg (a_term (ps_assignments ps ! nat i)) = pkg)"
proof -
  let ?sc = "foldl (seedTerm S seed) \<lparr> sc_first = (\<lambda>_. None), sc_running = accumSeed \<rparr> (inc_terms inc)"
  let ?as = "take limit (ps_assignments ps)"
  have "\<forall>p j. sc_first ?sc p = Some j \<longrightarrow> j < 0"
    using seed_first_neg [of "\<lparr> sc_first = (\<lambda>_. None), sc_running = accumSeed \<rparr>" S seed "inc_terms inc"] by simp
  from scan_first_bound [of S inc ?sc ?as pkg i, OF _ this] assms show ?thesis
    by (auto simp: computeFirstSatisfied_def Let_def)
qed

lemma latest_result:
  assumes "foldl (latestTerm first) (-1, []) ts = (m, p)" "0 \<le> m"
  shows "first p = Some m \<and> p \<in> t_pkg ` set ts"
  using assms
proof (induction ts arbitrary: m p rule: rev_induct)
  case (snoc t ts)
  obtain m' p' where r: "foldl (latestTerm first) (-1, []) ts = (m', p')" by fastforce
  with snoc.prems(1) have "latestTerm first (m', p') t = (m, p)" by simp
  then consider "m = m'" "p = p'" | "first (t_pkg t) = Some m" "p = t_pkg t"
    using snoc.prems(2) by (auto simp: latestTerm_def Let_def split: option.splits if_splits)
  then show ?case
    using snoc.IH [OF r] snoc.prems(2) by cases auto
qed simp

lemma earliestSatisfier_result:
  assumes "earliestSatisfier S ps inc = Some (a, t)"
  obtains i where "i < length (ps_assignments ps)" "a = ps_assignments ps ! i" "t \<in> set (inc_terms inc)"
    "t_pkg t = t_pkg (a_term a)" "termForPackage inc (t_pkg t) = Some t"
    "computeFirstSatisfied S ps inc None (length (ps_assignments ps)) (t_pkg t) = Some (int i)"
proof -
  let ?first = "computeFirstSatisfied S ps inc None (length (ps_assignments ps))"
  obtain m p where r: "foldl (latestTerm ?first) (-1, []) (inc_terms inc) = (m, p)" by fastforce
  with assms have m: "0 \<le> m" and a: "a = ps_assignments ps ! nat m" and t: "t = the (termForPackage inc p)"
    by (auto simp: earliestSatisfier_def Let_def split: if_splits)
  from latest_result [OF r m] have first: "?first p = Some m" and p: "p \<in> t_pkg ` set (inc_terms inc)" by auto
  from p obtain t' where "termForPackage inc p = Some t'"
    by (cases "termForPackage inc p") (auto simp: termForPackage_def find_None_iff_all)
  with t have tp: "termForPackage inc p = Some t" by simp
  then have "t \<in> set (inc_terms inc)" "t_pkg t = p"
    by (auto simp: termForPackage_def dest: find_SomeD)
  with computeFirst_bound [OF first] m a first tp show thesis
    by (intro that [of "nat m"]) auto
qed

lemma earliestBefore_result:
  assumes "earliestSatisfierBefore S ps inc a = Some b"
  obtains j where "j < a_index a" "j < length (ps_assignments ps)" "b = ps_assignments ps ! j"
proof -
  let ?first = "computeFirstSatisfied S ps inc (Some (a_term a)) (a_index a)"
  obtain m p where r: "foldl (latestTerm ?first) (-1, []) (inc_terms inc) = (m, p)" by fastforce
  with assms have m: "0 \<le> m" and b: "b = ps_assignments ps ! nat m"
    by (auto simp: earliestSatisfierBefore_def Let_def split: if_splits)
  from latest_result [OF r m] computeFirst_bound [of S ps inc "Some (a_term a)" "a_index a" p m] m b
  show thesis by (intro that [of "nat m"]) auto
qed

text \<open>Without a seed, a package's running term is the accumulation of the scanned prefix.\<close>

lemma scan_running:
  fixes S :: "'v semver" and as :: "'v assignment list"
  assumes "termForPackage inc pkg = Some t"
    and "sc_running sc pkg = accumSeed pkg" "sc_first sc pkg = None"
  defines "r \<equiv> \<lambda>k. foldl (scanAssignment S inc) sc (zip (map int [0..<k]) (take k as))"
  shows "k \<le> length as \<Longrightarrow> (case sc_first (r k) pkg of
      None \<Rightarrow> sc_running (r k) pkg = accumOf S (take k as) pkg
    | Some i \<Rightarrow> 0 \<le> i \<and> nat i < k \<and> termSubset S (accumOf S (take (Suc (nat i)) as) pkg) t \<and>
        (\<forall>j < nat i. t_pkg (a_term (as ! j)) = pkg \<longrightarrow> \<not> termSubset S (accumOf S (take (Suc j) as) pkg) t)) \<and>
    (sc_first (r k) pkg = None \<longrightarrow> (\<forall>j < k. t_pkg (a_term (as ! j)) = pkg \<longrightarrow>
        \<not> termSubset S (accumOf S (take (Suc j) as) pkg) t))"
proof (induction k)
  case 0
  with assms show ?case by simp
next
  case (Suc k)
  have tp: "t_pkg t = pkg" using assms(1) by (auto simp: termForPackage_def dest: find_SomeD)
  have k: "k < length as" using Suc.prems by simp
  then have take: "take (Suc k) as = take k as @ [as ! k]" by (rule take_Suc_conv_app_nth)
  have step: "r (Suc k) = scanAssignment S inc (r k) (int k, as ! k)"
    using k by (simp add: r_def take)
  show ?case
  proof (cases "sc_first (r k) pkg")
    case (Some i)
    then have "sc_first (r (Suc k)) pkg = Some i"
      unfolding step by (auto simp: scanAssignment_def Let_def termForPackage_def split: option.splits dest!: find_SomeD)
    with Suc Some show ?thesis by (auto simp: less_SucI)
  next
    case None
    show ?thesis
    proof (cases "t_pkg (a_term (as ! k)) = pkg")
      case False
      then have "sc_first (r (Suc k)) pkg = None" "sc_running (r (Suc k)) pkg = sc_running (r k) pkg"
        using None unfolding step
        by (auto simp: scanAssignment_def Let_def termForPackage_def split: option.splits dest!: find_SomeD)
      with Suc None False show ?thesis by (auto simp: take accumOf_snoc less_Suc_eq)
    next
      case True
      let ?acc = "termIntersect S (sc_running (r k) pkg) (a_term (as ! k))"
      have acc: "?acc = accumOf S (take (Suc k) as) pkg"
        using Suc None True by (simp add: take accumOf_snoc)
      have "sc_first (r (Suc k)) pkg = (if termSubset S ?acc t then Some (int k) else None)"
        "sc_running (r (Suc k)) pkg = ?acc"
        using None True assms(1) tp unfolding step by (auto simp: scanAssignment_def Let_def)
      with Suc None True acc show ?thesis by (auto simp: less_Suc_eq)
    qed
  qed
qed

lemma seed_none:
  "sc_running sc = accumSeed \<Longrightarrow> sc_first sc = (\<lambda>_. None) \<Longrightarrow>
     sc_running (foldl (seedTerm S None) sc ts) = accumSeed \<and> sc_first (foldl (seedTerm S None) sc ts) = (\<lambda>_. None)"
proof (induction ts arbitrary: sc)
  case (Cons t ts)
  have "sc_running (seedTerm S None sc t) = accumSeed" "sc_first (seedTerm S None sc t) = (\<lambda>_. None)"
    using Cons.prems by (auto simp: seedTerm_def Let_def)
  from Cons.IH [OF this] show ?case by simp
qed simp

text \<open>The index found is the first of its package whose prefix entails the term.\<close>

lemma computeFirst_least:
  assumes "termForPackage inc pkg = Some t"
    "computeFirstSatisfied S ps inc None (length (ps_assignments ps)) pkg = Some (int i)"
  shows "termSubset S (accumOf S (take (Suc i) (ps_assignments ps)) pkg) t"
    and "\<forall>j < i. t_pkg (a_term (ps_assignments ps ! j)) = pkg \<longrightarrow>
           \<not> termSubset S (accumOf S (take (Suc j) (ps_assignments ps)) pkg) t"
proof -
  let ?sc = "foldl (seedTerm S None) \<lparr> sc_first = (\<lambda>_. None), sc_running = accumSeed \<rparr> (inc_terms inc)"
  have "sc_running ?sc = accumSeed \<and> sc_first ?sc = (\<lambda>_. None)" by (rule seed_none) simp_all
  then have sc: "sc_running ?sc pkg = accumSeed pkg" "sc_first ?sc pkg = None" by auto
  from scan_running [OF assms(1) sc, of "length (ps_assignments ps)" "ps_assignments ps" S] assms(2)
  show "termSubset S (accumOf S (take (Suc i) (ps_assignments ps)) pkg) t"
    "\<forall>j < i. t_pkg (a_term (ps_assignments ps ! j)) = pkg \<longrightarrow>
       \<not> termSubset S (accumOf S (take (Suc j) (ps_assignments ps)) pkg) t"
    by (auto simp: computeFirstSatisfied_def Let_def)
qed

end
