(* ===== verification/Refute.thy ===== *)
theory Refute imports Accum begin

text \<open>
  Soundness of refutation: every incompatibility the solver records or derives is violated
  by every solution, so a terminal one proves that there is none. The invariant of the
  store and the partial solution is kept by resolution steps, backjumps, derivations and
  decisions; on the way, a resolved conflict always lowers the decision level.
\<close>

section \<open>The invariant\<close>

definition soundInc :: "'v semver \<Rightarrow> ('v selection \<Rightarrow> bool) \<Rightarrow> 'v incompat \<Rightarrow> bool" where
  "soundInc S Sol inc \<longleftrightarrow>
     (\<forall>t \<in> set (inc_terms inc). wfTerm S t) \<and> distinct (map t_pkg (inc_terms inc)) \<and>
     (\<forall>\<sigma>. Sol \<sigma> \<longrightarrow> (\<exists>t \<in> set (inc_terms inc). \<not> holds S \<sigma> t))"

text \<open>A term on the root package says that root is selected, at a set with its version.\<close>

definition rootTerms :: "'v semver \<Rightarrow> 'v solverTerm list \<Rightarrow> bool" where
  "rootTerms S ts \<longleftrightarrow>
     (\<forall>t \<in> set ts. t_pkg t = rootPkg \<longrightarrow> t_pos t \<and> vsContains S (t_set t) (rootVersion S))"

definition causeOK :: "'v semver \<Rightarrow> 'v incompat list \<Rightarrow> 'v assignment \<Rightarrow> bool" where
  "causeOK S all a \<longleftrightarrow>
     (\<forall>c. a_cause a = Some c \<longrightarrow> c < length all \<and>
        (\<exists>t \<in> set (inc_terms (all ! c)). t_pkg t = t_pkg (a_term a) \<and> (\<forall>\<sigma>. holds S \<sigma> t \<longleftrightarrow> \<not> holds S \<sigma> (a_term a))))"

definition rootAssignment :: "'v semver \<Rightarrow> 'v assignment \<Rightarrow> bool" where
  "rootAssignment S a \<longleftrightarrow> t_pos (a_term a) \<and>
     (\<forall>v. vsContains S (t_set (a_term a)) v \<longleftrightarrow> vsContains S (singletonVerSet S (rootVersion S)) v)"

text \<open>
  The very first assignment derives the root package, before any other incompatibility
  exists; every assignment of the root package says the same.
\<close>

definition rootInv :: "'v semver \<Rightarrow> 'v incompat list \<Rightarrow> 'v partialSolution \<Rightarrow> bool" where
  "rootInv S all ps \<longleftrightarrow>
     (\<forall>a \<in> set (ps_assignments ps). t_pkg (a_term a) = rootPkg \<longrightarrow> rootAssignment S a) \<and>
     (case ps_assignments ps of
        [] \<Rightarrow> length all = 1 \<and> ps_decisions ps = 0
      | a # _ \<Rightarrow> t_pkg (a_term a) = rootPkg \<and> a_level a = 0 \<and> a_cause a \<noteq> None)"

text \<open>A decision other than root's opens a new level.\<close>

definition levelInv :: "'v partialSolution \<Rightarrow> bool" where
  "levelInv ps \<longleftrightarrow>
     (\<forall>i < length (ps_assignments ps). a_cause (ps_assignments ps ! i) = None \<longrightarrow>
        t_pkg (a_term (ps_assignments ps ! i)) \<noteq> rootPkg \<longrightarrow>
        (\<forall>j < i. a_level (ps_assignments ps ! j) < a_level (ps_assignments ps ! i)))"

definition rootTermOf :: "'v semver \<Rightarrow> 'v solverTerm" where
  "rootTermOf S = mkTerm rootPkg (singletonVerSet S (rootVersion S)) False"

definition coreInv :: "'v semver \<Rightarrow> ('v selection \<Rightarrow> bool) \<Rightarrow> 'v incompatStore \<Rightarrow> 'v partialSolution \<Rightarrow> bool" where
  "coreInv S Sol st ps \<longleftrightarrow>
     psInv S ps \<and> storeInv S st \<and> (\<forall>inc \<in> set (st_all st). soundInc S Sol inc) \<and>
     st_all st \<noteq> [] \<and> inc_terms (st_all st ! 0) = [rootTermOf S] \<and>
     (\<forall>i < length (st_all st). 0 < i \<longrightarrow> rootTerms S (inc_terms (st_all st ! i))) \<and>
     (\<forall>a \<in> set (ps_assignments ps). causeOK S (st_all st) a) \<and>
     rootInv S (st_all st) ps \<and> levelInv ps"

definition errOK :: "'v semver \<Rightarrow> ('v selection \<Rightarrow> bool) \<Rightarrow> ('e, 'v) solveErr \<Rightarrow> bool" where
  "errOK S Sol e \<longleftrightarrow>
     (\<forall>inc l h. e = ConflictError inc l h \<longrightarrow> soundInc S Sol inc \<and> rootTerms S (inc_terms inc))"

lemma errOK_simps [simp]:
  "errOK S Sol (SolverBug b)" "errOK S Sol (ProviderError m e)" "errOK S Sol (ContextError e)"
  "errOK S Sol (InvalidDependency c p d x)"
  by (simp_all add: errOK_def)

lemma errOK_build:
  "soundInc S Sol inc \<Longrightarrow> rootTerms S (inc_terms inc) \<Longrightarrow> errOK S Sol (buildConflictError S s inc)"
  by (auto simp: errOK_def buildConflictError_def outcome_def Let_def split: option.splits)

definition rootSel :: "'v semver \<Rightarrow> ('v selection \<Rightarrow> bool) \<Rightarrow> bool" where
  "rootSel S Sol \<longleftrightarrow> (\<forall>\<sigma>. Sol \<sigma> \<longrightarrow> \<sigma> rootPkg = Some (rootVersion S))"

lemma terminal_refutes:
  assumes "soundInc S Sol inc" "rootTerms S (inc_terms inc)" "isTerminal inc" "rootSel S Sol"
  shows "\<not> Sol \<sigma>"
proof
  assume sol: "Sol \<sigma>"
  with assms(1) obtain t where t: "t \<in> set (inc_terms inc)" "\<not> holds S \<sigma> t" by (auto simp: soundInc_def)
  with assms(3) have "inc_terms inc = [t]" "t_pos t" "t_pkg t = rootPkg"
    by (auto simp: isTerminal_def length_Suc_conv)
  with assms(2,4) sol t(2) show False by (auto simp: rootTerms_def rootSel_def holds_def)
qed

section \<open>One resolution step\<close>

context semver_lib begin

lemma holds_negatedDifference:
  assumes "wfTerm S a" "wfTerm S t" "t_pkg a = t_pkg t"
  shows "holds S \<sigma> (negatedDifferenceTerm S a t) \<longleftrightarrow> \<not> (holds S \<sigma> a \<and> \<not> holds S \<sigma> t)"
  using assms by (simp add: negatedDifferenceTerm_def holds_negate holds_intersect)

lemma mem_mergeTermsExcluding:
  "u \<in> set (mergeTermsExcluding a b p) \<longleftrightarrow> (u \<in> set (inc_terms a) \<or> u \<in> set (inc_terms b)) \<and> t_pkg u \<noteq> p"
  by (auto simp: mergeTermsExcluding_def)

lemma wf_priorTerms:
  assumes "soundInc S Sol inc" "soundInc S Sol cause" "wfTerm S (a_term a)" "wfTerm S t"
  shows "\<forall>u \<in> set (priorTerms S inc cause a t). wfTerm S u"
  using assms
  by (auto simp: priorTerms_def Let_def soundInc_def mem_mergeTermsExcluding negatedDifferenceTerm_def
      intro: wfTerm_intersect)

text \<open>
  The merged terms cannot all hold: a solution violates \<open>inc\<close> only at the satisfier's
  package, and \<open>cause\<close> too, hence satisfies the satisfier's term but not \<open>inc\<close>'s.
\<close>

lemma prior_refuted:
  assumes inc: "soundInc S Sol inc" and cause: "soundInc S Sol cause"
    and t: "t \<in> set (inc_terms inc)" "t_pkg t = t_pkg (a_term a)"
    and u: "u \<in> set (inc_terms cause)" "t_pkg u = t_pkg (a_term a)"
      "\<forall>\<sigma>. holds S \<sigma> u \<longleftrightarrow> \<not> holds S \<sigma> (a_term a)"
    and wf: "wfTerm S (a_term a)" and sol: "Sol \<sigma>"
  shows "\<exists>w \<in> set (priorTerms S inc cause a t). \<not> holds S \<sigma> w"
proof (rule ccontr)
  assume "\<not> ?thesis"
  then have all: "\<forall>w \<in> set (priorTerms S inc cause a t). holds S \<sigma> w" by blast
  have rest: "holds S \<sigma> w" if "w \<in> set (inc_terms inc) \<or> w \<in> set (inc_terms cause)" "t_pkg w \<noteq> t_pkg (a_term a)" for w
    using all that by (auto simp: priorTerms_def Let_def mem_mergeTermsExcluding split: if_splits)
  have only: "\<not> holds S \<sigma> x" if "soundInc S Sol j" "j = inc \<or> j = cause" "x \<in> set (inc_terms j)"
      "t_pkg x = t_pkg (a_term a)" for j x
  proof -
    from that(1) sol obtain y where y: "y \<in> set (inc_terms j)" "\<not> holds S \<sigma> y" by (auto simp: soundInc_def)
    with rest that(2) have "t_pkg y = t_pkg x" using that(4) by metis
    with y that have "y = x" by (auto simp: soundInc_def dest: distinct_map_unique)
    with y show ?thesis by simp
  qed
  have nt: "\<not> holds S \<sigma> t" using only [OF inc] t by blast
  have "\<not> holds S \<sigma> u" using only [OF cause] u by blast
  then have sat: "holds S \<sigma> (a_term a)" using u(3) by simp
  have wft: "wfTerm S t" using inc t(1) by (simp add: soundInc_def)
  show False
  proof (cases "termSubset S (a_term a) t")
    case True
    with termSubset_holds [OF wf wft] t(2) sat nt show False by simp
  next
    case False
    then have "holds S \<sigma> (negatedDifferenceTerm S (a_term a) t)"
      using all by (simp add: priorTerms_def Let_def)
    with sat nt wf wft t(2) show False by (simp add: holds_negatedDifference)
  qed
qed

lemma foldl_intersect_pos:
  assumes "\<forall>u \<in> set (t # ts). wfTerm S u \<and> t_pos u \<and> vsContains S (t_set u) v"
  shows "t_pos (foldl (termIntersect S) t ts) \<and> vsContains S (t_set (foldl (termIntersect S) t ts)) v"
  using assms
proof (induction ts arbitrary: t)
  case (Cons u ts)
  have "termPermits S (termIntersect S t u) v"
    using Cons.prems by (simp add: permits_intersect) (simp add: termPermits_def)
  then have "wfTerm S (termIntersect S t u) \<and> t_pos (termIntersect S t u) \<and> vsContains S (t_set (termIntersect S t u)) v"
    using Cons.prems by (simp add: wfTerm_intersect t_pos_intersect termPermits_def)
  with Cons.prems have "\<forall>w \<in> set (termIntersect S t u # ts). wfTerm S w \<and> t_pos w \<and> vsContains S (t_set w) v" by simp
  from Cons.IH [OF this] show ?case by simp
qed simp

lemma rootTerms_merged:
  assumes "rootTerms S ts" "\<forall>t \<in> set ts. wfTerm S t"
  shows "rootTerms S (mergedTerms S ts)"
  unfolding rootTerms_def
proof (intro ballI impI)
  fix t assume t: "t \<in> set (mergedTerms S ts)" "t_pkg t = rootPkg"
  then obtain p where p: "p \<in> t_pkg ` set ts" "t = mergeTermGroup S (termGroup ts p)"
    unfolding set_mergedTerms by blast
  then have "p = rootPkg" using merged_pkg [OF p(1), of S] t(2) by simp
  with termGroup_nonempty [OF p(1)] obtain u us where g: "termGroup ts rootPkg = u # us"
    by (cases "termGroup ts rootPkg") auto
  then have "set (u # us) = {w \<in> set ts. t_pkg w = rootPkg}"
    unfolding g [symmetric] by (auto simp: termGroup_def)
  with assms have mem: "\<forall>w \<in> set (u # us). wfTerm S w \<and> t_pos w \<and> vsContains S (t_set w) (rootVersion S)"
    unfolding rootTerms_def by blast
  have "t = foldl (termIntersect S) u us"
    using p(2) \<open>p = rootPkg\<close> g by (simp add: mergeTermGroup_def)
  with foldl_intersect_pos [OF mem] show "t_pos t \<and> vsContains S (t_set t) (rootVersion S)" by simp
qed

lemma rootTerms_normalize:
  "rootTerms S ts \<Longrightarrow> \<forall>t \<in> set ts. wfTerm S t \<Longrightarrow> rootTerms S (normalizeTerms S ts)"
  using rootTerms_merged [of ts] normalizeTerms_subset [of S ts] unfolding rootTerms_def by blast

lemma normalize_sound:
  assumes wf: "\<forall>t \<in> set ts. wfTerm S t" and root: "rootTerms S ts" and sel: "rootSel S Sol"
    and ref: "\<And>\<sigma>. Sol \<sigma> \<Longrightarrow> \<exists>t \<in> set ts. \<not> holds S \<sigma> t" and terms: "inc_terms inc = normalizeTerms S ts"
  shows "soundInc S Sol inc"
proof -
  have "\<exists>t \<in> set (normalizeTerms S ts). \<not> holds S \<sigma> t" if sol: "Sol \<sigma>" for \<sigma>
  proof -
    have "\<forall>t \<in> set (mergedTerms S ts). t_pkg t = rootPkg \<and> t_pos t \<longrightarrow> holds S \<sigma> t"
      using rootTerms_merged [OF root wf] sel sol by (auto simp: rootTerms_def rootSel_def holds_def)
    from holds_normalizeTerms [OF wf this] ref [OF sol] show ?thesis by blast
  qed
  then show ?thesis
    using wf_normalizeTerms [OF wf] normalTerms_distinct [OF normal_normalizeTerms [of S ts]] terms
    by (simp add: soundInc_def)
qed

end

context solver_lib begin

lemma termSubset_root:
  assumes "rootAssignment S a" "wfTerm S (a_term a)" "wfTerm S t" "t_pkg t = t_pkg (a_term a)"
    "t_pos t" "vsContains S (t_set t) (rootVersion S)"
  shows "termSubset S (a_term a) t"
  using assms singleton_root_subset [of "t_set t"]
  by (auto simp: termSubset_def rootAssignment_def subset_iff)

text \<open>
  The root incompatibility's only term is excluded by the merge, and a satisfier on the
  root package needs no correction term: merged root terms stay positive.
\<close>

lemma rootTerms_prior:
  assumes core: "coreInv S Sol st ps" and i: "i < length (ps_assignments ps)" "a = ps_assignments ps ! i"
    and c: "a_cause a = Some c" and inc: "rootTerms S (inc_terms inc)" "soundInc S Sol inc"
    and t: "t \<in> set (inc_terms inc)" "t_pkg t = t_pkg (a_term a)"
  shows "rootTerms S (priorTerms S inc (st_all st ! c) a t)"
proof -
  have mem: "a \<in> set (ps_assignments ps)" using i by simp
  then have cause: "causeOK S (st_all st) a" and wf: "wfTerm S (a_term a)"
    and root: "t_pkg (a_term a) = rootPkg \<longrightarrow> rootAssignment S a"
    using core by (auto simp: coreInv_def psInv_def rootInv_def)
  from cause c obtain u where u: "c < length (st_all st)" "u \<in> set (inc_terms (st_all st ! c))" "t_pkg u = t_pkg (a_term a)"
    by (auto simp: causeOK_def)
  have other: "t_pos w \<and> vsContains S (t_set w) (rootVersion S)"
    if "w \<in> set (inc_terms (st_all st ! c))" "t_pkg w = rootPkg" "t_pkg w \<noteq> t_pkg (a_term a)" for w
  proof (cases "c = 0")
    case True
    with core u that show ?thesis by (auto simp: coreInv_def rootTermOf_def)
  next
    case False
    with core u that show ?thesis by (auto simp: coreInv_def rootTerms_def)
  qed
  have corr: "t_pkg (a_term a) \<noteq> rootPkg" if "\<not> termSubset S (a_term a) t"
    using that termSubset_root [of a t] root wf inc t by (auto simp: rootTerms_def soundInc_def)
  have pkg: "t_pkg (negatedDifferenceTerm S (a_term a) t) = t_pkg (a_term a)"
    using t(2) by (simp add: negatedDifferenceTerm_def termIntersect_pkg)
  show ?thesis
    using inc(1) other corr pkg
    by (auto simp: rootTerms_def priorTerms_def Let_def mem_mergeTermsExcluding)
qed

lemma merge_sound:
  assumes core: "coreInv S Sol st ps" and sel: "rootSel S Sol"
    and i: "i < length (ps_assignments ps)" "a = ps_assignments ps ! i"
    and c: "a_cause a = Some c" and inc: "rootTerms S (inc_terms inc)" "soundInc S Sol inc"
    and t: "t \<in> set (inc_terms inc)" "t_pkg t = t_pkg (a_term a)"
    and inc': "inc_terms inc' = normalizeTerms S (priorTerms S inc (st_all st ! c) a t)"
  shows "soundInc S Sol inc' \<and> rootTerms S (inc_terms inc')"
proof -
  have mem: "a \<in> set (ps_assignments ps)" using i by simp
  then have cause: "causeOK S (st_all st) a" and wf: "wfTerm S (a_term a)"
    using core by (auto simp: coreInv_def psInv_def)
  from cause c obtain u where u: "c < length (st_all st)" "u \<in> set (inc_terms (st_all st ! c))" "t_pkg u = t_pkg (a_term a)"
      "\<forall>\<sigma>. holds S \<sigma> u \<longleftrightarrow> \<not> holds S \<sigma> (a_term a)"
    by (auto simp: causeOK_def)
  have sound: "soundInc S Sol (st_all st ! c)" using core u(1) by (simp add: coreInv_def)
  have wft: "wfTerm S t" using inc(2) t(1) by (simp add: soundInc_def)
  let ?prior = "priorTerms S inc (st_all st ! c) a t"
  have "\<forall>w \<in> set ?prior. wfTerm S w" by (rule wf_priorTerms [OF inc(2) sound wf wft])
  moreover have "rootTerms S ?prior" by (rule rootTerms_prior [OF core i c inc t])
  ultimately show ?thesis
    using normalize_sound [of ?prior Sol inc', OF _ _ sel prior_refuted [OF inc(2) sound t u(2-4) wf] inc']
      rootTerms_normalize [of ?prior] inc' by auto
qed

end

end
