(* ===== verification/Backjump.thy ===== *)
theory Backjump imports Refute begin

text \<open>
  Conflict resolution keeps the invariant: the loop's incompatibility stays sound until it
  is reported or learned, and a backjump always lowers the decision level. The second half
  is the same for derivations and for one scan of unit propagation.
\<close>

section \<open>Backtracking keeps the invariant\<close>

lemma levelInv_take:
  assumes "levelInv ps" "ps_assignments ps' = take k (ps_assignments ps)"
  shows "levelInv ps'"
  using assms by (auto simp: levelInv_def)

lemma filter_level_hd:
  "ps_assignments ps = a # as \<Longrightarrow> a_level a = 0 \<Longrightarrow>
     \<exists>bs. filter (\<lambda>x. a_level x \<le> level) (ps_assignments ps) = a # bs"
  by simp

lemma coreInv_backtrack:
  assumes core: "coreInv S Sol st ps" and ne: "ps_assignments ps \<noteq> []"
  obtains ps' where "(backtrackTo S ps level :: (('e, 'v) solveErr, 'v partialSolution) res) = Inr ps'"
    "coreInv S Sol st ps'" "ps_decisions ps' = level" "ps_assignments ps' \<noteq> []"
    "ps_assignments ps' = filter (\<lambda>a. a_level a \<le> level) (ps_assignments ps)"
proof -
  have inv: "psInv S ps" using core by (simp add: coreInv_def)
  obtain ps' where ps': "(backtrackTo S ps level :: (('e, 'v) solveErr, 'v partialSolution) res) = Inr ps'"
    "psInv S ps'" "ps_decisions ps' = level"
    "ps_assignments ps' = filter (\<lambda>a. a_level a \<le> level) (ps_assignments ps)"
    by (rule backtrackTo_result [OF inv])
  obtain k where k: "ps_assignments ps' = take k (ps_assignments ps)"
    using backtrackTo_prefix [OF inv, of level] ps'(4) by metis
  obtain a as where a: "ps_assignments ps = a # as" using ne by (cases "ps_assignments ps") auto
  with core have "t_pkg (a_term a) = rootPkg" "a_level a = 0" "a_cause a \<noteq> None"
    by (auto simp: coreInv_def rootInv_def)
  moreover from this filter_level_hd [OF a] ps'(4) obtain bs where "ps_assignments ps' = a # bs" by metis
  moreover have "set (ps_assignments ps') \<subseteq> set (ps_assignments ps)" using ps'(4) by auto
  ultimately have "coreInv S Sol st ps'"
    using core ps'(2) levelInv_take [OF _ k] by (auto simp: coreInv_def rootInv_def)
  with ps' \<open>ps_assignments ps' = a # bs\<close> show thesis by (intro that) auto
qed

text \<open>
  What a resolved conflict returns: a sound incompatibility with its index, the invariant,
  a lower level, and assignments and store that are a prefix and an extension of the old.
\<close>

definition learned :: "'v incompat \<Rightarrow> bool" where
  "learned inc \<longleftrightarrow> (\<exists>a b. inc_cause inc = CauseConflict a b)"

definition resolved :: "'v semver \<Rightarrow> ('v selection \<Rightarrow> bool) \<Rightarrow> ('e, 'v) solveState \<Rightarrow> nat \<Rightarrow> 'v incompat \<Rightarrow> ('e, 'v) solveState \<Rightarrow> bool" where
  "resolved S Sol s idx inc s' \<longleftrightarrow>
     coreInv S Sol (ss_store s') (ss_ps s') \<and> ps_assignments (ss_ps s') \<noteq> [] \<and>
     soundInc S Sol inc \<and> rootTerms S (inc_terms inc) \<and> idx < length (st_all (ss_store s')) \<and>
     list_all2 (sameTerm S) (inc_terms (st_all (ss_store s') ! idx)) (inc_terms inc) \<and>
     ps_decisions (ss_ps s') < ps_decisions (ss_ps s) \<and>
     ps_assignments (ss_ps s') = filter (\<lambda>a. a_level a \<le> ps_decisions (ss_ps s')) (ps_assignments (ss_ps s)) \<and>
     (\<exists>more. st_all (ss_store s') = st_all (ss_store s) @ more) \<and>
     (\<forall>i \<in> set (st_all (ss_store s')) - set (st_all (ss_store s)). learned i) \<and>
     ss_provider s' = ss_provider s \<and> ss_universes s' = ss_universes s \<and>
     ss_depsAdded s' = ss_depsAdded s \<and> ss_rootDeps s' = ss_rootDeps s"

section \<open>The level after a backjump\<close>

lemma sorted_level:
  "psInv S ps \<Longrightarrow> j \<le> i \<Longrightarrow> i < length (ps_assignments ps) \<Longrightarrow>
     a_level (ps_assignments ps ! j) \<le> a_level (ps_assignments ps ! i)"
  by (auto simp: psInv_def sorted_iff_nth_mono)

context solver_lib begin

text \<open>Root's decision repeats what its derivation said, so it is never a first satisfier.\<close>

lemma root_decision_not_first:
  assumes core: "coreInv S Sol st ps" and wft: "wfTerm S t" and pkg: "t_pkg t = rootPkg"
    and i: "0 < i" "i < length (ps_assignments ps)"
    and sub: "termSubset S (accumOf S (take (Suc i) (ps_assignments ps)) rootPkg) t"
  shows "termSubset S (accumOf S (take (Suc 0) (ps_assignments ps)) rootPkg) t"
proof -
  let ?as = "ps_assignments ps"
  have wf: "wfAll S ?as" using core psInv_wfAll by (auto simp: coreInv_def)
  obtain a as where a: "?as = a # as" using i by (cases ?as) auto
  have root: "\<forall>b \<in> set ?as. t_pkg (a_term b) = rootPkg \<longrightarrow> rootAssignment S b" "t_pkg (a_term a) = rootPkg"
    using core a by (auto simp: coreInv_def rootInv_def)
  have "holds S \<sigma> t" if h: "holds S \<sigma> (accumOf S (take (Suc 0) ?as) rootPkg)" for \<sigma>
  proof -
    have ha: "holds S \<sigma> (a_term a)" using h wf root(2) a by (simp add: holds_accumOf)
    have "holds S \<sigma> (a_term b)" if b: "b \<in> set ?as" "t_pkg (a_term b) = rootPkg" for b
      using ha b root a by (auto simp: rootAssignment_def holds_def split: option.splits)
    then have "holds S \<sigma> (accumOf S (take (Suc i) ?as) rootPkg)"
      using wf by (auto simp: holds_accumOf dest: in_set_takeD)
    with sub show ?thesis
      using termSubset_holds [of "accumOf S (take (Suc i) ?as) rootPkg" t \<sigma>] wf wft pkg by (simp add: wf_accumOf)
  qed
  then show ?thesis using wf wft pkg by (simp add: termSubset_iff wf_accumOf)
qed

lemma backjump_level:
  assumes core: "coreInv S Sol st ps" and sound: "soundInc S Sol inc"
    and sat: "earliestSatisfier S ps inc = Some (a, t)"
    and jump: "shouldBackjump a (prevSatisfierLevel S ps inc a)"
  shows "prevSatisfierLevel S ps inc a < ps_decisions ps"
proof -
  let ?as = "ps_assignments ps" and ?p = "prevSatisfierLevel S ps inc a"
  obtain i where i: "i < length ?as" "a = ?as ! i" "t \<in> set (inc_terms inc)" "t_pkg t = t_pkg (a_term a)"
    "termForPackage inc (t_pkg t) = Some t"
    "computeFirstSatisfied S ps inc None (length ?as) (t_pkg t) = Some (int i)"
    by (rule earliestSatisfier_result [OF sat])
  have inv: "psInv S ps" and mem: "a \<in> set ?as" using core i by (auto simp: coreInv_def)
  have le: "a_level a \<le> ps_decisions ps" and idx: "a_index a = i"
    using inv mem i by (auto simp: psInv_def)
  have prev: "?p = 0 \<or> (\<exists>j < i. ?p = a_level (?as ! j))"
  proof (cases "earliestSatisfierBefore S ps inc a")
    case (Some b)
    from earliestBefore_result [OF this] idx show ?thesis
      using Some by (auto simp: prevSatisfierLevel_def)
  qed (simp add: prevSatisfierLevel_def)
  have "?p < a_level a"
  proof (cases "isDecision a")
    case False
    have "?p \<le> a_level a" using prev i(1,2) sorted_level [OF inv] by auto
    with jump False show ?thesis by (auto simp: shouldBackjump_def)
  next
    case True
    have "?as ! 0 \<noteq> a" if "i = 0"
      using core True i that by (cases ?as) (auto simp: coreInv_def rootInv_def isDecision_def)
    then have "0 < i" using i(2) by (cases i) auto
    have "t_pkg (a_term a) \<noteq> rootPkg"
    proof
      assume r: "t_pkg (a_term a) = rootPkg"
      have wft: "wfTerm S t" using sound i(3) by (simp add: soundInc_def)
      from computeFirst_least [OF i(5,6)] r i(4)
      have s: "termSubset S (accumOf S (take (Suc i) ?as) rootPkg) t"
        and n: "\<forall>j < i. t_pkg (a_term (?as ! j)) = rootPkg \<longrightarrow> \<not> termSubset S (accumOf S (take (Suc j) ?as) rootPkg) t"
        by auto
      have "t_pkg (a_term (?as ! 0)) = rootPkg"
        using core i(1) by (cases ?as) (auto simp: coreInv_def rootInv_def)
      with n \<open>0 < i\<close> root_decision_not_first [OF core wft _ \<open>0 < i\<close> i(1) s] r i(4) show False by auto
    qed
    then have "\<forall>j < i. a_level (?as ! j) < a_level a"
      using core True i by (auto simp: coreInv_def levelInv_def isDecision_def)
    with prev \<open>0 < i\<close> show ?thesis by (auto dest: le_less_trans [OF le0])
  qed
  with le show ?thesis by simp
qed

section \<open>The resolution loop\<close>

lemma sameTerms_refl: "soundInc S Sol inc \<Longrightarrow> list_all2 (sameTerm S) (inc_terms inc) (inc_terms inc)"
  by (simp add: soundInc_def list_all2_conv_all_nth sameTerm_iff)

lemma coreInv_add:
  assumes core: "coreInv S Sol st ps" and ne: "ps_assignments ps \<noteq> []"
    and inc: "soundInc S Sol inc" "rootTerms S (inc_terms inc)"
    and add: "storeAdd S st inc = (idx, added, st')"
  shows "coreInv S Sol st' ps" "idx < length (st_all st')"
    "list_all2 (sameTerm S) (inc_terms (st_all st' ! idx)) (inc_terms inc)"
    "\<exists>more. st_all st' = st_all st @ more"
proof -
  have inv: "storeInv S st" using core by (simp add: coreInv_def)
  note res = storeAdd_result [OF inv add]
  have "storeInv S st'" using storeInv_add [OF inv, of inc] add by simp
  moreover have "causeOK S (st_all st') a" if "causeOK S (st_all st) a" for a
    using that res(2) by (auto simp: causeOK_def nth_append)
  moreover have "rootInv S (st_all st') ps"
    using core ne by (auto simp: coreInv_def rootInv_def split: list.splits)
  moreover have "rootTerms S (inc_terms (st_all st' ! i))" if "i < length (st_all st')" "0 < i" for i
    using core inc that res(2) by (auto simp: coreInv_def nth_append less_Suc_eq split: if_splits)
  moreover have "\<forall>j \<in> set (st_all st'). soundInc S Sol j" "st_all st' \<noteq> []" "st_all st' ! 0 = st_all st ! 0"
    using core inc res(2) by (auto simp: coreInv_def nth_append split: if_splits)
  ultimately show "coreInv S Sol st' ps"
    using core unfolding coreInv_def by auto
  show "idx < length (st_all st')" by (rule res(1))
  show "\<exists>more. st_all st' = st_all st @ more" using res(2) by (auto split: if_splits)
  show "list_all2 (sameTerm S) (inc_terms (st_all st' ! idx)) (inc_terms inc)"
  proof (cases added)
    case True
    have "list_all2 (sameTerm S) (inc_terms inc) (inc_terms inc)"
      using inc(1) by (rule sameTerms_refl)
    with res(3) True show ?thesis by simp
  next
    case False
    with res(4) show ?thesis by (simp add: incompatEqual_def)
  qed
qed

lemma resolved_cong:
  assumes "resolved S Sol s1 idx inc s'" "ss_store s1 = ss_store s" "ss_ps s1 = ss_ps s"
    "ss_provider s1 = ss_provider s" "ss_universes s1 = ss_universes s"
    "ss_depsAdded s1 = ss_depsAdded s" "ss_rootDeps s1 = ss_rootDeps s"
  shows "resolved S Sol s idx inc s'"
  using assms(1) unfolding resolved_def assms(2-) .

lemma backjump_resolved:
  fixes s :: "('e, 'v) solveState"
  assumes core: "coreInv S Sol (ss_store s) (ss_ps s)" and ne: "ps_assignments (ss_ps s) \<noteq> []"
    and inc: "soundInc S Sol inc" "rootTerms S (inc_terms inc)"
    and cur: "\<not> incChanged \<Longrightarrow> curIdx < length (st_all (ss_store s)) \<and> st_all (ss_store s) ! curIdx = inc"
    and new: "incChanged \<Longrightarrow> learned inc"
    and level: "prevLevel < ps_decisions (ss_ps s)"
  obtains idx s' where "backjump S s inc curIdx incChanged prevLevel = Inr (idx, inc, s')" "resolved S Sol s idx inc s'"
proof -
  define s1 where "s1 = (if incChanged then snd (addToStore S s inc) else s)"
  define idx where "idx = (if incChanged then fst (addToStore S s inc) else curIdx)"
  have st: "coreInv S Sol (ss_store s1) (ss_ps s)" "idx < length (st_all (ss_store s1))"
    "list_all2 (sameTerm S) (inc_terms (st_all (ss_store s1) ! idx)) (inc_terms inc)"
    "\<exists>more. st_all (ss_store s1) = st_all (ss_store s) @ more"
  proof -
    obtain i b st' where add: "storeAdd S (ss_store s) inc = (i, b, st')" by (metis prod_cases3)
    have refl: "list_all2 (sameTerm S) (inc_terms inc) (inc_terms inc)"
      using inc(1) by (rule sameTerms_refl)
    note a = coreInv_add [OF core ne inc add]
    show "coreInv S Sol (ss_store s1) (ss_ps s)" "idx < length (st_all (ss_store s1))"
      "list_all2 (sameTerm S) (inc_terms (st_all (ss_store s1) ! idx)) (inc_terms inc)"
      "\<exists>more. st_all (ss_store s1) = st_all (ss_store s) @ more"
      using a add core cur refl by (auto simp: s1_def idx_def addToStore_def)
  qed
  have "set (st_all (ss_store s1)) \<subseteq> insert inc (set (st_all (ss_store s)))" if incChanged
    using that set_addToStore [of S s inc idx s1] by (simp add: s1_def idx_def)
  then have lrn: "\<forall>i \<in> set (st_all (ss_store s1)) - set (st_all (ss_store s)). learned i"
    using new by (cases incChanged) (auto simp: s1_def)
  have frame: "ss_ps s1 = ss_ps s" "ss_provider s1 = ss_provider s" "ss_universes s1 = ss_universes s"
    "ss_depsAdded s1 = ss_depsAdded s" "ss_rootDeps s1 = ss_rootDeps s"
    by (auto simp: s1_def addToStore_def split: prod.splits)
  obtain ps' where ps': "(backtrackTo S (ss_ps s) prevLevel :: (('e, 'v) solveErr, 'v partialSolution) res) = Inr ps'"
    "coreInv S Sol (ss_store s1) ps'" "ps_decisions ps' = prevLevel" "ps_assignments ps' \<noteq> []"
    "ps_assignments ps' = filter (\<lambda>a. a_level a \<le> prevLevel) (ps_assignments (ss_ps s))"
    by (rule coreInv_backtrack [OF st(1) ne])
  have "backjump S s inc curIdx incChanged prevLevel = Inr (idx, inc, s1\<lparr> ss_ps := ps' \<rparr>)"
    using ps'(1) frame(1) by (auto simp: backjump_def s1_def idx_def split: prod.splits)
  moreover have "resolved S Sol s idx inc (s1\<lparr> ss_ps := ps' \<rparr>)"
    using ps' st inc level frame lrn by (simp add: resolved_def)
  ultimately show thesis by (rule that)
qed

text \<open>Every result of the loop is either an acceptable error or a resolved conflict.\<close>

lemma resolveLoop_sound:
  assumes "coreInv S Sol (ss_store s) (ss_ps s)" "ps_assignments (ss_ps s) \<noteq> []" "rootSel S Sol"
    "soundInc S Sol inc" "rootTerms S (inc_terms inc)"
    "\<not> incChanged \<Longrightarrow> curIdx < length (st_all (ss_store s)) \<and> st_all (ss_store s) ! curIdx = inc"
    "incChanged \<Longrightarrow> learned inc"
  shows "case resolveLoop S guard s inc curIdx incChanged of
      Inl e \<Rightarrow> errOK S Sol e | Inr (idx, inc', s') \<Rightarrow> resolved S Sol s idx inc' s'"
  using assms
proof (induction "nat (guardLimit - guard)" arbitrary: guard s inc curIdx incChanged rule: less_induct)
  case less
  note core = less.prems(1) and ne = less.prems(2) and sel = less.prems(3)
    and inc = less.prems(4,5) and cur = less.prems(6) and new = less.prems(7)
  show ?case
  proof (cases "guardLimit \<le> guard \<or> isTerminal inc \<or> earliestSatisfier S (ss_ps s) inc = None")
    case True
    with inc show ?thesis
      by (subst resolveLoop.simps) (auto simp: errOK_build split: option.splits)
  next
    case False
    then obtain a t where sat: "earliestSatisfier S (ss_ps s) inc = Some (a, t)" by auto
    let ?p = "prevSatisfierLevel S (ss_ps s) inc a"
    show ?thesis
    proof (cases "shouldBackjump a ?p")
      case True
      have level: "?p < ps_decisions (ss_ps s)" by (rule backjump_level [OF core inc(1) sat True])
      obtain idx s' where "backjump S s inc curIdx incChanged ?p = Inr (idx, inc, s')" "resolved S Sol s idx inc s'"
        by (rule backjump_resolved [OF core ne inc cur new level])
      with False sat True show ?thesis by (subst resolveLoop.simps) (simp add: Let_def)
    next
      case no_jump: False
      obtain i where i: "i < length (ps_assignments (ss_ps s))" "a = ps_assignments (ss_ps s) ! i"
        "t \<in> set (inc_terms inc)" "t_pkg t = t_pkg (a_term a)"
        by (rule earliestSatisfier_result [OF sat])
      obtain c where c: "a_cause a = Some c" using no_jump by (auto simp: shouldBackjump_def isDecision_def)
      obtain inc' s' where m: "mergeWithSatisfierCause S s inc a t = (inc', s')" by fastforce
      then have terms: "inc_terms inc' = normalizeTerms S (priorTerms S inc (st_all (ss_store s) ! c) a t)"
        and s': "s' = s\<lparr> ss_nextPtr := ss_nextPtr s + 1 \<rparr>" and lrn: "learned inc'"
        using c by (auto simp: mergeWithSatisfierCause_def newIncompat_def Let_def learned_def)
      have inc': "soundInc S Sol inc'" "rootTerms S (inc_terms inc')"
        using merge_sound [OF core sel i(1,2) c inc(2,1) i(3,4) terms] by auto
      have "case resolveLoop S (guard + 1) s' inc' curIdx True of
          Inl e \<Rightarrow> errOK S Sol e | Inr (idx, inc', s'') \<Rightarrow> resolved S Sol s' idx inc' s''"
        using core ne sel inc' lrn False by (intro less.hyps) (auto simp: s')
      moreover have "resolved S Sol s' idx j s'' \<longleftrightarrow> resolved S Sol s idx j s''" for idx j s''
        by (simp add: resolved_def s')
      moreover have "resolveLoop S guard s inc curIdx incChanged = resolveLoop S (guard + 1) s' inc' curIdx True"
        using False sat no_jump m by (subst resolveLoop.simps) (simp add: Let_def)
      ultimately show ?thesis by (auto split: sum.splits prod.splits)
    qed
  qed
qed

lemma resolveConflict_sound:
  assumes core: "coreInv S Sol (ss_store s) (ss_ps s)" and ne: "ps_assignments (ss_ps s) \<noteq> []" and sel: "rootSel S Sol"
    and idx: "0 < idx" "idx < length (st_all (ss_store s))"
  shows "case resolveConflict S s idx of
      Inl e \<Rightarrow> errOK S Sol e | Inr (i, inc, s') \<Rightarrow> resolved S Sol s i inc s'"
proof -
  let ?inc = "st_all (ss_store s) ! idx"
  define counts where "counts = foldl (\<lambda>c t. c(t_pkg t := c (t_pkg t) + 1)) (ss_conflictCounts s) (inc_terms ?inc)"
  let ?s = "s\<lparr> ss_conflictCounts := counts \<rparr>"
  have "case resolveLoop S 0 ?s ?inc idx False of
      Inl e \<Rightarrow> errOK S Sol e | Inr (i, inc, s') \<Rightarrow> resolved S Sol ?s i inc s'"
    using core ne sel idx by (intro resolveLoop_sound) (auto simp: coreInv_def)
  moreover have "resolved S Sol ?s i inc s' \<longleftrightarrow> resolved S Sol s i inc s'" for i inc s'
    by (simp add: resolved_def)
  moreover have "resolveConflict S s idx = resolveLoop S 0 ?s ?inc idx False"
    unfolding resolveConflict_def Let_def counts_def ..
  ultimately show ?thesis by (auto split: sum.splits prod.splits)
qed

section \<open>Derivations\<close>

text \<open>The accumulation of the root package is exactly its version.\<close>

lemma root_accum:
  assumes core: "coreInv S Sol st ps" and ne: "ps_assignments ps \<noteq> []"
  shows "holds S \<sigma> (accumOf S (ps_assignments ps) rootPkg) \<longleftrightarrow> holds S \<sigma> (negate (rootTermOf S))"
proof -
  obtain a as where a: "ps_assignments ps = a # as" using ne by (cases "ps_assignments ps") auto
  have wf: "wfAll S (ps_assignments ps)" using core psInv_wfAll by (auto simp: coreInv_def)
  have root: "\<forall>b \<in> set (ps_assignments ps). t_pkg (a_term b) = rootPkg \<longrightarrow> rootAssignment S b" "t_pkg (a_term a) = rootPkg"
    using core a by (auto simp: coreInv_def rootInv_def)
  have "holds S \<sigma> (a_term b) \<longleftrightarrow> holds S \<sigma> (negate (rootTermOf S))"
    if "b \<in> set (ps_assignments ps)" "t_pkg (a_term b) = rootPkg" for b
    using root(1) that by (auto simp: rootAssignment_def holds_def rootTermOf_def split: option.splits)
  then show ?thesis using wf root(2) a by (auto simp: holds_accumOf)
qed

text \<open>Once root is assigned, its incompatibility is contradicted and no other root term is open.\<close>

lemma root_settled:
  assumes core: "coreInv S Sol st ps" and ne: "ps_assignments ps \<noteq> []"
  shows "wfTerm S t \<Longrightarrow> t_pkg t = rootPkg \<Longrightarrow> t_pos t \<Longrightarrow> vsContains S (t_set t) (rootVersion S) \<Longrightarrow>
      relation S t ps = TermSatisfied"
    and "t_pkg t = rootPkg \<Longrightarrow> wfTerm S t \<Longrightarrow> \<forall>\<sigma>. holds S \<sigma> t = holds S \<sigma> (rootTermOf S) \<Longrightarrow>
      relation S t ps = TermContradicted"
proof -
  let ?acc = "accumOf S (ps_assignments ps) rootPkg"
  have inv: "psInv S ps" using core by (simp add: coreInv_def)
  have wf: "wfTerm S ?acc" using psInv_wfAll [OF inv] by (rule wf_accumOf)
  obtain a as where "ps_assignments ps = a # as" using ne by (cases "ps_assignments ps") auto
  with core have ex: "\<not> (\<forall>b \<in> set (ps_assignments ps). t_pkg (a_term b) \<noteq> rootPkg)"
    by (auto simp: coreInv_def rootInv_def)
  show "relation S t ps = TermSatisfied"
    if t: "wfTerm S t" "t_pkg t = rootPkg" "t_pos t" "vsContains S (t_set t) (rootVersion S)"
  proof -
    have "holds S \<sigma> t" if h: "holds S \<sigma> ?acc" for \<sigma>
    proof -
      have "\<not> holds S \<sigma> (rootTermOf S)" using h by (simp add: root_accum [OF core ne] holds_negate)
      then show ?thesis
        using t singleton_root_subset [OF t(1,4)] by (auto simp: holds_def rootTermOf_def split: option.splits)
    qed
    then have "termSubset S ?acc t" using wf t by (simp add: termSubset_iff)
    with ex t show ?thesis by (simp add: relation_eq [OF inv] relateAccum_satisfied)
  qed
  show "relation S t ps = TermContradicted"
    if t: "t_pkg t = rootPkg" "wfTerm S t" "\<forall>\<sigma>. holds S \<sigma> t = holds S \<sigma> (rootTermOf S)"
  proof -
    have none: "\<not> (holds S \<sigma> ?acc \<and> holds S \<sigma> t)" for \<sigma>
      using t(3) by (simp add: root_accum [OF core ne] holds_negate)
    have "holds S [rootPkg \<mapsto> rootVersion S] ?acc"
      by (simp add: root_accum [OF core ne] holds_negate) (simp add: holds_def rootTermOf_def singleton_self)
    with none have "\<not> termSubset S ?acc t" using wf t by (auto simp: termSubset_iff)
    with none have "relateAccum S ?acc t = TermContradicted"
      using relateAccum_contradicted [OF wf t(2)] t(1) by simp
    with ex t show ?thesis by (simp add: relation_eq [OF inv])
  qed
qed

lemma coreInv_derive:
  assumes core: "coreInv S Sol st ps" and rel: "relation S t ps = TermInconclusive"
    and wft: "wfTerm S t" and c: "c < length (st_all st)" "u \<in> set (inc_terms (st_all st ! c))"
    and u: "t_pkg u = t_pkg t" "\<forall>\<sigma>. holds S \<sigma> u \<longleftrightarrow> holds S \<sigma> t"
  shows "coreInv S Sol st (derive S ps (negate t) c)"
proof -
  let ?as = "ps_assignments ps" and ?ps = "derive S ps (negate t) c"
  let ?a = "\<lparr> a_term = negate t, a_level = ps_decisions ps, a_cause = Some c, a_index = length ?as \<rparr>"
  have inv: "psInv S ps" using core by (simp add: coreInv_def)
  have sound: "soundInc S Sol (st_all st ! c)" using core c(1) by (simp add: coreInv_def)
  have wfu: "wfTerm S u" using sound c(2) by (simp add: soundInc_def)
  have "psInv S ?ps" using inv wft by (intro psInv_derive) simp_all
  moreover have "levelInv ?ps"
    using core by (auto simp: coreInv_def levelInv_def nth_append)
  moreover have "causeOK S (st_all st) ?a"
    using c u by (auto simp: causeOK_def holds_negate)
  moreover have "rootInv S (st_all st) ?ps"
  proof (cases "?as = []")
    case True
    with core have "c = 0" and u': "u = rootTermOf S" and d: "ps_decisions ps = 0"
      using c by (auto simp: coreInv_def rootInv_def)
    have "\<not> t_pos t" using u(2) [THEN spec, of Map.empty] by (simp add: u' holds_def rootTermOf_def)
    moreover have "vsContains S (t_set t) v \<longleftrightarrow> vsContains S (singletonVerSet S (rootVersion S)) v" for v
      using u(2) [THEN spec, of "[rootPkg \<mapsto> v]"] \<open>\<not> t_pos t\<close> u(1) by (simp add: u' holds_def rootTermOf_def)
    ultimately show ?thesis using True d u(1) by (simp add: rootInv_def rootAssignment_def u' rootTermOf_def)
  next
    case False
    have "t_pkg t \<noteq> rootPkg"
    proof
      assume r: "t_pkg t = rootPkg"
      show False
      proof (cases "c = 0")
        case True
        with core c have "u = rootTermOf S" by (auto simp: coreInv_def)
        with root_settled(2) [OF core False r wft] u rel show False by simp
      next
        case nz: False
        with core c u(1) r have pu: "t_pos u" "vsContains S (t_set u) (rootVersion S)"
          by (auto simp: coreInv_def rootTerms_def)
        have pt: "t_pos t" using u(2) [THEN spec, of Map.empty] pu by (simp add: holds_def)
        then have "vsContains S (t_set t) (rootVersion S)"
          using u(2) [THEN spec, of "[rootPkg \<mapsto> rootVersion S]"] pu u(1) r by (simp add: holds_def)
        with root_settled(1) [OF core False wft r pt] rel show False by simp
      qed
    qed
    with core False show ?thesis by (auto simp: coreInv_def rootInv_def split: list.splits)
  qed
  ultimately show ?thesis using core by (auto simp: coreInv_def)
qed

end

end
