(* ===== verification/Saturate.thy ===== *)
theory Saturate imports Backjump begin

text \<open>
  The invariant of the whole solve state, and its preservation by unit propagation. Beside
  the refutation invariant it says that decided packages permit their version, that the
  dependencies of a decided version are in the store, and that they are propagated: once
  the scan of a freshly decided package has run without a conflict, each of its
  dependencies is entailed by the assignments up to the decision's level.
\<close>

section \<open>Entailment by the assignments\<close>

definition entailed :: "'v semver \<Rightarrow> 'v assignment list \<Rightarrow> 'v solverTerm \<Rightarrow> bool" where
  "entailed S as t \<longleftrightarrow> (\<exists>a \<in> set as. t_pkg (a_term a) = t_pkg t) \<and> termSubset S (accumOf S as (t_pkg t)) t"

text \<open>What a package at a version requires, root included.\<close>

definition depsFor :: "('e, 'v) provider \<Rightarrow> requirement list \<Rightarrow> gostring \<Rightarrow> 'v version \<Rightarrow> ('e, (gostring \<times> gostring) list) res" where
  "depsFor P reqs pkg v = (if pkg = rootPkg then Inr (rootDepsOf reqs) else pr_dependencies P pkg v)"

definition upTo :: "nat \<Rightarrow> 'v assignment list \<Rightarrow> 'v assignment list" where
  "upTo l as = filter (\<lambda>b. a_level b \<le> l) as"

text \<open>Every dependency of the decision \<open>a\<close> is entailed at the decision's level.\<close>

definition closedDecision :: "'v semver \<Rightarrow> ('e, 'v) provider \<Rightarrow> requirement list \<Rightarrow> 'v assignment list \<Rightarrow> 'v assignment \<Rightarrow> bool" where
  "closedDecision S P reqs as a \<longleftrightarrow>
     (\<forall>v deps dep c vset. vs_single (t_set (a_term a)) = Some v \<longrightarrow> depsFor P reqs (t_pkg (a_term a)) v = Inr deps \<longrightarrow>
        map_of deps dep = Some c \<longrightarrow> newVerSet S c = Inr vset \<longrightarrow>
        entailed S (upTo (a_level a) as) (mkTerm dep vset True))"

text \<open>Only the root version is decided for root, and only versions with a proper point.\<close>

definition properVersion :: "'v semver \<Rightarrow> gostring \<Rightarrow> 'v version \<Rightarrow> bool" where
  "properVersion S pkg v \<longleftrightarrow> versionFits S v \<and> (pkg = rootPkg \<longrightarrow> v = rootVersion S)"

definition decInv :: "'v semver \<Rightarrow> (gostring \<Rightarrow> bool) \<Rightarrow> 'v assignment list \<Rightarrow> bool" where
  "decInv S da as \<longleftrightarrow>
     distinct (map (\<lambda>a. t_pkg (a_term a)) (filter isDecision as)) \<and>
     (\<forall>a \<in> set as. isDecision a \<longrightarrow>
        (\<exists>v. a_term a = mkTerm (t_pkg (a_term a)) (singletonVerSet S v) True \<and> wellParsed S v \<and> properVersion S (t_pkg (a_term a)) v \<and>
           da (depsKey (t_pkg (a_term a)) v) \<and> termPermits S (accumOf S as (t_pkg (a_term a))) v))"

definition depsInv :: "'v semver \<Rightarrow> ('e, 'v) provider \<Rightarrow> requirement list \<Rightarrow> (gostring \<Rightarrow> bool) \<Rightarrow> 'v incompat list \<Rightarrow> bool" where
  "depsInv S P reqs da all \<longleftrightarrow>
     (\<forall>pkg v. wellParsed S v \<longrightarrow> da (depsKey pkg v) \<longrightarrow>
        (\<exists>deps. depsFor P reqs pkg v = Inr deps \<and> (\<forall>dep c. map_of deps dep = Some c \<longrightarrow>
           (\<exists>vset. newVerSet S c = Inr vset \<and>
             (\<exists>inc \<in> set all. list_all2 (sameTerm S) (inc_terms inc) (dependencyTerms S pkg v dep vset))))))"

text \<open>
  The requirements are recorded as root's dependencies, causes included, before anything
  but the root incompatibility is in the store; a requirement on the empty set is the one
  whose cause may be shared.
\<close>

definition rootRecorded :: "'v semver \<Rightarrow> requirement list \<Rightarrow> (gostring \<Rightarrow> bool) \<Rightarrow> 'v incompat list \<Rightarrow> nat \<Rightarrow> bool" where
  "rootRecorded S reqs da all level \<longleftrightarrow>
     (if da (depsKey rootPkg (rootVersion S))
      then \<forall>dep c vset. map_of (rootDepsOf reqs) dep = Some c \<longrightarrow> newVerSet S c = Inr vset \<longrightarrow> \<not> vsIsEmpty vset \<longrightarrow>
             (\<exists>inc \<in> set all. inc_cause inc = CauseDependency (rootVersion S) rootPkg dep c)
      else length all = 1 \<and> level = 0)"

text \<open>A recorded dependency is one the provider declares, of a parsed version.\<close>

definition causesInv :: "'v semver \<Rightarrow> ('e, 'v) provider \<Rightarrow> requirement list \<Rightarrow> 'v incompat set \<Rightarrow> bool" where
  "causesInv S P reqs incs \<longleftrightarrow>
     (\<forall>inc \<in> incs. \<forall>v pkg dep c. inc_cause inc = CauseDependency v pkg dep c \<longrightarrow>
        wellParsed S v \<and> (\<exists>deps. depsFor P reqs pkg v = Inr deps \<and> map_of deps dep = Some c))"

definition envInv :: "'v semver \<Rightarrow> ('e, 'v) provider \<Rightarrow> requirement list \<Rightarrow> ('e, 'v) solveState \<Rightarrow> bool" where
  "envInv S P reqs s \<longleftrightarrow>
     ss_provider s = P \<and> ss_rootDeps s = rootDepsOf reqs \<and>
     u_fetched (ss_universes s rootPkg) \<and> u_versions (ss_universes s rootPkg) = [rootVersion S] \<and>
     (\<forall>p. p \<noteq> rootPkg \<longrightarrow> u_fetched (ss_universes s p) \<longrightarrow>
        (\<exists>us. pr_universe P p = Inr us \<and> u_versions (ss_universes s p) = buildUniverse S us))"

definition solveInv :: "'v semver \<Rightarrow> ('e, 'v) provider \<Rightarrow> requirement list \<Rightarrow> ('v selection \<Rightarrow> bool) \<Rightarrow> ('e, 'v) solveState \<Rightarrow> bool" where
  "solveInv S P reqs Sol s \<longleftrightarrow>
     coreInv S Sol (ss_store s) (ss_ps s) \<and> envInv S P reqs s \<and>
     decInv S (ss_depsAdded s) (ps_assignments (ss_ps s)) \<and>
     depsInv S P reqs (ss_depsAdded s) (st_all (ss_store s)) \<and>
     rootRecorded S reqs (ss_depsAdded s) (st_all (ss_store s)) (ps_decisions (ss_ps s)) \<and>
     causesInv S P reqs (set (st_all (ss_store s)))"

text \<open>All decisions are closed, but perhaps a fresh one of \<open>pkg\<close> at the current level.\<close>

definition pendingOnly :: "'v semver \<Rightarrow> ('e, 'v) provider \<Rightarrow> requirement list \<Rightarrow> gostring \<Rightarrow> 'v partialSolution \<Rightarrow> bool" where
  "pendingOnly S P reqs pkg ps \<longleftrightarrow>
     (\<forall>a \<in> set (ps_assignments ps). isDecision a \<longrightarrow>
        closedDecision S P reqs (ps_assignments ps) a \<or> t_pkg (a_term a) = pkg \<and> a_level a = ps_decisions ps)"

definition allClosed :: "'v semver \<Rightarrow> ('e, 'v) provider \<Rightarrow> requirement list \<Rightarrow> 'v partialSolution \<Rightarrow> bool" where
  "allClosed S P reqs ps \<longleftrightarrow>
     (\<forall>a \<in> set (ps_assignments ps). isDecision a \<longrightarrow> closedDecision S P reqs (ps_assignments ps) a)"

lemma allClosed_pending: "allClosed S P reqs ps \<Longrightarrow> pendingOnly S P reqs pkg ps"
  by (auto simp: allClosed_def pendingOnly_def)

lemma upTo_simps [simp]: "upTo l [] = []"
  "upTo l (as @ bs) = upTo l as @ upTo l bs" "upTo l (a # as) = (if a_level a \<le> l then a # upTo l as else upTo l as)"
  by (simp_all add: upTo_def)

lemma upTo_upTo: "l \<le> m \<Longrightarrow> upTo l (upTo m as) = upTo l as"
  by (auto simp: upTo_def intro!: filter_cong)

lemma upTo_all: "\<forall>a \<in> set as. a_level a \<le> l \<Longrightarrow> upTo l as = as"
  by (simp add: upTo_def filter_id_conv)

lemma mem_upTo: "a \<in> set (upTo l as) \<longleftrightarrow> a \<in> set as \<and> a_level a \<le> l"
  by (auto simp: upTo_def)

lemma closed_backtrack: "a_level a \<le> l \<Longrightarrow> closedDecision S P reqs (upTo l as) a \<longleftrightarrow> closedDecision S P reqs as a"
  by (simp add: closedDecision_def upTo_upTo)

text \<open>What a step without conflict leaves: more derivations at the current level.\<close>

definition derives :: "('e, 'v) solveState \<Rightarrow> ('e, 'v) solveState \<Rightarrow> bool" where
  "derives s s' \<longleftrightarrow>
     ss_store s' = ss_store s \<and> ss_depsAdded s' = ss_depsAdded s \<and> ps_decisions (ss_ps s') = ps_decisions (ss_ps s) \<and>
     (\<exists>more. ps_assignments (ss_ps s') = ps_assignments (ss_ps s) @ more \<and> (\<forall>a \<in> set more. \<not> isDecision a))"

context semver_lib begin

lemma entailed_mono:
  "wfAll S as \<Longrightarrow> wfTerm S t \<Longrightarrow> set bs \<subseteq> set as \<Longrightarrow> entailed S bs t \<Longrightarrow> entailed S as t"
  unfolding entailed_def using accumOf_entails_mono by blast

lemma relation_satisfied_iff:
  "psInv S ps \<Longrightarrow> relation S t ps = TermSatisfied \<longleftrightarrow> entailed S (ps_assignments ps) t"
  by (auto simp: relation_eq entailed_def relateAccum_satisfied)

lemma entailed_of_contradicted:
  assumes inv: "psInv S ps" and wf: "wfTerm S t" and rel: "relation S t ps = TermContradicted"
  shows "entailed S (ps_assignments ps) (negate t)"
proof -
  have ex: "\<exists>a \<in> set (ps_assignments ps). t_pkg (a_term a) = t_pkg t"
    and r: "relateAccum S (accumOf S (ps_assignments ps) (t_pkg t)) t = TermContradicted"
    using rel by (auto simp: relation_eq [OF inv] split: if_splits)
  have wfa: "wfTerm S (accumOf S (ps_assignments ps) (t_pkg t))" by (rule wf_accumOf [OF psInv_wfAll [OF inv]])
  from contradicted_entails [OF wfa wf _ r] ex show ?thesis by (simp add: entailed_def)
qed

lemma closedDecision_mono:
  assumes "wfAll S as" "set bs \<subseteq> set as" "closedDecision S P reqs bs a"
  shows "closedDecision S P reqs as a"
  unfolding closedDecision_def
proof (intro allI impI)
  fix v deps dep c vset
  assume h: "vs_single (t_set (a_term a)) = Some v" "depsFor P reqs (t_pkg (a_term a)) v = Inr deps"
    "map_of deps dep = Some c" "newVerSet S c = Inr vset"
  with assms(3) have ent: "entailed S (upTo (a_level a) bs) (mkTerm dep vset True)"
    by (auto simp: closedDecision_def)
  have sub: "set (upTo (a_level a) bs) \<subseteq> set (upTo (a_level a) as)" using assms(2) by (auto simp: mem_upTo)
  have wf: "wfAll S (upTo (a_level a) as)" "wfTerm S (mkTerm dep vset True)"
    using assms(1) wf_newVerSet [OF h(4)] by (simp_all add: upTo_def)
  show "entailed S (upTo (a_level a) as) (mkTerm dep vset True)" by (rule entailed_mono [OF wf sub ent])
qed

section \<open>Derivations\<close>

end

context solver_lib begin

text \<open>A decided package has no inconclusive term: its accumulation is one precedence point.\<close>

lemma decided_no_inconclusive:
  assumes inv: "psInv S ps" and dec: "decInv S da (ps_assignments ps)"
    and a: "a \<in> set (ps_assignments ps)" "isDecision a" "t_pkg (a_term a) = t_pkg t" and wf: "wfTerm S t"
  shows "relation S t ps \<noteq> TermInconclusive"
proof
  assume rel: "relation S t ps = TermInconclusive"
  let ?acc = "accumOf S (ps_assignments ps) (t_pkg t)"
  from dec a obtain v where v: "a_term a = mkTerm (t_pkg (a_term a)) (singletonVerSet S v) True" "versionFits S v"
    unfolding decInv_def properVersion_def by blast
  have term_a: "t_pos (a_term a)" "t_set (a_term a) = singletonVerSet S v"
    by (subst v(1), simp)+
  have wfall: "wfAll S (ps_assignments ps)" by (rule psInv_wfAll [OF inv])
  have wfa: "wfTerm S ?acc" by (rule wf_accumOf [OF wfall])
  have r: "relateAccum S ?acc t = TermInconclusive"
    using rel a by (auto simp: relation_eq [OF inv] split: if_splits)
  have h: "\<exists>w. \<sigma> (t_pkg t) = Some w \<and> vsContains S (t_set t) w = vsContains S (t_set t) v"
    if "holds S \<sigma> ?acc" for \<sigma>
  proof -
    have "holds S \<sigma> (a_term a)" using that a by (simp add: holds_accumOf [OF wfall])
    then obtain w where "\<sigma> (t_pkg t) = Some w" "vsContains S (singletonVerSet S v) w"
      using term_a a(3) by (auto simp: holds_def split: option.splits)
    with singleton_point [OF wf v(2)] show ?thesis by blast
  qed
  show False
  proof (cases "vsContains S (t_set t) v = t_pos t")
    case True
    then have "holds S \<sigma> t" if "holds S \<sigma> ?acc" for \<sigma>
      using h [OF that] by (auto simp: holds_def)
    then have "termSubset S ?acc t" using wfa wf by (simp add: termSubset_iff)
    with inconclusive_entails(1) [OF wfa wf _ r] show False by simp
  next
    case False
    then have "holds S \<sigma> (negate t)" if "holds S \<sigma> ?acc" for \<sigma>
      using h [OF that] by (auto simp: holds_def)
    then have "termSubset S ?acc (negate t)" using wfa wf by (simp add: termSubset_iff)
    with inconclusive_entails(2) [OF wfa wf _ r] show False by simp
  qed
qed

lemma decInv_derive:
  assumes inv: "psInv S ps" and dec: "decInv S da (ps_assignments ps)"
    and wf: "wfTerm S t" and rel: "relation S t ps = TermInconclusive"
  shows "decInv S da (ps_assignments (derive S ps (negate t) c))"
proof -
  have "t_pkg t \<noteq> t_pkg (a_term a)" if "a \<in> set (ps_assignments ps)" "isDecision a" for a
    using decided_no_inconclusive [OF inv dec that _ wf] rel by metis
  then have same: "accumOf S (ps_assignments (derive S ps (negate t) c)) (t_pkg (a_term a)) =
      accumOf S (ps_assignments ps) (t_pkg (a_term a))" if "a \<in> set (ps_assignments ps)" "isDecision a" for a
    using that by (simp add: accumOf_snoc)
  have mem: "a \<in> set (ps_assignments (derive S ps (negate t) c)) \<and> isDecision a \<longleftrightarrow>
      a \<in> set (ps_assignments ps) \<and> isDecision a" for a
    by (auto simp: isDecision_def)
  have "filter isDecision (ps_assignments (derive S ps (negate t) c)) = filter isDecision (ps_assignments ps)"
    by (simp add: isDecision_def)
  with dec same mem show ?thesis unfolding decInv_def by metis
qed

lemma solveInv_derive:
  assumes inv: "solveInv S P reqs Sol s" and rel: "relation S t (ss_ps s) = TermInconclusive"
    and wft: "wfTerm S t" and c: "c < length (st_all (ss_store s))" "u \<in> set (inc_terms (st_all (ss_store s) ! c))"
    and u: "t_pkg u = t_pkg t" "\<forall>\<sigma>. holds S \<sigma> u \<longleftrightarrow> holds S \<sigma> t"
  shows "solveInv S P reqs Sol (s\<lparr> ss_ps := derive S (ss_ps s) (negate t) c \<rparr>)"
proof -
  have core: "coreInv S Sol (ss_store s) (ss_ps s)" and dec: "decInv S (ss_depsAdded s) (ps_assignments (ss_ps s))"
    using inv by (auto simp: solveInv_def)
  then have ps: "psInv S (ss_ps s)" by (simp add: coreInv_def)
  show ?thesis
    using inv coreInv_derive [OF core rel wft c u] decInv_derive [OF ps dec wft rel]
    by (simp add: solveInv_def envInv_def)
qed

lemma derives_refl: "derives s s"
  by (simp add: derives_def)

lemma derives_trans: "derives s t \<Longrightarrow> derives t u \<Longrightarrow> derives s u"
  by (auto simp: derives_def)

lemma derives_set: "derives s s' \<Longrightarrow> set (ps_assignments (ss_ps s)) \<subseteq> set (ps_assignments (ss_ps s'))"
  by (auto simp: derives_def)

lemma derives_entailed:
  assumes "derives s s'" "psInv S (ss_ps s')" "wfTerm S t" "entailed S (ps_assignments (ss_ps s)) t"
  shows "entailed S (ps_assignments (ss_ps s')) t"
  by (rule entailed_mono [OF psInv_wfAll [OF assms(2)] assms(3) derives_set [OF assms(1)] assms(4)])

lemma derives_closed:
  "derives s s' \<Longrightarrow> psInv S (ss_ps s') \<Longrightarrow> closedDecision S P reqs (ps_assignments (ss_ps s)) a \<Longrightarrow>
     closedDecision S P reqs (ps_assignments (ss_ps s')) a"
  by (rule closedDecision_mono [OF psInv_wfAll derives_set])

lemma derives_allClosed:
  assumes "derives s s'" "psInv S (ss_ps s')" "allClosed S P reqs (ss_ps s)"
  shows "allClosed S P reqs (ss_ps s')"
  using assms derives_closed [where P = P and reqs = reqs, OF assms(1,2)] by (auto simp: allClosed_def derives_def)

lemma derives_pending:
  assumes "derives s s'" "psInv S (ss_ps s')" "pendingOnly S P reqs pkg (ss_ps s)"
  shows "pendingOnly S P reqs pkg (ss_ps s')"
  using assms derives_closed [where P = P and reqs = reqs, OF assms(1,2)] by (auto simp: pendingOnly_def derives_def)

lemma hasEquivalent_entailed:
  assumes inv: "psInv S ps" and wf: "wfTerm S t" and eq: "hasEquivalentAssignment S ps t"
  shows "entailed S (ps_assignments ps) t"
proof -
  from eq obtain a where a: "a \<in> set (ps_assignments ps)" "t_pkg (a_term a) = t_pkg t" "sameTerm S (a_term a) t"
    by (force simp: hasEquivalentAssignment_def psInv_summary [OF inv] indicesOf_def)
  have wfall: "wfAll S (ps_assignments ps)" by (rule psInv_wfAll [OF inv])
  then have "wfTerm S (a_term a)" using a(1) by (simp add: wfAll_def)
  then have "termSubset S (accumOf S (ps_assignments ps) (t_pkg (a_term a))) t"
    using sameTerm_holds [OF _ wf a(3)] a(2) by (intro accumOf_entails [OF wfall a(1) wf]) auto
  with a show ?thesis by (auto simp: entailed_def)
qed

lemma derive_entailed:
  assumes inv: "psInv S ps" and wf: "wfTerm S t"
  shows "entailed S (ps_assignments (derive S ps t c)) t"
proof -
  have wfall: "wfAll S (ps_assignments (derive S ps t c))"
    using psInv_wfAll [OF psInv_derive [OF inv wf]] .
  let ?a = "\<lparr> a_term = t, a_level = ps_decisions ps, a_cause = Some c, a_index = length (ps_assignments ps) \<rparr>"
  have "termSubset S (accumOf S (ps_assignments (derive S ps t c)) (t_pkg (a_term ?a))) t"
    by (rule accumOf_entails [OF wfall _ wf]) simp_all
  then show ?thesis by (auto simp: entailed_def)
qed

lemma deriveOnce_inv:
  assumes inv: "solveInv S P reqs Sol s" and rel: "relation S t (ss_ps s) = TermInconclusive"
    and wft: "wfTerm S t" and c: "c < length (st_all (ss_store s))" "u \<in> set (inc_terms (st_all (ss_store s) ! c))"
    and u: "t_pkg u = t_pkg t" "\<forall>\<sigma>. holds S \<sigma> u \<longleftrightarrow> holds S \<sigma> t"
    and d: "deriveOnce S s (negate t) c ch = (s', ch')"
  shows "solveInv S P reqs Sol s'" "derives s s'" "entailed S (ps_assignments (ss_ps s')) (negate t)"
proof -
  have ps: "psInv S (ss_ps s)" using inv by (simp add: solveInv_def coreInv_def)
  show "solveInv S P reqs Sol s'"
    using d solveInv_derive [OF inv rel wft c u] inv by (auto simp: deriveOnce_def split: if_splits)
  show "derives s s'"
    using d by (auto simp: deriveOnce_def derives_def isDecision_def split: if_splits)
  show "entailed S (ps_assignments (ss_ps s')) (negate t)"
    using d hasEquivalent_entailed [OF ps, of "negate t"] derive_entailed [OF ps, of "negate t" c] wft
    by (auto simp: deriveOnce_def split: if_splits)
qed

section \<open>Conflicts\<close>

lemma decInv_upTo:
  assumes "wfAll S as" "decInv S da as"
  shows "decInv S da (upTo l as)"
proof -
  have "filter isDecision (upTo l as) = filter (\<lambda>a. a_level a \<le> l) (filter isDecision as)"
    by (simp add: upTo_def conj_commute)
  moreover have "distinct (map (\<lambda>a. t_pkg (a_term a)) (filter (\<lambda>a. a_level a \<le> l) (filter isDecision as)))"
    using assms(2) unfolding decInv_def by (elim conjE) (rule distinct_map_filter)
  ultimately have d: "distinct (map (\<lambda>a. t_pkg (a_term a)) (filter isDecision (upTo l as)))"
    by simp
  have perm: "termPermits S (accumOf S (upTo l as) p) v" if "termPermits S (accumOf S as p) v" for p v
  proof -
    have "wfAll S (upTo l as)" using assms(1) by (simp add: upTo_def)
    with that assms(1) show ?thesis by (simp add: permits_accumOf mem_upTo)
  qed
  show ?thesis
    unfolding decInv_def
  proof (intro conjI ballI impI d)
    fix a assume "a \<in> set (upTo l as)" "isDecision a"
    with assms(2) obtain v where "a_term a = mkTerm (t_pkg (a_term a)) (singletonVerSet S v) True"
      "wellParsed S v" "properVersion S (t_pkg (a_term a)) v" "da (depsKey (t_pkg (a_term a)) v)"
      "termPermits S (accumOf S as (t_pkg (a_term a))) v"
      unfolding decInv_def mem_upTo by blast
    with perm show "\<exists>v. a_term a = mkTerm (t_pkg (a_term a)) (singletonVerSet S v) True \<and> wellParsed S v \<and>
        properVersion S (t_pkg (a_term a)) v \<and> da (depsKey (t_pkg (a_term a)) v) \<and> termPermits S (accumOf S (upTo l as) (t_pkg (a_term a))) v"
      by blast
  qed
qed

lemma depsInv_mono: "depsInv S P reqs da all \<Longrightarrow> depsInv S P reqs da (all @ new)"
  unfolding depsInv_def by (meson UnI1 set_append [THEN equalityD2, THEN subsetD])

lemma resolved_inv:
  assumes inv: "solveInv S P reqs Sol s" and res: "resolved S Sol s idx inc s'"
    and pend: "pendingOnly S P reqs pkg (ss_ps s)"
  shows "solveInv S P reqs Sol s'" "allClosed S P reqs (ss_ps s')"
proof -
  have ps: "psInv S (ss_ps s)" using inv by (simp add: solveInv_def coreInv_def)
  have as: "ps_assignments (ss_ps s') = upTo (ps_decisions (ss_ps s')) (ps_assignments (ss_ps s))"
    using res by (simp add: resolved_def upTo_def)
  have "decInv S (ss_depsAdded s') (ps_assignments (ss_ps s'))"
    unfolding as using inv res psInv_wfAll [OF ps] by (auto simp: solveInv_def resolved_def intro: decInv_upTo)
  moreover have "depsInv S P reqs (ss_depsAdded s') (st_all (ss_store s'))"
    using inv res by (auto simp: solveInv_def resolved_def intro: depsInv_mono)
  moreover have "rootRecorded S reqs (ss_depsAdded s') (st_all (ss_store s')) (ps_decisions (ss_ps s'))"
  proof (cases "ss_depsAdded s (depsKey rootPkg (rootVersion S))")
    case True
    obtain incs where "st_all (ss_store s') = st_all (ss_store s) @ incs" using res by (auto simp: resolved_def)
    with True inv res show ?thesis by (auto simp: solveInv_def resolved_def rootRecorded_def) blast
  next
    case False
    with inv res show ?thesis by (auto simp: solveInv_def resolved_def rootRecorded_def)
  qed
  moreover have "causesInv S P reqs (set (st_all (ss_store s')))"
  proof -
    have old: "causesInv S P reqs (set (st_all (ss_store s)))" using inv by (simp add: solveInv_def)
    have "\<forall>i \<in> set (st_all (ss_store s')) - set (st_all (ss_store s)). learned i" using res by (simp add: resolved_def)
    then have new: "i \<in> set (st_all (ss_store s'))  \<Longrightarrow> i \<in> set (st_all (ss_store s)) \<or> (\<exists>a b. inc_cause i = CauseConflict a b)" for i
      unfolding learned_def by blast
    show ?thesis
      unfolding causesInv_def
    proof (intro ballI allI impI)
      fix i v p d c assume "i \<in> set (st_all (ss_store s'))" "inc_cause i = CauseDependency v p d c"
      with new [of i] old show "wellParsed S v \<and> (\<exists>deps. depsFor P reqs p v = Inr deps \<and> map_of deps d = Some c)"
        unfolding causesInv_def by fastforce
    qed
  qed
  ultimately show "solveInv S P reqs Sol s'"
    using inv res by (simp add: solveInv_def resolved_def envInv_def)
  show "allClosed S P reqs (ss_ps s')"
    unfolding allClosed_def
  proof (intro ballI impI)
    fix a assume a: "a \<in> set (ps_assignments (ss_ps s'))" "isDecision a"
    then have mem: "a \<in> set (ps_assignments (ss_ps s))" and le: "a_level a \<le> ps_decisions (ss_ps s')"
      by (auto simp: as mem_upTo)
    moreover have "ps_decisions (ss_ps s') < ps_decisions (ss_ps s)" using res by (simp add: resolved_def)
    ultimately have "closedDecision S P reqs (ps_assignments (ss_ps s)) a"
      using pend a(2) by (auto simp: pendingOnly_def)
    then show "closedDecision S P reqs (ps_assignments (ss_ps s')) a"
      unfolding as using le by (simp add: closed_backtrack)
  qed
qed

lemma list_all2_mem: "list_all2 R xs ys \<Longrightarrow> y \<in> set ys \<Longrightarrow> \<exists>x \<in> set xs. R x y"
  by (metis in_set_conv_nth list_all2_conv_all_nth)

lemma resolveAndDerive_inv:
  assumes inv: "solveInv S P reqs Sol s" and ne: "ps_assignments (ss_ps s) \<noteq> []" and sel: "rootSel S Sol"
    and idx: "0 < idx" "idx < length (st_all (ss_store s))" and pend: "pendingOnly S P reqs pkg (ss_ps s)"
  shows "case resolveAndDerive S s idx of Inl e \<Rightarrow> errOK S Sol e
    | Inr (s', ch) \<Rightarrow> solveInv S P reqs Sol s' \<and> allClosed S P reqs (ss_ps s') \<and>
        ps_decisions (ss_ps s') < ps_decisions (ss_ps s) \<and> ps_assignments (ss_ps s') \<noteq> []"
proof (cases "resolveConflict S s idx")
  case (Inl e)
  have "coreInv S Sol (ss_store s) (ss_ps s)" using inv by (simp add: solveInv_def)
  from resolveConflict_sound [OF this ne sel idx] Inl show ?thesis by (simp add: resolveAndDerive_def)
next
  case (Inr r)
  obtain i inc s1 where r: "r = (i, inc, s1)" by (metis prod_cases3)
  have core: "coreInv S Sol (ss_store s) (ss_ps s)" using inv by (simp add: solveInv_def)
  from resolveConflict_sound [OF core ne sel idx] Inr r have res: "resolved S Sol s i inc s1" by simp
  note inv1 = resolved_inv [OF inv res pend]
  have sound: "soundInc S Sol inc" "rootTerms S (inc_terms inc)" and i: "i < length (st_all (ss_store s1))"
    and same: "list_all2 (sameTerm S) (inc_terms (st_all (ss_store s1) ! i)) (inc_terms inc)"
    and lower: "ps_decisions (ss_ps s1) < ps_decisions (ss_ps s)" "ps_assignments (ss_ps s1) \<noteq> []"
    using res by (auto simp: resolved_def)
  show ?thesis
  proof (cases "\<exists>t. relate S inc (ss_ps s1) = (IncAlmostSatisfied, Some t)")
    case False
    then have "resolveAndDerive S s idx = Inl (buildConflictError S s1 inc)"
      using Inr r by (auto simp: resolveAndDerive_def split: prod.splits incRelation.splits option.splits)
    with errOK_build [OF sound] show ?thesis by simp
  next
    case True
    then obtain t where t: "relate S inc (ss_ps s1) = (IncAlmostSatisfied, Some t)" by blast
    from relate_almost [OF t] have mem: "t \<in> set (inc_terms inc)" and rel: "relation S t (ss_ps s1) = TermInconclusive"
      by auto
    have wft: "wfTerm S t" using sound(1) mem by (simp add: soundInc_def)
    obtain u where u: "u \<in> set (inc_terms (st_all (ss_store s1) ! i))" "sameTerm S u t"
      using list_all2_mem [OF same mem] by blast
    have "soundInc S Sol (st_all (ss_store s1) ! i)" using res i by (simp add: resolved_def coreInv_def)
    then have wfu: "wfTerm S u" using u(1) by (simp add: soundInc_def)
    have eq: "t_pkg u = t_pkg t" "\<forall>\<sigma>. holds S \<sigma> u \<longleftrightarrow> holds S \<sigma> t"
      using u(2) sameTerm_holds [OF wfu wft u(2)] by (simp_all add: sameTerm_def)
    obtain s' ch where d: "deriveOnce S s1 (negate t) i [] = (s', ch)" by fastforce
    note der = deriveOnce_inv [OF inv1(1) rel wft i u(1) eq d]
    have ps': "psInv S (ss_ps s')" using der(1) by (simp add: solveInv_def coreInv_def)
    have "resolveAndDerive S s idx = Inr (s', ch)"
      using Inr r t d by (simp add: resolveAndDerive_def)
    moreover have "ps_assignments (ss_ps s') \<noteq> []" "ps_decisions (ss_ps s') < ps_decisions (ss_ps s)"
      using der(2) lower by (auto simp: derives_def)
    ultimately show ?thesis
      using der(1) derives_allClosed [OF der(2) ps' inv1(2)] by simp
  qed
qed

end

end
