(* ===== verification/Scan.thy ===== *)
theory Scan imports Saturate begin

text \<open>
  Unit propagation as a whole: one scan of a package's incompatibilities keeps the
  invariant and leaves every unit incompatibility's open term negated, and the loop over
  the changed packages closes the fresh decision it was started for.
\<close>

section \<open>One scan\<close>

lemma relateLoop_pending_sat:
  "\<forall>u \<in> set ts. rel u = TermSatisfied \<Longrightarrow> relateLoop rel (Some t) ts = (IncAlmostSatisfied, Some t)"
  by (induction ts) auto

text \<open>The relation of an incompatibility all of whose terms but \<open>t\<close> are satisfied.\<close>

lemma relateLoop_unit:
  assumes "distinct ts" "\<forall>u \<in> set ts. u \<noteq> t \<longrightarrow> rel u = TermSatisfied"
  shows "relateLoop rel None ts =
    (if t \<notin> set ts \<or> rel t = TermSatisfied then (IncSatisfied, None)
     else if rel t = TermContradicted then (IncContradicted, None) else (IncAlmostSatisfied, Some t))"
  using assms
proof (induction ts)
  case (Cons u us)
  show ?case
  proof (cases "u = t")
    case True
    with Cons.prems have us: "\<forall>w \<in> set us. rel w = TermSatisfied" "t \<notin> set us" by auto
    with Cons True show ?thesis
      by (cases "rel t") (auto simp: relateLoop_pending_sat)
  next
    case False
    with Cons show ?thesis by auto
  qed
qed simp

text \<open>A scan ends in an acceptable error, in a resolved conflict or in more derivations.\<close>

definition scanPost :: "'v semver \<Rightarrow> ('v selection \<Rightarrow> bool) \<Rightarrow> ('e, 'v) provider \<Rightarrow> requirement list \<Rightarrow> ('e, 'v) solveState \<Rightarrow>
    (('e, 'v) solveErr, bool \<times> ('e, 'v) solveState \<times> gostring list) res \<Rightarrow> bool" where
  "scanPost S Sol P reqs s r \<longleftrightarrow>
     (case r of Inl e \<Rightarrow> errOK S Sol e
      | Inr (b, s', ch) \<Rightarrow> solveInv S P reqs Sol s' \<and>
          (if b then allClosed S P reqs (ss_ps s') \<and> ps_assignments (ss_ps s') \<noteq> [] \<and>
             ps_decisions (ss_ps s') < ps_decisions (ss_ps s) else derives s s'))"

context solver_lib begin

lemma store_sound:
  assumes "solveInv S P reqs Sol s" "idx < length (st_all (ss_store s))"
  shows "soundInc S Sol (st_all (ss_store s) ! idx)"
  using assms by (auto simp: solveInv_def coreInv_def)

text \<open>The root incompatibility is never satisfied, so a conflict has an index above 0.\<close>

lemma satisfied_not_root:
  assumes inv: "solveInv S P reqs Sol s" and idx: "idx < length (st_all (ss_store s))"
    and sat: "relate S (st_all (ss_store s) ! idx) (ss_ps s) = (IncSatisfied, x)"
  shows "0 < idx" "ps_assignments (ss_ps s) \<noteq> []"
proof -
  have core: "coreInv S Sol (ss_store s) (ss_ps s)" and ps: "psInv S (ss_ps s)"
    using inv by (auto simp: solveInv_def coreInv_def)
  have root: "relation S (rootTermOf S) (ss_ps s) \<noteq> TermSatisfied"
  proof (cases "ps_assignments (ss_ps s) = []")
    case True
    then show ?thesis by (simp add: relation_eq [OF ps])
  next
    case False
    from root_settled(2) [OF core False, of "rootTermOf S"] show ?thesis
      by (simp add: rootTermOf_def wf_singleton wellParsed_root)
  qed
  show "0 < idx"
  proof (rule ccontr)
    assume "\<not> 0 < idx"
    then have "inc_terms (st_all (ss_store s) ! idx) = [rootTermOf S]" using core by (simp add: coreInv_def)
    with relate_satisfied [OF sat] root show False by simp
  qed
  with idx core show "ps_assignments (ss_ps s) \<noteq> []" by (auto simp: coreInv_def rootInv_def)
qed

lemma scan_step:
  assumes inv: "solveInv S P reqs Sol s" and idx: "idx < length (st_all (ss_store s))"
    and rel: "relate S (st_all (ss_store s) ! idx) (ss_ps s) = (IncAlmostSatisfied, Some t)"
    and d: "deriveOnce S s (negate t) idx ch = (s', ch')"
  shows "solveInv S P reqs Sol s'" "derives s s'" "entailed S (ps_assignments (ss_ps s')) (negate t)"
    "t \<in> set (inc_terms (st_all (ss_store s) ! idx))"
proof -
  from relate_almost [OF rel] have t: "t \<in> set (inc_terms (st_all (ss_store s) ! idx))"
    and r: "relation S t (ss_ps s) = TermInconclusive" by auto
  then have wf: "wfTerm S t" using store_sound [OF inv idx] by (simp add: soundInc_def)
  show "solveInv S P reqs Sol s'" "derives s s'" "entailed S (ps_assignments (ss_ps s')) (negate t)"
    using deriveOnce_inv [OF inv r wf idx t refl _ d] by auto
  show "t \<in> set (inc_terms (st_all (ss_store s) ! idx))" by (rule t)
qed

lemma scanPost_trans:
  "derives s s1 \<Longrightarrow> scanPost S Sol P reqs s1 r \<Longrightarrow> scanPost S Sol P reqs s r"
  unfolding scanPost_def
  by (auto split: sum.splits prod.splits if_splits intro: derives_trans simp: derives_def)

lemma scan_post:
  assumes "solveInv S P reqs Sol s" "rootSel S Sol" "\<forall>i \<in> set idxs. i < length (st_all (ss_store s))"
    "pendingOnly S P reqs pkg (ss_ps s)"
  shows "scanPost S Sol P reqs s (scanPackage S idxs s ch)"
  using assms
proof (induction idxs arbitrary: s ch)
  case Nil
  then show ?case by (simp add: scanPost_def derives_refl)
next
  case (Cons idx idxs)
  note inv = Cons.prems(1) and sel = Cons.prems(2) and pend = Cons.prems(4)
  have idx: "idx < length (st_all (ss_store s))" and idxs: "\<forall>i \<in> set idxs. i < length (st_all (ss_store s))"
    using Cons.prems(3) by auto
  let ?inc = "st_all (ss_store s) ! idx"
  obtain r x where rel: "relate S ?inc (ss_ps s) = (r, x)" by fastforce
  consider (sat) "r = IncSatisfied" | (almost) t where "r = IncAlmostSatisfied" "x = Some t"
    | (other) "r = IncContradicted \<or> r = IncInconclusive"
    using rel relate_almost [of S ?inc "ss_ps s" x] by (cases r) auto
  then show ?case
  proof cases
    case sat
    from satisfied_not_root [OF inv idx] rel sat
    have "0 < idx" "ps_assignments (ss_ps s) \<noteq> []" by auto
    from resolveAndDerive_inv [OF inv this(2) sel this(1) idx pend] rel sat
    show ?thesis by (auto simp: scanPost_def bindE_def split: sum.splits prod.splits)
  next
    case almost
    obtain s' ch' where d: "deriveOnce S s (negate t) idx ch = (s', ch')" by fastforce
    from rel almost have rel': "relate S ?inc (ss_ps s) = (IncAlmostSatisfied, Some t)" by simp
    note step = scan_step [OF inv idx rel' d]
    have ps': "psInv S (ss_ps s')" using step(1) by (simp add: solveInv_def coreInv_def)
    have "ss_store s' = ss_store s" using step(2) by (simp add: derives_def)
    then have "scanPost S Sol P reqs s' (scanPackage S idxs s' ch')"
      using step(1) sel idxs derives_pending [OF step(2) ps' pend] by (intro Cons.IH) auto
    from scanPost_trans [OF step(2) this] rel' d show ?thesis by simp
  next
    case other
    have "scanPost S Sol P reqs s (scanPackage S idxs s ch)" by (rule Cons.IH [OF inv sel idxs pend])
    with rel other show ?thesis by auto
  qed
qed

text \<open>
  A scan without a conflict leaves a negated term in every scanned incompatibility that had
  at most one unsatisfied term.
\<close>

lemma scan_unit:
  assumes "solveInv S P reqs Sol s" "scanPackage S idxs s ch = Inr (False, s', ch')"
    "\<forall>i \<in> set idxs. i < length (st_all (ss_store s))" "idx \<in> set idxs"
    "\<forall>u \<in> set (inc_terms (st_all (ss_store s) ! idx)). u \<noteq> t \<longrightarrow> entailed S (ps_assignments (ss_ps s)) u"
    "rootSel S Sol" "pendingOnly S P reqs pkg (ss_ps s)"
  shows "\<exists>w \<in> set (inc_terms (st_all (ss_store s) ! idx)). entailed S (ps_assignments (ss_ps s')) (negate w)"
  using assms
proof (induction idxs arbitrary: s ch)
  case Nil
  then show ?case by simp
next
  case (Cons i idxs)
  note inv = Cons.prems(1) and scan = Cons.prems(2) and mem = Cons.prems(4) and sat = Cons.prems(5)
    and sel = Cons.prems(6) and pend = Cons.prems(7)
  have i: "i < length (st_all (ss_store s))" and idxs: "\<forall>i \<in> set idxs. i < length (st_all (ss_store s))"
    using Cons.prems(3) by auto
  have ps: "psInv S (ss_ps s)" using inv by (simp add: solveInv_def coreInv_def)
  let ?inc = "st_all (ss_store s) ! i"
  obtain r x where rel: "relate S ?inc (ss_ps s) = (r, x)" by fastforce
  have nsat: "r \<noteq> IncSatisfied" using scan rel by (auto simp: bindE_Inr_iff)
  obtain s1 ch1 where s1: "scanPackage S idxs s1 ch1 = Inr (False, s', ch')" "solveInv S P reqs Sol s1" "derives s s1"
    and now: "r = IncAlmostSatisfied \<Longrightarrow> \<exists>w. x = Some w \<and> entailed S (ps_assignments (ss_ps s1)) (negate w)"
  proof (cases r)
    case IncAlmostSatisfied
    then obtain w where w: "x = Some w" using relate_almost [of S ?inc "ss_ps s" x] rel by auto
    obtain s1 ch1 where d: "deriveOnce S s (negate w) i ch = (s1, ch1)" by fastforce
    from rel IncAlmostSatisfied w have rel': "relate S ?inc (ss_ps s) = (IncAlmostSatisfied, Some w)" by simp
    from scan_step [OF inv i rel' d] that [of s1 ch1] scan rel' d w show thesis by auto
  qed (use scan rel inv nsat that [of s ch] derives_refl in auto)
  have ps1: "psInv S (ss_ps s1)" using s1(2) by (simp add: solveInv_def coreInv_def)
  have store: "ss_store s1 = ss_store s" using s1(3) by (simp add: derives_def)
  have wf: "\<forall>u \<in> set (inc_terms (st_all (ss_store s) ! idx)). wfTerm S u" if "idx < length (st_all (ss_store s))"
    using store_sound [OF inv that] by (simp add: soundInc_def)
  show ?case
  proof (cases "idx \<in> set idxs")
    case True
    have "\<forall>u \<in> set (inc_terms (st_all (ss_store s1) ! idx)). u \<noteq> t \<longrightarrow> entailed S (ps_assignments (ss_ps s1)) u"
      using sat wf True idxs derives_entailed [OF s1(3) ps1] by (simp add: store)
    from Cons.IH [OF s1(2,1) _ True this sel derives_pending [OF s1(3) ps1 pend]] idxs show ?thesis
      by (simp add: store)
  next
    case False
    with mem have eq: "idx = i" by simp
    have "scanPost S Sol P reqs s1 (scanPackage S idxs s1 ch1)"
      using idxs by (intro scan_post [OF s1(2) sel _ derives_pending [OF s1(3) ps1 pend]]) (simp add: store)
    then have rest: "derives s1 s'" "psInv S (ss_ps s')"
      using s1(1) by (auto simp: scanPost_def solveInv_def coreInv_def)
    have dist: "distinct (inc_terms ?inc)"
      using store_sound [OF inv i] by (auto simp: soundInc_def distinct_map)
    have "relateLoop (\<lambda>t. relation S t (ss_ps s)) None (inc_terms ?inc) = (r, x)" using rel by (simp add: relate_def)
    moreover have "\<forall>u \<in> set (inc_terms ?inc). u \<noteq> t \<longrightarrow> relation S u (ss_ps s) = TermSatisfied"
      using sat eq by (simp add: relation_satisfied_iff [OF ps])
    ultimately have cases: "t \<in> set (inc_terms ?inc)" "r = IncContradicted \<and> relation S t (ss_ps s) = TermContradicted \<or>
        r = IncAlmostSatisfied \<and> x = Some t"
      using relateLoop_unit [OF dist, of t "\<lambda>t. relation S t (ss_ps s)"] nsat by (auto split: if_splits)
    have wft: "wfTerm S t" using wf cases(1) i eq by simp
    have "entailed S (ps_assignments (ss_ps s1)) (negate t)"
      using cases(2)
    proof
      assume "r = IncContradicted \<and> relation S t (ss_ps s) = TermContradicted"
      then have "entailed S (ps_assignments (ss_ps s)) (negate t)" using entailed_of_contradicted [OF ps wft] by simp
      then show ?thesis using wft by (intro derives_entailed [OF s1(3) ps1]) simp_all
    qed (use now in auto)
    then have "entailed S (ps_assignments (ss_ps s')) (negate t)"
      using wft by (intro derives_entailed [OF rest]) simp_all
    with cases(1) eq show ?thesis by blast
  qed
qed

section \<open>The fresh decision closes\<close>

lemma sameTerms_mem:
  "list_all2 (sameTerm S) ts us \<Longrightarrow> t \<in> set ts \<Longrightarrow> \<exists>u \<in> set us. sameTerm S t u"
  by (metis in_set_conv_nth list_all2_conv_all_nth)

lemma entailed_same:
  assumes "wfAll S as" "wfTerm S t" "wfTerm S u" "t_pkg t = t_pkg u" "\<And>\<sigma>. holds S \<sigma> t \<Longrightarrow> holds S \<sigma> u"
    "entailed S as t"
  shows "entailed S as u"
proof -
  have "wfTerm S (accumOf S as (t_pkg u))" by (rule wf_accumOf [OF assms(1)])
  with assms show ?thesis by (auto simp: entailed_def termSubset_iff)
qed

text \<open>A decision entails its own term, and its accumulation is not empty.\<close>

lemma decision_entailed:
  assumes "wfAll S as" "a \<in> set as" "wfTerm S t" "t_pkg t = t_pkg (a_term a)"
    "\<And>\<sigma>. holds S \<sigma> (a_term a) \<Longrightarrow> holds S \<sigma> t"
  shows "entailed S as t"
  using accumOf_entails [OF assms] assms(2,4) by (auto simp: entailed_def)

lemma not_entailed_negated:
  assumes wf: "wfAll S as" "wfTerm S t" and v: "termPermits S (accumOf S as (t_pkg t)) v" "termPermits S t v"
  shows "\<not> entailed S as (negate t)"
proof
  assume e: "entailed S as (negate t)"
  let ?\<sigma> = "[t_pkg t \<mapsto> v]"
  have "holds S ?\<sigma> (accumOf S as (t_pkg t))" "holds S ?\<sigma> t"
    using v by (auto simp: holds_permits [where v = v])
  moreover have "termSubset S (accumOf S as (t_pkg t)) (negate t)" using e by (simp add: entailed_def)
  ultimately show False
    using termSubset_holds [of "accumOf S as (t_pkg t)" "negate t" ?\<sigma>] wf by (simp add: wf_accumOf holds_negate)
qed

lemma decision_closes:
  assumes inv: "solveInv S P reqs Sol s" and sel: "rootSel S Sol" and pend: "pendingOnly S P reqs pkg (ss_ps s)"
    and scan: "propagatePackage S s pkg ch = Inr (False, s', ch')"
    and a: "a \<in> set (ps_assignments (ss_ps s))" "isDecision a" "t_pkg (a_term a) = pkg" "a_level a = ps_decisions (ss_ps s)"
  shows "closedDecision S P reqs (ps_assignments (ss_ps s')) a"
  unfolding closedDecision_def
proof (intro allI impI)
  fix v deps dep c vset
  assume v: "vs_single (t_set (a_term a)) = Some v" and deps: "depsFor P reqs (t_pkg (a_term a)) v = Inr deps"
    and c: "map_of deps dep = Some c" and vset: "newVerSet S c = Inr vset"
  let ?idxs = "byPackageNewestFirst (ss_store s) pkg"
  have core: "coreInv S Sol (ss_store s) (ss_ps s)" and st: "storeInv S (ss_store s)" and ps: "psInv S (ss_ps s)"
    using inv by (auto simp: solveInv_def coreInv_def)
  have idxs: "\<forall>i \<in> set ?idxs. i < length (st_all (ss_store s))" using byPackageNewestFirst_iff [OF st] by blast
  have scan': "scanPackage S ?idxs s ch = Inr (False, s', ch')" using scan by (simp add: propagatePackage_def)
  have post: "solveInv S P reqs Sol s'" "derives s s'"
    using scan_post [OF inv sel idxs pend, of ch] scan' by (auto simp: scanPost_def)
  have ps': "psInv S (ss_ps s')" using post(1) by (simp add: solveInv_def coreInv_def)
  have wf: "wfAll S (ps_assignments (ss_ps s))" and wf': "wfAll S (ps_assignments (ss_ps s'))"
    using ps ps' psInv_wfAll by auto
  have mem': "a \<in> set (ps_assignments (ss_ps s'))" using a(1) derives_set [OF post(2)] by blast
  obtain v' where v': "a_term a = mkTerm pkg (singletonVerSet S v') True" "wellParsed S v'" "properVersion S pkg v'"
    "ss_depsAdded s (depsKey pkg v')" "termPermits S (accumOf S (ps_assignments (ss_ps s')) pkg) v'"
  proof -
    have da: "ss_depsAdded s' = ss_depsAdded s" using post(2) by (simp add: derives_def)
    have "decInv S (ss_depsAdded s) (ps_assignments (ss_ps s'))" using post(1) by (simp add: solveInv_def da)
    with mem' a(2,3) obtain v' where "a_term a = mkTerm pkg (singletonVerSet S v') True \<and> wellParsed S v' \<and>
        properVersion S pkg v' \<and> ss_depsAdded s (depsKey pkg v') \<and> termPermits S (accumOf S (ps_assignments (ss_ps s')) pkg) v'"
      unfolding decInv_def by metis
    then show thesis by (intro that) auto
  qed
  have "v' = v" using v v'(1) by (simp add: singletonVerSet_def)
  from inv v'(2,4) obtain deps' where deps': "depsFor P reqs pkg v' = Inr deps'"
    "\<forall>dep c. map_of deps' dep = Some c \<longrightarrow> (\<exists>vset. newVerSet S c = Inr vset \<and>
       (\<exists>inc \<in> set (st_all (ss_store s)). list_all2 (sameTerm S) (inc_terms inc) (dependencyTerms S pkg v' dep vset)))"
    unfolding solveInv_def depsInv_def by blast
  with deps c vset a(3) \<open>v' = v\<close> obtain inc where inc: "inc \<in> set (st_all (ss_store s))"
    "list_all2 (sameTerm S) (inc_terms inc) (dependencyTerms S pkg v' dep vset)"
    by (metis sum.inject(2))
  then obtain idx where idx: "idx < length (st_all (ss_store s))" "st_all (ss_store s) ! idx = inc"
    by (auto simp: in_set_conv_nth)
  have wfinc: "\<forall>u \<in> set (inc_terms inc). wfTerm S u" using store_sound [OF inv idx(1)] idx(2) by (simp add: soundInc_def)
  let ?pt = "mkTerm pkg (singletonVerSet S v') True" and ?dt = "mkTerm dep vset False"
  have wfdt: "wfVerSet S vset" by (rule wf_newVerSet [OF vset])
  have terms: "sameTerm S u ?pt \<or> sameTerm S u ?dt" if "u \<in> set (inc_terms inc)" for u
    using sameTerms_mem [OF inc(2) that] by (auto simp: dependencyTerms_def Let_def split: if_splits)
  have "\<exists>u \<in> set (inc_terms inc). sameTerm S u ?pt"
    using list_all2_mem [OF inc(2), of ?pt] by (auto simp: dependencyTerms_def Let_def)
  then obtain p where p: "p \<in> set (inc_terms inc)" "sameTerm S p ?pt" by blast
  then have "names inc pkg" by (force simp: names_def sameTerm_def)
  then have mem: "idx \<in> set ?idxs" using idx by (simp add: byPackageNewestFirst_iff [OF st])
  have parent: "entailed S (ps_assignments (ss_ps s)) u" if "u \<in> set (inc_terms inc)" "sameTerm S u ?pt" for u
    using wfinc that a(1) v'(1) sameTerm_holds [OF _ _ that(2)] wf_singleton [OF v'(2)]
    by (intro decision_entailed [OF wf a(1)]) (auto simp: sameTerm_def)
  have dist: "distinct (map t_pkg (inc_terms inc))" using store_sound [OF inv idx(1)] idx(2) by (simp add: soundInc_def)
  obtain t where t: "\<forall>u \<in> set (inc_terms inc). u \<noteq> t \<longrightarrow> entailed S (ps_assignments (ss_ps s)) u"
  proof (cases "\<exists>n \<in> set (inc_terms inc). sameTerm S n ?dt")
    case True
    then obtain n where n: "n \<in> set (inc_terms inc)" "sameTerm S n ?dt" by blast
    have "u = n" if "u \<in> set (inc_terms inc)" "sameTerm S u ?dt" for u
      using distinct_map_unique [OF dist that(1) n(1)] that(2) n(2) by (simp add: sameTerm_def)
    with terms parent show thesis by (intro that [of n]) blast
  next
    case False
    with terms parent show thesis by (intro that) blast
  qed
  from scan_unit [OF inv scan' idxs mem _ sel pend, of t] t idx(2)
  obtain w where w: "w \<in> set (inc_terms inc)" "entailed S (ps_assignments (ss_ps s')) (negate w)" by auto
  have wfw: "wfTerm S w" using wfinc w(1) by blast
  have "\<not> sameTerm S w ?pt"
  proof
    assume same: "sameTerm S w ?pt"
    then have "t_pkg w = pkg" "termPermits S w v'"
      using sameTerm_iff [OF wfw, of ?pt] wf_singleton [OF v'(2)] singleton_self [of v'] by (auto simp: termPermits_def)
    with not_entailed_negated [OF wf' wfw, of v'] v'(5) w(2) show False by simp
  qed
  with terms [OF w(1)] have same: "sameTerm S w ?dt" by blast
  have neg: "mkTerm dep vset True = negate ?dt" by (simp add: negate_def)
  have "entailed S (ps_assignments (ss_ps s')) (negate ?dt)"
  proof (rule entailed_same [OF wf' _ _ _ _ w(2)])
    show "wfTerm S (negate w)" "wfTerm S (negate ?dt)" using wfw wfdt by simp_all
    show "t_pkg (negate w) = t_pkg (negate ?dt)" using same by (simp add: sameTerm_def)
    show "holds S \<sigma> (negate w) \<Longrightarrow> holds S \<sigma> (negate ?dt)" for \<sigma>
      using sameTerm_holds [OF wfw _ same] wfdt by (simp add: holds_negate)
  qed
  then have "entailed S (ps_assignments (ss_ps s')) (mkTerm dep vset True)" by (simp only: neg)
  moreover have "upTo (a_level a) (ps_assignments (ss_ps s')) = ps_assignments (ss_ps s')"
    using ps' a(4) post(2) by (intro upTo_all) (auto simp: psInv_def derives_def)
  ultimately show "entailed S (upTo (a_level a) (ps_assignments (ss_ps s'))) (mkTerm dep vset True)" by simp
qed

section \<open>The loop\<close>

text \<open>The first scan derives root, and nothing removes that assignment.\<close>

lemma propagate_nonempty:
  assumes inv: "solveInv S P reqs Sol s" and sel: "rootSel S Sol" and pend: "pendingOnly S P reqs pkg (ss_ps s)"
    and ne: "ps_assignments (ss_ps s) \<noteq> [] \<or> pkg = rootPkg"
    and run: "propagatePackage S s pkg ch = Inr (b, s', ch')"
  shows "ps_assignments (ss_ps s') \<noteq> []"
proof -
  let ?idxs = "byPackageNewestFirst (ss_store s) pkg"
  have core: "coreInv S Sol (ss_store s) (ss_ps s)" and st: "storeInv S (ss_store s)"
    using inv by (auto simp: solveInv_def coreInv_def)
  have idxs: "\<forall>i \<in> set ?idxs. i < length (st_all (ss_store s))" using byPackageNewestFirst_iff [OF st] by blast
  have run': "scanPackage S ?idxs s ch = Inr (b, s', ch')" using run by (simp add: propagatePackage_def)
  have post: "scanPost S Sol P reqs s (Inr (b, s', ch'))"
    using scan_post [OF inv sel idxs pend, of ch] run' by simp
  show ?thesis
  proof (cases b)
    case True
    with post show ?thesis by (simp add: scanPost_def)
  next
    case False
    with post have der: "derives s s'" by (simp add: scanPost_def)
    show ?thesis
    proof (cases "ps_assignments (ss_ps s) = []")
      case empty: True
      with ne have pkg: "pkg = rootPkg" by simp
      have terms: "inc_terms (st_all (ss_store s) ! 0) = [rootTermOf S]" and len: "0 < length (st_all (ss_store s))"
        using core by (auto simp: coreInv_def)
      then have "0 \<in> set ?idxs" by (simp add: byPackageNewestFirst_iff [OF st] names_def pkg rootTermOf_def)
      from scan_unit [OF inv _ idxs this _ sel pend, of ch s' ch' "rootTermOf S"] run' False terms
      have "entailed S (ps_assignments (ss_ps s')) (negate (rootTermOf S))" by simp
      then show ?thesis by (auto simp: entailed_def)
    qed (use der in \<open>auto simp: derives_def\<close>)
  qed
qed

lemma propagatePackage_inv:
  assumes inv: "solveInv S P reqs Sol s" and sel: "rootSel S Sol" and pend: "pendingOnly S P reqs pkg (ss_ps s)"
    and ne: "ps_assignments (ss_ps s) \<noteq> [] \<or> pkg = rootPkg"
  shows "case propagatePackage S s pkg ch of Inl e \<Rightarrow> errOK S Sol e
    | Inr (b, s', ch') \<Rightarrow> solveInv S P reqs Sol s' \<and> allClosed S P reqs (ss_ps s') \<and> ps_assignments (ss_ps s') \<noteq> []"
proof -
  let ?idxs = "byPackageNewestFirst (ss_store s) pkg"
  have st: "storeInv S (ss_store s)" using inv by (auto simp: solveInv_def coreInv_def)
  have idxs: "\<forall>i \<in> set ?idxs. i < length (st_all (ss_store s))" using byPackageNewestFirst_iff [OF st] by blast
  have post: "scanPost S Sol P reqs s (propagatePackage S s pkg ch)"
    unfolding propagatePackage_def by (rule scan_post [OF inv sel idxs pend])
  show ?thesis
  proof (cases "propagatePackage S s pkg ch")
    case (Inl e)
    with post show ?thesis by (simp add: scanPost_def)
  next
    case (Inr r)
    obtain b s' ch' where r: "r = (b, s', ch')" by (metis prod_cases3)
    with post Inr have inv': "solveInv S P reqs Sol s'" by (simp add: scanPost_def)
    have "allClosed S P reqs (ss_ps s')"
    proof (cases b)
      case True
      with post Inr r show ?thesis by (simp add: scanPost_def)
    next
      case False
      with post Inr r have der: "derives s s'" by (simp add: scanPost_def)
      have ps': "psInv S (ss_ps s')" using inv' by (simp add: solveInv_def coreInv_def)
      show ?thesis
        unfolding allClosed_def
      proof (intro ballI impI)
        fix a assume a: "a \<in> set (ps_assignments (ss_ps s'))" "isDecision a"
        then have mem: "a \<in> set (ps_assignments (ss_ps s))" using der by (auto simp: derives_def)
        then consider "closedDecision S P reqs (ps_assignments (ss_ps s)) a"
          | "t_pkg (a_term a) = pkg" "a_level a = ps_decisions (ss_ps s)"
          using pend a(2) by (auto simp: pendingOnly_def)
        then show "closedDecision S P reqs (ps_assignments (ss_ps s')) a"
        proof cases
          case 1
          then show ?thesis by (rule derives_closed [OF der ps'])
        next
          case 2
          have "propagatePackage S s pkg ch = Inr (False, s', ch')" using Inr r False by simp
          from decision_closes [OF inv sel pend this mem a(2) 2] show ?thesis .
        qed
      qed
    qed
    with inv' Inr r propagate_nonempty [OF inv sel pend ne, of ch b s' ch'] show ?thesis by simp
  qed
qed

end

text \<open>What the loop returns, when it returns.\<close>

definition loopPost :: "'v semver \<Rightarrow> ('v selection \<Rightarrow> bool) \<Rightarrow> ('e, 'v) provider \<Rightarrow> requirement list \<Rightarrow>
    (('e, 'v) solveErr, ('e, 'v) solveState) res \<Rightarrow> bool" where
  "loopPost S Sol P reqs r \<longleftrightarrow>
     (case r of Inl e \<Rightarrow> errOK S Sol e | Inr s \<Rightarrow> solveInv S P reqs Sol s \<and> allClosed S P reqs (ss_ps s) \<and>
        ps_assignments (ss_ps s) \<noteq> [])"

lemma propagateLoop_inv:
  assumes "propagateLoop S s ch = Some r"
  shows "solver_lib S \<and> rootSel S Sol \<and> solveInv S P reqs Sol s \<and> allClosed S P reqs (ss_ps s) \<and>
     ps_assignments (ss_ps s) \<noteq> [] \<longrightarrow>
     loopPost S Sol P reqs r"
proof (rule propagateLoop.raw_induct [OF _ assms, where P = "\<lambda>S s ch r. solver_lib S \<and> rootSel S Sol \<and>
    solveInv S P reqs Sol s \<and> allClosed S P reqs (ss_ps s) \<and> ps_assignments (ss_ps s) \<noteq> [] \<longrightarrow> loopPost S Sol P reqs r"], goal_cases)
  case (1 loop S s ch r)
  show ?case
  proof
    assume h: "solver_lib S \<and> rootSel S Sol \<and> solveInv S P reqs Sol s \<and> allClosed S P reqs (ss_ps s) \<and>
        ps_assignments (ss_ps s) \<noteq> []"
    let ?p = "propagatePackage S s (fst (popSmallest ch)) (snd (popSmallest ch))"
    show "loopPost S Sol P reqs r"
    proof (cases "ch = []")
      case True
      with 1(2) h show ?thesis by (auto simp: loopPost_def)
    next
      case False
      have post: "case ?p of Inl e \<Rightarrow> errOK S Sol e
          | Inr (b, s', ch') \<Rightarrow> solveInv S P reqs Sol s' \<and> allClosed S P reqs (ss_ps s') \<and> ps_assignments (ss_ps s') \<noteq> []"
        using h by (intro solver_lib.propagatePackage_inv allClosed_pending) auto
      show ?thesis
      proof (cases ?p)
        case (Inl e)
        with 1(2) False post show ?thesis by (auto simp: loopPost_def)
      next
        case (Inr x)
        with 1(2) False have "loop S (fst (snd x)) (snd (snd x)) = Some r" by simp
        from 1(1) [OF this] post Inr h show ?thesis by (auto split: prod.splits)
      qed
    qed
  qed
qed

lemma unitPropagation_inv:
  assumes lib: "solver_lib S" and sel: "rootSel S Sol" and inv: "solveInv S P reqs Sol s"
    and pend: "pendingOnly S P reqs pkg (ss_ps s)" and ne: "ps_assignments (ss_ps s) \<noteq> [] \<or> pkg = rootPkg"
    and run: "unitPropagation S s pkg = Some r"
  shows "loopPost S Sol P reqs r"
proof -
  have pop: "popSmallest [pkg] = (pkg, [])" by (simp add: popSmallest_def)
  note post = solver_lib.propagatePackage_inv [OF lib inv sel pend ne, of "[]"]
  have step: "(case propagatePackage S s pkg [] of Inl err \<Rightarrow> Some (Inl err)
      | Inr r \<Rightarrow> propagateLoop S (fst (snd r)) (snd (snd r))) = Some r"
    using run by (simp add: unitPropagation_def propagateLoop.simps [of S s "[pkg]"] pop)
  show ?thesis
  proof (cases "propagatePackage S s pkg []")
    case (Inl e)
    with step post show ?thesis by (auto simp: loopPost_def)
  next
    case (Inr x)
    with step have "propagateLoop S (fst (snd x)) (snd (snd x)) = Some r" by simp
    from propagateLoop_inv [OF this, of Sol P reqs] lib sel post Inr show ?thesis by (auto split: prod.splits)
  qed
qed

end
