(* ===== verification/Decision.thy ===== *)
theory Decision imports Scan begin

text \<open>
  Decisions keep the invariant: the package picked is an undecided candidate, its
  dependency incompatibilities are sound, a no-versions or unknown-package leaf is sound,
  and recording the decision leaves only it pending.
\<close>

section \<open>What a set of solutions must satisfy\<close>

text \<open>
  The solutions select root, select published versions only, and violate every dependency
  incompatibility. The empty set of solutions does so trivially.
\<close>

definition solFacts :: "'v semver \<Rightarrow> ('e, 'v) provider \<Rightarrow> requirement list \<Rightarrow> ('v selection \<Rightarrow> bool) \<Rightarrow> bool" where
  "solFacts S P reqs Sol \<longleftrightarrow>
     rootSel S Sol \<and> (\<forall>\<sigma>. Sol \<sigma> \<longrightarrow> published P \<sigma>) \<and>
     (\<forall>pkg v deps dep c vset. depsFor P reqs pkg v = Inr deps \<longrightarrow> map_of deps dep = Some c \<longrightarrow>
        newVerSet S c = Inr vset \<longrightarrow> (pkg = rootPkg \<longrightarrow> v = rootVersion S) \<longrightarrow>
        (\<forall>\<sigma>. Sol \<sigma> \<longrightarrow> (\<exists>t \<in> set (dependencyTerms S pkg v dep vset). \<not> holds S \<sigma> t)))"

lemma solFacts_none: "solFacts S P reqs (\<lambda>_. False)"
  by (simp add: solFacts_def rootSel_def)

lemma depsFor_names:
  "plainNames P reqs \<Longrightarrow> depsFor P reqs pkg v = Inr deps \<Longrightarrow> map_of deps dep = Some c \<Longrightarrow> dep \<noteq> rootPkg \<and> dep \<noteq> pkg"
  by (fastforce simp: plainNames_def depsFor_def split: if_splits)

section \<open>Candidates\<close>

lemma pickByConflictCount_mem: "pickByConflictCount s ns = Some p \<Longrightarrow> p \<in> set ns"
proof -
  let ?f = "\<lambda>(best, bestCount) n. let c = ss_conflictCounts s n in if bestCount < c then (n, c) else (best, bestCount)"
  have "fst (foldl ?f b ns) \<in> insert (fst b) (set ns)" for b
    by (induction ns arbitrary: b) (fastforce simp: Let_def split: prod.splits)+
  from this [of "([], 0)"] show "pickByConflictCount s ns = Some p \<Longrightarrow> p \<in> set ns"
    by (auto simp: pickByConflictCount_def Let_def split: if_splits)
qed

lemma pickByFewestCandidates_mem: "pickByFewestCandidates S s ns = Some p \<Longrightarrow> p \<in> set ns"
proof -
  let ?f = "\<lambda>(best, bestCount) n. let u = uniFor s n in if \<not> u_fetched u then (best, bestCount)
      else let c = countAllowed S s n u in if bestCount = -1 \<or> c < bestCount then (n, c) else (best, bestCount)"
  have "fst (foldl ?f b ns) \<in> insert (fst b) (set ns)" for b
    by (induction ns arbitrary: b) (fastforce simp: Let_def split: prod.splits)+
  from this [of "([], -1)"] show "pickByFewestCandidates S s ns = Some p \<Longrightarrow> p \<in> set ns"
    by (auto simp: pickByFewestCandidates_def Let_def split: if_splits)
qed

lemma pickPackage_mem: "pickPackage S s = Some p \<Longrightarrow> p \<in> set (candidatePackages s)"
  by (auto simp: pickPackage_def Let_def split: if_splits option.splits dest: find_SomeD
      pickByConflictCount_mem pickByFewestCandidates_mem)

lemma pickPackage_None: "pickPackage S s = None \<longleftrightarrow> candidatePackages s = []"
  by (auto simp: pickPackage_def Let_def split: option.splits)

lemma decisionOf_None: "decisionOf as p = None \<longleftrightarrow> (\<forall>a \<in> set as. t_pkg (a_term a) = p \<longrightarrow> \<not> isDecision a)"
  by (auto simp: decisionOf_def find_None_iff_all isDecision_def all_set_conv_all_nth)

text \<open>The candidates are the undecided packages with a positive accumulation.\<close>

lemma candidate_iff:
  assumes "psInv S ps" "ss_ps s = ps"
  shows "p \<in> set (candidatePackages s) \<longleftrightarrow>
    (\<forall>a \<in> set (ps_assignments ps). t_pkg (a_term a) = p \<longrightarrow> \<not> isDecision a) \<and> t_pos (accumOf S (ps_assignments ps) p)"
proof -
  have pk: "pkgInv S (ps_assignments ps) (ps_packages ps)" using assms(1) by (simp add: psInv_def)
  have look: "(p, x) \<in> set (ps_packages ps) \<longleftrightarrow> map_of (ps_packages ps) p = Some x" for x
    using pk by (simp add: pkgInv_def)
  have sum: "map_of (ps_packages ps) p = Some x \<Longrightarrow> x = pkgSummary S (ps_assignments ps) p" for x
    using pk by (auto simp: pkgInv_def lookupPackage_def dest: spec [where x = p])
  have absent: "map_of (ps_packages ps) p = None \<Longrightarrow> \<not> t_pos (accumOf S (ps_assignments ps) p)"
    using pk by (auto simp: pkgInv_def lookupPackage_def freshPackage_def pkgSummary_def dest!: spec [where x = p])
      (metis accumSeed_sel(3))
  have "p \<in> set (candidatePackages s) \<longleftrightarrow> (\<exists>x. map_of (ps_packages ps) p = Some x \<and> pa_decisionIdx x = None \<and>
      pa_indices x \<noteq> [] \<and> t_pos (pa_accum x))"
    using look assms(2) by (auto simp: candidatePackages_def image_iff)
  also have "\<dots> \<longleftrightarrow> decisionOf (ps_assignments ps) p = None \<and> t_pos (accumOf S (ps_assignments ps) p)"
    using sum absent by (cases "map_of (ps_packages ps) p") (auto simp: indicesOf_empty t_pos_accumOf)
  finally show ?thesis by (simp add: decisionOf_None)
qed

text \<open>What an operation that only adds incompatibilities leaves unchanged.\<close>

definition onlyAdds :: "('e, 'v) solveState \<Rightarrow> ('e, 'v) solveState \<Rightarrow> bool" where
  "onlyAdds s s' \<longleftrightarrow>
     ss_ps s' = ss_ps s \<and> ss_provider s' = ss_provider s \<and> ss_universes s' = ss_universes s \<and>
     ss_depsAdded s' = ss_depsAdded s \<and> ss_rootDeps s' = ss_rootDeps s \<and>
     (\<exists>incs. st_all (ss_store s') = st_all (ss_store s) @ incs)"

text \<open>Until root's requirements are recorded, root is the only package to decide.\<close>

definition rootFirst :: "'v semver \<Rightarrow> ('e, 'v) solveState \<Rightarrow> gostring \<Rightarrow> bool" where
  "rootFirst S s pkg \<longleftrightarrow> ss_depsAdded s (depsKey rootPkg (rootVersion S)) \<or> pkg = rootPkg"

lemma rootRecorded_mono:
  "rootRecorded S reqs da all level \<Longrightarrow> da (depsKey rootPkg (rootVersion S)) \<Longrightarrow> (\<And>k. da k \<Longrightarrow> da' k) \<Longrightarrow>
     set all \<subseteq> set all' \<Longrightarrow> rootRecorded S reqs da' all' level'"
  unfolding rootRecorded_def by simp blast

text \<open>\<open>v\<close> can be decided for \<open>pkg\<close>: it is undecided and its accumulation permits the version.\<close>

definition decidable :: "'v semver \<Rightarrow> ('e, 'v) solveState \<Rightarrow> gostring \<Rightarrow> 'v version \<Rightarrow> bool" where
  "decidable S s pkg v \<longleftrightarrow>
     wellParsed S v \<and> (pkg = rootPkg \<longrightarrow> v = rootVersion S) \<and> rootFirst S s pkg \<and>
     (\<forall>a \<in> set (ps_assignments (ss_ps s)). t_pkg (a_term a) = pkg \<longrightarrow> \<not> isDecision a) \<and>
     termPermits S (accumOf S (ps_assignments (ss_ps s)) pkg) v"

definition decidedPost :: "'v semver \<Rightarrow> ('v selection \<Rightarrow> bool) \<Rightarrow> ('e, 'v) provider \<Rightarrow> requirement list \<Rightarrow>
    (('e, 'v) solveErr, gostring \<times> bool \<times> ('e, 'v) solveState) res \<Rightarrow> bool" where
  "decidedPost S Sol P reqs r \<longleftrightarrow>
     (case r of Inl e \<Rightarrow> errOK S Sol e
      | Inr (pkg, done, s) \<Rightarrow> \<not> done \<and> solveInv S P reqs Sol s \<and> pendingOnly S P reqs pkg (ss_ps s) \<and>
          ps_assignments (ss_ps s) \<noteq> [])"

context solver_lib begin

section \<open>Adding dependency incompatibilities\<close>

lemma wf_dependencyTerms:
  "wellParsed S v \<Longrightarrow> wfVerSet S vset \<Longrightarrow> \<forall>t \<in> set (dependencyTerms S pkg v dep vset). wfTerm S t"
  by (simp add: dependencyTerms_def Let_def wf_singleton)

lemma dependency_sound:
  assumes sol: "solFacts S P reqs Sol" and names: "plainNames P reqs"
    and deps: "depsFor P reqs pkg v = Inr deps" "map_of deps dep = Some c" "newVerSet S c = Inr vset"
    and root: "pkg = rootPkg \<longrightarrow> v = rootVersion S" and v: "wellParsed S v"
    and terms: "inc_terms inc = dependencyTerms S pkg v dep vset"
  shows "soundInc S Sol inc" "rootTerms S (inc_terms inc)"
proof -
  have dep: "dep \<noteq> rootPkg" "dep \<noteq> pkg" using depsFor_names [OF names deps(1,2)] by auto
  have "\<exists>t \<in> set (inc_terms inc). \<not> holds S \<sigma> t" if "Sol \<sigma>" for \<sigma>
    using sol deps root that unfolding solFacts_def terms by blast
  moreover have "distinct (map t_pkg (inc_terms inc))" using dep by (simp add: terms dependencyTerms_def Let_def)
  moreover have "\<forall>t \<in> set (inc_terms inc). wfTerm S t"
    unfolding terms by (rule wf_dependencyTerms [OF v wf_newVerSet [OF deps(3)]])
  ultimately show "soundInc S Sol inc" by (simp add: soundInc_def)
  show "rootTerms S (inc_terms inc)"
    using dep root singleton_self [of "rootVersion S"]
    by (auto simp: terms rootTerms_def dependencyTerms_def Let_def)
qed

lemma addToStore_inv:
  assumes core: "coreInv S Sol (ss_store s) (ss_ps s)" and ne: "ps_assignments (ss_ps s) \<noteq> []"
    and inc: "soundInc S Sol inc" "rootTerms S (inc_terms inc)" and add: "addToStore S s inc = (idx, s')"
  shows "coreInv S Sol (ss_store s') (ss_ps s')" "onlyAdds s s'" "idx < length (st_all (ss_store s'))"
    "list_all2 (sameTerm S) (inc_terms (st_all (ss_store s') ! idx)) (inc_terms inc)"
proof -
  obtain i b st where st: "storeAdd S (ss_store s) inc = (i, b, st)" by (metis prod_cases3)
  with add have "s' = s\<lparr> ss_store := st \<rparr>" "i = idx" by (auto simp: addToStore_def)
  with coreInv_add [OF core ne inc st] show "coreInv S Sol (ss_store s') (ss_ps s')" "onlyAdds s s'"
    "idx < length (st_all (ss_store s'))" "list_all2 (sameTerm S) (inc_terms (st_all (ss_store s') ! idx)) (inc_terms inc)"
    by (auto simp: onlyAdds_def)
qed

lemma addDependencies_inv:
  assumes "solFacts S P reqs Sol" "plainNames P reqs" "depsFor P reqs pkg v = Inr deps"
    "pkg = rootPkg \<longrightarrow> v = rootVersion S" "wellParsed S v" "set ns \<subseteq> dom (map_of deps)"
    "coreInv S Sol (ss_store s) (ss_ps s)" "ps_assignments (ss_ps s) \<noteq> []"
    "addDependencies S pkg v deps ns s added = Inr (added', s')"
  shows "coreInv S Sol (ss_store s') (ss_ps s') \<and> onlyAdds s s' \<and>
    (\<forall>dep \<in> set ns. \<exists>vset. newVerSet S (the (map_of deps dep)) = Inr vset \<and>
       (\<exists>inc \<in> set (st_all (ss_store s')). list_all2 (sameTerm S) (inc_terms inc) (dependencyTerms S pkg v dep vset)))"
  using assms
proof (induction ns arbitrary: s added)
  case Nil
  then show ?case by (simp add: onlyAdds_def)
next
  case (Cons dep ns)
  note sol = Cons.prems(1) and names = Cons.prems(2) and deps = Cons.prems(3) and root = Cons.prems(4)
    and v = Cons.prems(5) and core = Cons.prems(7) and ne = Cons.prems(8)
  obtain c where c: "map_of deps dep = Some c" using Cons.prems(6) by auto
  with Cons.prems(9) obtain vset where vset: "newVerSet S c = Inr vset"
    by (cases "newVerSet S c") (auto simp: Let_def)
  obtain inc s1 where inc: "newIncompat s (CauseDependency v pkg dep c) (dependencyTerms S pkg v dep vset) = (inc, s1)"
    by fastforce
  then have s1: "s1 = s\<lparr> ss_nextPtr := ss_nextPtr s + 1 \<rparr>" and terms: "inc_terms inc = dependencyTerms S pkg v dep vset"
    by (auto simp: newIncompat_def)
  obtain idx s2 where add: "addToStore S s1 inc = (idx, s2)" by fastforce
  note snd = dependency_sound [OF sol names deps c vset root v terms]
  have core1: "coreInv S Sol (ss_store s1) (ss_ps s1)" "ps_assignments (ss_ps s1) \<noteq> []" using core ne s1 by simp_all
  note a = addToStore_inv [OF core1 snd add]
  have run: "addDependencies S pkg v deps ns s2 (added @ [idx]) = Inr (added', s')"
    using Cons.prems(9) c vset inc add by (simp add: Let_def)
  have ne2: "ps_assignments (ss_ps s2) \<noteq> []" using a(2) core1(2) by (simp add: onlyAdds_def)
  have sub: "set ns \<subseteq> dom (map_of deps)" using Cons.prems(6) by simp
  note IH = Cons.IH [OF sol names deps root v sub a(1) ne2 run]
  have "onlyAdds s s'" using a(2) IH s1 by (auto simp: onlyAdds_def)
  moreover have "\<exists>inc \<in> set (st_all (ss_store s')). list_all2 (sameTerm S) (inc_terms inc) (dependencyTerms S pkg v dep vset)"
  proof -
    have "st_all (ss_store s2) ! idx \<in> set (st_all (ss_store s'))" using IH a(3) by (auto simp: onlyAdds_def)
    with a(4) terms show ?thesis by auto
  qed
  ultimately show ?case using IH c vset by auto
qed

lemma addDependencies_err: "addDependencies S pkg v deps ns s added = Inl e \<Longrightarrow> errOK S Sol e"
  by (induction ns arbitrary: s added) (auto simp: Let_def split: sum.splits prod.splits)

text \<open>Root's dependency incompatibilities keep their causes: no two of them have the same terms.\<close>

lemma list_all2_pkgs: "list_all2 (sameTerm S) as bs \<Longrightarrow> map t_pkg as = map t_pkg bs"
  by (induction rule: list_all2_induct) (auto simp: sameTerm_def)

lemma addDependencies_root:
  assumes "distinct ns" "rootPkg \<notin> set ns" "storeInv S (ss_store s)"
    "\<forall>inc \<in> set (st_all (ss_store s)). \<forall>dep \<in> set ns. map t_pkg (inc_terms inc) \<noteq> [rootPkg, dep]"
    "addDependencies S rootPkg v deps ns s added = Inr (added', s')"
  shows "set (st_all (ss_store s)) \<subseteq> set (st_all (ss_store s')) \<and>
    (\<forall>dep \<in> set ns. \<forall>vset. newVerSet S (the (map_of deps dep)) = Inr vset \<longrightarrow> \<not> vsIsEmpty vset \<longrightarrow>
       (\<exists>inc \<in> set (st_all (ss_store s')). inc_cause inc = CauseDependency v rootPkg dep (the (map_of deps dep))))"
  using assms
proof (induction ns arbitrary: s added)
  case (Cons dep ns)
  let ?c = "the (map_of deps dep)"
  obtain vset where vset: "newVerSet S ?c = Inr vset"
    using Cons.prems(5) by (cases "newVerSet S ?c") (auto simp: Let_def)
  let ?ts = "dependencyTerms S rootPkg v dep vset" and ?s = "s\<lparr> ss_nextPtr := ss_nextPtr s + 1 \<rparr>"
  let ?inc = "fst (newIncompat s (CauseDependency v rootPkg dep ?c) ?ts)"
  obtain idx b st where st: "storeAdd S (ss_store s) ?inc = (idx, b, st)" by (metis prod_cases3)
  then have run: "addDependencies S rootPkg v deps ns (?s\<lparr> ss_store := st \<rparr>) (added @ [idx]) = Inr (added', s')"
    using Cons.prems(5) vset by (simp add: Let_def addToStore_def newIncompat_def)
  have inv': "storeInv S st" using storeInv_add [OF Cons.prems(3), of ?inc] st by simp
  note r = storeAdd_result [OF Cons.prems(3) st]
  have pk: "map t_pkg ?ts = [rootPkg] \<or> map t_pkg ?ts = [rootPkg, dep]" by (simp add: dependencyTerms_def Let_def)
  have "\<forall>inc \<in> set (st_all st). \<forall>d \<in> set ns. map t_pkg (inc_terms inc) \<noteq> [rootPkg, d]"
    using Cons.prems(1,4) r(2) pk by auto
  from Cons.IH [OF _ _ _ _ run] this inv' Cons.prems(1,2)
  have IH: "set (st_all st) \<subseteq> set (st_all (ss_store s'))"
    "\<forall>dep \<in> set ns. \<forall>vset. newVerSet S (the (map_of deps dep)) = Inr vset \<longrightarrow> \<not> vsIsEmpty vset \<longrightarrow>
       (\<exists>inc \<in> set (st_all (ss_store s')). inc_cause inc = CauseDependency v rootPkg dep (the (map_of deps dep)))" by auto
  have "\<exists>inc \<in> set (st_all (ss_store s')). inc_cause inc = CauseDependency v rootPkg dep ?c" if ne: "\<not> vsIsEmpty vset"
  proof -
    have b
    proof (rule ccontr)
      assume "\<not> b"
      with r(2,4) have "incompatEqual S (st_all st ! idx) ?inc" and all: "st_all st = st_all (ss_store s)" by simp_all
      then have "map t_pkg (inc_terms (st_all st ! idx)) = map t_pkg ?ts"
        unfolding incompatEqual_def by (auto intro: list_all2_pkgs)
      also have "\<dots> = [rootPkg, dep]" using ne by (simp add: dependencyTerms_def Let_def)
      finally show False using Cons.prems(4) r(1) all by simp
    qed
    with r(2) have "?inc \<in> set (st_all st)" by simp
    with IH(1) show ?thesis by (intro bexI [of _ ?inc]) auto
  qed
  with IH vset r(2) show ?case by (auto split: if_splits)
qed simp

lemma addDependencies_causes:
  "addDependencies S pkg v deps ns s added = Inr (added', s') \<Longrightarrow> inc \<in> set (st_all (ss_store s')) \<Longrightarrow>
     inc \<in> set (st_all (ss_store s)) \<or> (\<exists>dep \<in> set ns. inc_cause inc = CauseDependency v pkg dep (the (map_of deps dep)))"
proof (induction ns arbitrary: s added)
  case (Cons dep ns)
  let ?c = "the (map_of deps dep)" and ?s = "s\<lparr> ss_nextPtr := ss_nextPtr s + 1 \<rparr>"
  obtain vset where vset: "newVerSet S ?c = Inr vset"
    using Cons.prems(1) by (cases "newVerSet S ?c") (auto simp: Let_def)
  let ?inc = "Incompat (ss_nextPtr s) (CauseDependency v pkg dep ?c) (dependencyTerms S pkg v dep vset)"
  obtain idx s1 where add: "addToStore S ?s ?inc = (idx, s1)" by fastforce
  with Cons.prems(1) vset have "addDependencies S pkg v deps ns s1 (added @ [idx]) = Inr (added', s')"
    by (simp add: Let_def newIncompat_def)
  from Cons.IH [OF this Cons.prems(2)] set_addToStore [OF add] show ?case by auto
qed simp

lemma only_root:
  assumes inv: "solveInv S P reqs Sol s" and none: "\<not> ss_depsAdded s (depsKey rootPkg (rootVersion S))"
    and a: "a \<in> set (ps_assignments (ss_ps s))"
  shows "t_pkg (a_term a) = rootPkg"
proof -
  let ?as = "ps_assignments (ss_ps s)" and ?all = "st_all (ss_store s)"
  have core: "coreInv S Sol (ss_store s) (ss_ps s)" and len: "length ?all = 1" and lvl: "ps_decisions (ss_ps s) = 0"
    using inv none by (auto simp: solveInv_def rootRecorded_def)
  from a obtain i where i: "i < length ?as" "?as ! i = a" by (auto simp: in_set_conv_nth)
  show ?thesis
  proof (cases "a_cause a")
    case (Some c)
    with core a have "causeOK S ?all a" by (simp add: coreInv_def)
    with Some obtain t where "c < length ?all" "t \<in> set (inc_terms (?all ! c))" "t_pkg t = t_pkg (a_term a)"
      by (auto simp: causeOK_def)
    with core len show ?thesis by (auto simp: coreInv_def rootTermOf_def)
  next
    case None
    show ?thesis
    proof (rule ccontr)
      assume "t_pkg (a_term a) \<noteq> rootPkg"
      with core i None have lt: "\<forall>j < i. a_level (?as ! j) < a_level a" by (auto simp: coreInv_def levelInv_def)
      have "a_level a = 0" using core a lvl by (auto simp: coreInv_def psInv_def)
      moreover have "i \<noteq> 0"
      proof
        assume "i = 0"
        with core i None show False by (cases ?as) (auto simp: coreInv_def rootInv_def)
      qed
      ultimately show False using lt by auto
    qed
  qed
qed

lemma rootFirst_of_assigned:
  "solveInv S P reqs Sol s \<Longrightarrow> a \<in> set (ps_assignments (ss_ps s)) \<Longrightarrow> t_pkg (a_term a) = pkg \<Longrightarrow> rootFirst S s pkg"
  using only_root unfolding rootFirst_def by blast

lemma dependenciesOf_eq:
  "envInv S P reqs s \<Longrightarrow> dependenciesOf s pkg v = Inr deps \<longleftrightarrow> depsFor P reqs pkg v = Inr deps"
  by (auto simp: envInv_def dependenciesOf_def depsFor_def split: sum.splits)

lemma dependencyIncompatibilities_inv:
  assumes inv: "solveInv S P reqs Sol s" and ne: "ps_assignments (ss_ps s) \<noteq> []"
    and sol: "solFacts S P reqs Sol" and names: "plainNames P reqs"
    and root: "pkg = rootPkg \<longrightarrow> v = rootVersion S" and v: "wellParsed S v" and first: "rootFirst S s pkg"
  shows "case dependencyIncompatibilities S s pkg v of Inl e \<Rightarrow> errOK S Sol e
    | Inr (idxs, s') \<Rightarrow> solveInv S P reqs Sol s' \<and> ss_ps s' = ss_ps s \<and> ss_depsAdded s' (depsKey pkg v) \<and>
        ss_depsAdded s' (depsKey rootPkg (rootVersion S))"
proof (cases "ss_depsAdded s (depsKey pkg v)")
  case True
  with inv first root show ?thesis by (auto simp: dependencyIncompatibilities_def rootFirst_def)
next
  case False
  have env: "envInv S P reqs s" and core: "coreInv S Sol (ss_store s) (ss_ps s)" using inv by (auto simp: solveInv_def)
  let ?s = "s\<lparr> ss_depsAdded := (ss_depsAdded s)(depsKey pkg v := True) \<rparr>"
  show ?thesis
  proof (cases "dependenciesOf s pkg v")
    case (Inl e)
    then have "errOK S Sol e" by (auto simp: dependenciesOf_def split: if_splits sum.splits)
    with False Inl show ?thesis by (simp add: dependencyIncompatibilities_def Let_def)
  next
    case (Inr deps)
    then have deps: "depsFor P reqs pkg v = Inr deps" using dependenciesOf_eq [OF env] by simp
    let ?run = "addDependencies S pkg v deps (sortedKeys deps) ?s []"
    have eq: "dependencyIncompatibilities S s pkg v = ?run"
      using False Inr by (simp add: dependencyIncompatibilities_def Let_def)
    show ?thesis
    proof (cases ?run)
      case (Inl e)
      with eq addDependencies_err show ?thesis by simp
    next
      case (Inr r)
      obtain idxs s' where r: "r = (idxs, s')" by fastforce
      have keys: "set (sortedKeys deps) = dom (map_of deps)" by (simp add: dom_map_of_conv_image_fst)
      have res: "coreInv S Sol (ss_store s') (ss_ps s') \<and> onlyAdds ?s s' \<and>
          (\<forall>dep \<in> set (sortedKeys deps). \<exists>vset. newVerSet S (the (map_of deps dep)) = Inr vset \<and>
             (\<exists>inc \<in> set (st_all (ss_store s')). list_all2 (sameTerm S) (inc_terms inc) (dependencyTerms S pkg v dep vset)))"
        using core ne Inr r by (intro addDependencies_inv [OF sol names deps root v]) (simp_all add: keys del: set_sortedKeys)
      have da: "ss_depsAdded s' = (ss_depsAdded s)(depsKey pkg v := True)" using res by (simp add: onlyAdds_def)
      obtain incs where incs: "st_all (ss_store s') = st_all (ss_store s) @ incs" using res by (auto simp: onlyAdds_def)
      have "depsInv S P reqs (ss_depsAdded s') (st_all (ss_store s'))"
        unfolding depsInv_def
      proof (intro allI impI)
        fix qkg w assume w: "wellParsed S w" "ss_depsAdded s' (depsKey qkg w)"
        show "\<exists>deps. depsFor P reqs qkg w = Inr deps \<and> (\<forall>dep c. map_of deps dep = Some c \<longrightarrow>
           (\<exists>vset. newVerSet S c = Inr vset \<and>
             (\<exists>inc \<in> set (st_all (ss_store s')). list_all2 (sameTerm S) (inc_terms inc) (dependencyTerms S qkg w dep vset))))"
        proof (cases "depsKey qkg w = depsKey pkg v")
          case True
          then have eqs: "qkg = pkg" "w = v" using depsKey_inj [OF w(1) v] by auto
          have "\<exists>vset. newVerSet S c = Inr vset \<and> (\<exists>inc \<in> set (st_all (ss_store s')).
              list_all2 (sameTerm S) (inc_terms inc) (dependencyTerms S pkg v dep vset))" if "map_of deps dep = Some c" for dep c
          proof -
            have "dep \<in> set (sortedKeys deps)" using that unfolding keys by blast
            with res that show ?thesis by (metis option.sel)
          qed
          with deps show ?thesis unfolding eqs by blast
        next
          case False
          with w(2) da have "ss_depsAdded s (depsKey qkg w)" by simp
          moreover have "depsInv S P reqs (ss_depsAdded s) (st_all (ss_store s'))"
            using inv by (simp add: solveInv_def incs depsInv_mono)
          ultimately show ?thesis using w(1) unfolding depsInv_def by blast
        qed
      qed
      moreover have "decInv S (ss_depsAdded s') (ps_assignments (ss_ps s'))"
      proof -
        have "decInv S (ss_depsAdded s) (ps_assignments (ss_ps s'))" using inv res by (simp add: solveInv_def onlyAdds_def)
        moreover have "ss_depsAdded s k \<Longrightarrow> ss_depsAdded s' k" for k by (simp add: da)
        ultimately show ?thesis unfolding decInv_def by meson
      qed
      moreover have "envInv S P reqs s'" using env res by (simp add: envInv_def onlyAdds_def)
      moreover have "rootRecorded S reqs (ss_depsAdded s') (st_all (ss_store s')) (ps_decisions (ss_ps s'))"
      proof (cases "ss_depsAdded s (depsKey rootPkg (rootVersion S))")
        case True
        have "rootRecorded S reqs (ss_depsAdded s) (st_all (ss_store s)) (ps_decisions (ss_ps s))"
          using inv by (simp add: solveInv_def)
        then show ?thesis using True by (rule rootRecorded_mono) (auto simp: da incs)
      next
        case new: False
        with first root have pv: "pkg = rootPkg" "v = rootVersion S" by (auto simp: rootFirst_def)
        have dr: "deps = rootDepsOf reqs" using deps by (simp add: depsFor_def pv)
        have st: "storeInv S (ss_store ?s)" and all: "st_all (ss_store ?s) \<noteq> []" "inc_terms (st_all (ss_store ?s) ! 0) = [rootTermOf S]"
          using core by (auto simp: coreInv_def)
        have len: "length (st_all (ss_store ?s)) = 1" using inv new by (simp add: solveInv_def rootRecorded_def)
        have one: "\<forall>inc \<in> set (st_all (ss_store ?s)). \<forall>dep \<in> set (sortedKeys deps). map t_pkg (inc_terms inc) \<noteq> [rootPkg, dep]"
          using len all by (auto simp: length_Suc_conv)
        have notroot: "rootPkg \<notin> set (sortedKeys deps)"
          using names dr unfolding keys plainNames_def by auto
        have "addDependencies S rootPkg v deps (sortedKeys deps) ?s [] = Inr (idxs, s')"
          using Inr r pv(1) by simp
        from addDependencies_root [OF sorted_sortedKeys(2) notroot st one this]
        have rec: "\<forall>dep \<in> set (sortedKeys deps). \<forall>vset. newVerSet S (the (map_of deps dep)) = Inr vset \<longrightarrow> \<not> vsIsEmpty vset \<longrightarrow>
            (\<exists>inc \<in> set (st_all (ss_store s')). inc_cause inc = CauseDependency v rootPkg dep (the (map_of deps dep)))" by blast
        have "\<exists>inc \<in> set (st_all (ss_store s')). inc_cause inc = CauseDependency (rootVersion S) rootPkg dep c"
          if h: "map_of (rootDepsOf reqs) dep = Some c" "newVerSet S c = Inr vset" "\<not> vsIsEmpty vset" for dep c vset
        proof -
          have "dep \<in> set (sortedKeys deps)" using h(1) by (simp add: sortedKeys_lookup dr del: set_sortedKeys)
          with rec h show ?thesis unfolding dr pv by fastforce
        qed
        then show ?thesis by (simp add: rootRecorded_def da pv)
      qed
      moreover have "causesInv S P reqs (set (st_all (ss_store s')))"
        unfolding causesInv_def
      proof (intro ballI allI impI)
        fix inc w qkg dep c
        assume inc: "inc \<in> set (st_all (ss_store s'))" and c: "inc_cause inc = CauseDependency w qkg dep c"
        have run: "addDependencies S pkg v deps (sortedKeys deps) ?s [] = Inr (idxs, s')" using Inr r by simp
        from addDependencies_causes [OF run inc]
        consider "inc \<in> set (st_all (ss_store s))" | "dep \<in> set (sortedKeys deps)" "w = v" "qkg = pkg" "c = the (map_of deps dep)"
          using c by auto
        then show "wellParsed S w \<and> (\<exists>deps. depsFor P reqs qkg w = Inr deps \<and> map_of deps dep = Some c)"
        proof cases
          case 1
          with inv c show ?thesis unfolding solveInv_def causesInv_def by blast
        next
          case 2
          then have "map_of deps dep = Some c" unfolding keys by auto
          with 2 v deps show ?thesis by simp
        qed
      qed
      ultimately have "solveInv S P reqs Sol s'" using res by (simp add: solveInv_def)
      with res eq Inr r da first root show ?thesis by (auto simp: onlyAdds_def rootFirst_def)
    qed
  qed
qed

section \<open>Recording a decision\<close>

lemma coreInv_decide:
  assumes core: "coreInv S Sol st ps" and ne: "ps_assignments ps \<noteq> []" and v: "wellParsed S v"
    and root: "pkg = rootPkg \<longrightarrow> v = rootVersion S"
  shows "coreInv S Sol st (decide S ps pkg v)"
proof -
  let ?ps = "decide S ps pkg v"
  have inv: "psInv S ps" using core by (simp add: coreInv_def)
  have "psInv S ?ps" by (rule psInv_decide [OF inv v])
  moreover have "levelInv ?ps"
  proof -
    have "a_level (ps_assignments ps ! j) < ps_decisions ps + 1" if "j < length (ps_assignments ps)" for j
      using inv that by (auto simp: psInv_def le_imp_less_Suc)
    with core show ?thesis by (auto simp: coreInv_def levelInv_def nth_append less_Suc_eq)
  qed
  moreover have "rootInv S (st_all st) ?ps"
    using core ne root by (auto simp: coreInv_def rootInv_def rootAssignment_def split: list.splits)
  ultimately show ?thesis
    using core by (auto simp: coreInv_def causeOK_def)
qed

lemma decInv_decide:
  assumes wf: "wfAll S (ps_assignments ps)" and dec: "decInv S da (ps_assignments ps)"
    and new: "\<forall>a \<in> set (ps_assignments ps). t_pkg (a_term a) = pkg \<longrightarrow> \<not> isDecision a"
    and v: "wellParsed S v" "properVersion S pkg v" "da (depsKey pkg v)" "termPermits S (accumOf S (ps_assignments ps) pkg) v"
  shows "decInv S da (ps_assignments (decide S ps pkg v))"
proof -
  let ?a = "\<lparr> a_term = mkTerm pkg (singletonVerSet S v) True, a_level = ps_decisions ps + (if pkg = rootPkg then 0 else 1),
        a_cause = None, a_index = length (ps_assignments ps) \<rparr>"
  have as: "ps_assignments (decide S ps pkg v) = ps_assignments ps @ [?a]" by simp
  have fresh: "t_pkg (a_term a) \<noteq> pkg" if "a \<in> set (ps_assignments ps)" "isDecision a" for a
    using new that by blast
  have "distinct (map (\<lambda>a. t_pkg (a_term a)) (filter isDecision (ps_assignments ps)))"
    using dec unfolding decInv_def by blast
  then have "distinct (map (\<lambda>a. t_pkg (a_term a)) (filter isDecision (ps_assignments ps @ [?a])))"
    using fresh by (auto simp: isDecision_def)
  moreover have "\<exists>w. a_term a = mkTerm (t_pkg (a_term a)) (singletonVerSet S w) True \<and> wellParsed S w \<and>
      properVersion S (t_pkg (a_term a)) w \<and> da (depsKey (t_pkg (a_term a)) w) \<and> termPermits S (accumOf S (ps_assignments ps @ [?a]) (t_pkg (a_term a))) w"
    if a: "a \<in> set (ps_assignments ps @ [?a])" "isDecision a" for a
  proof (cases "a \<in> set (ps_assignments ps)")
    case True
    then have "accumOf S (ps_assignments ps @ [?a]) (t_pkg (a_term a)) = accumOf S (ps_assignments ps) (t_pkg (a_term a))"
      using fresh [OF True a(2)] by (simp add: accumOf_snoc)
    with dec True a(2) show ?thesis unfolding decInv_def by metis
  next
    case False
    with a(1) have "a = ?a" by auto
    moreover have "termPermits S (accumOf S (ps_assignments ps @ [?a]) pkg) v"
      using v(4) wf wf_singleton [OF v(1)] singleton_self [of v]
      by (simp add: accumOf_snoc permits_intersect wf_accumOf) (simp add: termPermits_def)
    ultimately show ?thesis using v by auto
  qed
  ultimately show ?thesis unfolding decInv_def as by blast
qed

lemma decideVersion_inv:
  assumes inv: "solveInv S P reqs Sol s" and ne: "ps_assignments (ss_ps s) \<noteq> []" and closed: "allClosed S P reqs (ss_ps s)"
    and sol: "solFacts S P reqs Sol" and names: "plainNames P reqs" and prov: "parsedProvider S P"
    and v: "decidable S s pkg v"
  shows "decidedPost S Sol P reqs (decideVersion S s pkg v)"
proof -
  have wp: "wellParsed S v" and root: "pkg = rootPkg \<longrightarrow> v = rootVersion S" using v by (auto simp: decidable_def)
  have first: "rootFirst S s pkg" using v by (simp add: decidable_def)
  note dep = dependencyIncompatibilities_inv [OF inv ne sol names root wp first]
  show ?thesis
  proof (cases "dependencyIncompatibilities S s pkg v")
    case (Inl e)
    with dep show ?thesis by (simp add: decideVersion_def decidedPost_def)
  next
    case (Inr r)
    obtain idxs s1 where r: "r = (idxs, s1)" by fastforce
    with dep Inr have s1: "solveInv S P reqs Sol s1" "ss_ps s1 = ss_ps s" "ss_depsAdded s1 (depsKey pkg v)"
      "ss_depsAdded s1 (depsKey rootPkg (rootVersion S))" by auto
    show ?thesis
    proof (cases "\<exists>idx \<in> set idxs. relateTentative S (st_all (ss_store s1) ! idx) (ss_ps s1) pkg v = IncSatisfied")
      case True
      then have "decideVersion S s pkg v = Inr (pkg, False, s1)" using Inr r by (simp add: decideVersion_def)
      with s1 ne closed allClosed_pending show ?thesis by (simp add: decidedPost_def)
    next
      case False
      let ?ps = "decide S (ss_ps s1) pkg v"
      have run: "decideVersion S s pkg v = Inr (pkg, False, s1\<lparr> ss_ps := ?ps \<rparr>)"
        using Inr r False by (simp add: decideVersion_def)
      have core: "coreInv S Sol (ss_store s1) (ss_ps s1)" using s1(1) by (simp add: solveInv_def)
      have fits: "versionFits S v"
      proof -
        from s1(1,3) wp obtain deps where d: "depsFor P reqs pkg v = Inr deps" unfolding solveInv_def depsInv_def by blast
        show ?thesis
        proof (cases "pkg = rootPkg")
          case False
          with d have "pr_dependencies P pkg v = Inr deps" by (simp add: depsFor_def)
          with prov show ?thesis unfolding parsedProvider_def by blast
        qed (use root root_fits in simp)
      qed
      then have proper: "properVersion S pkg v" using root by (simp add: properVersion_def)
      have recorded: "rootRecorded S reqs (ss_depsAdded s1) (st_all (ss_store s1)) (ps_decisions ?ps)"
      proof -
        have "rootRecorded S reqs (ss_depsAdded s1) (st_all (ss_store s1)) (ps_decisions (ss_ps s1))"
          using s1(1) by (simp add: solveInv_def)
        with s1(4) show ?thesis by (simp add: rootRecorded_def)
      qed
      have core': "coreInv S Sol (ss_store s1) ?ps"
        using coreInv_decide [OF core _ wp root] ne s1(2) by simp
      have wf: "wfAll S (ps_assignments (ss_ps s1))" "wfAll S (ps_assignments ?ps)"
        using core core' psInv_wfAll [of S "ss_ps s1"] psInv_wfAll [of S ?ps] unfolding coreInv_def by blast+
      have "decInv S (ss_depsAdded s1) (ps_assignments ?ps)"
        using s1 v wp proper by (intro decInv_decide [OF wf(1)]) (auto simp: solveInv_def decidable_def)
      with core' s1(1) recorded have "solveInv S P reqs Sol (s1\<lparr> ss_ps := ?ps \<rparr>)" by (simp add: solveInv_def envInv_def)
      moreover have "pendingOnly S P reqs pkg ?ps"
        unfolding pendingOnly_def
      proof (intro ballI impI)
        fix a assume a: "a \<in> set (ps_assignments ?ps)" "isDecision a"
        show "closedDecision S P reqs (ps_assignments ?ps) a \<or> t_pkg (a_term a) = pkg \<and> a_level a = ps_decisions ?ps"
        proof (cases "a \<in> set (ps_assignments (ss_ps s1))")
          case True
          with closed a(2) s1(2) have "closedDecision S P reqs (ps_assignments (ss_ps s1)) a" by (auto simp: allClosed_def)
          then show ?thesis by (intro disjI1 closedDecision_mono [OF wf(2)]) auto
        next
          case False
          with a(1) show ?thesis by auto
        qed
      qed
      ultimately show ?thesis by (simp add: run decidedPost_def)
    qed
  qed
qed

section \<open>Leaves without a version\<close>

lemma set_universe:
  assumes "parsedProvider S P" "pr_universe P pkg = Inr us"
  shows "set (buildUniverse S us) = set us"
  using assms by (intro set_buildUniverse_distinct) (auto simp: parsedProvider_def)

lemma universe_facts:
  assumes env: "envInv S P reqs s" and prov: "parsedProvider S P" and fetched: "u_fetched (uniFor s pkg)"
    and v: "v \<in> set (u_versions (uniFor s pkg))"
  shows "wellParsed S v \<and> (pkg = rootPkg \<longrightarrow> v = rootVersion S)"
proof (cases "pkg = rootPkg")
  case True
  with env v show ?thesis by (auto simp: envInv_def uniFor_def wellParsed_root)
next
  case False
  with env fetched obtain us where us: "pr_universe P pkg = Inr us" "u_versions (uniFor s pkg) = buildUniverse S us"
    unfolding envInv_def uniFor_def by blast
  with v set_universe [OF prov us(1)] have "v \<in> set us" by simp
  with prov us(1) False show ?thesis unfolding parsedProvider_def by blast
qed

lemma leaf_sound:
  assumes inv: "solveInv S P reqs Sol s" and ne: "ps_assignments (ss_ps s) \<noteq> []" and sol: "solFacts S P reqs Sol"
    and prov: "parsedProvider S P" and fetched: "u_fetched (uniFor s pkg)" and wf: "wfVerSet S vset"
    and none: "\<forall>v \<in> set (u_versions (uniFor s pkg)). \<not> vsContains S vset v"
    and terms: "inc_terms inc = [mkTerm pkg vset True]"
  shows "soundInc S Sol inc" "pkg \<noteq> rootPkg \<Longrightarrow> rootTerms S (inc_terms inc)"
proof -
  have env: "envInv S P reqs s" using inv by (simp add: solveInv_def)
  have "\<not> holds S \<sigma> (mkTerm pkg vset True)" if h: "Sol \<sigma>" for \<sigma>
  proof
    assume "holds S \<sigma> (mkTerm pkg vset True)"
    then obtain w where w: "\<sigma> pkg = Some w" "vsContains S vset w" by (auto simp: holds_def split: option.splits)
    have "w \<in> set (u_versions (uniFor s pkg))"
    proof (cases "pkg = rootPkg")
      case True
      with sol h w(1) have "w = rootVersion S" by (auto simp: solFacts_def rootSel_def)
      with True env show ?thesis by (simp add: envInv_def uniFor_def)
    next
      case False
      from False fetched env obtain us where us: "pr_universe P pkg = Inr us" "u_versions (uniFor s pkg) = buildUniverse S us"
        unfolding envInv_def uniFor_def by blast
      from sol h False w(1) us(1) have "w \<in> set us" unfolding solFacts_def published_def by fastforce
      with us(2) set_universe [OF prov us(1)] show ?thesis by simp
    qed
    with none w(2) show False by blast
  qed
  with wf show "soundInc S Sol inc" by (simp add: soundInc_def terms)
  show "pkg \<noteq> rootPkg \<Longrightarrow> rootTerms S (inc_terms inc)" by (simp add: rootTerms_def terms)
qed

lemma contains_positiveForm:
  "wfTerm S t \<Longrightarrow> vsContains S (positiveFormSet S t) v \<longleftrightarrow> termPermits S t v"
  by (auto simp: positiveFormSet_def termPermits_def sem_simps)

lemma wf_positiveForm: "wfTerm S t \<Longrightarrow> wfVerSet S (positiveFormSet S t)"
  by (simp add: positiveFormSet_def wf_intros)

lemma solveInv_addLeaf:
  assumes inv: "solveInv S P reqs Sol s" and ne: "ps_assignments (ss_ps s) \<noteq> []"
    and inc: "soundInc S Sol (fst (newIncompat s c ts))" "rootTerms S ts"
    and first: "ss_depsAdded s (depsKey rootPkg (rootVersion S))"
    and leaf: "\<forall>v p d x. c \<noteq> CauseDependency v p d x"
    and add: "addToStore S (snd (newIncompat s c ts)) (fst (newIncompat s c ts)) = (idx, s')"
  shows "solveInv S P reqs Sol s' \<and> ss_ps s' = ss_ps s"
proof -
  let ?s = "s\<lparr> ss_nextPtr := ss_nextPtr s + 1 \<rparr>"
  have core: "coreInv S Sol (ss_store ?s) (ss_ps ?s)" using inv by (simp add: solveInv_def)
  have ne': "ps_assignments (ss_ps ?s) \<noteq> []" using ne by simp
  have rt: "rootTerms S (inc_terms (fst (newIncompat s c ts)))" using inc(2) by simp
  have add': "addToStore S ?s (fst (newIncompat s c ts)) = (idx, s')" using add by simp
  note a = addToStore_inv [OF core ne' inc(1) rt add']
  obtain incs where incs: "st_all (ss_store s') = st_all (ss_store s) @ incs" using a(2) by (auto simp: onlyAdds_def)
  have "depsInv S P reqs (ss_depsAdded s') (st_all (ss_store s'))"
    using inv a(2) by (simp add: solveInv_def onlyAdds_def incs depsInv_mono)
  moreover have "rootRecorded S reqs (ss_depsAdded s) (st_all (ss_store s)) (ps_decisions (ss_ps s))"
    using inv by (simp add: solveInv_def)
  then have "rootRecorded S reqs (ss_depsAdded s') (st_all (ss_store s')) (ps_decisions (ss_ps s'))"
    by (rule rootRecorded_mono) (use first a(2) in \<open>auto simp: incs onlyAdds_def\<close>)
  moreover have "causesInv S P reqs (set (st_all (ss_store s')))"
  proof -
    have "causesInv S P reqs (insert (fst (newIncompat s c ts)) (set (st_all (ss_store s))))"
      using inv leaf by (auto simp: solveInv_def causesInv_def)
    moreover have "set (st_all (ss_store s')) \<subseteq> insert (fst (newIncompat s c ts)) (set (st_all (ss_store s)))"
      using set_addToStore [OF add'] by simp
    ultimately show ?thesis unfolding causesInv_def by blast
  qed
  ultimately show ?thesis
    using inv a(1,2) by (simp add: solveInv_def onlyAdds_def envInv_def)
qed

text \<open>Root always has its version, so it never is a leaf.\<close>

lemma root_permitted:
  assumes "solveInv S P reqs Sol s" "ps_assignments (ss_ps s) \<noteq> []"
  shows "termPermits S (accumOf S (ps_assignments (ss_ps s)) rootPkg) (rootVersion S)"
proof -
  have core: "coreInv S Sol (ss_store s) (ss_ps s)" using assms by (simp add: solveInv_def)
  have "holds S [rootPkg \<mapsto> rootVersion S] (accumOf S (ps_assignments (ss_ps s)) rootPkg)"
    by (simp add: root_accum [OF core assms(2)] holds_negate) (simp add: holds_def rootTermOf_def singleton_self)
  then show ?thesis by (simp add: holds_permits [where v = "rootVersion S"])
qed

lemma decideFromAllowed_inv:
  assumes inv: "solveInv S P reqs Sol s" and ne: "ps_assignments (ss_ps s) \<noteq> []" and closed: "allClosed S P reqs (ss_ps s)"
    and sol: "solFacts S P reqs Sol" and names: "plainNames P reqs" and prov: "parsedProvider S P"
    and fetched: "u_fetched (uniFor s pkg)"
    and new: "\<forall>a \<in> set (ps_assignments (ss_ps s)). t_pkg (a_term a) = pkg \<longrightarrow> \<not> isDecision a"
    and first: "rootFirst S s pkg"
  shows "decidedPost S Sol P reqs (decideFromAllowed S s pkg)"
proof -
  let ?acc = "accumOf S (ps_assignments (ss_ps s)) pkg"
  have env: "envInv S P reqs s" and ps: "psInv S (ss_ps s)" using inv by (auto simp: solveInv_def coreInv_def)
  have acc: "pa_accum (pkgState (ss_ps s) pkg) = ?acc" using psInv_summary [OF ps] by simp
  have wf: "wfTerm S ?acc" by (rule wf_accumOf [OF psInv_wfAll [OF ps]])
  have notroot: "pkg \<noteq> rootPkg" if "\<forall>v \<in> set (u_versions (uniFor s pkg)). \<not> termPermits S ?acc v"
    using that root_permitted [OF inv ne] env by (auto simp: envInv_def uniFor_def)
  have leaf: "decidedPost S Sol P reqs (Inr (pkg, False, s'))"
    if "newIncompat s c [mkTerm pkg vset True] = (inc, s1)" "addToStore S s1 inc = (idx, s')"
      "wfVerSet S vset" "\<forall>v \<in> set (u_versions (uniFor s pkg)). \<not> vsContains S vset v" "pkg \<noteq> rootPkg"
      "\<forall>v p d x. c \<noteq> CauseDependency v p d x"
    for c vset inc s1 idx s'
  proof -
    have add: "addToStore S (snd (newIncompat s c [mkTerm pkg vset True])) (fst (newIncompat s c [mkTerm pkg vset True])) = (idx, s')"
      using that(1,2) by simp
    have "solveInv S P reqs Sol s' \<and> ss_ps s' = ss_ps s"
      using leaf_sound [OF inv ne sol prov fetched that(3,4), of "fst (newIncompat s c [mkTerm pkg vset True])"] that(5,6) first
      by (intro solveInv_addLeaf [OF inv ne _ _ _ _ add]) (simp_all add: rootFirst_def)
    with ne closed allClosed_pending show ?thesis by (simp add: decidedPost_def)
  qed
  show ?thesis
  proof (cases "find (\<lambda>v. termPermits S ?acc v) (u_versions (uniFor s pkg))")
    case (Some v)
    from find_SomeD [OF this] have v: "v \<in> set (u_versions (uniFor s pkg))" "termPermits S ?acc v" by auto
    have "decidable S s pkg v"
      using universe_facts [OF env prov fetched v(1)] v(2) new first by (simp add: decidable_def)
    from decideVersion_inv [OF inv ne closed sol names prov this] Some show ?thesis
      by (simp add: decideFromAllowed_def Let_def acc)
  next
    case None
    then have no: "\<forall>v \<in> set (u_versions (uniFor s pkg)). \<not> termPermits S ?acc v" by (simp add: find_None_iff_all)
    show ?thesis
    proof (cases "u_versions (uniFor s pkg) = []")
      case True
      have "decidedPost S Sol P reqs (Inr (pkg, False, s'))"
        if "newIncompat s (CauseUnknownPackage pkg) [mkTerm pkg (fullVerSet S) True] = (inc, s1)" "addToStore S s1 inc = (idx, s')"
        for inc s1 idx s'
        using leaf [OF that wf_full] notroot [OF no] True by simp
      with None True show ?thesis
        by (simp add: decideFromAllowed_def Let_def acc split: prod.splits)
    next
      case False
      let ?t = "mkTerm pkg (positiveFormSet S ?acc) True"
      have "decidedPost S Sol P reqs (Inr (pkg, False, s'))"
        if "newIncompat s (CauseNoVersions ?t) [?t] = (inc, s1)" "addToStore S s1 inc = (idx, s')" for inc s1 idx s'
        using leaf [OF that wf_positiveForm [OF wf]] notroot [OF no] no by (simp add: contains_positiveForm [OF wf])
      with None False show ?thesis
        by (simp add: decideFromAllowed_def Let_def acc split: prod.splits)
    qed
  qed
qed

section \<open>The decision\<close>

lemma ensureUniverse_inv:
  assumes inv: "solveInv S P reqs Sol s" and run: "ensureUniverse S s pkg = Inr s'"
  shows "solveInv S P reqs Sol s' \<and> ss_ps s' = ss_ps s \<and> u_fetched (uniFor s' pkg)"
proof -
  have env: "envInv S P reqs s" using inv by (simp add: solveInv_def)
  show ?thesis
  proof (cases "pkg = rootPkg \<or> u_fetched (uniFor s pkg)")
    case True
    with run env inv show ?thesis
      by (auto simp: ensureUniverse_def Let_def envInv_def uniFor_def split: if_splits)
  next
    case False
    with run obtain us where us: "pr_universe (ss_provider s) pkg = Inr us"
      "s' = s\<lparr> ss_universes := (ss_universes s)(pkg := setVersions (uniFor s pkg) (buildUniverse S us)) \<rparr>"
      by (auto simp: ensureUniverse_def Let_def split: if_splits sum.splits)
    with env False have "envInv S P reqs s'" by (auto simp: envInv_def setVersions_def)
    with inv us(2) show ?thesis by (simp add: solveInv_def uniFor_def setVersions_def)
  qed
qed

lemma ensureUniverse_err: "ensureUniverse S s pkg = Inl e \<Longrightarrow> errOK S Sol e"
  by (auto simp: ensureUniverse_def Let_def split: if_splits sum.splits)

lemma exactPin_facts:
  assumes inv: "solveInv S P reqs Sol s" and prov: "parsedProvider S P" and pin: "packageIsExactPin S s pkg = Some v"
  shows "wellParsed S v \<and> (u_fetched (uniFor s pkg) \<longrightarrow>
    (pkg = rootPkg \<longrightarrow> v = rootVersion S) \<and> termPermits S (accumOf S (ps_assignments (ss_ps s)) pkg) v)"
proof -
  let ?acc = "accumOf S (ps_assignments (ss_ps s)) pkg"
  have env: "envInv S P reqs s" and ps: "psInv S (ss_ps s)" using inv by (auto simp: solveInv_def coreInv_def)
  have acc: "pa_accum (pkgState (ss_ps s) pkg) = ?acc" using psInv_summary [OF ps] by simp
  show ?thesis
  proof (cases "u_fetched (uniFor s pkg)")
    case True
    let ?f = "\<lambda>(only, count) v. if termPermits S ?acc v then (Some v, count + 1) else (only, count)"
    have "\<And>x. fst (foldl ?f b vs) = Some x \<Longrightarrow> fst b = Some x \<or> x \<in> set vs \<and> termPermits S ?acc x" for b :: "'v version option \<times> int" and vs
      by (induction vs arbitrary: b) (fastforce split: prod.splits if_splits)+
    from this [of "(None, 0)" "u_versions (uniFor s pkg)" v] True pin
    have "v \<in> set (u_versions (uniFor s pkg))" "termPermits S ?acc v"
      by (auto simp: packageIsExactPin_def Let_def acc split: prod.splits if_splits)
    with universe_facts [OF env prov True] show ?thesis by blast
  next
    case False
    with pin have "vs_single (t_set ?acc) = Some v"
      by (auto simp: packageIsExactPin_def Let_def acc decidedVersion_def split: if_splits)
    with wf_accumOf [OF psInv_wfAll [OF ps], of pkg] False show ?thesis by (simp add: wfVerSet_def)
  qed
qed

lemma outcomeOf_post:
  "decidedPost S Sol P reqs r \<Longrightarrow> case outcomeOf r of Inl e \<Rightarrow> errOK S Sol e
    | Inr (out, s') \<Rightarrow> \<exists>pkg. out = Some (pkg, False) \<and> solveInv S P reqs Sol s' \<and> pendingOnly S P reqs pkg (ss_ps s') \<and>
        ps_assignments (ss_ps s') \<noteq> []"
  by (auto simp: outcomeOf_def decidedPost_def bindE_def split: sum.splits prod.splits)

lemma ensure_fallthrough:
  assumes "solveInv S P reqs Sol s"
  shows "case bindE (ensureUniverse S s pkg) (\<lambda>s. Inr (None :: (gostring \<times> bool) option, s)) of Inl e \<Rightarrow> errOK S Sol e
    | Inr (out, s') \<Rightarrow> out = None \<and> solveInv S P reqs Sol s' \<and> ss_ps s' = ss_ps s \<and> u_fetched (uniFor s' pkg)"
  using ensureUniverse_inv [OF assms] ensureUniverse_err
  by (cases "ensureUniverse S s pkg") auto

lemma tryFastDecide_inv:
  assumes inv: "solveInv S P reqs Sol s" and ne: "ps_assignments (ss_ps s) \<noteq> []" and closed: "allClosed S P reqs (ss_ps s)"
    and sol: "solFacts S P reqs Sol" and names: "plainNames P reqs" and prov: "parsedProvider S P"
    and new: "\<forall>a \<in> set (ps_assignments (ss_ps s)). t_pkg (a_term a) = pkg \<longrightarrow> \<not> isDecision a"
    and first: "rootFirst S s pkg"
  shows "case tryFastDecide S s pkg of Inl e \<Rightarrow> errOK S Sol e
    | Inr (None, s') \<Rightarrow> solveInv S P reqs Sol s' \<and> ss_ps s' = ss_ps s \<and> u_fetched (uniFor s' pkg)
    | Inr (Some (p, done), s') \<Rightarrow> \<not> done \<and> solveInv S P reqs Sol s' \<and> pendingOnly S P reqs p (ss_ps s') \<and>
        ps_assignments (ss_ps s') \<noteq> []"
proof -
  have env: "envInv S P reqs s" and ps: "psInv S (ss_ps s)" using inv by (auto simp: solveInv_def coreInv_def)
  have acc: "pa_accum (pkgState (ss_ps s) pkg) = accumOf S (ps_assignments (ss_ps s)) pkg" using psInv_summary [OF ps] by simp
  have root: "pkg = rootPkg \<Longrightarrow> u_fetched (uniFor s pkg)" using env by (simp add: envInv_def uniFor_def)
  note dec = decideVersion_inv [OF inv ne closed sol names prov]
  note fall = ensure_fallthrough [OF inv, of pkg]
  show ?thesis
  proof (cases "packageIsExactPin S s pkg")
    case (Some v)
    note pin = exactPin_facts [OF inv prov Some]
    show ?thesis
    proof (cases "u_fetched (uniFor s pkg) \<or> versionPassesAccum S s pkg v")
      case True
      with pin new root first have "decidable S s pkg v" by (auto simp: decidable_def versionPassesAccum_def acc)
      from outcomeOf_post [OF dec [OF this]] Some True show ?thesis
        by (auto simp: tryFastDecide_def tryDecidePin_def split: sum.splits prod.splits)
    next
      case False
      with fall Some show ?thesis by (auto simp: tryFastDecide_def tryDecidePin_def split: sum.splits prod.splits)
    qed
  next
    case None
    show ?thesis
    proof (cases "\<not> u_fetched (uniFor s pkg) \<and> probeWorthTrying s pkg")
      case False
      with None fall inv show ?thesis by (auto simp: tryFastDecide_def Let_def split: sum.splits prod.splits)
    next
      case True
      then have eq: "tryFastDecide S s pkg = tryDecideByProbe S s pkg" using None by (simp add: tryFastDecide_def Let_def)
      have prv: "ss_provider s = P" using env by (simp add: envInv_def)
      show ?thesis
      proof (cases "pr_highest P pkg")
        case (Inl e)
        then show ?thesis by (simp add: eq tryDecideByProbe_def prv)
      next
        case (Inr ov)
        show ?thesis
        proof (cases "\<exists>v. ov = Some v \<and> versionPassesAccum S s pkg v")
          case True': True
          then obtain v where v: "ov = Some v" "versionPassesAccum S s pkg v" by blast
          have "decidable S s pkg v"
            using v Inr prov new root first True by (auto simp: decidable_def versionPassesAccum_def acc parsedProvider_def)
          from outcomeOf_post [OF dec [OF this]] Inr v show ?thesis
            by (auto simp: eq tryDecideByProbe_def prv split: sum.splits prod.splits)
        next
          case False
          then have "tryDecideByProbe S s pkg = bindE (ensureUniverse S s pkg) (\<lambda>s. Inr (None, s))"
            using Inr by (auto simp: tryDecideByProbe_def prv split: option.splits)
          with fall eq show ?thesis by (auto split: sum.splits prod.splits)
        qed
      qed
    qed
  qed
qed

text \<open>A decision step ends the solve only when no candidate is left.\<close>

lemma makeDecision_inv:
  assumes inv: "solveInv S P reqs Sol s" and ne: "ps_assignments (ss_ps s) \<noteq> []" and closed: "allClosed S P reqs (ss_ps s)"
    and sol: "solFacts S P reqs Sol" and names: "plainNames P reqs" and prov: "parsedProvider S P"
  shows "case makeDecision S s of Inl e \<Rightarrow> errOK S Sol e
    | Inr (pkg, done, s') \<Rightarrow> solveInv S P reqs Sol s' \<and> pendingOnly S P reqs pkg (ss_ps s') \<and>
        ps_assignments (ss_ps s') \<noteq> [] \<and> (done \<longrightarrow> s' = s \<and> candidatePackages s = [])"
proof (cases "pickPackage S s")
  case None
  then have "makeDecision S s = Inr ([], True, s)" by (simp add: makeDecision_def)
  with None inv ne allClosed_pending [OF closed] show ?thesis by (simp add: pickPackage_None)
next
  case (Some pkg)
  have ps: "psInv S (ss_ps s)" using inv by (simp add: solveInv_def coreInv_def)
  have new: "\<forall>a \<in> set (ps_assignments (ss_ps s)). t_pkg (a_term a) = pkg \<longrightarrow> \<not> isDecision a"
    using pickPackage_mem [OF Some] candidate_iff [OF ps refl] by blast
  have "t_pos (accumOf S (ps_assignments (ss_ps s)) pkg)"
    using pickPackage_mem [OF Some] candidate_iff [OF ps refl] by blast
  then obtain a where "a \<in> set (ps_assignments (ss_ps s))" "t_pkg (a_term a) = pkg" by (auto simp: t_pos_accumOf)
  then have first: "rootFirst S s pkg" by (rule rootFirst_of_assigned [OF inv])
  note fast = tryFastDecide_inv [OF inv ne closed sol names prov new first]
  show ?thesis
  proof (cases "tryFastDecide S s pkg")
    case (Inl e)
    with fast Some show ?thesis by (simp add: makeDecision_def)
  next
    case (Inr r)
    obtain out s1 where r: "r = (out, s1)" by fastforce
    show ?thesis
    proof (cases out)
      case None
      with fast Inr r have s1: "solveInv S P reqs Sol s1" "ss_ps s1 = ss_ps s" "u_fetched (uniFor s1 pkg)" by auto
      obtain b where "b \<in> set (ps_assignments (ss_ps s1))" "t_pkg (a_term b) = pkg"
        using \<open>a \<in> set (ps_assignments (ss_ps s))\<close> \<open>t_pkg (a_term a) = pkg\<close> s1(2) by auto
      then have first1: "rootFirst S s1 pkg" by (rule rootFirst_of_assigned [OF s1(1)])
      have "decidedPost S Sol P reqs (decideFromAllowed S s1 pkg)"
        using s1 ne closed new first1 by (intro decideFromAllowed_inv [OF s1(1) _ _ sol names prov s1(3)]) simp_all
      with Some Inr r None show ?thesis
        by (auto simp: makeDecision_def decidedPost_def split: sum.splits prod.splits)
    next
      case (Some o')
      with fast Inr r \<open>pickPackage S s = Some pkg\<close> show ?thesis
        by (auto simp: makeDecision_def split: prod.splits)
    qed
  qed
qed

end

end
