(* ===== verification/Sound.thy ===== *)
theory Sound imports Decision begin

text \<open>
  The two guarantees of a solve. A reported conflict names an incompatibility that every
  solution violates, so a terminal one proves that there is no solution; a result is read
  off a consistent selection, contains every requirement and is closed under its edges.
\<close>

section \<open>The start\<close>

definition startState :: "'v semver \<Rightarrow> requirement list \<Rightarrow> ('e, 'v) provider \<Rightarrow> ('e, 'v) solveState" where
  "startState S reqs P =
     (let s = newSolveState S P reqs in snd (addToStore S (snd (rootIncompat S s)) (fst (rootIncompat S s))))"

lemma solve_start: "solve S limit ctxErr reqs P = solveLoop S limit ctxErr 0 (startState S reqs P) rootPkg"
  by (simp add: solve_def startState_def Let_def split: prod.splits)

lemma storeAdd_new:
  "storeAdd S newIncompatStore inc = (i, b, st) \<Longrightarrow> st_all st = [inc] \<and> storeInv S st"
proof -
  assume add: "storeAdd S newIncompatStore inc = (i, b, st)"
  have "st_all st = [inc]"
    using add by (cases rule: storeAdd_cases [of S newIncompatStore inc]) (auto simp: newIncompatStore_def)
  moreover have "storeInv S st" using storeInv_add [OF storeInv_new, of S inc] add by simp
  ultimately show ?thesis by simp
qed

lemma startState_sel:
  "ss_ps (startState S reqs P) = newPartialSolution"
  "ss_provider (startState S reqs P) = P" "ss_rootDeps (startState S reqs P) = rootDepsOf reqs"
  "ss_depsAdded (startState S reqs P) = (\<lambda>_. False)"
  "ss_universes (startState S reqs P) = (\<lambda>_. newPackageUniverse) (rootPkg := setVersions newPackageUniverse [rootVersion S])"
  by (simp_all add: startState_def newSolveState_def addToStore_def rootIncompat_def Let_def split: prod.splits)

lemma startState_store:
  "storeInv S (ss_store (startState S reqs P))"
  "\<exists>inc. st_all (ss_store (startState S reqs P)) = [inc] \<and> inc_terms inc = [rootTermOf S] \<and> inc_cause inc = CauseRoot"
proof -
  let ?inc = "fst (rootIncompat S (newSolveState S P reqs))"
  obtain i b st where st: "storeAdd S newIncompatStore ?inc = (i, b, st)" by (metis prod_cases3)
  then have "ss_store (startState S reqs P) = st"
    by (simp add: startState_def Let_def addToStore_def newSolveState_def rootIncompat_def split: prod.splits)
  moreover have "inc_terms ?inc = [rootTermOf S]" "inc_cause ?inc = CauseRoot"
    by (simp_all add: rootIncompat_def rootTermOf_def)
  ultimately show "storeInv S (ss_store (startState S reqs P))"
    "\<exists>inc. st_all (ss_store (startState S reqs P)) = [inc] \<and> inc_terms inc = [rootTermOf S] \<and> inc_cause inc = CauseRoot"
    using storeAdd_new [OF st] by auto
qed

text \<open>A state in which nothing is left to decide and every decision is closed.\<close>

definition finished :: "'v semver \<Rightarrow> ('e, 'v) provider \<Rightarrow> requirement list \<Rightarrow> ('e, 'v) solveState \<Rightarrow> bool" where
  "finished S P reqs s \<longleftrightarrow>
     (\<exists>Sol. solveInv S P reqs Sol s) \<and> allClosed S P reqs (ss_ps s) \<and> ps_assignments (ss_ps s) \<noteq> [] \<and>
     candidatePackages s = []"

context solver_lib begin

lemma start_inv:
  assumes sel: "rootSel S Sol"
  shows "solveInv S P reqs Sol (startState S reqs P)" "pendingOnly S P reqs rootPkg (ss_ps (startState S reqs P))"
proof -
  obtain inc where all: "st_all (ss_store (startState S reqs P)) = [inc]" "inc_terms inc = [rootTermOf S]"
    "inc_cause inc = CauseRoot"
    using startState_store(2) by blast
  have "soundInc S Sol inc"
    using sel singleton_self [of "rootVersion S"] wf_singleton [OF wellParsed_root]
    by (auto simp: soundInc_def all(2) rootSel_def rootTermOf_def holds_def)
  then have "coreInv S Sol (ss_store (startState S reqs P)) (ss_ps (startState S reqs P))"
    using startState_store(1) psInv_new [of S] all
    by (simp add: coreInv_def startState_sel rootInv_def levelInv_def newPartialSolution_def)
  moreover have "envInv S P reqs (startState S reqs P)"
    by (simp add: envInv_def startState_sel setVersions_def newPackageUniverse_def)
  ultimately show "solveInv S P reqs Sol (startState S reqs P)"
    using all
    by (simp add: solveInv_def decInv_def depsInv_def rootRecorded_def causesInv_def startState_sel newPartialSolution_def)
  show "pendingOnly S P reqs rootPkg (ss_ps (startState S reqs P))"
    by (simp add: pendingOnly_def startState_sel newPartialSolution_def)
qed

section \<open>The main loop\<close>

lemma solveLoop_inv:
  assumes sel: "rootSel S Sol" and sol: "solFacts S P reqs Sol" and names: "plainNames P reqs" and prov: "parsedProvider S P"
    and "solveInv S P reqs Sol s" "pendingOnly S P reqs nxt (ss_ps s)" "ps_assignments (ss_ps s) \<noteq> [] \<or> nxt = rootPkg"
    and "solveLoop S limit ctxErr fuel s nxt = Some r"
  shows "(\<exists>e. r = Inl e \<and> errOK S Sol e) \<or> (\<exists>s'. finished S P reqs s' \<and> r = extractResult s')"
  using assms(5-)
proof (induction "nat (limit + 1 - fuel)" arbitrary: fuel s nxt rule: less_induct)
  case less
  note run = less.prems(4)
  show ?case
  proof (cases "limit < fuel \<or> ctxErr fuel \<noteq> None")
    case True
    with run show ?thesis by (auto simp: solveLoop.simps [of S limit ctxErr fuel s nxt] split: if_splits)
  next
    case False
    then have lt: "\<not> limit < fuel" "ctxErr fuel = None" by auto
    with run obtain r1 where r1: "unitPropagation S s nxt = Some r1"
      by (auto simp: solveLoop.simps [of S limit ctxErr fuel s nxt] split: option.splits)
    have post: "loopPost S Sol P reqs r1"
      using unitPropagation_inv [OF solver_lib_axioms sel less.prems(1-3) r1] .
    show ?thesis
    proof (cases r1)
      case (Inl e)
      with post run r1 lt show ?thesis by (auto simp: loopPost_def solveLoop.simps [of S limit ctxErr fuel s nxt])
    next
      case (Inr s1)
      with post have s1: "solveInv S P reqs Sol s1" "allClosed S P reqs (ss_ps s1)" "ps_assignments (ss_ps s1) \<noteq> []"
        by (auto simp: loopPost_def)
      note dec = makeDecision_inv [OF s1(1,3,2) sol names prov]
      show ?thesis
      proof (cases "makeDecision S s1")
        case (Inl e)
        with dec run r1 Inr lt show ?thesis by (auto simp: solveLoop.simps [of S limit ctxErr fuel s nxt])
      next
        case d: (Inr x)
        obtain pkg fin s2 where x: "x = (pkg, fin, s2)" by (metis prod_cases3)
        from dec d x have s2: "solveInv S P reqs Sol s2" "pendingOnly S P reqs pkg (ss_ps s2)" "ps_assignments (ss_ps s2) \<noteq> []"
          "fin \<longrightarrow> s2 = s1 \<and> candidatePackages s1 = []" by auto
        show ?thesis
        proof (cases fin)
          case True
          with run r1 Inr lt d x have "r = extractResult s2" by (simp add: solveLoop.simps [of S limit ctxErr fuel s nxt])
          moreover have "finished S P reqs s2" using s1 s2(4) True unfolding finished_def by blast
          ultimately show ?thesis by blast
        next
          case False
          with run r1 Inr lt d x have "solveLoop S limit ctxErr (fuel + 1) s2 pkg = Some r"
            by (simp add: solveLoop.simps [of S limit ctxErr fuel s nxt])
          with less.hyps [of "fuel + 1" s2 pkg] s2 lt show ?thesis by simp
        qed
      qed
    qed
  qed
qed

lemma extractResult_err: "extractResult s = Inl e \<Longrightarrow> errOK S Sol e"
proof -
  have "mapE (\<lambda>pkg. case map_of m pkg of None \<Rightarrow> Inl (SolverBug (f pkg)) | Some v \<Rightarrow> Inr (g pkg v)) xs = Inl e \<Longrightarrow>
      errOK S Sol e" for m f g xs
    by (induction xs) (auto simp: bindE_def split: option.splits sum.splits)
  then show "extractResult s = Inl e \<Longrightarrow> errOK S Sol e"
    by (auto simp: extractResult_def Let_def bindE_def split: sum.splits)
qed

lemma solve_inv:
  assumes sel: "rootSel S Sol" and sol: "solFacts S P reqs Sol" and names: "plainNames P reqs" and prov: "parsedProvider S P"
    and run: "solve S limit ctxErr reqs P = Some r"
  shows "(\<exists>e. r = Inl e \<and> errOK S Sol e) \<or> (\<exists>s. finished S P reqs s \<and> r = extractResult s)"
  using solveLoop_inv [OF sel sol names prov start_inv [OF sel]] run by (simp add: solve_start)

lemma solve_err:
  assumes "rootSel S Sol" "solFacts S P reqs Sol" "plainNames P reqs" "parsedProvider S P"
    and "solve S limit ctxErr reqs P = Some (Inl e)"
  shows "errOK S Sol e"
  using solve_inv [OF assms]
proof
  assume "\<exists>s. finished S P reqs s \<and> Inl e = extractResult s"
  then obtain s where "extractResult s = Inl e" by metis
  then show ?thesis by (rule extractResult_err)
qed blast

section \<open>Refutation\<close>

text \<open>The solutions satisfy the facts the invariant needs.\<close>

lemma solFacts_solutions:
  assumes prov: "parsedProvider S P" and pts: "depsByPoint S P"
  shows "solFacts S P reqs (\<lambda>\<sigma>. consistent S P reqs \<sigma> \<and> published P \<sigma>)"
proof -
  let ?Sol = "\<lambda>\<sigma>. consistent S P reqs \<sigma> \<and> published P \<sigma>"
  have sel: "rootSel S ?Sol" by (simp add: rootSel_def consistent_def)
  have "\<exists>t \<in> set (dependencyTerms S pkg v dep vset). \<not> holds S \<sigma> t"
    if h: "depsFor P reqs pkg v = Inr deps" "map_of deps dep = Some c" "newVerSet S c = Inr vset"
      "pkg = rootPkg \<longrightarrow> v = rootVersion S" "?Sol \<sigma>" for pkg v deps dep c vset \<sigma>
  proof (rule ccontr)
    assume neg: "\<not> ?thesis"
    then have "holds S \<sigma> (mkTerm pkg (singletonVerSet S v) True)"
      by (auto simp: dependencyTerms_def Let_def split: if_splits)
    then obtain w where w: "\<sigma> pkg = Some w" "vsContains S (singletonVerSet S v) w"
      by (auto simp: holds_def split: option.splits)
    have "depsMet S \<sigma> deps"
    proof (cases "pkg = rootPkg")
      case True
      with h show ?thesis by (auto simp: depsFor_def consistent_def)
    next
      case False
      then have dv: "pr_dependencies P pkg v = Inr deps" using h(1) by (simp add: depsFor_def)
      then have "versionFits S v" using prov unfolding parsedProvider_def by blast
      then have eq: "sv_compare S (v_parsed w) (v_parsed v) = 0"
        using w(2) contains_singleton by (simp add: versionFits_def)
      from h(5) False w(1) obtain us where "pr_universe P pkg = Inr us" "w \<in> set us" by (auto simp: published_def)
      with pts dv eq have dw: "pr_dependencies P pkg w = Inr deps" unfolding depsByPoint_def by blast
      from h(5) False w(1) obtain d where "pr_dependencies P pkg w = Inr d" "depsMet S \<sigma> d"
        unfolding consistent_def by blast
      with dw show ?thesis by simp
    qed
    with h(2,3) obtain x where x: "\<sigma> dep = Some x" "vsContains S vset x" by (fastforce simp: depsMet_def depMet_def)
    then have "\<not> vsIsEmpty vset" using isEmpty_contains by blast
    with neg x show False by (auto simp: dependencyTerms_def Let_def holds_def)
  qed
  with sel show ?thesis unfolding solFacts_def by blast
qed

lemma conflict_violated:
  assumes "parsedProvider S P" "plainNames P reqs" "depsByPoint S P"
    and "solve S limit ctxErr reqs P = Some (Inl (ConflictError inc ls hs))"
    and \<sigma>: "consistent S P reqs \<sigma>" "published P \<sigma>"
  shows "\<exists>t \<in> set (inc_terms inc). \<not> holds S \<sigma> t"
proof -
  let ?Sol = "\<lambda>\<sigma>. consistent S P reqs \<sigma> \<and> published P \<sigma>"
  have sol: "solFacts S P reqs ?Sol" by (rule solFacts_solutions [OF assms(1,3)])
  then have sel: "rootSel S ?Sol" by (simp add: solFacts_def)
  note err = solve_err [OF sel sol assms(2,1,4)]
  from err \<sigma> show ?thesis by (simp add: errOK_def soundInc_def)
qed

lemma terminal_no_solution:
  assumes "parsedProvider S P" "plainNames P reqs" "depsByPoint S P"
    and "solve S limit ctxErr reqs P = Some (Inl (ConflictError inc ls hs))" "isTerminal inc"
  shows "\<not> (\<exists>\<sigma>. consistent S P reqs \<sigma> \<and> published P \<sigma>)"
proof -
  let ?Sol = "\<lambda>\<sigma>. consistent S P reqs \<sigma> \<and> published P \<sigma>"
  have sol: "solFacts S P reqs ?Sol" by (rule solFacts_solutions [OF assms(1,3)])
  then have sel: "rootSel S ?Sol" by (simp add: solFacts_def)
  note err = solve_err [OF sel sol assms(2,1,4)]
  then have "soundInc S ?Sol inc" "rootTerms S (inc_terms inc)" by (auto simp: errOK_def)
  from terminal_refutes [OF this assms(5) sel] show ?thesis by blast
qed

end

end
