(* ===== verification/Extract.thy ===== *)
theory Extract imports Sound begin

text \<open>
  The result of a finished solve. The decided versions are a consistent selection; the walk
  of \<^verbatim>\<open>extractResult\<close> collects exactly the packages reachable from root along the recorded
  dependency edges, and contains every requirement.
\<close>

section \<open>The reachability walk\<close>

definition edgeRel :: "(gostring \<times> gostring list) list \<Rightarrow> (gostring \<times> gostring) set" where
  "edgeRel deps = {(p, d). d \<in> set (edgesOf deps p)}"

lemma reachLoop_closed:
  "\<forall>p \<in> set reachable. set (edgesOf deps p) \<subseteq> set reachable \<union> set stack \<Longrightarrow>
     set reachable \<union> set stack \<subseteq> set (reachLoop deps reachable stack) \<and>
     (\<forall>p \<in> set (reachLoop deps reachable stack). set (edgesOf deps p) \<subseteq> set (reachLoop deps reachable stack))"
proof (induction deps reachable stack rule: reachLoop.induct)
  case (2 deps reachable pkg stack)
  show ?case
  proof (cases "pkg \<in> set reachable")
    case True
    with "2.prems" have "\<forall>p \<in> set reachable. set (edgesOf deps p) \<subseteq> set reachable \<union> set stack" by auto
    from "2.IH"(1) [OF True this] True show ?thesis by auto
  next
    case False
    with "2.prems" have "\<forall>p \<in> set (pkg # reachable). set (edgesOf deps p) \<subseteq>
        set (pkg # reachable) \<union> set (rev (edgesOf deps pkg) @ stack)" by auto
    from "2.IH"(2) [OF False this] False show ?thesis by auto
  qed
qed simp

lemma reachLoop_sound:
  "q \<in> set (reachLoop deps reachable stack) \<Longrightarrow> q \<in> set reachable \<or> (\<exists>p \<in> set stack. (p, q) \<in> (edgeRel deps)\<^sup>*)"
proof (induction deps reachable stack rule: reachLoop.induct)
  case (2 deps reachable pkg stack)
  show ?case
  proof (cases "pkg \<in> set reachable")
    case True
    with 2 show ?thesis by auto
  next
    case False
    have edge: "p \<in> set (edgesOf deps pkg) \<Longrightarrow> (p, q) \<in> (edgeRel deps)\<^sup>* \<Longrightarrow> (pkg, q) \<in> (edgeRel deps)\<^sup>*" for p
      by (rule converse_rtrancl_into_rtrancl) (simp_all add: edgeRel_def)
    from "2.IH"(2) [OF False] "2.prems" False
    have "q \<in> set (pkg # reachable) \<or> (\<exists>p \<in> set (rev (edgesOf deps pkg) @ stack). (p, q) \<in> (edgeRel deps)\<^sup>*)" by simp
    with edge show ?thesis by auto
  qed
qed simp

lemma distinct_reachLoop: "distinct reachable \<Longrightarrow> distinct (reachLoop deps reachable stack)"
  by (induction deps reachable stack rule: reachLoop.induct) auto

text \<open>The worklist computes the reflexive transitive closure of the edges.\<close>

lemma set_reachLoop: "set (reachLoop deps [] [start]) = {q. (start, q) \<in> (edgeRel deps)\<^sup>*}"
proof -
  have c: "start \<in> set (reachLoop deps [] [start])"
    "\<forall>p \<in> set (reachLoop deps [] [start]). set (edgesOf deps p) \<subseteq> set (reachLoop deps [] [start])"
    using reachLoop_closed [of "[]" deps "[start]"] by auto
  have "(start, q) \<in> (edgeRel deps)\<^sup>* \<Longrightarrow> q \<in> set (reachLoop deps [] [start])" for q
    by (induction rule: rtrancl_induct) (use c in \<open>auto simp: edgeRel_def\<close>)
  with reachLoop_sound [of _ deps "[]" "[start]"] show ?thesis by auto
qed

declare reachLoop.simps(2) [simp del]

section \<open>The decided packages\<close>

lemma map_of_filter_map:
  "distinct (map fst m) \<Longrightarrow> map_of (map (\<lambda>(k, p). (k, f p)) (filter (\<lambda>(k, p). Q p) m)) x =
     (case map_of m x of None \<Rightarrow> None | Some p \<Rightarrow> if Q p then Some (f p) else None)"
proof (induction m)
  case (Cons a m)
  obtain k p where a: "a = (k, p)" by fastforce
  have "x = k \<Longrightarrow> map_of m x = None" using Cons.prems a by (simp add: map_of_eq_None_iff)
  with Cons a show ?case by auto
qed simp

lemma decidedPackages_eq:
  assumes "psInv S (ss_ps s)"
  shows "map_of (decidedPackages s) pkg = pa_decisionVersion (pkgSummary S (ps_assignments (ss_ps s)) pkg)"
proof -
  let ?as = "ps_assignments (ss_ps s)"
  have inv: "lookupPackage (ps_packages (ss_ps s)) pkg = pkgSummary S ?as pkg" "distinct (map fst (ps_packages (ss_ps s)))"
    using assms by (auto simp: psInv_def pkgInv_def)
  have dec: "\<exists>v. pa_decisionVersion (pkgSummary S ?as pkg) = Some v" if "decisionOf ?as pkg = Some i" for i
  proof -
    have "?as ! i \<in> set ?as" "a_cause (?as ! i) = None" using decisionOf_Some [OF that] by auto
    with assms have "decidedVersion (t_set (a_term (?as ! i))) \<noteq> None" unfolding psInv_def by blast
    with that show ?thesis by (auto simp: pkgSummary_def)
  qed
  have none: "decisionOf ?as pkg = None \<Longrightarrow> pa_decisionVersion (pkgSummary S ?as pkg) = None"
    by (simp add: pkgSummary_def)
  show ?thesis
  proof (cases "map_of (ps_packages (ss_ps s)) pkg")
    case None
    with inv(1) have "pkgSummary S ?as pkg = freshPackage pkg" by (simp add: lookupPackage_def)
    then have "pa_decisionVersion (pkgSummary S ?as pkg) = None" by (simp add: freshPackage_def)
    with None show ?thesis by (simp add: decidedPackages_def map_of_filter_map [OF inv(2)])
  next
    case (Some p)
    with inv(1) have "p = pkgSummary S ?as pkg" by (simp add: lookupPackage_def)
    with Some dec none show ?thesis by (auto simp: decidedPackages_def map_of_filter_map [OF inv(2)])
  qed
qed

context solver_lib begin

text \<open>A decided package: its decision, whose version its accumulation permits.\<close>

lemma decided_facts:
  assumes inv: "solveInv S P reqs Sol s" and v: "map_of (decidedPackages s) pkg = Some v"
  obtains a where "a \<in> set (ps_assignments (ss_ps s))" "isDecision a" "t_pkg (a_term a) = pkg"
    "vs_single (t_set (a_term a)) = Some v" "wellParsed S v" "properVersion S pkg v" "ss_depsAdded s (depsKey pkg v)"
    "termPermits S (accumOf S (ps_assignments (ss_ps s)) pkg) v"
proof -
  let ?as = "ps_assignments (ss_ps s)"
  have ps: "psInv S (ss_ps s)" and dec: "decInv S (ss_depsAdded s) ?as"
    using inv by (auto simp: solveInv_def coreInv_def)
  from v obtain i where i: "decisionOf ?as pkg = Some i" "decidedVersion (t_set (a_term (?as ! i))) = Some v"
    by (auto simp: decidedPackages_eq [OF ps] pkgSummary_def split: option.splits)
  then have a: "?as ! i \<in> set ?as" "isDecision (?as ! i)" "t_pkg (a_term (?as ! i)) = pkg"
    using decisionOf_Some [of ?as pkg i] by (auto simp: isDecision_def)
  with dec obtain w where w: "a_term (?as ! i) = mkTerm pkg (singletonVerSet S w) True" "wellParsed S w"
    "properVersion S pkg w" "ss_depsAdded s (depsKey pkg w)" "termPermits S (accumOf S ?as pkg) w"
    unfolding decInv_def by metis
  have "w = v" using i(2) w(1) by (simp add: decidedVersion_def singletonVerSet_def)
  with that [OF a] i(2) w show thesis by (simp add: decidedVersion_def)
qed

lemma positive_decided:
  assumes fin: "finished S P reqs s" and pos: "t_pos (accumOf S (ps_assignments (ss_ps s)) pkg)"
  shows "\<exists>v. map_of (decidedPackages s) pkg = Some v \<and> termPermits S (accumOf S (ps_assignments (ss_ps s)) pkg) v"
proof -
  from fin obtain Sol where inv: "solveInv S P reqs Sol s" and none: "candidatePackages s = []" by (auto simp: finished_def)
  then have ps: "psInv S (ss_ps s)" by (simp add: solveInv_def coreInv_def)
  let ?as = "ps_assignments (ss_ps s)"
  have "pkg \<notin> set (candidatePackages s)" using none by simp
  then have "decisionOf ?as pkg \<noteq> None" using candidate_iff [OF ps refl, of pkg] pos by (simp add: decisionOf_None)
  then obtain i where i: "decisionOf ?as pkg = Some i" by blast
  then have "?as ! i \<in> set ?as" "a_cause (?as ! i) = None" using decisionOf_Some [OF i] by auto
  with ps have "decidedVersion (t_set (a_term (?as ! i))) \<noteq> None" unfolding psInv_def by blast
  with i obtain v where v: "map_of (decidedPackages s) pkg = Some v"
    by (auto simp: decidedPackages_eq [OF ps] pkgSummary_def)
  with decided_facts [OF inv v] show ?thesis by blast
qed

lemma entailed_positive:
  assumes wf: "wfAll S as" "wfVerSet S vset" and ent: "entailed S as (mkTerm dep vset True)"
  shows "t_pos (accumOf S as dep)" "termPermits S (accumOf S as dep) v \<Longrightarrow> vsContains S vset v"
proof -
  have sub: "holds S \<sigma> (accumOf S as dep) \<Longrightarrow> holds S \<sigma> (mkTerm dep vset True)" for \<sigma>
    using termSubset_holds [of "accumOf S as dep" "mkTerm dep vset True" \<sigma>] wf ent wf_accumOf [OF wf(1), of dep]
    by (simp add: entailed_def)
  show "t_pos (accumOf S as dep)"
    using sub [of "\<lambda>_. None"] by (auto simp: holds_def)
  show "termPermits S (accumOf S as dep) v \<Longrightarrow> vsContains S vset v"
    using sub [of "[dep \<mapsto> v]"] by (simp add: holds_permits [where v = v]) (simp add: termPermits_def)
qed

text \<open>Every dependency of a decided version is decided, at a version its constraint allows.\<close>

lemma decided_deps:
  assumes fin: "finished S P reqs s" and v: "map_of (decidedPackages s) pkg = Some v"
  shows "\<exists>deps. depsFor P reqs pkg v = Inr deps \<and> depsMet S (map_of (decidedPackages s)) deps"
proof -
  let ?as = "ps_assignments (ss_ps s)"
  from fin obtain Sol where inv: "solveInv S P reqs Sol s" and closed: "allClosed S P reqs (ss_ps s)" by (auto simp: finished_def)
  then have ps: "psInv S (ss_ps s)" by (simp add: solveInv_def coreInv_def)
  have wf: "wfAll S ?as" by (rule psInv_wfAll [OF ps])
  from decided_facts [OF inv v] obtain a where a: "a \<in> set ?as" "isDecision a" "t_pkg (a_term a) = pkg"
    "vs_single (t_set (a_term a)) = Some v" "wellParsed S v" "ss_depsAdded s (depsKey pkg v)" by metis
  from inv a(5,6) obtain deps where deps: "depsFor P reqs pkg v = Inr deps"
    "\<forall>dep c. map_of deps dep = Some c \<longrightarrow> (\<exists>vset. newVerSet S c = Inr vset)"
    unfolding solveInv_def depsInv_def by meson
  have "depMet S (map_of (decidedPackages s)) dep c" if c: "map_of deps dep = Some c" for dep c
  proof -
    from deps(2) c obtain vset where vset: "newVerSet S c = Inr vset" by blast
    from closed a(1,2) have "closedDecision S P reqs ?as a" by (simp add: allClosed_def)
    with a(3,4) deps(1) c vset have "entailed S (upTo (a_level a) ?as) (mkTerm dep vset True)"
      unfolding closedDecision_def by blast
    moreover have "set (upTo (a_level a) ?as) \<subseteq> set ?as" by (auto simp: mem_upTo)
    ultimately have ent: "entailed S ?as (mkTerm dep vset True)"
      using entailed_mono [OF wf, of "mkTerm dep vset True" "upTo (a_level a) ?as"] wf_newVerSet [OF vset] by simp
    note e = entailed_positive [OF wf wf_newVerSet [OF vset] ent]
    from positive_decided [OF fin e(1)] e(2) vset show ?thesis unfolding depMet_def by blast
  qed
  with deps(1) show ?thesis unfolding depsMet_def by blast
qed

lemma root_decided:
  assumes fin: "finished S P reqs s"
  shows "map_of (decidedPackages s) rootPkg = Some (rootVersion S)"
proof -
  from fin obtain Sol where inv: "solveInv S P reqs Sol s" and ne: "ps_assignments (ss_ps s) \<noteq> []" by (auto simp: finished_def)
  from inv ne have "\<exists>a \<in> set (ps_assignments (ss_ps s)). t_pkg (a_term a) = rootPkg \<and> t_pos (a_term a)"
    by (auto simp: solveInv_def coreInv_def rootInv_def rootAssignment_def split: list.splits)
  then have "t_pos (accumOf S (ps_assignments (ss_ps s)) rootPkg)" unfolding t_pos_accumOf .
  from positive_decided [OF fin this] obtain v where v: "map_of (decidedPackages s) rootPkg = Some v" by blast
  from decided_facts [OF inv v] have "properVersion S rootPkg v" by metis
  with v show ?thesis by (simp add: properVersion_def)
qed

lemma decided_consistent:
  assumes fin: "finished S P reqs s"
  shows "consistent S P reqs (map_of (decidedPackages s))"
proof -
  have "depsMet S (map_of (decidedPackages s)) (rootDepsOf reqs)"
    using decided_deps [OF fin root_decided [OF fin]] by (simp add: depsFor_def)
  moreover have "\<exists>deps. pr_dependencies P pkg v = Inr deps \<and> depsMet S (map_of (decidedPackages s)) deps"
    if "pkg \<noteq> rootPkg" "map_of (decidedPackages s) pkg = Some v" for pkg v
    using decided_deps [OF fin that(2)] that(1) by (simp add: depsFor_def)
  ultimately show ?thesis using root_decided [OF fin] unfolding consistent_def by blast
qed

text \<open>Root's recorded edges are its requirements.\<close>

lemma root_edges:
  assumes fin: "finished S P reqs s" and c: "map_of (rootDepsOf reqs) dep = Some c"
  shows "dep \<in> set (decidedDependencyNames s rootPkg (rootVersion S))"
proof -
  from fin obtain Sol where inv: "solveInv S P reqs Sol s" by (auto simp: finished_def)
  from decided_facts [OF inv root_decided [OF fin]] have da: "ss_depsAdded s (depsKey rootPkg (rootVersion S))" by metis
  from decided_consistent [OF fin] c obtain vset w where vs: "newVerSet S c = Inr vset" "vsContains S vset w"
    unfolding consistent_def depsMet_def depMet_def by blast
  then have "\<not> vsIsEmpty vset" using isEmpty_contains by blast
  with inv da c vs(1) obtain inc where "inc \<in> set (st_all (ss_store s))"
    "inc_cause inc = CauseDependency (rootVersion S) rootPkg dep c"
    unfolding solveInv_def rootRecorded_def by force
  then show ?thesis by (force simp: decidedDependencyNames_def)
qed

end

section \<open>The result\<close>

definition decidedEdges :: "('e, 'v) solveState \<Rightarrow> (gostring \<times> gostring list) list" where
  "decidedEdges s = map (\<lambda>(pkg, v). (pkg, decidedDependencyNames s pkg v)) (decidedPackages s)"

definition reachedPackages :: "('e, 'v) solveState \<Rightarrow> gostring list" where
  "reachedPackages s = filter (\<lambda>pkg. pkg \<noteq> rootPkg) (reachLoop (decidedEdges s) [] [rootPkg])"

text \<open>What \<^verbatim>\<open>extractResult\<close> returns, in terms of the walk.\<close>

lemma extract_facts:
  fixes s :: "('e, 'v) solveState"
  assumes "extractResult s = Inr r"
  shows "map fst (res_versions r) = reachedPackages s"
    "res_graph r = map (\<lambda>pkg. (pkg, edgesOf (decidedEdges s) pkg)) (reachedPackages s)"
    "\<forall>(pkg, orig) \<in> set (res_versions r). \<exists>v. map_of (decidedPackages s) pkg = Some v \<and> v_original v = orig"
proof -
  let ?f = "\<lambda>pkg. case map_of (decidedPackages s) pkg of
              None \<Rightarrow> Inl (SolverBug (''resolution reaches an undecided package '' @ pkg))
            | Some v \<Rightarrow> (Inr (pkg, v_original v) :: (('e, 'v) solveErr, gostring \<times> gostring) res)"
  from assms obtain vs where vs: "mapE ?f (reachedPackages s) = Inr vs" "res_versions r = vs"
    and g: "res_graph r = map (\<lambda>pkg. (pkg, edgesOf (decidedEdges s) pkg)) (reachedPackages s)"
    unfolding extractResult_def reachedPackages_def decidedEdges_def Let_def bindE_def
    by (auto split: sum.splits)
  have all: "list_all2 (\<lambda>x y. ?f x = Inr y) (reachedPackages s) vs" using vs(1) by (simp add: mapE_Inr_iff)
  show "res_graph r = map (\<lambda>pkg. (pkg, edgesOf (decidedEdges s) pkg)) (reachedPackages s)" by (rule g)
  have fst: "?f x = Inr y \<Longrightarrow> fst y = x \<and> (\<exists>v. map_of (decidedPackages s) x = Some v \<and> v_original v = snd y)" for x y
    by (auto split: option.splits)
  from all have "map fst vs = reachedPackages s"
    by (induction rule: list_all2_induct) (use fst in auto)
  then show "map fst (res_versions r) = reachedPackages s" using vs(2) by simp
  from all have "\<forall>y \<in> set vs. \<exists>v. map_of (decidedPackages s) (fst y) = Some v \<and> v_original v = snd y"
    by (induction rule: list_all2_induct) (use fst in auto)
  then show "\<forall>(pkg, orig) \<in> set (res_versions r). \<exists>v. map_of (decidedPackages s) pkg = Some v \<and> v_original v = orig"
    using vs(2) by auto
qed

lemma set_reachedPackages:
  "set (reachedPackages s) = {q. (rootPkg, q) \<in> (edgeRel (decidedEdges s))\<^sup>* \<and> q \<noteq> rootPkg}"
  unfolding reachedPackages_def set_filter set_reachLoop by auto

lemma map_of_keyed: "map_of (map (\<lambda>(k, v). (k, f k v)) m) x = map_option (f x) (map_of m x)"
  by (induction m) auto

lemma edgesOf_decided:
  "map_of (decidedPackages s) pkg = Some v \<Longrightarrow> edgesOf (decidedEdges s) pkg = decidedDependencyNames s pkg v"
  by (simp add: edgesOf_def decidedEdges_def map_of_keyed)

text \<open>
  A result is resolved by a consistent selection when it lists selected versions, one entry
  per package and every requirement among them, and its graph has an entry per listed
  package, of declared dependencies that are listed themselves.
\<close>

definition resolvedBy :: "'v semver \<Rightarrow> ('e, 'v) provider \<Rightarrow> requirement list \<Rightarrow> 'v selection \<Rightarrow> solveResult \<Rightarrow> bool" where
  "resolvedBy S P reqs \<sigma> r \<longleftrightarrow>
     consistent S P reqs \<sigma> \<and> distinct (map fst (res_versions r)) \<and>
     (\<forall>(pkg, orig) \<in> set (res_versions r). pkg \<noteq> rootPkg \<and> (\<exists>v. \<sigma> pkg = Some v \<and> v_original v = orig)) \<and>
     fst ` set (rootDepsOf reqs) \<subseteq> fst ` set (res_versions r) \<and>
     map fst (res_graph r) = map fst (res_versions r) \<and>
     (\<forall>(pkg, ds) \<in> set (res_graph r). \<forall>d \<in> set ds. d \<in> fst ` set (res_versions r) \<and>
        (\<exists>v deps. \<sigma> pkg = Some v \<and> pr_dependencies P pkg v = Inr deps \<and> d \<in> fst ` set deps))"

lemma decidedDependencyNames_mem:
  assumes "d \<in> set (decidedDependencyNames s pkg v)"
  obtains inc w c where "inc \<in> set (st_all (ss_store s))" "inc_cause inc = CauseDependency w pkg d c"
    "v_original w = v_original v"
proof -
  from assms obtain inc where inc: "inc \<in> set (st_all (ss_store s))"
    "d \<in> set (case inc_cause inc of CauseDependency parentVersion parent dep constraint \<Rightarrow>
         if parent \<noteq> pkg \<or> v_original parentVersion \<noteq> v_original v then [] else [dep] | _ \<Rightarrow> [])"
    unfolding decidedDependencyNames_def set_sort set_concat set_map by blast
  with that show thesis by (cases "inc_cause inc") (auto split: if_splits)
qed

context solver_lib begin

text \<open>A recorded edge is a declared dependency of the decided version.\<close>

lemma edge_declared:
  assumes fin: "finished S P reqs s" and v: "map_of (decidedPackages s) pkg = Some v"
    and d: "d \<in> set (decidedDependencyNames s pkg v)"
  shows "\<exists>deps c. depsFor P reqs pkg v = Inr deps \<and> map_of deps d = Some c"
proof -
  from fin obtain Sol where inv: "solveInv S P reqs Sol s" by (auto simp: finished_def)
  from d obtain inc w c where inc: "inc \<in> set (st_all (ss_store s))" "inc_cause inc = CauseDependency w pkg d c"
    "v_original w = v_original v"
    by (rule decidedDependencyNames_mem)
  with inv have w: "wellParsed S w" "\<exists>deps. depsFor P reqs pkg w = Inr deps \<and> map_of deps d = Some c"
    unfolding solveInv_def causesInv_def by blast+
  have "wellParsed S v" using decided_facts [OF inv v] by metis
  with w(1) inc(3) have "w = v" by (intro wellParsed_inj)
  with w(2) show ?thesis by blast
qed

lemma edge_decided:
  assumes "finished S P reqs s" "map_of (decidedPackages s) pkg = Some v" "d \<in> set (decidedDependencyNames s pkg v)"
  shows "\<exists>w. map_of (decidedPackages s) d = Some w"
  using edge_declared [OF assms] decided_deps [OF assms(1,2)] by (fastforce simp: depsMet_def depMet_def)

lemma reached_decided:
  assumes fin: "finished S P reqs s" and "(rootPkg, q) \<in> (edgeRel (decidedEdges s))\<^sup>*"
  shows "\<exists>v. map_of (decidedPackages s) q = Some v"
  using assms(2)
proof (induction rule: rtrancl_induct)
  case base
  show ?case using root_decided [OF fin] by simp
next
  case (step p q)
  then obtain v where v: "map_of (decidedPackages s) p = Some v" by blast
  from step(2) have "q \<in> set (decidedDependencyNames s p v)" by (simp add: edgeRel_def edgesOf_decided [OF v])
  from edge_decided [OF fin v this] show ?case .
qed

lemma extract_succeeds:
  fixes s :: "('e, 'v) solveState"
  assumes fin: "finished S P reqs s"
  shows "\<exists>r. extractResult s = Inr r"
proof -
  have ok: "\<forall>x \<in> set xs. \<exists>v. m x = Some v \<Longrightarrow> \<exists>ys. mapE (\<lambda>x. case m x of None \<Rightarrow> Inl (f x) | Some v \<Rightarrow> Inr (g x v)) xs = Inr ys"
    for m :: "gostring \<Rightarrow> 'v version option" and f :: "gostring \<Rightarrow> ('e, 'v) solveErr" and g :: "gostring \<Rightarrow> 'v version \<Rightarrow> gostring \<times> gostring" and xs
    by (induction xs) (auto simp: bindE_def)
  have "\<forall>x \<in> set (reachedPackages s). \<exists>v. map_of (decidedPackages s) x = Some v"
    using reached_decided [OF fin] by (auto simp: set_reachedPackages)
  from ok [OF this, of "\<lambda>pkg. SolverBug (''resolution reaches an undecided package '' @ pkg)" "\<lambda>pkg v. (pkg, v_original v)"]
  show ?thesis
    unfolding extractResult_def Let_def reachedPackages_def decidedEdges_def by (auto simp: bindE_def)
qed

lemma finished_result:
  assumes fin: "finished S P reqs s" and names: "plainNames P reqs" and r: "extractResult s = Inr r"
  shows "resolvedBy S P reqs (map_of (decidedPackages s)) r"
  unfolding resolvedBy_def
proof (intro conjI)
  let ?\<sigma> = "map_of (decidedPackages s)"
  note facts = extract_facts [OF r]
  have keys: "fst ` set (res_versions r) = set (reachedPackages s)" using facts(1) by (metis list.set_map)
  have edges: "d \<in> fst ` set (res_versions r) \<and> (\<exists>deps c. depsFor P reqs pkg v = Inr deps \<and> map_of deps d = Some c)"
    if reach: "(rootPkg, pkg) \<in> (edgeRel (decidedEdges s))\<^sup>*" and v: "?\<sigma> pkg = Some v" and d: "d \<in> set (edgesOf (decidedEdges s) pkg)"
    for pkg v d
  proof -
    have dec: "\<exists>deps c. depsFor P reqs pkg v = Inr deps \<and> map_of deps d = Some c"
      using edge_declared [OF fin v] d by (simp add: edgesOf_decided [OF v])
    then have "d \<noteq> rootPkg" using depsFor_names [OF names] by blast
    moreover have "(rootPkg, d) \<in> (edgeRel (decidedEdges s))\<^sup>*"
      using reach d by (simp add: edgeRel_def rtrancl_into_rtrancl)
    ultimately show ?thesis using dec by (simp add: keys set_reachedPackages)
  qed
  show "consistent S P reqs ?\<sigma>" by (rule decided_consistent [OF fin])
  show "distinct (map fst (res_versions r))"
    by (simp add: facts(1) reachedPackages_def distinct_reachLoop)
  show "\<forall>(pkg, orig) \<in> set (res_versions r). pkg \<noteq> rootPkg \<and> (\<exists>v. ?\<sigma> pkg = Some v \<and> v_original v = orig)"
  proof (clarify, intro conjI)
    fix pkg orig assume mem: "(pkg, orig) \<in> set (res_versions r)"
    then have "pkg \<in> set (reachedPackages s)" using keys by force
    then show "pkg \<noteq> rootPkg" by (simp add: set_reachedPackages)
    show "\<exists>v. ?\<sigma> pkg = Some v \<and> v_original v = orig" using bspec [OF facts(3) mem] by simp
  qed
  show "fst ` set (rootDepsOf reqs) \<subseteq> fst ` set (res_versions r)"
  proof
    fix dep assume "dep \<in> fst ` set (rootDepsOf reqs)"
    then obtain c where "map_of (rootDepsOf reqs) dep = Some c" by (metis map_of_eq_None_iff not_None_eq)
    then have "dep \<in> set (edgesOf (decidedEdges s) rootPkg)"
      using root_edges [OF fin] by (simp add: edgesOf_decided [OF root_decided [OF fin]])
    from edges [OF _ root_decided [OF fin] this] show "dep \<in> fst ` set (res_versions r)" by simp
  qed
  show "map fst (res_graph r) = map fst (res_versions r)" by (simp add: facts comp_def)
  show "\<forall>(pkg, ds) \<in> set (res_graph r). \<forall>d \<in> set ds. d \<in> fst ` set (res_versions r) \<and>
      (\<exists>v deps. ?\<sigma> pkg = Some v \<and> pr_dependencies P pkg v = Inr deps \<and> d \<in> fst ` set deps)"
  proof (clarsimp simp del: One_nat_def)
    fix pkg ds d assume g: "(pkg, ds) \<in> set (res_graph r)" and d: "d \<in> set ds"
    then have reach: "(rootPkg, pkg) \<in> (edgeRel (decidedEdges s))\<^sup>*" "pkg \<noteq> rootPkg" "ds = edgesOf (decidedEdges s) pkg"
      by (auto simp: facts(2) set_reachedPackages)
    from reached_decided [OF fin reach(1)] obtain v where v: "?\<sigma> pkg = Some v" by blast
    from edges [OF reach(1) v] d reach(3) obtain deps c where
      "d \<in> fst ` set (res_versions r)" "depsFor P reqs pkg v = Inr deps" "map_of deps d = Some c" by blast
    with v reach(2) show "d \<in> fst ` set (res_versions r) \<and>
        (\<exists>v. ?\<sigma> pkg = Some v \<and> (\<exists>deps. pr_dependencies P pkg v = Inr deps \<and> d \<in> fst ` set deps))"
      by (auto simp: depsFor_def dest!: map_of_SomeD intro: rev_image_eqI)
  qed
qed

lemma solve_resolved:
  assumes "parsedProvider S P" "plainNames P reqs" "solve S limit ctxErr reqs P = Some (Inr r)"
  shows "\<exists>\<sigma>. resolvedBy S P reqs \<sigma> r"
proof -
  have sel: "rootSel S (\<lambda>_. False)" by (simp add: rootSel_def)
  from solve_inv [OF sel solFacts_none assms(2,1,3)] obtain s where "finished S P reqs s" "Inr r = extractResult s" by auto
  with finished_result [OF _ assms(2)] show ?thesis by metis
qed

end

end
