(* ===== verification/Terminate.thy ===== *)
theory Terminate imports Sound begin

text \<open>
  Unit propagation returns: a conflict lowers the decision level, a derivation negates a
  term that was open until then, and a scan that derives nothing drops its package from the
  changed set. Hence the main loop, whose iterations are counted, returns too.
\<close>

section \<open>The measure\<close>

text \<open>The term occurrences of the store whose negation is not entailed yet.\<close>

definition openTerms :: "'v semver \<Rightarrow> ('e, 'v) solveState \<Rightarrow> (nat \<times> 'v solverTerm) set" where
  "openTerms S s = {(i, t). i < length (st_all (ss_store s)) \<and> t \<in> set (inc_terms (st_all (ss_store s) ! i)) \<and>
     \<not> entailed S (ps_assignments (ss_ps s)) (negate t)}"

lemma finite_openTerms: "finite (openTerms S s)"
proof (rule finite_subset)
  show "openTerms S s \<subseteq> Sigma {..<length (st_all (ss_store s))} (\<lambda>i. set (inc_terms (st_all (ss_store s) ! i)))"
    by (auto simp: openTerms_def)
qed simp

lemma popSmallest_shrinks: "ch \<noteq> [] \<Longrightarrow> length (snd (popSmallest ch)) < length ch"
proof -
  assume "ch \<noteq> []"
  then have "foldl min (hd ch) (tl ch) \<in> set ch"
  proof (induction ch rule: list_nonempty_induct)
    case (cons x xs)
    have "foldl min y zs \<in> insert y (set zs)" for y :: gostring and zs
      by (induction zs arbitrary: y) (auto simp: min_def split: if_splits)
    then show ?case by simp
  qed simp
  then show ?thesis
    by (simp add: popSmallest_def Let_def removeAll_filter_not_eq length_filter_less)
qed

definition propOrder :: "((nat \<times> nat \<times> nat) \<times> (nat \<times> nat \<times> nat)) set" where
  "propOrder = less_than <*lex*> less_than <*lex*> less_than"

definition propMeasure :: "'v semver \<Rightarrow> ('e, 'v) solveState \<Rightarrow> gostring list \<Rightarrow> nat \<times> nat \<times> nat" where
  "propMeasure S s ch = (ps_decisions (ss_ps s), card (openTerms S s), length ch)"

lemma wf_propOrder: "wf propOrder"
  by (simp add: propOrder_def wf_lex_prod)

context solver_lib begin

section \<open>A scan makes progress\<close>

lemma openTerms_mono:
  assumes inv: "solveInv S P reqs Sol s" "solveInv S P reqs Sol s'" and der: "derives s s'"
  shows "openTerms S s' \<subseteq> openTerms S s"
proof
  fix x assume x: "x \<in> openTerms S s'"
  obtain i t where it: "x = (i, t)" by fastforce
  have store: "ss_store s' = ss_store s" using der by (simp add: derives_def)
  have ps': "psInv S (ss_ps s')" using inv(2) by (simp add: solveInv_def coreInv_def)
  have i: "i < length (st_all (ss_store s))" "t \<in> set (inc_terms (st_all (ss_store s) ! i))"
    "\<not> entailed S (ps_assignments (ss_ps s')) (negate t)"
    using x it by (auto simp: openTerms_def store)
  then have "wfTerm S (negate t)" using store_sound [OF inv(1) i(1)] by (simp add: soundInc_def)
  with i(3) derives_entailed [OF der ps'] have "\<not> entailed S (ps_assignments (ss_ps s)) (negate t)" by blast
  with i it show "x \<in> openTerms S s" by (simp add: openTerms_def)
qed

lemma deriveOnce_progress:
  assumes inv: "solveInv S P reqs Sol s" and idx: "idx < length (st_all (ss_store s))"
    and rel: "relate S (st_all (ss_store s) ! idx) (ss_ps s) = (IncAlmostSatisfied, Some t)"
    and d: "deriveOnce S s (negate t) idx ch = (s', ch')"
  shows "openTerms S s' \<subset> openTerms S s"
proof -
  note step = scan_step [OF inv idx rel d]
  have ps: "psInv S (ss_ps s)" using inv by (simp add: solveInv_def coreInv_def)
  have r: "relation S t (ss_ps s) = TermInconclusive" using relate_almost [OF rel] by simp
  have wft: "wfTerm S t" using store_sound [OF inv idx] step(4) by (simp add: soundInc_def)
  have "\<not> entailed S (ps_assignments (ss_ps s)) (negate t)"
  proof
    assume e: "entailed S (ps_assignments (ss_ps s)) (negate t)"
    let ?acc = "accumOf S (ps_assignments (ss_ps s)) (t_pkg t)"
    have wfa: "wfTerm S ?acc" by (rule wf_accumOf [OF psInv_wfAll [OF ps]])
    from e r have "relateAccum S ?acc t = TermInconclusive"
      by (auto simp: entailed_def relation_eq [OF ps] split: if_splits)
    from inconclusive_entails(2) [OF wfa wft _ this] e show False by (simp add: entailed_def)
  qed
  then have "(idx, t) \<in> openTerms S s" using idx step(4) by (simp add: openTerms_def)
  moreover have "(idx, t) \<notin> openTerms S s'" using step(3) by (simp add: openTerms_def)
  ultimately show ?thesis using openTerms_mono [OF inv step(1,2)] by blast
qed

lemma scan_progress:
  assumes "solveInv S P reqs Sol s" "\<forall>i \<in> set idxs. i < length (st_all (ss_store s))"
    "scanPackage S idxs s ch = Inr (False, s', ch')"
  shows "derives s s' \<and> (ch' = ch \<and> s' = s \<or> card (openTerms S s') < card (openTerms S s))"
  using assms
proof (induction idxs arbitrary: s ch)
  case Nil
  then show ?case by (simp add: derives_refl)
next
  case (Cons idx idxs)
  note inv = Cons.prems(1) and scan = Cons.prems(3)
  have idx: "idx < length (st_all (ss_store s))" and idxs: "\<forall>i \<in> set idxs. i < length (st_all (ss_store s))"
    using Cons.prems(2) by auto
  obtain r x where rel: "relate S (st_all (ss_store s) ! idx) (ss_ps s) = (r, x)" by fastforce
  show ?case
  proof (cases "r = IncAlmostSatisfied")
    case True
    with rel relate_almost [of S "st_all (ss_store s) ! idx" "ss_ps s" x]
    obtain t where rel': "relate S (st_all (ss_store s) ! idx) (ss_ps s) = (IncAlmostSatisfied, Some t)" by auto
    obtain s1 ch1 where d: "deriveOnce S s (negate t) idx ch = (s1, ch1)" by fastforce
    note step = scan_step [OF inv idx rel' d]
    have less: "card (openTerms S s1) < card (openTerms S s)"
      by (intro psubset_card_mono finite_openTerms deriveOnce_progress [OF inv idx rel' d])
    have "ss_store s1 = ss_store s" using step(2) by (simp add: derives_def)
    then have "derives s1 s' \<and> (ch' = ch1 \<and> s' = s1 \<or> card (openTerms S s') < card (openTerms S s1))"
      using step(1) idxs scan rel' d by (intro Cons.IH) auto
    with less derives_trans [OF step(2)] show ?thesis by auto
  next
    case False
    with scan rel have "scanPackage S idxs s ch = Inr (False, s', ch')"
      by (cases r) (auto simp: bindE_Inr_iff)
    with Cons.IH [OF inv idxs] show ?thesis by blast
  qed
qed

lemma propagatePackage_progress:
  assumes inv: "solveInv S P reqs Sol s" and sel: "rootSel S Sol" and pend: "pendingOnly S P reqs pkg (ss_ps s)"
    and run: "propagatePackage S s pkg ch = Inr (b, s', ch')"
  shows "ps_decisions (ss_ps s') < ps_decisions (ss_ps s) \<or>
    ps_decisions (ss_ps s') = ps_decisions (ss_ps s) \<and>
      (ch' = ch \<and> s' = s \<or> card (openTerms S s') < card (openTerms S s))"
proof -
  let ?idxs = "byPackageNewestFirst (ss_store s) pkg"
  have st: "storeInv S (ss_store s)" using inv by (auto simp: solveInv_def coreInv_def)
  have idxs: "\<forall>i \<in> set ?idxs. i < length (st_all (ss_store s))" using byPackageNewestFirst_iff [OF st] by blast
  have run': "scanPackage S ?idxs s ch = Inr (b, s', ch')" using run by (simp add: propagatePackage_def)
  show ?thesis
  proof (cases b)
    case True
    with scan_post [OF inv sel idxs pend, of ch] run' show ?thesis by (simp add: scanPost_def)
  next
    case False
    with scan_progress [OF inv idxs, of ch s' ch'] run' show ?thesis by (auto simp: derives_def)
  qed
qed

section \<open>The loops return\<close>

lemma propagateLoop_returns:
  assumes "solveInv S P reqs Sol s" "allClosed S P reqs (ss_ps s)" "ps_assignments (ss_ps s) \<noteq> []" "rootSel S Sol"
  shows "propagateLoop S s ch \<noteq> None"
  using assms
proof (induction "propMeasure S s ch" arbitrary: s ch rule: wf_induct_rule [OF wf_propOrder])
  case (1 s ch)
  note inv = 1(2) and closed = 1(3) and ne = 1(4) and sel = 1(5)
  show ?case
  proof (cases "ch = []")
    case True
    then show ?thesis by (simp add: propagateLoop.simps)
  next
    case False
    let ?p = "fst (popSmallest ch)" and ?rest = "snd (popSmallest ch)"
    show ?thesis
    proof (cases "propagatePackage S s ?p ?rest")
      case (Inl e)
      with False show ?thesis by (simp add: propagateLoop.simps [of S s ch])
    next
      case (Inr r)
      obtain b s' ch' where r: "r = (b, s', ch')" by (metis prod_cases3)
      note pend = allClosed_pending [OF closed, of ?p]
      from propagatePackage_inv [OF inv sel pend, of ?rest] ne Inr r
      have inv': "solveInv S P reqs Sol s'" "allClosed S P reqs (ss_ps s')" "ps_assignments (ss_ps s') \<noteq> []" by auto
      have "(propMeasure S s' ch', propMeasure S s ch) \<in> propOrder"
        using propagatePackage_progress [OF inv sel pend, of ?rest b s' ch'] Inr r popSmallest_shrinks [OF False]
        by (auto simp: propOrder_def propMeasure_def)
      from 1(1) [OF this inv' sel] have "propagateLoop S s' ch' \<noteq> None" .
      with False Inr r show ?thesis by (simp add: propagateLoop.simps [of S s ch])
    qed
  qed
qed

lemma unitPropagation_returns:
  assumes inv: "solveInv S P reqs Sol s" and sel: "rootSel S Sol" and pend: "pendingOnly S P reqs pkg (ss_ps s)"
    and ne: "ps_assignments (ss_ps s) \<noteq> [] \<or> pkg = rootPkg"
  shows "unitPropagation S s pkg \<noteq> None"
proof -
  have pop: "popSmallest [pkg] = (pkg, [])" by (simp add: popSmallest_def)
  show ?thesis
  proof (cases "propagatePackage S s pkg []")
    case (Inl e)
    then show ?thesis by (simp add: unitPropagation_def propagateLoop.simps [of S s "[pkg]"] pop)
  next
    case (Inr r)
    obtain b s' ch' where r: "r = (b, s', ch')" by (metis prod_cases3)
    from propagatePackage_inv [OF inv sel pend ne, of "[]"] Inr r
    have "solveInv S P reqs Sol s'" "allClosed S P reqs (ss_ps s')" "ps_assignments (ss_ps s') \<noteq> []" by auto
    from propagateLoop_returns [OF this sel] Inr r show ?thesis
      by (simp add: unitPropagation_def propagateLoop.simps [of S s "[pkg]"] pop)
  qed
qed

lemma solveLoop_returns:
  assumes sel: "rootSel S Sol" and sol: "solFacts S P reqs Sol" and names: "plainNames P reqs" and prov: "parsedProvider S P"
    and "solveInv S P reqs Sol s" "pendingOnly S P reqs nxt (ss_ps s)" "ps_assignments (ss_ps s) \<noteq> [] \<or> nxt = rootPkg"
  shows "solveLoop S limit ctxErr fuel s nxt \<noteq> None"
  using assms(5-)
proof (induction "nat (limit + 1 - fuel)" arbitrary: fuel s nxt rule: less_induct)
  case less
  show ?case
  proof (cases "limit < fuel \<or> ctxErr fuel \<noteq> None")
    case True
    then show ?thesis by (auto simp: solveLoop.simps [of S limit ctxErr fuel s nxt])
  next
    case False
    then have lt: "\<not> limit < fuel" "ctxErr fuel = None" by auto
    from unitPropagation_returns [OF less.prems(1) sel less.prems(2,3)] obtain r1
      where r1: "unitPropagation S s nxt = Some r1" by auto
    have post: "loopPost S Sol P reqs r1"
      using unitPropagation_inv [OF solver_lib_axioms sel less.prems(1-3) r1] .
    show ?thesis
    proof (cases r1)
      case (Inl e)
      with r1 lt show ?thesis by (simp add: solveLoop.simps [of S limit ctxErr fuel s nxt])
    next
      case (Inr s1)
      with post have s1: "solveInv S P reqs Sol s1" "allClosed S P reqs (ss_ps s1)" "ps_assignments (ss_ps s1) \<noteq> []"
        by (auto simp: loopPost_def)
      note dec = makeDecision_inv [OF s1(1,3,2) sol names prov]
      show ?thesis
      proof (cases "makeDecision S s1")
        case (Inl e)
        with r1 Inr lt show ?thesis by (simp add: solveLoop.simps [of S limit ctxErr fuel s nxt])
      next
        case d: (Inr x)
        obtain pkg fin s2 where x: "x = (pkg, fin, s2)" by (metis prod_cases3)
        from dec d x have s2: "solveInv S P reqs Sol s2" "pendingOnly S P reqs pkg (ss_ps s2)" "ps_assignments (ss_ps s2) \<noteq> []"
          by auto
        have "solveLoop S limit ctxErr (fuel + 1) s2 pkg \<noteq> None"
          using less.hyps [of "fuel + 1" s2 pkg] s2 lt by simp
        with r1 Inr lt d x show ?thesis by (simp add: solveLoop.simps [of S limit ctxErr fuel s nxt])
      qed
    qed
  qed
qed

lemma solve_returns:
  assumes names: "plainNames P reqs" and prov: "parsedProvider S P"
  shows "solve S limit ctxErr reqs P \<noteq> None"
proof -
  have sel: "rootSel S (\<lambda>_. False)" by (simp add: rootSel_def)
  show ?thesis
    unfolding solve_start by (rule solveLoop_returns [OF sel solFacts_none names prov start_inv [OF sel]]) simp
qed

end

end
