(* ===== verification/Meaning.thy ===== *)
theory Meaning imports ConstraintSet begin

text \<open>
  What a constraint expression says, stated without intervals: each comparator as a test
  on one version (its precedence against the operand and the release triples), a segment
  as the conjunction of its comparators behind the prerelease gate, an expression as the
  disjunction of its segments. The lemmas prove that the interval sets of \<open>ConstraintSet\<close>
  contain exactly the versions that pass.
\<close>

section \<open>The reference semantics\<close>

text \<open>\<open>sameRow\<close>: one major and one minor number.\<close>

definition sameMajor :: "relBound \<Rightarrow> relBound \<Rightarrow> bool" where
  "sameMajor t u \<longleftrightarrow> rb_major t = rb_major u"

definition sameRow :: "relBound \<Rightarrow> relBound \<Rightarrow> bool" where
  "sameRow t u \<longleftrightarrow> rb_major t = rb_major u \<and> rb_minor t = rb_minor u"

definition rowLess :: "relBound \<Rightarrow> relBound \<Rightarrow> bool" where
  "rowLess t u \<longleftrightarrow> rb_major t < rb_major u \<or> rb_major t = rb_major u \<and> rb_minor t < rb_minor u"

definition tildeMeans :: "'v comparator \<Rightarrow> relBound \<Rightarrow> relBound \<Rightarrow> int \<Rightarrow> bool" where
  "tildeMeans c t u d \<longleftrightarrow> 0 \<le> d \<and>
     (if t = relMin \<and> \<not> c_minorDirty c \<and> \<not> c_patchDirty c then True
      else if c_minorDirty c then sameMajor t u else sameRow t u)"

definition caretMeans :: "'v comparator \<Rightarrow> relBound \<Rightarrow> relBound \<Rightarrow> int \<Rightarrow> bool" where
  "caretMeans c t u d \<longleftrightarrow> 0 \<le> d \<and>
     (if 0 < rb_major t \<or> c_minorDirty c then sameMajor t u
      else if 0 < rb_minor t \<or> c_patchDirty c then sameRow t u else t = u)"

text \<open>
  \<open>t\<close> and \<open>u\<close> are the triples of the operand and of the version, \<open>d\<close> is the version's
  precedence against the operand. A dirty operand (one with a wildcard or a missing part)
  is compared by the parts it has.
\<close>

definition opMeans :: "'v semver \<Rightarrow> 'v comparator \<Rightarrow> 'v version \<Rightarrow> bool" where
  "opMeans S c v =
     (let t = relOf S (c_con c); u = relOf S (v_parsed v); d = sv_compare S (v_parsed v) (c_con c) in
      if c_op c = ''>'' then
        (if c_minorDirty c then rb_major t < rb_major u else if c_patchDirty c then rowLess t u else 0 < d)
      else if c_op c = ''>='' \<or> c_op c = ''=>'' then 0 \<le> d
      else if c_op c = ''<'' then d < 0
      else if c_op c = ''<='' \<or> c_op c = ''=<'' then
        (if c_minorDirty c then rb_major u \<le> rb_major t else if c_patchDirty c then \<not> rowLess t u
         else if fullDirty c then u < RelBound 0 1 0 else d \<le> 0)
      else if c_op c = ''~'' \<or> c_op c = ''~>'' then tildeMeans c t u d
      else if c_op c = [] \<or> c_op c = ''='' then (if c_dirty c then tildeMeans c t u d else d = 0)
      else if c_op c = ''^'' then caretMeans c t u d
      else (if c_minorDirty c then \<not> sameMajor t u
            else if c_patchDirty c then isPre S (v_parsed v) \<or> \<not> sameRow t u else d \<noteq> 0))"

definition segmentMeans :: "'v semver \<Rightarrow> 'v comparator list \<Rightarrow> 'v version \<Rightarrow> bool" where
  "segmentMeans S comps v \<longleftrightarrow> (\<forall>c \<in> set comps. opMeans S c v) \<and>
     (isPre S (v_parsed v) \<longrightarrow> (\<exists>c \<in> set comps. isPre S (c_con c)))"

definition segmentsOf :: "gostring \<Rightarrow> gostring list" where
  "segmentsOf raw = splitStr (vbRewriteRange (normalizeConstraint raw)) ''||''"

definition exprMeans :: "'v semver \<Rightarrow> gostring \<Rightarrow> 'v version \<Rightarrow> bool" where
  "exprMeans S raw v \<longleftrightarrow> normalizeConstraint raw = [] \<or>
     (\<exists>seg \<in> set (segmentsOf raw). \<exists>comps. parseSegment S seg = Inr comps \<and> segmentMeans S comps v)"

text \<open>
  An operand whose minor or patch number is the largest 64-bit integer has no successor
  row: its sets are too large (see \<open>succRel\<close>), so the equivalence excludes it.
\<close>

definition operandFits :: "'v semver \<Rightarrow> 'v comparator \<Rightarrow> bool" where
  "operandFits S c \<longleftrightarrow> sv_minor S (c_con c) \<noteq> maxUint64 \<and> sv_patch S (c_con c) \<noteq> maxUint64"

definition exprFits :: "'v semver \<Rightarrow> gostring \<Rightarrow> bool" where
  "exprFits S raw \<longleftrightarrow>
     (\<forall>seg \<in> set (segmentsOf raw). \<forall>comps. parseSegment S seg = Inr comps \<longrightarrow> (\<forall>c \<in> set comps. operandFits S c))"

section \<open>Every comparator's set is what its operator says\<close>

lemma operandFits_fits: "operandFits S c \<Longrightarrow> isPre S (c_con c) \<or> patchFits S (c_con c)"
  by (simp add: operandFits_def patchFits_def)

lemma rowLess_iff: "t \<le> u \<Longrightarrow> \<not> rowLess t u \<longleftrightarrow> sameRow t u"
  by (auto simp: rowLess_def sameRow_def le_relBound_iff)

lemma major_iff: "t \<le> u \<Longrightarrow> \<not> rb_major t < rb_major u \<longleftrightarrow> sameMajor t u"
  by (auto simp: sameMajor_def le_relBound_iff)

lemma same_not_less: "sameMajor t u \<Longrightarrow> \<not> rb_major t < rb_major u" "sameRow t u \<Longrightarrow> \<not> rowLess t u"
  by (auto simp: sameMajor_def sameRow_def rowLess_def)

lemma nextMinor_fits: "rb_minor t \<noteq> maxUint64 \<Longrightarrow> \<exists>h. nextMinor t = Some h"
  by (simp add: nextMinor_def)

text \<open>The upper bounds, as tests.\<close>

lemma below_nextMinor:
  "rb_minor t \<noteq> maxUint64 \<Longrightarrow> (\<forall>h. nextMinor t = Some h \<longrightarrow> u < h) \<longleftrightarrow> \<not> rowLess t u"
  using nextMinor_fits [of t] nextMinor_le [of t _ u] by (auto simp: rowLess_def not_le [symmetric])

lemma below_nextMajor:
  "(\<forall>h. nextMajor t = Some h \<longrightarrow> u < h) \<longleftrightarrow> \<not> rb_major t < rb_major u"
  using nextMajor_le [of t _ u] nextMajor_None [of t u] by (cases "nextMajor t") (auto simp: not_le [symmetric])

lemma above_nextMajor:
  "(\<exists>h. nextMajor t = Some h \<and> h \<le> u) \<longleftrightarrow> rb_major t < rb_major u"
  using below_nextMajor [of t u] by (auto simp: not_le [symmetric])

lemma above_nextMinor:
  "rb_minor t \<noteq> maxUint64 \<Longrightarrow> (\<exists>h. nextMinor t = Some h \<and> h \<le> u) \<longleftrightarrow> rowLess t u"
  using below_nextMinor [of t u] by (auto simp: not_le [symmetric])

lemma below_succRel:
  "rb_patch t \<noteq> maxUint64 \<Longrightarrow> (\<forall>h. succRel t = Some h \<longrightarrow> u < h) \<longleftrightarrow> u \<le> t"
  using succRel_le [of t _ u] by (auto simp: succRel_def not_le [symmetric])

lemma below_row: "u < RelBound (rb_major t) 0 0 \<longleftrightarrow> rb_major u < rb_major t"
  by (simp add: less_relBound_iff)

context semver_lib begin

lemma d_flip: "0 \<le> sv_compare S v w \<longleftrightarrow> sv_compare S w v \<le> 0" "0 < sv_compare S v w \<longleftrightarrow> sv_compare S w v < 0"
  using pre.nonneg_iff [of v w] cmp_flip [of w v] by (simp_all add: cmpPre_def)

lemma contains_rowUpto:
  "vsContains S (rowUpto S hi) v \<longleftrightarrow> (\<forall>h. hi = Some h \<longrightarrow> relOf S (v_parsed v) < h)"
  by (cases hi; cases "isPre S (v_parsed v)")
    (auto simp: vsContains_def rowUpto_def preUptoFloor_def sem_simps isPre_def preMin_least preFloor_greater)

lemma contains_rowFrom:
  "vsContains S (rowFrom S lo) v \<longleftrightarrow> (\<exists>l. lo = Some l \<and> l \<le> relOf S (v_parsed v))"
  by (cases lo; cases "isPre S (v_parsed v)")
    (auto simp: vsContains_def rowFrom_def sem_simps isPre_def preFloor_le emptyVerSet_def)

text \<open>From the operand up to a row start.\<close>

lemma contains_band:
  assumes "isPre S con \<or> patchFits S con"
  shows "vsContains S (mkVerSet (relRange (relOf S con) hi) (preRange S (preCeil S con) (map_option (preFloor S) hi))) v \<longleftrightarrow>
     sv_compare S con (v_parsed v) \<le> 0 \<and> (\<forall>h. hi = Some h \<longrightarrow> relOf S (v_parsed v) < h)"
proof (cases "isPre S (v_parsed v)")
  case True
  then show ?thesis
    using preCeil_le [OF True assms] by (auto simp: vsContains_def sem_simps isPre_def preFloor_greater)
next
  case False
  then show ?thesis by (simp add: vsContains_def isPre_def sem_simps cmp_release_le)
qed

lemma compare_le_triple: "0 \<le> sv_compare S (v_parsed v) con \<Longrightarrow> relOf S con \<le> relOf S (v_parsed v)"
  using triple_le_of_cmp [of con "v_parsed v"] by (simp add: d_flip less_eq_relBound_def)

text \<open>One lemma per operator.\<close>

lemma contains_tilde:
  assumes "operandFits S c"
  shows "vsContains S (buildTilde S c) v \<longleftrightarrow>
     tildeMeans c (relOf S (c_con c)) (relOf S (v_parsed v)) (sv_compare S (v_parsed v) (c_con c))"
proof -
  have fits: "isPre S (c_con c) \<or> patchFits S (c_con c)" by (rule operandFits_fits [OF assms])
  have minor: "rb_minor (relOf S (c_con c)) \<noteq> maxUint64" using assms by (simp add: operandFits_def relOf_def)
  let ?t = "relOf S (c_con c)" and ?u = "relOf S (v_parsed v)"
  let ?hi = "if c_minorDirty c then nextMajor ?t else nextMinor ?t"
  show ?thesis
  proof (cases "?t = relMin \<and> \<not> c_minorDirty c \<and> \<not> c_patchDirty c")
    case True
    then show ?thesis by (simp add: buildTilde_def tildeMeans_def contains_greaterEqual [OF fits])
  next
    case False
    have eq: "buildTilde S c = mkVerSet (relRange ?t ?hi) (preRange S (preCeil S (c_con c)) (map_option (preFloor S) ?hi))"
      using False by (auto simp: buildTilde_def Let_def)
    show ?thesis
      unfolding eq contains_band [OF fits] using False minor
      by (auto simp: tildeMeans_def below_nextMajor below_nextMinor rowLess_iff major_iff
          d_flip dest: compare_le_triple [unfolded d_flip] same_not_less)
  qed
qed

lemma contains_lessEqual:
  assumes "operandFits S c" "c_minorDirty c \<or> c_patchDirty c \<longrightarrow> c_dirty c"
  shows "vsContains S (buildLessEqual S c) v \<longleftrightarrow>
     (if c_minorDirty c then rb_major (relOf S (v_parsed v)) \<le> rb_major (relOf S (c_con c))
      else if c_patchDirty c then \<not> rowLess (relOf S (c_con c)) (relOf S (v_parsed v))
      else if fullDirty c then relOf S (v_parsed v) < RelBound 0 1 0 else sv_compare S (v_parsed v) (c_con c) \<le> 0)"
proof -
  let ?t = "relOf S (c_con c)" and ?u = "relOf S (v_parsed v)"
  have minor: "rb_minor ?t \<noteq> maxUint64" and patch: "rb_patch ?t \<noteq> maxUint64"
    using assms by (simp_all add: operandFits_def relOf_def)
  have release: "vsContains S (mkVerSet (relUpto (succRel ?t)) (preUptoFloor S (succRel ?t))) v \<longleftrightarrow> ?u \<le> ?t"
    using contains_rowUpto [of "succRel ?t" v] below_succRel [OF patch, of ?u] by (simp add: rowUpto_def)
  have pre: "vsContains S (mkVerSet (relUpto (Some ?t)) (preUpto S (Some (succPre S (stripMeta S (c_con c)))))) v \<longleftrightarrow>
      sv_compare S (v_parsed v) (c_con c) \<le> 0" if p: "isPre S (c_con c)"
  proof (cases "isPre S (v_parsed v)")
    case True
    then show ?thesis
      using succPre_greater [of "stripMeta S (c_con c)" "v_parsed v"] p
      by (simp add: vsContains_def isPre_def sem_simps) (simp add: cmpPre_def)
  next
    case False
    have "sv_compare S (v_parsed v) (c_con c) \<noteq> 0"
      using cmp_eq_release [of "v_parsed v" "c_con c"] False p by (auto simp: isPre_def)
    with False show ?thesis
      using cmp_release_le [of "v_parsed v" "c_con c"] d_flip(1) [of "v_parsed v" "c_con c"]
      by (auto simp: vsContains_def isPre_def sem_simps not_le [symmetric])
  qed
  have point: "sv_compare S (v_parsed v) (c_con c) \<le> 0 \<longleftrightarrow> ?u \<le> ?t" if "\<not> isPre S (c_con c)"
    using cmp_release_le [of "c_con c" "v_parsed v"] that by (simp add: isPre_def)
  show ?thesis
    using below_nextMinor [OF minor, of ?u] below_nextMajor [of ?t ?u] release pre point
    by (auto simp: buildLessEqual_def Let_def contains_rowUpto isPre_def)
qed

lemma contains_caret:
  assumes "operandFits S c"
  shows "vsContains S (buildCaret S c) v \<longleftrightarrow>
     caretMeans c (relOf S (c_con c)) (relOf S (v_parsed v)) (sv_compare S (v_parsed v) (c_con c))"
proof -
  have fits: "isPre S (c_con c) \<or> patchFits S (c_con c)" by (rule operandFits_fits [OF assms])
  let ?t = "relOf S (c_con c)" and ?u = "relOf S (v_parsed v)"
  have minor: "rb_minor ?t \<noteq> maxUint64" and patch: "rb_patch ?t \<noteq> maxUint64"
    using assms by (simp_all add: operandFits_def relOf_def)
  note le = compare_le_triple [unfolded d_flip, of "c_con c" v]
  consider (major) "0 < rb_major ?t \<or> c_minorDirty c" | (minor) "\<not> (0 < rb_major ?t \<or> c_minorDirty c)" "0 < rb_minor ?t \<or> c_patchDirty c"
    | (patch) "\<not> (0 < rb_major ?t \<or> c_minorDirty c)" "\<not> (0 < rb_minor ?t \<or> c_patchDirty c)" by blast
  then show ?thesis
  proof cases
    case major
    then show ?thesis
      using le by (auto simp: buildCaret_def Let_def caretMeans_def contains_band [OF fits] below_nextMajor major_iff d_flip
          dest: same_not_less)
  next
    case minor
    then show ?thesis
      using le \<open>rb_minor ?t \<noteq> maxUint64\<close>
      by (auto simp: buildCaret_def Let_def caretMeans_def contains_band [OF fits] below_nextMinor rowLess_iff d_flip
          dest: same_not_less)
  next
    case patch
    have eq: "buildCaret S c = (if isPre S (c_con c)
       then mkVerSet (relPoint ?t) (preRange S (Some (stripMeta S (c_con c))) (map_option (preFloor S) (succRel ?t)))
       else mkVerSet (relPoint ?t) [])"
      using patch by (simp add: buildCaret_def isPre_def Let_def)
    have below: "(\<forall>h. succRel ?t = Some h \<longrightarrow> ?u < h) \<longleftrightarrow> ?u \<le> ?t"
      by (rule below_succRel [OF \<open>rb_patch ?t \<noteq> maxUint64\<close>])
    have means: "caretMeans c ?t ?u (sv_compare S (v_parsed v) (c_con c)) \<longleftrightarrow>
        sv_compare S (c_con c) (v_parsed v) \<le> 0 \<and> ?t = ?u"
      using patch by (simp add: caretMeans_def d_flip)
    show ?thesis
    proof (cases "isPre S (v_parsed v)")
      case v: True
      show ?thesis
      proof (cases "isPre S (c_con c)")
        case True
        with v below le show ?thesis
          unfolding means eq
          by (auto simp: vsContains_def sem_simps preFloor_greater) (auto simp: cmpPre_def isPre_def)
      next
        case False
        with v have "?t = ?u \<Longrightarrow> \<not> sv_compare S (c_con c) (v_parsed v) \<le> 0"
          using cmp_pre_release(2) [of "v_parsed v" "c_con c"] by (simp add: isPre_def)
        with v False show ?thesis
          unfolding means eq by (auto simp: vsContains_def isPre_def)
      qed
    next
      case False
      then have "sv_compare S (c_con c) (v_parsed v) \<le> 0 \<longleftrightarrow> ?t \<le> ?u"
        by (simp add: isPre_def cmp_release_le)
      with False below show ?thesis
        unfolding means eq by (auto simp: vsContains_def isPre_def relPoint_def sem_simps)
    qed
  qed
qed

lemma contains_notEqual:
  assumes "operandFits S c" "buildNotEqual S c = Inr s"
  shows "vsContains S s v \<longleftrightarrow>
     (if c_minorDirty c then \<not> sameMajor (relOf S (c_con c)) (relOf S (v_parsed v))
      else if c_patchDirty c then isPre S (v_parsed v) \<or> \<not> sameRow (relOf S (c_con c)) (relOf S (v_parsed v))
      else sv_compare S (v_parsed v) (c_con c) \<noteq> 0)"
proof -
  let ?t = "relOf S (c_con c)" and ?u = "relOf S (v_parsed v)"
  have minor: "rb_minor ?t \<noteq> maxUint64" using assms(1) by (simp add: operandFits_def relOf_def)
  consider (major) "c_minorDirty c" | (row) "\<not> c_minorDirty c" "c_patchDirty c"
    | (point) "\<not> c_minorDirty c" "\<not> c_patchDirty c" by blast
  then show ?thesis
  proof cases
    case major
    then have s: "s = vsUnion S (rowUpto S (Some (RelBound (rb_major ?t) 0 0))) (rowFrom S (nextMajor ?t))"
      using assms(2) by (simp add: buildNotEqual_def Let_def)
    with major show ?thesis
      by (simp add: contains_union wf_rowUpto wf_rowFrom contains_rowUpto contains_rowFrom below_row above_nextMajor
          sameMajor_def) auto
  next
    case row
    let ?row = "mkVerSet (relRange (RelBound (rb_major ?t) (rb_minor ?t) 0) (nextMinor ?t)) [] :: 'a verSet"
    have s: "s = vsDifference S (fullVerSet S) ?row"
      using row assms(2) by (simp add: buildNotEqual_def Let_def split: if_splits)
    have wf: "wfVerSet S ?row" by (intro wf_intros canonical_pre_Nil)
    have "RelBound (rb_major ?t) (rb_minor ?t) 0 \<le> ?u \<and> \<not> rowLess ?t ?u \<longleftrightarrow> sameRow ?t ?u"
      by (auto simp: le_relBound_iff rowLess_def sameRow_def)
    then have "vsContains S ?row v \<longleftrightarrow> \<not> isPre S (v_parsed v) \<and> sameRow ?t ?u"
      using below_nextMinor [OF minor, of ?u] by (auto simp: vsContains_def isPre_def sem_simps)
    with row show ?thesis
      by (simp add: s contains_difference wf_full wf contains_full)
  next
    case point
    then have s: "s = vsDifference S (fullVerSet S) (comparatorPoint S (stripMeta S (c_con c)))"
      using assms(2) by (simp add: buildNotEqual_def Let_def)
    have "patchFits S (stripMeta S (c_con c))"
      using assms(1) by (simp add: operandFits_def patchFits_def stripMeta_def)
    with point show ?thesis
      using contains_point [of "stripMeta S (c_con c)" v]
      by (simp add: s contains_difference wf_full wf_point contains_full cmpPre_def [symmetric] pre.eq_iff)
  qed
qed

text \<open>Any comparator; only \<^verbatim>\<open>!=\<close> can be refused.\<close>

lemma comparator_means:
  assumes "operandFits S c" "c_minorDirty c \<or> c_patchDirty c \<longrightarrow> c_dirty c" "buildComparator S c = Inr s"
  shows "vsContains S s v \<longleftrightarrow> opMeans S c v"
proof -
  note fits = operandFits_fits [OF assms(1)]
  have greater: "vsContains S (buildGreater S c) v \<longleftrightarrow>
      (if c_minorDirty c then rb_major (relOf S (c_con c)) < rb_major (relOf S (v_parsed v))
       else if c_patchDirty c then rowLess (relOf S (c_con c)) (relOf S (v_parsed v))
       else 0 < sv_compare S (v_parsed v) (c_con c))"
    using contains_greater [OF fits] assms(1)
    by (simp add: buildGreater_def contains_rowFrom above_nextMajor above_nextMinor operandFits_def relOf_def)
  have equal: "vsContains S (comparatorPoint S (stripMeta S (c_con c))) v \<longleftrightarrow> sv_compare S (v_parsed v) (c_con c) = 0"
    using contains_point [of "stripMeta S (c_con c)" v] assms(1)
    by (simp add: operandFits_def patchFits_def stripMeta_def [of S "c_con c"])
      (simp add: stripMeta_def [symmetric] cmpPre_def [symmetric] pre.eq_iff)
  show ?thesis
    using assms(3) contains_notEqual [OF assms(1), of s v]
    by (auto simp: opMeans_def Let_def buildComparator_def buildEqual_def greater equal contains_greaterEqual [OF fits]
        contains_less [OF fits] contains_lessEqual [OF assms(1,2)] contains_tilde [OF assms(1)] contains_caret [OF assms(1)]
        split: if_splits)
qed

lemma groupLoop_means:
  "buildGroupLoop S hp acc cs = Inr (hp', s) \<Longrightarrow> wfVerSet S acc \<Longrightarrow>
     (\<forall>c \<in> set cs. operandFits S c \<and> (c_minorDirty c \<or> c_patchDirty c \<longrightarrow> c_dirty c)) \<Longrightarrow>
     hp' = (hp \<or> (\<exists>c \<in> set cs. isPre S (c_con c))) \<and>
     (vsContains S s v \<longleftrightarrow> vsContains S acc v \<and> (\<forall>c \<in> set cs. opMeans S c v))"
proof (induction cs arbitrary: hp acc)
  case Nil
  then show ?case by simp
next
  case (Cons c cs)
  from Cons.prems(1) obtain vs where vs: "buildComparator S c = Inr vs"
    and loop: "buildGroupLoop S (hp \<or> sv_prerelease S (c_con c) \<noteq> []) (vsIntersect S acc vs) cs = Inr (hp', s)"
    by (auto simp: bindE_Inr_iff)
  have wf: "wfVerSet S vs" by (rule wf_comparator [OF vs])
  have "vsContains S vs v \<longleftrightarrow> opMeans S c v" using Cons.prems(3) by (intro comparator_means [OF _ _ vs]) auto
  moreover have "\<forall>d \<in> set cs. operandFits S d \<and> (c_minorDirty d \<or> c_patchDirty d \<longrightarrow> c_dirty d)"
    using Cons.prems(3) by simp
  note Cons.IH [OF loop wf_intersect [OF Cons.prems(2) wf] this]
  ultimately show ?case
    by (auto simp: contains_intersect [OF Cons.prems(2) wf] isPre_def)
qed

lemma group_means:
  assumes "buildGroup S comps = Inr s"
    "\<forall>c \<in> set comps. operandFits S c \<and> (c_minorDirty c \<or> c_patchDirty c \<longrightarrow> c_dirty c)"
  shows "vsContains S s v \<longleftrightarrow> segmentMeans S comps v"
proof -
  from assms(1) obtain hp acc where loop: "buildGroupLoop S False (fullVerSet S) comps = Inr (hp, acc)"
    "s = (if hp then acc else acc\<lparr> vs_pre := [] \<rparr>)"
    by (auto simp: buildGroup_def bindE_Inr_iff)
  from groupLoop_means [OF loop(1) wf_full assms(2), of v]
  have "hp = (\<exists>c \<in> set comps. isPre S (c_con c))" "vsContains S acc v \<longleftrightarrow> (\<forall>c \<in> set comps. opMeans S c v)"
    by (auto simp: contains_full)
  then show ?thesis
    unfolding loop(2) segmentMeans_def by (auto simp: vsContains_def isPre_def)
qed

end

text \<open>The flags the parser sets: a part is dirty only on a dirty operand.\<close>

lemma parseComparator_flags:
  "parseComparator S tok = Inr c \<Longrightarrow> c_minorDirty c \<or> c_patchDirty c \<longrightarrow> c_dirty c"
  by (auto simp: parseComparator_def comparatorParts_def split: option.splits sum.splits if_splits)

lemma parseSegment_flags:
  "parseSegment S seg = Inr comps \<Longrightarrow> \<forall>c \<in> set comps. c_minorDirty c \<or> c_patchDirty c \<longrightarrow> c_dirty c"
  by (auto simp: parseSegment_def Let_def mapE_Inr_iff list_all2_conv_all_nth in_set_conv_nth
      split: if_splits) (metis parseComparator_flags)+

context semver_lib begin

lemma segments_mean:
  "buildSegments S raw out lc segs = Inr (s, cs) \<Longrightarrow> wfVerSet S out \<Longrightarrow>
     (\<forall>seg \<in> set segs. \<forall>comps. parseSegment S seg = Inr comps \<longrightarrow> (\<forall>c \<in> set comps. operandFits S c)) \<Longrightarrow>
     vsContains S s v \<longleftrightarrow> vsContains S out v \<or>
       (\<exists>seg \<in> set segs. \<exists>comps. parseSegment S seg = Inr comps \<and> segmentMeans S comps v)"
proof (induction segs arbitrary: out lc)
  case Nil
  then show ?case by simp
next
  case (Cons seg segs)
  from Cons.prems(1) obtain comps grp where seg: "parseSegment S seg = Inr comps" "buildGroup S comps = Inr grp"
    "buildSegments S raw (vsUnion S out grp) comps segs = Inr (s, cs)"
    by (auto simp: bindE_Inr_iff split: sum.splits) (metis obj_sumE)
  have "vsContains S grp v \<longleftrightarrow> segmentMeans S comps v"
    using Cons.prems(3) seg(1) parseSegment_flags [OF seg(1)] by (intro group_means [OF seg(2)]) auto
  moreover have "wfVerSet S (vsUnion S out grp)"
    by (rule wf_union [OF Cons.prems(2) wf_group [OF seg(2)]])
  ultimately show ?case
    using Cons.IH [OF seg(3)] Cons.prems(2,3) seg(1) wf_group [OF seg(2)] by (auto simp: contains_union)
qed

lemma newVerSet_means:
  assumes "newVerSet S raw = Inr s" "exprFits S raw"
  shows "vsContains S s v \<longleftrightarrow> exprMeans S raw v"
proof (cases "normalizeConstraint raw = []")
  case True
  with assms(1) show ?thesis by (auto simp: newVerSet_def exprMeans_def contains_full)
next
  case False
  let ?segs = "segmentsOf raw"
  from assms(1) False obtain out comps where b: "buildSegments S raw emptyVerSet [] ?segs = Inr (out, comps)"
    and s: "s = attachSingleton (out\<lparr> vs_display := normalizeConstraint raw \<rparr>) (if length ?segs = 1 then comps else [])"
    by (auto simp: newVerSet_def Let_def segmentsOf_def bindE_Inr_iff split: sum.splits)
  from segments_mean [OF b wf_empty] assms(2) False show ?thesis
    by (simp add: s exprMeans_def exprFits_def contains_empty)
qed

end

end
