(* ===== verification/Lockfile.thy ===== *)
theory Lockfile imports GoStrings begin

text \<open>
  \<^verbatim>\<open>internal/galaxy/lockfile\<close>: the entries of \<^verbatim>\<open>galaxy.lock\<close>, the canonical form that is
  written and hashed, and the comparison of two files. The comparison of collections and
  of roles share a contract, the locale \<open>keyed_diff\<close>: an entry is identified by its name
  and compared on the rest. The main lemma is the agreement the source asks for: a
  comparison is empty exactly when the canonical forms are equal.
\<close>

section \<open>Data\<close>

record lockEntry =
  en_name :: gostring
  en_type :: gostring
  en_version :: gostring
  en_source :: gostring
  en_downloadURL :: gostring
  en_ref :: gostring
  en_commit :: gostring
  en_subdir :: gostring
  en_sha256 :: gostring
  en_deps :: "gostring list"

record roleEntry =
  ro_name :: gostring
  ro_type :: gostring
  ro_version :: gostring
  ro_galaxy :: gostring
  ro_source :: gostring
  ro_repository :: gostring
  ro_ref :: gostring
  ro_commit :: gostring
  ro_sha256 :: gostring
  ro_deps :: "gostring list"

record lockFile =
  lf_server :: gostring
  lf_collections :: "lockEntry list"
  lf_roles :: "roleEntry list"
  lf_schemaVersion :: int

definition typeGit :: gostring where "typeGit = ''git''"
definition typeURL :: gostring where "typeURL = ''url''"
definition roleTypeGit :: gostring where "roleTypeGit = ''git''"
definition roleTypeURL :: gostring where "roleTypeURL = ''url''"

definition entryIsGit :: "lockEntry \<Rightarrow> bool" where
  "entryIsGit e \<longleftrightarrow> en_type e = typeGit"

definition entryIsURL :: "lockEntry \<Rightarrow> bool" where
  "entryIsURL e \<longleftrightarrow> en_type e = typeURL"

definition entryIsGalaxy :: "lockEntry \<Rightarrow> bool" where
  "entryIsGalaxy e \<longleftrightarrow> en_type e = []"

definition roleIsGit :: "roleEntry \<Rightarrow> bool" where
  "roleIsGit e \<longleftrightarrow> ro_type e = roleTypeGit"

definition roleIsURL :: "roleEntry \<Rightarrow> bool" where
  "roleIsURL e \<longleftrightarrow> ro_type e = roleTypeURL"

definition repositoryURL :: "roleEntry \<Rightarrow> gostring" where
  "repositoryURL e = (if roleIsGit e then ro_source e else ro_repository e)"

section \<open>Schema and canonical form\<close>

definition schemaVersion :: int where "schemaVersion = 1"
definition schemaVersionGit :: int where "schemaVersionGit = 2"
definition schemaVersionRoles :: int where "schemaVersionRoles = 3"
definition schemaVersionURL :: int where "schemaVersionURL = 4"
definition schemaVersionDownloadURL :: int where "schemaVersionDownloadURL = 5"

definition anyURLEntry :: "lockEntry list \<Rightarrow> roleEntry list \<Rightarrow> bool" where
  "anyURLEntry entries roles \<longleftrightarrow> (\<exists>e \<in> set entries. entryIsURL e) \<or> (\<exists>r \<in> set roles. roleIsURL r)"

definition schemaVersionFor :: "lockEntry list \<Rightarrow> roleEntry list \<Rightarrow> int" where
  "schemaVersionFor entries roles =
     (if \<exists>e \<in> set entries. entryIsGalaxy e then schemaVersionDownloadURL
      else if anyURLEntry entries roles then schemaVersionURL
      else if roles \<noteq> [] then schemaVersionRoles
      else if \<exists>e \<in> set entries. entryIsGit e then schemaVersionGit
      else schemaVersion)"

definition canonicalizeRoles :: "roleEntry list \<Rightarrow> roleEntry list" where
  "canonicalizeRoles roles =
     map (\<lambda>r. r\<lparr> ro_deps := sort (ro_deps r) \<rparr>) (sortBy (\<lambda>a b. compareStr (ro_name a) (ro_name b)) roles)"

definition canonicalize :: "lockFile \<Rightarrow> lockFile" where
  "canonicalize f =
     f\<lparr> lf_schemaVersion := schemaVersionFor (lf_collections f) (lf_roles f),
        lf_collections := map (\<lambda>e. e\<lparr> en_deps := sort (en_deps e) \<rparr>)
          (sortBy (\<lambda>a b. compareStr (en_name a) (en_name b)) (lf_collections f)),
        lf_roles := canonicalizeRoles (lf_roles f) \<rparr>"

text \<open>The copies of \<^verbatim>\<open>canonicalClone\<close> keep the receiver unchanged, as a value is here.\<close>

definition canonicalClone :: "lockFile \<Rightarrow> lockFile" where
  "canonicalClone f = canonicalize f"

text \<open>\<open>marshal\<close> and \<open>digest\<close> are the YAML encoder and SHA-256.\<close>

definition fileHash :: "(lockFile \<Rightarrow> 'b) \<Rightarrow> ('b \<Rightarrow> gostring) \<Rightarrow> lockFile \<Rightarrow> gostring" where
  "fileHash marshal digest f = digest (marshal (canonicalClone f))"

section \<open>Comparison\<close>

record fieldChange =
  fc_field :: gostring
  fc_from :: gostring
  fc_to :: gostring

record 'a change =
  ch_from :: 'a
  ch_to :: 'a

record lockDiff =
  df_server :: "fieldChange option"
  df_added :: "lockEntry list"
  df_updated :: "lockEntry change list"
  df_removed :: "lockEntry list"
  df_rolesAdded :: "roleEntry list"
  df_rolesUpdated :: "roleEntry change list"
  df_rolesRemoved :: "roleEntry list"

definition sameDeps :: "gostring list \<Rightarrow> gostring list \<Rightarrow> bool" where
  "sameDeps a b \<longleftrightarrow> (if length a \<noteq> length b then False else if a = b then True else sort a = sort b)"

definition renderDeps :: "gostring list \<Rightarrow> gostring" where
  "renderDeps deps = (if deps = [] then [] else joinStr (sort deps) '','')"

definition sameEntry :: "lockEntry \<Rightarrow> lockEntry \<Rightarrow> bool" where
  "sameEntry a b \<longleftrightarrow>
     en_version a = en_version b \<and> en_source a = en_source b \<and> en_downloadURL a = en_downloadURL b \<and> en_type a = en_type b \<and>
     en_ref a = en_ref b \<and> en_commit a = en_commit b \<and> en_subdir a = en_subdir b \<and>
     en_sha256 a = en_sha256 b \<and> sameDeps (en_deps a) (en_deps b)"

definition sameRoleEntry :: "roleEntry \<Rightarrow> roleEntry \<Rightarrow> bool" where
  "sameRoleEntry a b \<longleftrightarrow>
     ro_type a = ro_type b \<and> ro_version a = ro_version b \<and> ro_galaxy a = ro_galaxy b \<and> ro_source a = ro_source b \<and>
     ro_repository a = ro_repository b \<and> ro_ref a = ro_ref b \<and> ro_commit a = ro_commit b \<and> ro_sha256 a = ro_sha256 b \<and>
     sameDeps (ro_deps a) (ro_deps b)"

definition fieldIf :: "gostring \<Rightarrow> gostring \<Rightarrow> gostring \<Rightarrow> fieldChange list" where
  "fieldIf name a b = (if a \<noteq> b then [\<lparr> fc_field = name, fc_from = a, fc_to = b \<rparr>] else [])"

definition depsField :: "gostring list \<Rightarrow> gostring list \<Rightarrow> fieldChange list" where
  "depsField a b = (if \<not> sameDeps a b then [\<lparr> fc_field = ''deps'', fc_from = renderDeps a, fc_to = renderDeps b \<rparr>] else [])"

definition changeFields :: "lockEntry change \<Rightarrow> fieldChange list" where
  "changeFields c = (let f = ch_from c; t = ch_to c in
     fieldIf ''version'' (en_version f) (en_version t) @
     fieldIf ''source'' (en_source f) (en_source t) @
     fieldIf ''download_url'' (en_downloadURL f) (en_downloadURL t) @
     fieldIf ''type'' (en_type f) (en_type t) @
     fieldIf ''ref'' (en_ref f) (en_ref t) @
     fieldIf ''commit'' (en_commit f) (en_commit t) @
     fieldIf ''subdir'' (en_subdir f) (en_subdir t) @
     fieldIf ''sha256'' (en_sha256 f) (en_sha256 t) @
     depsField (en_deps f) (en_deps t))"

definition roleChangeFields :: "roleEntry change \<Rightarrow> fieldChange list" where
  "roleChangeFields c = (let f = ch_from c; t = ch_to c in
     fieldIf ''type'' (ro_type f) (ro_type t) @
     fieldIf ''version'' (ro_version f) (ro_version t) @
     fieldIf ''galaxy'' (ro_galaxy f) (ro_galaxy t) @
     fieldIf ''source'' (ro_source f) (ro_source t) @
     fieldIf ''repository'' (ro_repository f) (ro_repository t) @
     fieldIf ''ref'' (ro_ref f) (ro_ref t) @
     fieldIf ''commit'' (ro_commit f) (ro_commit t) @
     fieldIf ''sha256'' (ro_sha256 f) (ro_sha256 t) @
     depsField (ro_deps f) (ro_deps t))"

text \<open>A map built by assignment in list order; a \<^verbatim>\<open>nil\<close> file has no entries.\<close>

definition indexByName :: "lockFile option \<Rightarrow> (gostring \<times> lockEntry) list" where
  "indexByName f =
     (case f of None \<Rightarrow> [] | Some f \<Rightarrow> foldl (\<lambda>idx e. AList.update (en_name e) e idx) [] (lf_collections f))"

definition indexRolesByName :: "lockFile option \<Rightarrow> (gostring \<times> roleEntry) list" where
  "indexRolesByName f =
     (case f of None \<Rightarrow> [] | Some f \<Rightarrow> foldl (\<lambda>idx e. AList.update (ro_name e) e idx) [] (lf_roles f))"

definition unionSortedNames :: "(gostring \<times> 'a) list \<Rightarrow> (gostring \<times> 'a) list \<Rightarrow> gostring list" where
  "unionSortedNames beforeIdx afterIdx =
     sort (map fst afterIdx @ filter (\<lambda>n. map_of afterIdx n = None) (map fst beforeIdx))"

text \<open>The loop both diffs run over the union of the names; the accumulators are the result's lists.\<close>

fun diffNames :: "('a \<Rightarrow> 'a \<Rightarrow> bool) \<Rightarrow> (gostring \<times> 'a) list \<Rightarrow> (gostring \<times> 'a) list \<Rightarrow> gostring list \<Rightarrow>
    'a list \<times> 'a change list \<times> 'a list \<Rightarrow> 'a list \<times> 'a change list \<times> 'a list" where
  "diffNames same beforeIdx afterIdx [] acc = acc"
| "diffNames same beforeIdx afterIdx (name # names) (added, updated, removed) =
     diffNames same beforeIdx afterIdx names
       (case (map_of afterIdx name, map_of beforeIdx name) of
          (Some a, None) \<Rightarrow> (added @ [a], updated, removed)
        | (Some a, Some b) \<Rightarrow>
            if \<not> same a b then (added, updated @ [\<lparr> ch_from = b, ch_to = a \<rparr>], removed) else (added, updated, removed)
        | (None, Some b) \<Rightarrow> (added, updated, removed @ [b])
        | (None, None) \<Rightarrow> (added, updated, removed))"

definition diffIndexes :: "(gostring \<times> lockEntry) list \<Rightarrow> (gostring \<times> lockEntry) list \<Rightarrow>
    lockEntry list \<times> lockEntry change list \<times> lockEntry list" where
  "diffIndexes beforeIdx afterIdx = diffNames sameEntry beforeIdx afterIdx (unionSortedNames beforeIdx afterIdx) ([], [], [])"

definition diffRoles :: "(gostring \<times> roleEntry) list \<Rightarrow> (gostring \<times> roleEntry) list \<Rightarrow>
    roleEntry list \<times> roleEntry change list \<times> roleEntry list" where
  "diffRoles beforeIdx afterIdx = diffNames sameRoleEntry beforeIdx afterIdx (unionSortedNames beforeIdx afterIdx) ([], [], [])"

definition serverFieldChange :: "lockFile option \<Rightarrow> lockFile option \<Rightarrow> fieldChange option" where
  "serverFieldChange before after =
     (case (before, after) of
        (Some b, Some a) \<Rightarrow>
          if lf_server b = lf_server a then None
          else Some \<lparr> fc_field = ''server'', fc_from = lf_server b, fc_to = lf_server a \<rparr>
      | _ \<Rightarrow> None)"

definition compareFiles :: "lockFile option \<Rightarrow> lockFile option \<Rightarrow> lockDiff" where
  "compareFiles before after =
     (let (added, updated, removed) = diffIndexes (indexByName before) (indexByName after);
          (rolesAdded, rolesUpdated, rolesRemoved) = diffRoles (indexRolesByName before) (indexRolesByName after)
      in \<lparr> df_server = serverFieldChange before after, df_added = added, df_updated = updated, df_removed = removed,
           df_rolesAdded = rolesAdded, df_rolesUpdated = rolesUpdated, df_rolesRemoved = rolesRemoved \<rparr>)"

definition diffEmpty :: "lockDiff \<Rightarrow> bool" where
  "diffEmpty d \<longleftrightarrow>
     df_server d = None \<and> df_added d = [] \<and> df_updated d = [] \<and> df_removed d = [] \<and>
     df_rolesAdded d = [] \<and> df_rolesUpdated d = [] \<and> df_rolesRemoved d = []"

definition hasRoles :: "lockDiff \<Rightarrow> bool" where
  "hasRoles d \<longleftrightarrow> df_rolesAdded d \<noteq> [] \<or> df_rolesUpdated d \<noteq> [] \<or> df_rolesRemoved d \<noteq> []"

section \<open>The shared contract of both lists\<close>

lemma sameDeps_iff: "sameDeps a b \<longleftrightarrow> sort a = sort b"
  by (metis length_sort sameDeps_def)

lemma map_of_index:
  "distinct (map key xs) \<Longrightarrow>
     map_of (foldl (\<lambda>idx e. AList.update (key e) e idx) [] xs) n = Some x \<longleftrightarrow> x \<in> set xs \<and> key x = n"
  by (induction xs rule: rev_induct) (auto simp: image_iff)

text \<open>The loop's three lists, as filters of the names.\<close>

lemma diffNames_eq:
  "diffNames same B A names (added, updated, removed) =
     (added @ concat (map (\<lambda>n. case (map_of A n, map_of B n) of (Some a, None) \<Rightarrow> [a] | _ \<Rightarrow> []) names),
      updated @ concat (map (\<lambda>n. case (map_of A n, map_of B n) of
          (Some a, Some b) \<Rightarrow> if same a b then [] else [\<lparr> ch_from = b, ch_to = a \<rparr>] | _ \<Rightarrow> []) names),
      removed @ concat (map (\<lambda>n. case (map_of A n, map_of B n) of (None, Some b) \<Rightarrow> [b] | _ \<Rightarrow> []) names))"
  by (induction names arbitrary: added updated removed) (auto split: option.splits)

lemma set_unionSortedNames: "set (unionSortedNames B A) = fst ` set A \<union> fst ` set B"
  by (auto simp: unionSortedNames_def map_of_eq_None_iff)

lemma name_in_union: "n \<in> set (unionSortedNames B A) \<longleftrightarrow> map_of A n \<noteq> None \<or> map_of B n \<noteq> None"
  by (auto simp: set_unionSortedNames map_of_eq_None_iff)

lemma sorted_unionSortedNames: "sorted (unionSortedNames B A)"
  by (simp add: unionSortedNames_def)

lemma diffNames_empty_iff:
  "diffNames same B A (unionSortedNames B A) ([], [], []) = ([], [], []) \<longleftrightarrow>
     (\<forall>n. rel_option same (map_of A n) (map_of B n))"
proof -
  have "rel_option same (map_of A n) (map_of B n) \<longleftrightarrow>
      (n \<in> set (unionSortedNames B A) \<longrightarrow> rel_option same (map_of A n) (map_of B n))" for n
    by (cases "map_of A n"; cases "map_of B n") (auto simp: name_in_union)
  then have "(\<forall>n. rel_option same (map_of A n) (map_of B n)) \<longleftrightarrow>
      (\<forall>n \<in> set (unionSortedNames B A). rel_option same (map_of A n) (map_of B n))" by blast
  moreover have "diffNames same B A names ([], [], []) = ([], [], []) \<longleftrightarrow>
      (\<forall>n \<in> set names. rel_option same (map_of A n) (map_of B n) \<or> map_of A n = None \<and> map_of B n = None)" for names
    unfolding diffNames_eq by (induction names) (auto split: option.splits)
  ultimately show ?thesis by (auto simp: name_in_union)
qed

locale keyed_diff =
  fixes key :: "'a \<Rightarrow> gostring" and canon :: "'a \<Rightarrow> 'a" and same :: "'a \<Rightarrow> 'a \<Rightarrow> bool"
  assumes key_canon: "key (canon x) = key x"
    and same_iff: "key x = key y \<Longrightarrow> same x y \<longleftrightarrow> canon x = canon y"
begin

definition indexOf :: "'a list \<Rightarrow> (gostring \<times> 'a) list" where
  "indexOf xs = foldl (\<lambda>idx e. AList.update (key e) e idx) [] xs"

definition canonList :: "'a list \<Rightarrow> 'a list" where
  "canonList xs = map canon (sortBy (\<lambda>a b. compareStr (key a) (key b)) xs)"

lemma map_of_indexOf:
  "distinct (map key xs) \<Longrightarrow> map_of (indexOf xs) n = Some x \<longleftrightarrow> x \<in> set xs \<and> key x = n"
  unfolding indexOf_def by (rule map_of_index)

lemma map_of_indexOf_None: "distinct (map key xs) \<Longrightarrow> map_of (indexOf xs) n = None \<longleftrightarrow> n \<notin> key ` set xs"
proof -
  assume d: "distinct (map key xs)"
  have "map_of (indexOf xs) n = None \<longleftrightarrow> (\<forall>x. map_of (indexOf xs) n \<noteq> Some x)" by auto
  then show "map_of (indexOf xs) n = None \<longleftrightarrow> n \<notin> key ` set xs" by (auto simp: map_of_indexOf [OF d])
qed

lemma same_indexes_iff:
  assumes "distinct (map key xs)" "distinct (map key ys)"
  shows "(\<forall>n. rel_option same (map_of (indexOf xs) n) (map_of (indexOf ys) n)) \<longleftrightarrow> canon ` set xs = canon ` set ys"
proof
  assume rel: "\<forall>n. rel_option same (map_of (indexOf xs) n) (map_of (indexOf ys) n)"
  have sub: "canon ` set as \<subseteq> canon ` set bs"
    if d: "distinct (map key as)" "distinct (map key bs)"
      and r: "\<And>n. rel_option (\<lambda>a b. canon a = canon b) (map_of (indexOf as) n) (map_of (indexOf bs) n)" for as bs
  proof
    fix c assume "c \<in> canon ` set as"
    then obtain a where a: "a \<in> set as" "c = canon a" by blast
    then have "map_of (indexOf as) (key a) = Some a" using map_of_indexOf [OF d(1)] by simp
    with r [of "key a"] obtain b where "map_of (indexOf bs) (key a) = Some b" "canon a = canon b"
      by (auto simp: option_rel_Some1)
    then show "c \<in> canon ` set bs" using a(2) map_of_indexOf [OF d(2)] by blast
  qed
  have eq: "rel_option (\<lambda>a b. canon a = canon b) (map_of (indexOf xs) n) (map_of (indexOf ys) n)" for n
  proof (cases "map_of (indexOf xs) n")
    case None
    with rel show ?thesis by (metis option.rel_sel)
  next
    case (Some x)
    with rel obtain y where y: "map_of (indexOf ys) n = Some y" "same x y" by (metis option_rel_Some1)
    then have "key x = key y" using Some map_of_indexOf assms by metis
    with y Some same_iff show ?thesis by simp
  qed
  then have "rel_option (\<lambda>a b. canon a = canon b) (map_of (indexOf ys) n) (map_of (indexOf xs) n)" for n
    using eq [of n] by (auto simp: option.rel_sel)
  with eq sub assms show "canon ` set xs = canon ` set ys" by (intro equalityI) auto
next
  assume eq: "canon ` set xs = canon ` set ys"
  have half: "\<exists>b \<in> set bs. key b = key a \<and> canon b = canon a" if "a \<in> set as" "canon ` set as \<subseteq> canon ` set bs" for a as bs
  proof -
    from that obtain b where "b \<in> set bs" "canon b = canon a" by (metis image_iff subsetD)
    then show ?thesis using key_canon by metis
  qed
  show "\<forall>n. rel_option same (map_of (indexOf xs) n) (map_of (indexOf ys) n)"
  proof
    fix n
    show "rel_option same (map_of (indexOf xs) n) (map_of (indexOf ys) n)"
    proof (cases "map_of (indexOf xs) n")
      case None
      then have "n \<notin> key ` set ys"
        using half [of _ ys xs] eq map_of_indexOf_None [OF assms(1)] by fastforce
      with None show ?thesis using map_of_indexOf_None [OF assms(2)] by simp
    next
      case (Some x)
      then have x: "x \<in> set xs" "key x = n" using map_of_indexOf [OF assms(1)] by auto
      with half [of x xs ys] eq obtain y where y: "y \<in> set ys" "key y = n" "canon y = canon x" by auto
      then have "map_of (indexOf ys) n = Some y" using map_of_indexOf [OF assms(2)] by simp
      with Some x y same_iff [of x y] show ?thesis by simp
    qed
  qed
qed

lemma key_canonList: "map key (canonList xs) = map key (sortBy (\<lambda>a b. compareStr (key a) (key b)) xs)"
  by (simp add: canonList_def key_canon)

lemma sorted_keys: "sorted (map key (canonList xs))"
  using sorted_sortBy [OF totalCmp_key [of key], of xs]
  by (simp add: key_canonList sorted_map compareStr_le)

lemma set_canonList: "set (canonList xs) = canon ` set xs"
  by (simp add: canonList_def)

lemma canonList_eq_iff:
  assumes "distinct (map key xs)" "distinct (map key ys)"
  shows "canonList xs = canonList ys \<longleftrightarrow> canon ` set xs = canon ` set ys"
proof
  assume eq: "canon ` set xs = canon ` set ys"
  have dist: "distinct (map key (canonList xs))" "distinct (map key (canonList ys))"
    using assms by (simp_all add: key_canonList)
  have "map key (canonList xs) = map key (canonList ys)"
    using eq dist by (intro sorted_distinct_set_unique sorted_keys) (simp_all add: set_canonList)
  moreover have "inj_on key (set (canonList xs) \<union> set (canonList ys))"
    using dist(1) eq by (simp add: set_canonList distinct_map)
  ultimately show "canonList xs = canonList ys" by (rule map_inj_on)
qed (metis set_canonList)

theorem empty_iff:
  assumes "distinct (map key xs)" "distinct (map key ys)"
  shows "diffNames same (indexOf xs) (indexOf ys) (unionSortedNames (indexOf xs) (indexOf ys)) ([], [], []) = ([], [], []) \<longleftrightarrow>
    canonList xs = canonList ys"
proof -
  have "(\<forall>n. rel_option same (map_of (indexOf ys) n) (map_of (indexOf xs) n)) \<longleftrightarrow> canon ` set ys = canon ` set xs"
    by (rule same_indexes_iff [OF assms(2,1)])
  then show ?thesis unfolding diffNames_empty_iff canonList_eq_iff [OF assms] by auto
qed

end

section \<open>Both lists of a lock file\<close>

interpretation entries: keyed_diff en_name "\<lambda>e. e\<lparr> en_deps := sort (en_deps e) \<rparr>" sameEntry
proof unfold_locales
  show "sameEntry x y \<longleftrightarrow> x\<lparr> en_deps := sort (en_deps x) \<rparr> = y\<lparr> en_deps := sort (en_deps y) \<rparr>"
    if "en_name x = en_name y" for x y
    using that by (cases x; cases y) (auto simp: sameEntry_def sameDeps_iff)
qed simp

interpretation roles: keyed_diff ro_name "\<lambda>r. r\<lparr> ro_deps := sort (ro_deps r) \<rparr>" sameRoleEntry
proof unfold_locales
  show "sameRoleEntry x y \<longleftrightarrow> x\<lparr> ro_deps := sort (ro_deps x) \<rparr> = y\<lparr> ro_deps := sort (ro_deps y) \<rparr>"
    if "ro_name x = ro_name y" for x y
    using that by (cases x; cases y) (auto simp: sameRoleEntry_def sameDeps_iff)
qed simp

text \<open>A lock file's names are unique once it is validated; then the index has every entry.\<close>

definition namedOnce :: "lockFile \<Rightarrow> bool" where
  "namedOnce f \<longleftrightarrow> distinct (map en_name (lf_collections f)) \<and> distinct (map ro_name (lf_roles f))"

lemma index_simps:
  "indexByName (Some f) = entries.indexOf (lf_collections f)" "indexRolesByName (Some f) = roles.indexOf (lf_roles f)"
  by (simp_all add: indexByName_def indexRolesByName_def entries.indexOf_def roles.indexOf_def)

lemma canonicalize_sel:
  "lf_server (canonicalClone f) = lf_server f" "lf_collections (canonicalClone f) = entries.canonList (lf_collections f)"
  "lf_roles (canonicalClone f) = roles.canonList (lf_roles f)"
  "lf_schemaVersion (canonicalClone f) = schemaVersionFor (lf_collections f) (lf_roles f)"
  by (simp_all add: canonicalClone_def canonicalize_def canonicalizeRoles_def entries.canonList_def roles.canonList_def)

text \<open>The schema depends on the entries' types only, which the canonical form keeps.\<close>

lemma schema_canonList:
  "schemaVersionFor (entries.canonList es) (roles.canonList rs) = schemaVersionFor es rs"
  by (simp add: schemaVersionFor_def anyURLEntry_def entryIsGalaxy_def entryIsURL_def entryIsGit_def roleIsURL_def
      entries.set_canonList roles.set_canonList) (simp add: roles.canonList_def sortBy_empty_iff)

lemma compare_empty_iff:
  assumes "namedOnce a" "namedOnce b"
  shows "diffEmpty (compareFiles (Some a) (Some b)) \<longleftrightarrow> canonicalClone a = canonicalClone b"
proof -
  have "diffEmpty (compareFiles (Some a) (Some b)) \<longleftrightarrow>
      lf_server a = lf_server b \<and>
      diffIndexes (indexByName (Some a)) (indexByName (Some b)) = ([], [], []) \<and>
      diffRoles (indexRolesByName (Some a)) (indexRolesByName (Some b)) = ([], [], [])"
    by (auto simp: diffEmpty_def compareFiles_def serverFieldChange_def split: prod.splits)
  also have "\<dots> \<longleftrightarrow> lf_server a = lf_server b \<and> entries.canonList (lf_collections a) = entries.canonList (lf_collections b) \<and>
      roles.canonList (lf_roles a) = roles.canonList (lf_roles b)"
    using assms unfolding namedOnce_def index_simps diffIndexes_def diffRoles_def
    by (simp add: entries.empty_iff roles.empty_iff)
  also have "\<dots> \<longleftrightarrow> canonicalClone a = canonicalClone b"
  proof
    assume h: "lf_server a = lf_server b \<and> entries.canonList (lf_collections a) = entries.canonList (lf_collections b) \<and>
      roles.canonList (lf_roles a) = roles.canonList (lf_roles b)"
    then have "schemaVersionFor (lf_collections a) (lf_roles a) = schemaVersionFor (lf_collections b) (lf_roles b)"
      using schema_canonList [of "lf_collections a" "lf_roles a"] schema_canonList [of "lf_collections b" "lf_roles b"]
      by simp
    with h show "canonicalClone a = canonicalClone b"
      by (intro lockFile.equality) (simp_all add: canonicalize_sel)
  next
    assume "canonicalClone a = canonicalClone b"
    then show "lf_server a = lf_server b \<and> entries.canonList (lf_collections a) = entries.canonList (lf_collections b) \<and>
      roles.canonList (lf_roles a) = roles.canonList (lf_roles b)"
      by (metis canonicalize_sel)
  qed
  finally show ?thesis .
qed

text \<open>Canonical files are fixed points, so saving one twice writes the same bytes.\<close>

lemma canonicalClone_idem: "namedOnce f \<Longrightarrow> canonicalClone (canonicalClone f) = canonicalClone f"
proof -
  assume n: "namedOnce f"
  have "namedOnce (canonicalClone f)"
    using n by (simp add: namedOnce_def canonicalize_sel entries.key_canonList roles.key_canonList)
  with n have e: "entries.canonList (entries.canonList (lf_collections f)) = entries.canonList (lf_collections f)"
    "roles.canonList (roles.canonList (lf_roles f)) = roles.canonList (lf_roles f)"
    by (simp_all add: namedOnce_def canonicalize_sel entries.canonList_eq_iff roles.canonList_eq_iff
        entries.set_canonList roles.set_canonList image_image sorted_sort_id)
  show ?thesis by (rule lockFile.equality) (simp_all add: canonicalize_sel schema_canonList e)
qed

lemma changeFields_empty_iff: "changeFields c = [] \<longleftrightarrow> sameEntry (ch_from c) (ch_to c)"
  by (auto simp: changeFields_def sameEntry_def Let_def fieldIf_def depsField_def)

lemma roleChangeFields_empty_iff: "roleChangeFields c = [] \<longleftrightarrow> sameRoleEntry (ch_from c) (ch_to c)"
  by (auto simp: roleChangeFields_def sameRoleEntry_def Let_def fieldIf_def depsField_def)

text \<open>Every updated entry of a comparison has a field to show, and keeps its name.\<close>

lemma updated_facts:
  assumes "c \<in> set (df_updated (compareFiles before after))"
  shows "changeFields c \<noteq> []"
    "ch_from c \<in> snd ` set (indexByName before)" "ch_to c \<in> snd ` set (indexByName after)"
proof -
  let ?A = "indexByName after" and ?B = "indexByName before"
  have "df_updated (compareFiles before after) = fst (snd (diffIndexes ?B ?A))"
    by (simp add: compareFiles_def split: prod.split)
  with assms obtain n where "c \<in> set (case (map_of ?A n, map_of ?B n) of
      (Some a, Some b) \<Rightarrow> if sameEntry a b then [] else [\<lparr> ch_from = b, ch_to = a \<rparr>] | _ \<Rightarrow> [])"
    unfolding diffIndexes_def diffNames_eq by auto
  then obtain a b where n: "map_of ?A n = Some a" "map_of ?B n = Some b" "\<not> sameEntry a b" "c = \<lparr> ch_from = b, ch_to = a \<rparr>"
    by (cases "map_of ?A n"; cases "map_of ?B n") (auto split: if_splits)
  have "\<not> sameEntry b a" using n(3) by (auto simp: sameEntry_def sameDeps_iff)
  with n(4) show "changeFields c \<noteq> []" by (simp add: changeFields_empty_iff)
  show "ch_from c \<in> snd ` set (indexByName before)" "ch_to c \<in> snd ` set (indexByName after)"
    using n map_of_SomeD by force+
qed

text \<open>
  What each list of a comparison holds: what is only after, what is only before, and the
  pairs of one name that differ.
\<close>

lemma added_mem:
  "x \<in> set (concat (map (\<lambda>n. case (f n, g n) of (Some a, None) \<Rightarrow> [a] | _ \<Rightarrow> []) ns)) \<longleftrightarrow>
     (\<exists>n \<in> set ns. f n = Some x \<and> g n = None)"
  by (induction ns) (auto split: option.splits)

lemma removed_mem:
  "x \<in> set (concat (map (\<lambda>n. case (f n, g n) of (None, Some b) \<Rightarrow> [b] | _ \<Rightarrow> []) ns)) \<longleftrightarrow>
     (\<exists>n \<in> set ns. f n = None \<and> g n = Some x)"
  by (induction ns) (auto split: option.splits)

lemma updated_mem:
  "c \<in> set (concat (map (\<lambda>n. case (f n, g n) of
       (Some a, Some b) \<Rightarrow> if same a b then [] else [\<lparr> ch_from = b, ch_to = a \<rparr>] | _ \<Rightarrow> []) ns)) \<longleftrightarrow>
     (\<exists>n \<in> set ns. f n = Some (ch_to c) \<and> g n = Some (ch_from c) \<and> \<not> same (ch_to c) (ch_from c))"
proof (induction ns)
  case Nil
  then show ?case by simp
next
  case (Cons n ns)
  then show ?case by (cases c; cases "f n"; cases "g n") auto
qed

lemma diffNames_sets:
  assumes d: "diffNames same B A (unionSortedNames B A) ([], [], []) = (added, updated, removed)"
    and A: "\<And>n x. map_of A n = Some x \<longleftrightarrow> x \<in> as \<and> key x = n" and B: "\<And>n x. map_of B n = Some x \<longleftrightarrow> x \<in> bs \<and> key x = n"
  shows "set added = {a \<in> as. key a \<notin> key ` bs}" "set removed = {b \<in> bs. key b \<notin> key ` as}"
    "set updated = {c. ch_from c \<in> bs \<and> ch_to c \<in> as \<and> key (ch_from c) = key (ch_to c) \<and> \<not> same (ch_to c) (ch_from c)}"
proof -
  have noA: "map_of A n = None \<longleftrightarrow> n \<notin> key ` as" for n
  proof -
    have "map_of A n = None \<longleftrightarrow> (\<forall>x. map_of A n \<noteq> Some x)" by auto
    then show ?thesis unfolding A by auto
  qed
  have noB: "map_of B n = None \<longleftrightarrow> n \<notin> key ` bs" for n
  proof -
    have "map_of B n = None \<longleftrightarrow> (\<forall>x. map_of B n \<noteq> Some x)" by auto
    then show ?thesis unfolding B by auto
  qed
  have parts: "added = concat (map (\<lambda>n. case (map_of A n, map_of B n) of (Some a, None) \<Rightarrow> [a] | _ \<Rightarrow> []) (unionSortedNames B A))"
    "removed = concat (map (\<lambda>n. case (map_of A n, map_of B n) of (None, Some b) \<Rightarrow> [b] | _ \<Rightarrow> []) (unionSortedNames B A))"
    "updated = concat (map (\<lambda>n. case (map_of A n, map_of B n) of
       (Some a, Some b) \<Rightarrow> if same a b then [] else [\<lparr> ch_from = b, ch_to = a \<rparr>] | _ \<Rightarrow> []) (unionSortedNames B A))"
    using d unfolding diffNames_eq by simp_all
  note add = added_mem [where f = "map_of A" and g = "map_of B" and ns = "unionSortedNames B A", folded parts]
    and rem = removed_mem [where f = "map_of A" and g = "map_of B" and ns = "unionSortedNames B A", folded parts]
    and upd = updated_mem [where f = "map_of A" and g = "map_of B" and same = same and ns = "unionSortedNames B A", folded parts]
  show "set added = {a \<in> as. key a \<notin> key ` bs}" unfolding set_eq_iff add noB A by (auto simp: name_in_union A)
  show "set removed = {b \<in> bs. key b \<notin> key ` as}" unfolding set_eq_iff rem noA B by (auto simp: name_in_union B)
  show "set updated = {c. ch_from c \<in> bs \<and> ch_to c \<in> as \<and> key (ch_from c) = key (ch_to c) \<and> \<not> same (ch_to c) (ch_from c)}"
    unfolding set_eq_iff upd A B by (auto simp: name_in_union A)
qed

end
