(* ===== verification/Scenarios.thy ===== *)
theory Scenarios imports Extract Terminate Meaning Lockfile begin

text \<open>
  One concrete solve, on which the hypotheses of the solver's properties are met: the
  SemVer 2.0 library of \<open>Semver\<close>, a provider with a single collection \<^verbatim>\<open>a\<close> published at
  1.0.0 without dependencies, a requirement it satisfies and one it cannot.
\<close>

definition demoLib :: "version20 semver" where
  "demoLib = semver20 (\<lambda>_. True)"

definition demoVersion :: "gostring \<Rightarrow> version20 version" where
  "demoVersion s = projr (newVersion demoLib s)"

definition demoProvider :: "(gostring, version20) provider" where
  "demoProvider =
     \<lparr> pr_highest = (\<lambda>_. Inr None),
       pr_universe = (\<lambda>pkg. if pkg = ''a'' then Inr [demoVersion ''1.0.0''] else Inr []),
       pr_dependencies = (\<lambda>pkg v. if pkg = ''a'' \<and> v = demoVersion ''1.0.0'' then Inr [] else Inl ''unknown'') \<rparr>"

definition demoReqs :: "requirement list" where
  "demoReqs = [\<lparr> rq_package = ''a'', rq_constraint = ''*'' \<rparr>]"

definition demoBadReqs :: "requirement list" where
  "demoBadReqs = [\<lparr> rq_package = ''a'', rq_constraint = ''>1'' \<rparr>]"

lemma demo_lib: "solver_lib demoLib" "semver_lib demoLib"
  unfolding demoLib_def by (rule solver20.solver_lib_axioms semver20.semver_lib_axioms)+

lemma demo_parsed_version: "newVersion demoLib ''1.0.0'' = Inr (demoVersion ''1.0.0'')"
  by code_simp

lemma demo_original: "v_original (demoVersion ''1.0.0'') = ''1.0.0''"
  by code_simp

lemma demo_wellParsed: "wellParsed demoLib (demoVersion ''1.0.0'')"
  by (simp add: wellParsed_def demo_original demo_parsed_version)

lemma demo_fits: "versionFits demoLib (demoVersion ''1.0.0'')"
  by code_simp

lemma demo_contract:
  "parsedProvider demoLib demoProvider" "depsByPoint demoLib demoProvider"
  by (auto simp: parsedProvider_def depsByPoint_def demoProvider_def demo_wellParsed demo_fits split: if_splits)

lemma demo_names: "plainNames demoProvider demoReqs" "plainNames demoProvider demoBadReqs"
  by (auto simp: plainNames_def demoProvider_def demoReqs_def demoBadReqs_def rootDepsOf_def rootPkg_def
        split: if_splits)

lemma demo_solved:
  "solve demoLib fuelLimit (\<lambda>_. None) demoReqs demoProvider =
     Some (Inr \<lparr> res_versions = [(''a'', ''1.0.0'')], res_graph = [(''a'', [])] \<rparr>)"
  by code_simp

definition isTerminalConflict :: "('e, 'v) solveErr + 'a \<Rightarrow> bool" where
  "isTerminalConflict r = (case r of Inl (ConflictError inc ls hs) \<Rightarrow> isTerminal inc | _ \<Rightarrow> False)"

lemma isTerminalConflict_iff:
  "isTerminalConflict r \<longleftrightarrow> (\<exists>inc ls hs. r = Inl (ConflictError inc ls hs) \<and> isTerminal inc)"
  by (auto simp: isTerminalConflict_def split: sum.splits solveErr.splits)

lemma demo_conflict_eval:
  "(case solve demoLib fuelLimit (\<lambda>_. None) demoBadReqs demoProvider of
      Some r \<Rightarrow> isTerminalConflict r | None \<Rightarrow> False)"
  by code_simp

lemma demo_conflict:
  "\<exists>inc ls hs. solve demoLib fuelLimit (\<lambda>_. None) demoBadReqs demoProvider = Some (Inl (ConflictError inc ls hs)) \<and>
     isTerminal inc"
  using demo_conflict_eval by (auto simp: isTerminalConflict_iff split: option.splits)

text \<open>Well-formed sets and terms over the concrete library.\<close>

abbreviation demoV :: "version20 version" where
  "demoV \<equiv> demoVersion ''1.0.0''"

definition demoPoint :: "version20 verSet" where
  "demoPoint = singletonVerSet demoLib demoV"

definition demoAll :: "version20 verSet" where
  "demoAll = fullVerSet demoLib"

lemma demo_wf [simp]: "wfVerSet demoLib demoPoint" "wfVerSet demoLib demoAll" "wfVerSet demoLib emptyVerSet"
  unfolding demoPoint_def demoAll_def
  by (rule semver_lib.wf_singleton [OF demo_lib(2) demo_wellParsed] semver_lib.wf_full [OF demo_lib(2)]
      semver_lib.wf_empty [OF demo_lib(2)])+

lemma demo_contains [simp]:
  "vsContains demoLib demoPoint demoV" "vsContains demoLib demoAll v" "\<not> vsContains demoLib emptyVerSet v"
  using demo_lib(2)
  by (simp_all add: demoPoint_def demoAll_def semver_lib.singleton_self semver_lib.contains_full semver_lib.contains_empty)

section \<open>The states of the solve, one step at a time\<close>

abbreviation demoSol :: "version20 selection \<Rightarrow> bool" where
  "demoSol \<equiv> \<lambda>\<sigma>. consistent demoLib demoProvider demoReqs \<sigma> \<and> published demoProvider \<sigma>"

definition demoStart :: "(gostring, version20) solveState" where
  "demoStart = startState demoLib demoReqs demoProvider"

definition demoPropagated :: "(gostring, version20) solveState" where
  "demoPropagated = (case unitPropagation demoLib demoStart rootPkg of Some (Inr s) \<Rightarrow> s | _ \<Rightarrow> demoStart)"

definition demoDecided :: "(gostring, version20) solveState" where
  "demoDecided = (case makeDecision demoLib demoPropagated of Inr (pkg, done, s) \<Rightarrow> s | _ \<Rightarrow> demoPropagated)"

lemma demo_propagation_eval:
  "(case unitPropagation demoLib demoStart rootPkg of Some (Inr s) \<Rightarrow> ps_assignments (ss_ps s) \<noteq> [] | _ \<Rightarrow> False)"
  by code_simp

lemma demo_propagation: "unitPropagation demoLib demoStart rootPkg = Some (Inr demoPropagated)"
  using demo_propagation_eval by (simp add: demoPropagated_def split: option.splits sum.splits)

lemma demo_decision_eval:
  "(case makeDecision demoLib demoPropagated of
      Inr (pkg, done, s) \<Rightarrow> pkg = rootPkg \<and> \<not> done \<and> length (st_all (ss_store s)) = 2 \<and>
        ps_decisions (ss_ps s) = 0 \<and> length (ps_assignments (ss_ps s)) = 2
    | _ \<Rightarrow> False)"
  by code_simp

lemma demo_decision: "makeDecision demoLib demoPropagated = Inr (rootPkg, False, demoDecided)"
  and demo_decided_store: "length (st_all (ss_store demoDecided)) = 2"
  using demo_decision_eval by (auto simp: demoDecided_def split: sum.splits prod.splits)

lemma demo_solFacts: "solFacts demoLib demoProvider demoReqs demoSol"
  by (rule solver_lib.solFacts_solutions [OF demo_lib(1) demo_contract])

lemma demo_sel: "rootSel demoLib demoSol"
  using demo_solFacts by (simp add: solFacts_def)

lemma demo_start_inv:
  "solveInv demoLib demoProvider demoReqs demoSol demoStart" "pendingOnly demoLib demoProvider demoReqs rootPkg (ss_ps demoStart)"
  unfolding demoStart_def by (rule solver_lib.start_inv [OF demo_lib(1) demo_sel])+

lemma demo_propagated_inv:
  "solveInv demoLib demoProvider demoReqs demoSol demoPropagated" "allClosed demoLib demoProvider demoReqs (ss_ps demoPropagated)"
  "ps_assignments (ss_ps demoPropagated) \<noteq> []"
  using unitPropagation_inv [OF demo_lib(1) demo_sel demo_start_inv disjI2 [OF refl] demo_propagation]
  by (simp_all add: loopPost_def)

lemma demo_decided_inv:
  "solveInv demoLib demoProvider demoReqs demoSol demoDecided" "ps_assignments (ss_ps demoDecided) \<noteq> []"
  using solver_lib.makeDecision_inv [OF demo_lib(1) demo_propagated_inv(1,3,2) demo_solFacts demo_names(1) demo_contract(1)]
  by (simp_all add: demo_decision)

section \<open>A constraint and a version without a successor\<close>

definition demoExpr :: gostring where
  "demoExpr = ''>1''"

definition demoBand :: "version20 verSet" where
  "demoBand = projr (newVerSet demoLib demoExpr)"

lemma demo_band_eval:
  "(case newVerSet demoLib demoExpr of Inr s \<Rightarrow> True | Inl e \<Rightarrow> False)"
  "list_all (\<lambda>seg. case parseSegment demoLib seg of Inr comps \<Rightarrow> list_all (operandFits demoLib) comps | Inl e \<Rightarrow> True)
     (segmentsOf demoExpr)"
  by code_simp+

lemma demo_band: "newVerSet demoLib demoExpr = Inr demoBand" "exprFits demoLib demoExpr"
  using demo_band_eval by (auto simp: demoBand_def exprFits_def list_all_iff split: sum.splits)

definition demoLast :: "version20 version" where
  "demoLast = demoVersion ''1.2.18446744073709551615''"

lemma demo_last:
  "sv_patch demoLib (v_parsed demoLast) = maxUint64" "sv_prerelease demoLib (v_parsed demoLast) = []"
  "sv_prerelease demoLib (v_parsed (demoVersion ''1.3.0'')) = []"
  "relOf demoLib (v_parsed demoLast) \<le> relOf demoLib (v_parsed (demoVersion ''1.3.0''))"
  "sv_compare demoLib (v_parsed (demoVersion ''1.3.0'')) (v_parsed demoLast) = 1"
  by code_simp+

lemma demo_satisfier_eval:
  "(case earliestSatisfier demoLib (ss_ps demoPropagated) (Incompat 0 CauseRoot [mkTerm rootPkg demoAll True]) of
      Some (a, t) \<Rightarrow> t_pkg t = rootPkg | None \<Rightarrow> False)"
  by code_simp

section \<open>Two lock files\<close>

definition demoEntry :: "gostring \<Rightarrow> gostring \<Rightarrow> lockEntry" where
  "demoEntry name ver =
     \<lparr> en_name = name, en_type = [], en_version = ver, en_source = ''https://galaxy.example'', en_downloadURL = [],
       en_ref = [], en_commit = [], en_subdir = [], en_sha256 = [], en_deps = [] \<rparr>"

definition demoLockA :: lockFile where
  "demoLockA = \<lparr> lf_server = [], lf_collections = [demoEntry ''a.b'' ''1.0.0''], lf_roles = [], lf_schemaVersion = 1 \<rparr>"

definition demoLockB :: lockFile where
  "demoLockB = \<lparr> lf_server = [], lf_collections = [demoEntry ''c.d'' ''1.0.0'', demoEntry ''a.b'' ''2.0.0''],
     lf_roles = [], lf_schemaVersion = 1 \<rparr>"

lemma demo_namedOnce: "namedOnce demoLockA" "namedOnce demoLockB"
  by (simp_all add: namedOnce_def demoLockA_def demoLockB_def demoEntry_def)

end
