(* ===== verification/Fnmatch.thy ===== *)
theory Fnmatch imports GoStrings begin

text \<open>
  \<^verbatim>\<open>internal/galaxy/treearchive/fnmatch.go\<close> and \<^verbatim>\<open>internal/galaxy/collectionbuild/fnmatch.go\<close>:
  glob matching of a build's exclusion rules. The memoised matcher threads its table of
  failed states; the lemmas relate it to the pattern's plain semantics and show that the
  exclusion of a directory reaches everything below it.
\<close>

section \<open>Tokens\<close>

record charSet =
  cs_singles :: "char list"
  cs_ranges :: "(char \<times> char) list"
  cs_negated :: bool

datatype patternToken = TokLiteral char | TokStar | TokAny | TokSet charSet

definition csContains :: "charSet \<Rightarrow> char \<Rightarrow> bool" where
  "csContains s r =
     ((r \<in> set (cs_singles s) \<or> (\<exists>(lo, hi) \<in> set (cs_ranges s). lo \<le> r \<and> r \<le> hi)) \<noteq> cs_negated s)"

fun accepts :: "patternToken \<Rightarrow> char \<Rightarrow> bool" where
  "accepts TokAny r = True"
| "accepts (TokLiteral c) r = (r = c)"
| "accepts (TokSet s) r = csContains s r"
| "accepts TokStar r = False"

section \<open>The memoised matcher\<close>

text \<open>
  A state is the index of a token and of a byte; \<open>failed\<close> is the table the matcher updates
  in place, here threaded. The recursion is on the tokens left, \<open>ts = drop pi toks\<close>.
\<close>

fun tryEach :: "(nat \<Rightarrow> bool list \<Rightarrow> bool \<times> bool list) \<Rightarrow> nat list \<Rightarrow> bool list \<Rightarrow> bool \<times> bool list" where
  "tryEach f [] failed = (False, failed)"
| "tryEach f (k # ks) failed =
     (let (matched, failed) = f k failed in if matched then (True, failed) else tryEach f ks failed)"

fun walk :: "gostring \<Rightarrow> patternToken list \<Rightarrow> nat \<Rightarrow> nat \<Rightarrow> bool list \<Rightarrow> bool \<times> bool list" where
  "walk bytes [] pi ni failed = (ni = length bytes, failed)"
| "walk bytes (tok # ts) pi ni failed =
     (let width = length bytes + 1 in
      if failed ! (pi * width + ni) then (False, failed)
      else
        let (matched, failed) =
              (if tok = TokStar then tryEach (\<lambda>k. walk bytes ts (pi + 1) k) [ni..<length bytes + 1] failed
               else if length bytes \<le> ni \<or> \<not> accepts tok (bytes ! ni) then (False, failed)
               else walk bytes ts (pi + 1) (ni + 1) failed)
        in if matched then (True, failed) else (False, failed[pi * width + ni := True]))"

section \<open>Compilation\<close>

text \<open>\<^verbatim>\<open>compileSet\<close>'s body: bytes and ranges; a reversed range is dropped.\<close>

fun parseSetLoop :: "charSet \<Rightarrow> gostring \<Rightarrow> charSet" where
  "parseSetLoop cs [] = cs"
| "parseSetLoop cs [a] = cs\<lparr> cs_singles := cs_singles cs @ [a] \<rparr>"
| "parseSetLoop cs [a, b] = parseSetLoop (cs\<lparr> cs_singles := cs_singles cs @ [a] \<rparr>) [b]"
| "parseSetLoop cs (a # b # c # rest) =
     (if b = CHR ''-'' then
        parseSetLoop (if a \<le> c then cs\<lparr> cs_ranges := cs_ranges cs @ [(a, c)] \<rparr> else cs) rest
      else parseSetLoop (cs\<lparr> cs_singles := cs_singles cs @ [a] \<rparr>) (b # c # rest))"

definition parseSetBody :: "gostring \<Rightarrow> charSet" where
  "parseSetBody body = parseSetLoop \<lparr> cs_singles = [], cs_ranges = [], cs_negated = False \<rparr> body"

definition indexByte :: "gostring \<Rightarrow> char \<Rightarrow> nat option" where
  "indexByte s c = find (\<lambda>i. s ! i = c) [0..<length s]"

text \<open>\<open>rest\<close> is the pattern past the opening bracket; the result has the pattern past the closing one.\<close>

definition compileSet :: "gostring \<Rightarrow> (charSet \<times> gostring) option" where
  "compileSet rest =
     (let negated = (rest \<noteq> [] \<and> rest ! 0 = CHR ''!'');
          j = (if negated then 1 else 0);
          j = (if j < length rest \<and> rest ! j = CHR '']'' then j + 1 else j)
      in case indexByte (drop j rest) CHR '']'' of
          None \<Rightarrow> None
        | Some off \<Rightarrow>
            (let end' = off + j; body = take end' rest; body = (if negated then drop 1 body else body)
             in Some ((parseSetBody body)\<lparr> cs_negated := negated \<rparr>, drop (end' + 1) rest)))"

lemma compileSet_shorter: "compileSet rest = Some (cs, rest') \<Longrightarrow> length rest' < Suc (length rest)"
  by (auto simp: compileSet_def Let_def split: option.splits)

text \<open>\<open>toks\<close> is what was tokenised so far; the loop runs over the rest of the pattern.\<close>

function compileLoop :: "patternToken list \<Rightarrow> gostring \<Rightarrow> patternToken list" where
  "compileLoop toks [] = toks"
| "compileLoop toks (c # rest) =
     (if c = CHR ''*'' then
        compileLoop (if toks = [] \<or> last toks \<noteq> TokStar then toks @ [TokStar] else toks) rest
      else if c = CHR ''?'' then compileLoop (toks @ [TokAny]) rest
      else if c = CHR ''['' then
        (case compileSet rest of
           None \<Rightarrow> compileLoop (toks @ [TokLiteral CHR ''['']) rest
         | Some (cs, rest') \<Rightarrow> compileLoop (toks @ [TokSet cs]) rest')
      else compileLoop (toks @ [TokLiteral c]) rest)"
  by pat_completeness auto
termination
  by (relation "measure (\<lambda>(toks, s). length s)") (auto dest: compileSet_shorter)

definition compilePattern :: "gostring \<Rightarrow> patternToken list" where
  "compilePattern p = compileLoop [] p"

definition fnmatch :: "gostring \<Rightarrow> gostring \<Rightarrow> bool" where
  "fnmatch pattern name =
     (let toks = compilePattern pattern; width = length name + 1
      in fst (walk name toks 0 0 (replicate ((length toks + 1) * width) False)))"

section \<open>Exclusion rules\<close>

record rules =
  ru_dirNames :: "gostring list"
  ru_patterns :: "gostring list"

text \<open>\<^verbatim>\<open>path.Base\<close>: trailing slashes are cut, then everything up to the last slash.\<close>

definition pathBase :: "gostring \<Rightarrow> gostring" where
  "pathBase p =
     (if p = [] then ''.''
      else let p = rev (dropWhile (\<lambda>c. c = CHR ''/'') (rev p));
               p = rev (takeWhile (\<lambda>c. c \<noteq> CHR ''/'') (rev p))
           in if p = [] then ''/'' else p)"

definition skip :: "rules \<Rightarrow> gostring \<Rightarrow> bool \<Rightarrow> bool" where
  "skip r rel isDir \<longleftrightarrow>
     (isDir \<and> pathBase rel \<in> set (ru_dirNames r)) \<or> (\<exists>p \<in> set (ru_patterns r). fnmatch p rel)"

definition excludes :: "rules \<Rightarrow> gostring \<Rightarrow> bool \<Rightarrow> bool" where
  "excludes r rel isDir \<longleftrightarrow>
     (let parts = splitStr rel ''/'' in
      (\<exists>i \<in> set [1..<length parts]. skip r (joinStr (take i parts) ''/'') True) \<or> skip r rel isDir)"

definition ignoreDirNames :: "gostring list" where
  "ignoreDirNames = [''CVS'', ''.bzr'', ''.hg'', ''.git'', ''.svn'', ''__pycache__'', ''.tox'']"

definition newIgnoreRules :: "gostring \<Rightarrow> gostring \<Rightarrow> gostring list \<Rightarrow> rules" where
  "newIgnoreRules namespace name buildIgnore =
     \<lparr> ru_dirNames = ignoreDirNames,
       ru_patterns = [''MANIFEST.json'', ''FILES.json'', ''galaxy.yml'', ''galaxy.yaml'', ''.git'', ''*.pyc'', ''*.retry'',
         ''tests/output'', namespace @ ''-'' @ name @ ''-*.tar.gz''] @ buildIgnore \<rparr>"

section \<open>What a pattern means\<close>

text \<open>A star stands for any string, every other token for one byte it accepts.\<close>

fun matches :: "patternToken list \<Rightarrow> gostring \<Rightarrow> bool" where
  "matches [] s \<longleftrightarrow> s = []"
| "matches (tok # ts) s \<longleftrightarrow>
     (if tok = TokStar then \<exists>k \<in> {0..length s}. matches ts (drop k s)
      else s \<noteq> [] \<and> accepts tok (hd s) \<and> matches ts (tl s))"

text \<open>The table is right when it only marks states that do not match.\<close>

definition tableOK :: "gostring \<Rightarrow> patternToken list \<Rightarrow> bool list \<Rightarrow> bool" where
  "tableOK bytes toks failed \<longleftrightarrow>
     length failed = (length toks + 1) * (length bytes + 1) \<and>
     (\<forall>pi ni. pi < length toks \<longrightarrow> ni \<le> length bytes \<longrightarrow> failed ! (pi * (length bytes + 1) + ni) \<longrightarrow>
        \<not> matches (drop pi toks) (drop ni bytes))"

lemma tableOK_new: "tableOK bytes toks (replicate ((length toks + 1) * (length bytes + 1)) False)"
proof -
  have "pi * (length bytes + 1) + ni < (length toks + 1) * (length bytes + 1)"
    if "pi < length toks" "ni \<le> length bytes" for pi ni
  proof -
    have "(pi + 1) * (length bytes + 1) \<le> (length toks + 1) * (length bytes + 1)"
      using that by (intro mult_le_mono1) simp
    with that show ?thesis by simp
  qed
  then show ?thesis unfolding tableOK_def by (metis length_replicate nth_replicate)
qed

lemma state_index_inj:
  fixes w :: nat
  assumes "a * w + x = b * w + y" "x < w" "y < w"
  shows "a = b \<and> x = y"
proof -
  have "(a * w + x) div w = a" "(b * w + y) div w = b" using assms(2,3) by (simp_all add: div_mult_self3)
  with assms show ?thesis by simp
qed

lemma tableOK_mark:
  assumes "tableOK bytes toks failed" "pi < length toks" "ni \<le> length bytes" "\<not> matches (drop pi toks) (drop ni bytes)"
  shows "tableOK bytes toks (failed[pi * (length bytes + 1) + ni := True])"
  unfolding tableOK_def
proof (intro conjI allI impI)
  show "length (failed[pi * (length bytes + 1) + ni := True]) = (length toks + 1) * (length bytes + 1)"
    using assms(1) by (simp add: tableOK_def)
next
  fix qi mi
  assume q: "qi < length toks" "mi \<le> length bytes" and f: "failed[pi * (length bytes + 1) + ni := True] ! (qi * (length bytes + 1) + mi)"
  show "\<not> matches (drop qi toks) (drop mi bytes)"
  proof (cases "pi * (length bytes + 1) + ni = qi * (length bytes + 1) + mi")
    case True
    with state_index_inj [OF this] assms(3,4) q show ?thesis by auto
  next
    case False
    with f have "failed ! (qi * (length bytes + 1) + mi)" by simp
    with assms(1) q show ?thesis unfolding tableOK_def by blast
  qed
qed

text \<open>A run that agrees with a predicate and keeps the table right.\<close>

definition runOK :: "gostring \<Rightarrow> patternToken list \<Rightarrow> bool \<Rightarrow> bool \<times> bool list \<Rightarrow> bool" where
  "runOK bytes toks b r \<longleftrightarrow> fst r = b \<and> tableOK bytes toks (snd r)"

lemma tryEach_ok:
  assumes "\<And>k failed. k \<in> set ks \<Longrightarrow> tableOK bytes toks failed \<Longrightarrow> runOK bytes toks (P k) (f k failed)" "tableOK bytes toks failed"
  shows "runOK bytes toks (\<exists>k \<in> set ks. P k) (tryEach f ks failed)"
  using assms
proof (induction ks arbitrary: failed)
  case Nil
  then show ?case by (simp add: runOK_def)
next
  case (Cons k ks)
  obtain m failed' where r: "f k failed = (m, failed')" by fastforce
  with Cons.prems have k: "m = P k" "tableOK bytes toks failed'" by (fastforce simp: runOK_def)+
  show ?case
  proof (cases m)
    case True
    with r k show ?thesis by (simp add: runOK_def)
  next
    case False
    with Cons.IH [OF _ k(2)] Cons.prems(1) have "runOK bytes toks (\<exists>k \<in> set ks. P k) (tryEach f ks failed')" by simp
    with r k False show ?thesis by (simp add: runOK_def)
  qed
qed

lemma walk_ok:
  "ts = drop pi toks \<Longrightarrow> pi \<le> length toks \<Longrightarrow> ni \<le> length bytes \<Longrightarrow> tableOK bytes toks failed \<Longrightarrow>
     runOK bytes toks (matches ts (drop ni bytes)) (walk bytes ts pi ni failed)"
proof (induction ts arbitrary: pi ni failed)
  case Nil
  then show ?case by (auto simp: runOK_def)
next
  case (Cons tok ts)
  have pi: "pi < length toks" using Cons.prems(1,2) by (metis drop_all list.distinct(1) not_le)
  have ts: "ts = drop (Suc pi) toks" using Cons.prems(1) by (metis drop_Suc list.sel(3) tl_drop)
  let ?i = "pi * (length bytes + 1) + ni"
  have meaning: "drop pi toks = tok # ts" using Cons.prems(1) by simp
  show ?case
  proof (cases "failed ! ?i")
    case True
    then have "\<not> matches (tok # ts) (drop ni bytes)"
      using Cons.prems(3,4) pi unfolding meaning [symmetric] tableOK_def by blast
    with True Cons.prems(4) show ?thesis by (simp add: runOK_def Let_def)
  next
    case False
    define r where "r = (if tok = TokStar then tryEach (\<lambda>k. walk bytes ts (pi + 1) k) [ni..<length bytes + 1] failed
               else if length bytes \<le> ni \<or> \<not> accepts tok (bytes ! ni) then (False, failed)
               else walk bytes ts (pi + 1) (ni + 1) failed)"
    have ok: "runOK bytes toks (matches (tok # ts) (drop ni bytes)) r"
    proof (cases "tok = TokStar")
      case True
      have "runOK bytes toks (\<exists>k \<in> set [ni..<length bytes + 1]. matches ts (drop k bytes))
          (tryEach (\<lambda>k. walk bytes ts (pi + 1) k) [ni..<length bytes + 1] failed)"
        using pi ts by (intro tryEach_ok Cons.prems(4) Cons.IH) auto
      moreover have "(\<exists>k \<in> set [ni..<length bytes + 1]. matches ts (drop k bytes)) \<longleftrightarrow>
          (\<exists>k \<in> {0..length (drop ni bytes)}. matches ts (drop k (drop ni bytes)))"
      proof
        assume "\<exists>k \<in> set [ni..<length bytes + 1]. matches ts (drop k bytes)"
        then obtain k where "ni \<le> k" "k \<le> length bytes" "matches ts (drop k bytes)" by auto
        then show "\<exists>k \<in> {0..length (drop ni bytes)}. matches ts (drop k (drop ni bytes))"
          by (intro bexI [of _ "k - ni"]) auto
      next
        assume "\<exists>k \<in> {0..length (drop ni bytes)}. matches ts (drop k (drop ni bytes))"
        then obtain k where "k \<le> length bytes - ni" "matches ts (drop (ni + k) bytes)" by (auto simp: add.commute)
        with Cons.prems(3) show "\<exists>k \<in> set [ni..<length bytes + 1]. matches ts (drop k bytes)"
          by (intro bexI [of _ "ni + k"]) auto
      qed
      ultimately show ?thesis using True by (simp add: r_def)
    next
      case nostar: False
      show ?thesis
      proof (cases "length bytes \<le> ni")
        case True
        with nostar Cons.prems(4) show ?thesis by (simp add: r_def runOK_def)
      next
        case False
        then have d: "drop ni bytes = bytes ! ni # drop (ni + 1) bytes" by (simp add: Cons_nth_drop_Suc)
        have "runOK bytes toks (matches ts (drop (ni + 1) bytes)) (walk bytes ts (pi + 1) (ni + 1) failed)"
          using pi ts False by (intro Cons.IH Cons.prems(4)) auto
        with False nostar Cons.prems(4) show ?thesis by (auto simp: r_def runOK_def d simp del: drop_Suc)
      qed
    qed
    have "walk bytes (tok # ts) pi ni failed = (if fst r then (True, snd r) else (False, (snd r)[?i := True]))"
      using False by (simp add: r_def [symmetric] Let_def split: prod.split)
    moreover have "tableOK bytes toks ((snd r)[?i := True])" if "\<not> fst r"
      using ok that pi Cons.prems(3) by (intro tableOK_mark) (auto simp: runOK_def meaning)
    ultimately show ?thesis using ok by (auto simp: runOK_def)
  qed
qed

lemma fnmatch_matches: "fnmatch pattern name \<longleftrightarrow> matches (compilePattern pattern) name"
  using walk_ok [of "compilePattern pattern" 0 "compilePattern pattern" 0 name, OF _ _ _ tableOK_new]
  unfolding fnmatch_def Let_def runOK_def by simp

section \<open>Collapsed stars\<close>

text \<open>The pattern token by token, as \<^verbatim>\<open>fnmatch.translate\<close> reads it: no star is dropped.\<close>

function translate :: "gostring \<Rightarrow> patternToken list" where
  "translate [] = []"
| "translate (c # rest) =
     (if c = CHR ''*'' then TokStar # translate rest
      else if c = CHR ''?'' then TokAny # translate rest
      else if c = CHR ''['' then
        (case compileSet rest of
           None \<Rightarrow> TokLiteral CHR ''['' # translate rest
         | Some (cs, rest') \<Rightarrow> TokSet cs # translate rest')
      else TokLiteral c # translate rest)"
  by pat_completeness auto
termination
  by (relation "measure length") (auto dest: compileSet_shorter)

lemma matches_append_cong:
  "(\<And>s. matches as s \<longleftrightarrow> matches bs s) \<Longrightarrow> matches (ts @ as) s \<longleftrightarrow> matches (ts @ bs) s"
  by (induction ts arbitrary: s) auto

lemma matches_star_star: "matches (TokStar # TokStar # ts) s \<longleftrightarrow> matches (TokStar # ts) s"
proof
  assume "matches (TokStar # TokStar # ts) s"
  then obtain k l where kl: "k \<le> length s" "l \<le> length (drop k s)" "matches ts (drop l (drop k s))" by auto
  then show "matches (TokStar # ts) s" by (auto intro!: bexI [of _ "k + l"] simp: add.commute)
next
  assume "matches (TokStar # ts) s"
  then have "\<exists>k \<in> {0..length s}. matches (TokStar # ts) (drop k s)"
    by (intro bexI [of _ 0]) (simp_all del: matches.simps)
  then show "matches (TokStar # TokStar # ts) s" by (subst matches.simps(2)) (simp del: matches.simps)
qed

lemma matches_compileLoop: "matches (compileLoop toks p) s \<longleftrightarrow> matches (toks @ translate p) s"
proof (induction toks p arbitrary: s rule: compileLoop.induct)
  case (2 toks c rest)
  show ?case
  proof (cases "c = CHR ''*'' \<and> toks \<noteq> [] \<and> last toks = TokStar")
    case True
    then obtain xs where xs: "toks = xs @ [TokStar]" by (metis append_butlast_last_id)
    have "matches (compileLoop toks (c # rest)) s \<longleftrightarrow> matches (toks @ translate rest) s"
      using "2.IH"(1) True by simp
    also have "\<dots> \<longleftrightarrow> matches (xs @ TokStar # TokStar # translate rest) s"
      unfolding xs append_assoc append_Cons append_Nil
      by (rule matches_append_cong) (rule matches_star_star [symmetric])
    finally show ?thesis using True by (simp add: xs)
  next
    case False
    with 2 show ?thesis by (auto split: option.splits)
  qed
qed simp

lemma matches_compilePattern: "matches (compilePattern p) s \<longleftrightarrow> matches (translate p) s"
  using matches_compileLoop [of "[]"] by (simp add: compilePattern_def)

section \<open>Exclusion reaches below\<close>

lemma splitAux_append_sep:
  "splitAux [sep] acc (x @ sep # s) = splitAux [sep] acc x @ splitAux [sep] [] s"
  by (induction x arbitrary: acc) auto

lemma splitStr_append_sep: "splitStr (x @ sep # s) [sep] = splitStr x [sep] @ splitStr s [sep]"
  by (simp add: splitStr_def splitAux_append_sep)

lemma excludes_below:
  assumes "excludes r dir True"
  shows "excludes r (dir @ CHR ''/'' # sub) isDir"
proof -
  let ?P = "splitStr dir ''/''" and ?Q = "splitStr sub ''/''"
  have split: "splitStr (dir @ CHR ''/'' # sub) ''/'' = ?P @ ?Q" by (rule splitStr_append_sep)
  have Q: "0 < length ?Q" by simp
  from assms consider i where "1 \<le> i" "i < length ?P" "skip r (joinStr (take i ?P) ''/'') True" | "skip r dir True"
    by (auto simp: excludes_def Let_def)
  then obtain i where "1 \<le> i" "i < length (?P @ ?Q)" "skip r (joinStr (take i (?P @ ?Q)) ''/'') True"
  proof cases
    case 1
    with that [of i] show thesis by simp
  next
    case 2
    have "1 \<le> length ?P" by (simp add: Suc_le_eq)
    with 2 Q that [of "length ?P"] show thesis by (simp add: joinStr_splitStr)
  qed
  then show ?thesis unfolding excludes_def Let_def split by auto
qed

end
