(* ===== verification/Runes.thy ===== *)
theory Runes imports GoStrings begin

text \<open>
  Runes of a Go string: the decoder \<^verbatim>\<open>range\<close> uses (\<^verbatim>\<open>unicode/utf8\<close>), the encoder, and
  \<^verbatim>\<open>strings.Map\<close>; on top of them \<^verbatim>\<open>internal/safeout/safeout.go\<close>, which replaces terminal
  controls. A rune is a natural number; an invalid byte decodes to \<^verbatim>\<open>utf8.RuneError\<close>.
\<close>

section \<open>UTF-8\<close>

definition runeError :: nat where
  "runeError = 0xFFFD"

definition byteOf :: "char \<Rightarrow> nat" where
  "byteOf c = of_char c"

text \<open>For a leading byte: the length of the sequence and the range of its second byte.\<close>

definition firstByte :: "nat \<Rightarrow> (nat \<times> nat \<times> nat) option" where
  "firstByte b =
     (if 0xC2 \<le> b \<and> b \<le> 0xDF then Some (2, 0x80, 0xBF)
      else if b = 0xE0 then Some (3, 0xA0, 0xBF)
      else if 0xE1 \<le> b \<and> b \<le> 0xEC then Some (3, 0x80, 0xBF)
      else if b = 0xED then Some (3, 0x80, 0x9F)
      else if 0xEE \<le> b \<and> b \<le> 0xEF then Some (3, 0x80, 0xBF)
      else if b = 0xF0 then Some (4, 0x90, 0xBF)
      else if 0xF1 \<le> b \<and> b \<le> 0xF3 then Some (4, 0x80, 0xBF)
      else if b = 0xF4 then Some (4, 0x80, 0x8F)
      else None)"

definition isCont :: "nat \<Rightarrow> bool" where
  "isCont b \<longleftrightarrow> 0x80 \<le> b \<and> b \<le> 0xBF"

text \<open>The value and the number of bytes read.\<close>

definition decodeRune :: "gostring \<Rightarrow> nat \<times> nat" where
  "decodeRune s =
     (case map byteOf s of
        [] \<Rightarrow> (runeError, 0)
      | b0 # bs \<Rightarrow>
          if b0 < 0x80 then (b0, 1)
          else (case firstByte b0 of
              None \<Rightarrow> (runeError, 1)
            | Some (sz, lo, hi) \<Rightarrow>
                if length bs + 1 < sz then (runeError, 1)
                else if bs ! 0 < lo \<or> hi < bs ! 0 then (runeError, 1)
                else if sz = 2 then (b0 mod 32 * 64 + bs ! 0 mod 64, 2)
                else if \<not> isCont (bs ! 1) then (runeError, 1)
                else if sz = 3 then (b0 mod 16 * 4096 + bs ! 0 mod 64 * 64 + bs ! 1 mod 64, 3)
                else if \<not> isCont (bs ! 2) then (runeError, 1)
                else (b0 mod 8 * 262144 + bs ! 0 mod 64 * 4096 + bs ! 1 mod 64 * 64 + bs ! 2 mod 64, 4)))"

definition validRune :: "nat \<Rightarrow> bool" where
  "validRune r \<longleftrightarrow> r \<le> 0x10FFFF \<and> \<not> (0xD800 \<le> r \<and> r \<le> 0xDFFF)"

definition encodeRune :: "nat \<Rightarrow> gostring" where
  "encodeRune r =
     map char_of
      (let r = (if validRune r then r else runeError) in
       if r < 0x80 then [r]
       else if r < 0x800 then [0xC0 + r div 64, 0x80 + r mod 64]
       else if r < 0x10000 then [0xE0 + r div 4096, 0x80 + r div 64 mod 64, 0x80 + r mod 64]
       else [0xF0 + r div 262144, 0x80 + r div 4096 mod 64, 0x80 + r div 64 mod 64, 0x80 + r mod 64])"

lemma decode_width: "s \<noteq> [] \<Longrightarrow> 0 < snd (decodeRune s)"
  by (cases s) (auto simp: decodeRune_def split: option.splits prod.splits)

text \<open>The runes a \<^verbatim>\<open>range\<close> loop over the string visits.\<close>

function runes :: "gostring \<Rightarrow> nat list" where
  "runes s = (if s = [] then [] else fst (decodeRune s) # runes (drop (snd (decodeRune s)) s))"
  by pat_completeness auto
termination
  by (relation "measure length") (simp_all add: decode_width)

declare runes.simps [simp del]

lemma runes_Nil [simp]: "runes [] = []"
  by (simp add: runes.simps)

text \<open>\<^verbatim>\<open>strings.Map\<close> with a mapping that never returns a negative rune.\<close>

definition mapRunes :: "(nat \<Rightarrow> nat) \<Rightarrow> gostring \<Rightarrow> gostring" where
  "mapRunes f s = concat (map (\<lambda>r. encodeRune (f r)) (runes s))"

section \<open>Sanitised output\<close>

definition isControl :: "nat \<Rightarrow> bool" where
  "isControl r \<longleftrightarrow> r < 0x20 \<or> r = 0x7f \<or> (0x80 \<le> r \<and> r \<le> 0x9f)"

definition isLineTerminator :: "nat \<Rightarrow> bool" where
  "isLineTerminator r \<longleftrightarrow> r = 0x2028 \<or> r = 0x2029"

definition isUnsafeRune :: "nat \<Rightarrow> bool" where
  "isUnsafeRune r \<longleftrightarrow> isControl r \<or> isLineTerminator r"

definition sanitizeRune :: "nat \<Rightarrow> nat" where
  "sanitizeRune r = (if r = 10 \<or> r = 9 then r else if isUnsafeRune r then runeError else r)"

definition clean :: "gostring \<Rightarrow> gostring" where
  "clean s = mapRunes sanitizeRune s"

text \<open>\<^verbatim>\<open>writer.Write\<close>: what reaches the wrapped writer (\<open>w\<close>, which may fail), and the count returned.\<close>

definition writeClean :: "(gostring \<Rightarrow> 'e option) \<Rightarrow> gostring \<Rightarrow> nat \<times> 'e option" where
  "writeClean w p = (case w (clean p) of Some err \<Rightarrow> (0, Some err) | None \<Rightarrow> (length p, None))"

section \<open>Round trip\<close>

lemma byteOf_char: "n < 256 \<Longrightarrow> byteOf (char_of n) = n"
  by (simp add: byteOf_def)

lemma byteOf_less: "byteOf c < 256"
  by (simp add: byteOf_def)

lemma firstByte_2: "0xC2 \<le> b \<Longrightarrow> b \<le> 0xDF \<Longrightarrow> firstByte b = Some (2, 0x80, 0xBF)"
  by (simp add: firstByte_def)

lemma firstByte_3: "0xE0 \<le> b \<Longrightarrow> b \<le> 0xEF \<Longrightarrow> firstByte b = Some (3, if b = 0xE0 then 0xA0 else 0x80, if b = 0xED then 0x9F else 0xBF)"
  by (auto simp: firstByte_def)

lemma firstByte_4: "0xF0 \<le> b \<Longrightarrow> b \<le> 0xF4 \<Longrightarrow> firstByte b = Some (4, if b = 0xF0 then 0x90 else 0x80, if b = 0xF4 then 0x8F else 0xBF)"
  by (auto simp: firstByte_def)

lemma split2: "(r :: nat) = r div 64 * 64 + r mod 64"
  by simp

lemma digits64: "(q :: nat) div 64 * 4096 + q mod 64 * 64 = q * 64"
  using div_mult_mod_eq [of q 64] by linarith

lemma split3: "(r :: nat) = r div 4096 * 4096 + r div 64 mod 64 * 64 + r mod 64"
proof -
  have "r div 4096 = r div 64 div 64" by (simp add: div_mult2_eq [symmetric])
  with digits64 [of "r div 64"] show ?thesis by simp
qed

lemma split4: "(r :: nat) = r div 262144 * 262144 + r div 4096 mod 64 * 4096 + r div 64 mod 64 * 64 + r mod 64"
proof -
  have "r div 262144 = r div 4096 div 64" by (simp add: div_mult2_eq [symmetric])
  then have "(r div 262144 * 4096 + r div 4096 mod 64 * 64) * 64 = r div 4096 * 64 * 64"
    using digits64 [of "r div 4096"] by simp
  then have "r div 262144 * 262144 + r div 4096 mod 64 * 4096 = r div 4096 * 4096" by (simp add: add_mult_distrib)
  with split3 [of r] show ?thesis by linarith
qed

lemma decode_encode:
  assumes "validRune r"
  shows "decodeRune (encodeRune r @ s) = (r, length (encodeRune r))"
proof -
  consider "r < 0x80" | "0x80 \<le> r" "r < 0x800" | "0x800 \<le> r" "r < 0x10000" | "0x10000 \<le> r" by linarith
  then show ?thesis
  proof cases
    case 1
    with assms show ?thesis by (simp add: encodeRune_def decodeRune_def byteOf_char)
  next
    case 2
    define a c where "a = r div 64" and "c = r mod 64"
    have r: "r = a * 64 + c" "c < 64" unfolding a_def c_def by simp_all
    have a: "2 \<le> a" "a < 32" using 2 r by linarith+
    have e: "encodeRune r = [char_of (0xC0 + a), char_of (0x80 + c)]"
      using 2 assms by (simp add: encodeRune_def a_def c_def)
    have "(192 + a) mod 32 = a" "(128 + c) mod 64 = c" using a r by (simp_all add: mod_add_eq [symmetric, of 192] mod_add_eq [symmetric, of 128])
    then have "decodeRune (encodeRune r @ s) = (a * 64 + c, 2)"
      using a r(2) unfolding e by (simp add: decodeRune_def byteOf_char firstByte_2)
    with r(1) e show ?thesis by simp
  next
    case 3
    define a b c where "a = r div 4096" and "b = r div 64 mod 64" and "c = r mod 64"
    have r: "r = a * 4096 + b * 64 + c" "b < 64" "c < 64"
      using split3 [of r] unfolding a_def b_def c_def by simp_all
    have a: "a < 16" using 3 r by linarith
    have e: "encodeRune r = [char_of (0xE0 + a), char_of (0x80 + b), char_of (0x80 + c)]"
      using 3 assms by (simp add: encodeRune_def a_def b_def c_def)
    have lo: "32 \<le> b" if "a = 0" using that 3 r by linarith
    have hi: "b < 32" if "a = 13" using that assms r by (simp add: validRune_def)
    have "(224 + a) mod 16 = a" "(128 + b) mod 64 = b" "(128 + c) mod 64 = c"
      using a r by (simp_all add: mod_add_eq [symmetric, of 224] mod_add_eq [symmetric, of 128])
    then have "decodeRune (encodeRune r @ s) = (a * 4096 + b * 64 + c, 3)"
      using a r(2,3) lo hi unfolding e by (auto simp: decodeRune_def byteOf_char firstByte_3 isCont_def)
    with r(1) e show ?thesis by simp
  next
    case 4
    define a b c d where "a = r div 262144" and "b = r div 4096 mod 64" and "c = r div 64 mod 64" and "d = r mod 64"
    have r: "r = a * 262144 + b * 4096 + c * 64 + d" "b < 64" "c < 64" "d < 64"
      using split4 [of r] unfolding a_def b_def c_def d_def by simp_all
    have top: "r \<le> 0x10FFFF" using assms by (simp add: validRune_def)
    then have a: "a \<le> 4" using r by linarith
    have e: "encodeRune r = [char_of (0xF0 + a), char_of (0x80 + b), char_of (0x80 + c), char_of (0x80 + d)]"
      using 4 assms by (simp add: encodeRune_def a_def b_def c_def d_def)
    have lo: "16 \<le> b" if "a = 0" using that 4 r by linarith
    have hi: "b < 16" if "a = 4" using that top r by linarith
    have "(240 + a) mod 8 = a" "(128 + b) mod 64 = b" "(128 + c) mod 64 = c" "(128 + d) mod 64 = d"
      using a r by (simp_all add: mod_add_eq [symmetric, of 240] mod_add_eq [symmetric, of 128])
    then have "decodeRune (encodeRune r @ s) = (a * 262144 + b * 4096 + c * 64 + d, 4)"
      using a r(2-) lo hi unfolding e by (auto simp: decodeRune_def byteOf_char firstByte_4 isCont_def)
    with r(1) e show ?thesis by simp
  qed
qed

lemma encode_nonempty [simp]: "encodeRune r \<noteq> []"
  by (simp add: encodeRune_def Let_def)

lemma runes_encode: "validRune r \<Longrightarrow> runes (encodeRune r @ s) = r # runes s"
  by (subst runes.simps) (simp add: decode_encode)

lemma runes_concat: "\<forall>r \<in> set rs. validRune r \<Longrightarrow> runes (concat (map encodeRune rs)) = rs"
  by (induction rs) (simp_all add: runes_encode)

lemma valid_runeError: "validRune runeError"
  by (simp add: validRune_def runeError_def)

text \<open>What the decoder returns is a rune the encoder accepts.\<close>

lemma firstByte_cases:
  assumes "firstByte b = Some (sz, lo, hi)"
  shows "sz = 2 \<and> 0xC2 \<le> b \<and> b \<le> 0xDF \<or>
    sz = 3 \<and> 0xE0 \<le> b \<and> b \<le> 0xEF \<and> (b = 0xED \<longrightarrow> hi = 0x9F) \<or>
    sz = 4 \<and> 0xF0 \<le> b \<and> b \<le> 0xF4 \<and> (b = 0xF4 \<longrightarrow> hi = 0x8F) \<and> (b = 0xF0 \<longrightarrow> lo = 0x90)"
  "0x80 \<le> lo" "hi \<le> 0xBF"
  using assms by (auto simp: firstByte_def split: if_splits)

lemma small_rune: "n \<le> 0x7FF \<Longrightarrow> validRune n"
  by (simp add: validRune_def)

lemma cont_mod: "(0x80 :: nat) \<le> x \<Longrightarrow> x \<le> 0xBF \<Longrightarrow> x mod 64 = x - 0x80"
  by (simp add: mod_nat_eqI)

lemma lead_mod:
  "(0xE0 :: nat) \<le> b \<Longrightarrow> b \<le> 0xEF \<Longrightarrow> b mod 16 = b - 0xE0"
  "(0xF0 :: nat) \<le> b \<Longrightarrow> b \<le> 0xF4 \<Longrightarrow> b mod 8 = b - 0xF0"
  by (simp_all add: mod_nat_eqI)

lemma mod64_bound: "(x :: nat) mod 64 \<le> 63"
  using mod_less_divisor [of 64 x] by linarith

lemma valid_three:
  assumes "0xE0 \<le> b" "b \<le> 0xEF" "0x80 \<le> x" "x \<le> 0xBF" "b = 0xED \<longrightarrow> x \<le> 0x9F"
  shows "validRune (b mod 16 * 4096 + x mod 64 * 64 + y mod 64)"
proof -
  obtain k j where k: "b = 0xE0 + k" "k < 16" and j: "x = 0x80 + j" "j < 64"
    using assms(1-4) by (auto simp: le_iff_add)
  have m: "b mod 16 = k" "x mod 64 = j" using k j lead_mod(1) [OF assms(1,2)] cont_mod [OF assms(3,4)] by simp_all
  have y: "y mod 64 < 64" by simp
  have "k = 13 \<longrightarrow> j < 32" using assms(5) k j by auto
  then have "k < 13 \<or> k = 13 \<and> j < 32 \<or> 13 < k" by linarith
  with y k(2) j(2) show ?thesis unfolding m validRune_def by linarith
qed

lemma valid_four:
  assumes "0xF0 \<le> b" "b \<le> 0xF4" "0x80 \<le> x" "x \<le> 0xBF" "b = 0xF4 \<longrightarrow> x \<le> 0x8F" "b = 0xF0 \<longrightarrow> 0x90 \<le> x"
  shows "validRune (b mod 8 * 262144 + x mod 64 * 4096 + y mod 64 * 64 + z mod 64)"
proof -
  obtain k j where k: "b = 0xF0 + k" "k < 5" and j: "x = 0x80 + j" "j < 64"
    using assms(1-4) by (auto simp: le_iff_add)
  have m: "b mod 8 = k" "x mod 64 = j" using k j lead_mod(2) [OF assms(1,2)] cont_mod [OF assms(3,4)] by simp_all
  have y: "y mod 64 < 64" "z mod 64 < 64" by simp_all
  have "k = 4 \<longrightarrow> j < 16" "k = 0 \<longrightarrow> 16 \<le> j" using assms(5,6) k j by auto
  moreover have "k = 0 \<or> k = 4 \<or> 1 \<le> k \<and> k \<le> 3" using k(2) by linarith
  ultimately have "0x10000 \<le> k * 262144 + j * 4096" "k * 262144 + j * 4096 \<le> 0x10F000"
    using j(2) by auto
  with y show ?thesis unfolding m validRune_def by linarith
qed

lemma valid_decoded: "validRune (fst (decodeRune s))"
proof (cases "map byteOf s")
  case Nil
  then show ?thesis by (simp add: decodeRune_def valid_runeError)
next
  case (Cons b bs)
  show ?thesis
  proof (cases "b < 0x80 \<or> firstByte b = None")
    case True
    with Cons show ?thesis by (auto simp: decodeRune_def valid_runeError small_rune)
  next
    case False
    then obtain sz lo hi where f: "firstByte b = Some (sz, lo, hi)" by (metis not_None_eq prod_cases3)
    note c = firstByte_cases [OF f]
    show ?thesis
    proof (cases "length bs + 1 < sz \<or> bs ! 0 < lo \<or> hi < bs ! 0")
      case True
      with Cons False f show ?thesis by (auto simp: decodeRune_def valid_runeError)
    next
      case in_range: False
      then have x: "0x80 \<le> bs ! 0" "bs ! 0 \<le> 0xBF" "lo \<le> bs ! 0" "bs ! 0 \<le> hi" using c(2,3) by linarith+
      consider "sz = 2" | "sz = 3" "0xE0 \<le> b" "b \<le> 0xEF" "b = 0xED \<longrightarrow> bs ! 0 \<le> 0x9F"
        | "sz = 4" "0xF0 \<le> b" "b \<le> 0xF4" "b = 0xF4 \<longrightarrow> bs ! 0 \<le> 0x8F" "b = 0xF0 \<longrightarrow> 0x90 \<le> bs ! 0"
        using c(1) x by metis
      then show ?thesis
      proof cases
        case 1
        have "b mod 32 < 32" "bs ! 0 mod 64 < 64" by simp_all
        then have "b mod 32 * 64 + bs ! 0 mod 64 \<le> 0x7FF" by linarith
        with 1 Cons False f in_range show ?thesis by (auto simp: decodeRune_def small_rune)
      next
        case 2
        with Cons False f in_range valid_three [OF 2(2,3) x(1,2) 2(4)] show ?thesis
          by (auto simp: decodeRune_def valid_runeError)
      next
        case 3
        with Cons False f in_range valid_four [OF 3(2,3) x(1,2) 3(4,5)] show ?thesis
          by (auto simp: decodeRune_def valid_runeError)
      qed
    qed
  qed
qed

lemma valid_runes: "r \<in> set (runes s) \<Longrightarrow> validRune r"
proof (induction s rule: runes.induct)
  case (1 s)
  then show ?case by (cases "s = []") (auto simp: runes.simps [of s] valid_decoded)
qed

section \<open>What cleaned output contains\<close>

lemma runes_mapRunes:
  assumes "\<And>r. validRune r \<Longrightarrow> validRune (f r)"
  shows "runes (mapRunes f s) = map f (runes s)"
proof -
  have "runes (concat (map encodeRune (map f (runes s)))) = map f (runes s)"
    using assms valid_runes by (intro runes_concat) auto
  then show ?thesis by (simp add: mapRunes_def comp_def)
qed

lemma valid_sanitize: "validRune r \<Longrightarrow> validRune (sanitizeRune r)"
  by (simp add: sanitizeRune_def valid_runeError)

lemma runes_clean: "runes (clean s) = map sanitizeRune (runes s)"
  unfolding clean_def by (rule runes_mapRunes [OF valid_sanitize])

lemma runeError_safe: "\<not> isUnsafeRune runeError"
  by (simp add: runeError_def isUnsafeRune_def isControl_def isLineTerminator_def)

lemma sanitize_idem: "sanitizeRune (sanitizeRune r) = sanitizeRune r"
  using runeError_safe by (simp add: sanitizeRune_def runeError_def)

text \<open>No control or line terminator survives but the newline and the tab.\<close>

lemma clean_safe: "r \<in> set (runes (clean s)) \<Longrightarrow> isUnsafeRune r \<Longrightarrow> r = 10 \<or> r = 9"
  using runeError_safe by (auto simp: runes_clean sanitizeRune_def split: if_splits)

lemma clean_idem: "clean (clean s) = clean s"
proof -
  have "clean (clean s) = concat (map encodeRune (map sanitizeRune (map sanitizeRune (runes s))))"
    by (simp add: clean_def [of "clean s"] mapRunes_def runes_clean comp_def)
  also have "map sanitizeRune (map sanitizeRune (runes s)) = map sanitizeRune (runes s)" by (simp add: sanitize_idem)
  finally show ?thesis by (simp add: clean_def mapRunes_def comp_def)
qed

text \<open>Cleaning changes nothing in text that is safe and encoded as the encoder does.\<close>

lemma clean_id:
  assumes "s = concat (map encodeRune (runes s))" "\<forall>r \<in> set (runes s). isUnsafeRune r \<longrightarrow> r = 10 \<or> r = 9"
  shows "clean s = s"
proof -
  have "sanitizeRune r = r" if "r \<in> set (runes s)" for r
    using assms(2) that by (auto simp: sanitizeRune_def)
  then have "map (\<lambda>r. encodeRune (sanitizeRune r)) (runes s) = map encodeRune (runes s)" by simp
  from arg_cong [OF this, of concat] have "clean s = concat (map encodeRune (runes s))"
    unfolding clean_def mapRunes_def .
  with assms(1) show ?thesis by simp
qed

end
