(* ===== verification/UrlText.thy ===== *)
theory UrlText imports GoStrings begin

text \<open>
  \<^verbatim>\<open>internal/galaxy/helpers/url.go\<close>: the textual cuts that keep credentials out of messages
  and stored values. The lemmas show that on a URL with an authority the cuts remove
  exactly the userinfo, the query and the fragment, so that what is shown does not depend
  on them.
\<close>

section \<open>The cuts\<close>

definition indexAny :: "gostring \<Rightarrow> gostring \<Rightarrow> nat option" where
  "indexAny s cs = (if \<exists>c \<in> set s. c \<in> set cs then Some (length (takeWhile (\<lambda>c. c \<notin> set cs) s)) else None)"

definition lastIndexByte :: "gostring \<Rightarrow> char \<Rightarrow> nat option" where
  "lastIndexByte s c = find (\<lambda>i. s ! i = c) (rev [0..<length s])"

definition withoutQuery :: "gostring \<Rightarrow> gostring" where
  "withoutQuery raw = takeWhile (\<lambda>c. c \<noteq> CHR ''?'') raw"

definition withoutFragment :: "gostring \<Rightarrow> gostring" where
  "withoutFragment raw = takeWhile (\<lambda>c. c \<noteq> CHR ''#'') raw"

definition withoutUserinfo :: "gostring \<Rightarrow> gostring" where
  "withoutUserinfo raw =
     (let (rest, off) =
            (case indexAny raw '':/?#'' of
               Some i \<Rightarrow> if raw ! i = CHR '':'' then (drop (i + 1) raw, i + 1) else (raw, 0)
             | None \<Rightarrow> (raw, 0));
          (rest, off) = (if hasPrefix rest ''//'' then (drop 2 rest, off + 2) else (rest, off));
          authority = (case indexAny rest ''/?#'' of Some i \<Rightarrow> take i rest | None \<Rightarrow> rest)
      in case lastIndexByte authority CHR ''@'' of
           None \<Rightarrow> raw
         | Some at \<Rightarrow> take off raw @ drop (off + at + 1) raw)"

definition withoutCredentials :: "gostring \<Rightarrow> gostring" where
  "withoutCredentials raw = withoutUserinfo (withoutQuery raw)"

definition messageValueMaxLen :: nat where
  "messageValueMaxLen = 512"

definition truncateForMessage :: "gostring \<Rightarrow> gostring" where
  "truncateForMessage value =
     (if length value \<le> messageValueMaxLen then value
      else take messageValueMaxLen value @ ''... ('' @ fmtNat (length value) @ '' bytes)'')"

definition urlForMessage :: "gostring \<Rightarrow> gostring" where
  "urlForMessage raw = truncateForMessage (withoutUserinfo (withoutFragment (withoutQuery raw)))"

section \<open>A URL with an authority\<close>

text \<open>The delimiters that end an authority.\<close>

definition free :: "gostring \<Rightarrow> gostring \<Rightarrow> bool" where
  "free cs s \<longleftrightarrow> set s \<inter> set cs = {}"

definition ends :: "gostring \<Rightarrow> gostring \<Rightarrow> bool" where
  "ends cs s \<longleftrightarrow> s = [] \<or> hd s \<in> set cs"

lemma indexAny_free: "free cs s \<Longrightarrow> c \<in> set cs \<Longrightarrow> indexAny (s @ c # t) cs = Some (length s)"
  by (auto simp: indexAny_def free_def disjoint_iff takeWhile_append2)

lemma indexAny_None: "free cs s \<Longrightarrow> indexAny s cs = None"
  by (auto simp: indexAny_def free_def)

lemma take_authority:
  assumes "free cs s" "ends cs t"
  shows "(case indexAny (s @ t) cs of Some i \<Rightarrow> take i (s @ t) | None \<Rightarrow> s @ t) = s"
  using assms by (cases t) (auto simp: ends_def indexAny_None indexAny_free)

lemma lastIndex_None: "c \<notin> set s \<Longrightarrow> lastIndexByte s c = None"
  by (auto simp: lastIndexByte_def find_None_iff in_set_conv_nth)

lemma find_append: "find P (xs @ ys) = (case find P xs of Some x \<Rightarrow> Some x | None \<Rightarrow> find P ys)"
  by (induction xs) auto

lemma lastIndex_append:
  assumes "c \<notin> set t"
  shows "lastIndexByte (s @ c # t) c = Some (length s)"
proof -
  have idx: "rev [0..<length (s @ c # t)] = rev [Suc (length s)..<length (s @ c # t)] @ length s # rev [0..<length s]"
  proof -
    have "[0..<length (s @ c # t)] = [0..<length s] @ [length s..<length (s @ c # t)]"
      using upt_add_eq_append [of 0 "length s" "length t + 1"] by simp
    also have "[length s..<length (s @ c # t)] = length s # [Suc (length s)..<length (s @ c # t)]"
      by (rule upt_conv_Cons) simp
    finally show ?thesis by simp
  qed
  have "(s @ c # t) ! i \<noteq> c" if "i \<in> set [Suc (length s)..<length (s @ c # t)]" for i
  proof -
    have "i = length s + Suc (i - Suc (length s))" "i - Suc (length s) < length t" using that by auto
    with assms show ?thesis by (metis nth_append_length_plus nth_Cons_Suc nth_mem)
  qed
  then have "find (\<lambda>i. (s @ c # t) ! i = c) (rev [Suc (length s)..<length (s @ c # t)]) = None"
    by (auto simp: find_None_iff)
  then show ?thesis unfolding lastIndexByte_def idx by (simp add: find_append)
qed

text \<open>Both shapes of a URL: with and without userinfo.\<close>

lemma scheme_split:
  assumes "free '':/?#'' scheme"
  shows "indexAny (scheme @ ''://'' @ rest) '':/?#'' = Some (length scheme)"
    "(scheme @ ''://'' @ rest) ! length scheme = CHR '':''"
    "drop (length scheme + 1) (scheme @ ''://'' @ rest) = ''//'' @ rest"
  using indexAny_free [OF assms, of "CHR '':''" "''//'' @ rest"] by simp_all

lemma withoutUserinfo_url:
  assumes "free '':/?#'' scheme" "free ''/?#'' ui" "free ''/?#@'' host" "ends ''/?#'' rest"
  shows "withoutUserinfo (scheme @ ''://'' @ ui @ ''@'' @ host @ rest) = scheme @ ''://'' @ host @ rest"
proof -
  define au where "au = ui @ ''@'' @ host"
  define raw where "raw = scheme @ ''://'' @ au @ rest"
  note s = scheme_split [OF assms(1), of "au @ rest"]
  have "free ''/?#'' au" using assms(2,3) by (auto simp: free_def au_def)
  note a = take_authority [OF this assms(4)]
  have l: "lastIndexByte au CHR ''@'' = Some (length ui)"
    using assms(3) lastIndex_append [of "CHR ''@''" host ui] by (simp add: free_def au_def)
  have "withoutUserinfo raw = take (length scheme + 3) raw @ drop (length scheme + 3 + length ui + 1) raw"
    unfolding raw_def withoutUserinfo_def s(1) using s(2,3) a l by (simp add: hasPrefix_def)
  also have "take (length scheme + 3) raw = scheme @ ''://''" by (simp add: raw_def)
  also have "drop (length scheme + 3 + length ui + 1) raw = host @ rest"
    using append_eq_conv_conj [of "scheme @ ''://'' @ ui @ ''@''" "host @ rest" raw]
    by (simp add: raw_def au_def add.commute add.left_commute)
  finally show ?thesis by (simp add: raw_def au_def)
qed

lemma withoutUserinfo_plain:
  assumes "free '':/?#'' scheme" "free ''/?#@'' host" "ends ''/?#'' rest"
  shows "withoutUserinfo (scheme @ ''://'' @ host @ rest) = scheme @ ''://'' @ host @ rest"
proof -
  note s = scheme_split [OF assms(1), of "host @ rest"]
  have "free ''/?#'' host" using assms(2) by (auto simp: free_def)
  note a = take_authority [OF this assms(3)]
  have "lastIndexByte host CHR ''@'' = None" using assms(2) by (simp add: free_def lastIndex_None)
  then show ?thesis
    unfolding withoutUserinfo_def s(1) using s(2,3) a by (simp add: hasPrefix_def)
qed

lemma cut_tail:
  assumes "free ''?#'' s" "ends ''?#'' t"
  shows "withoutFragment (withoutQuery (s @ t)) = s"
proof (cases t)
  case Nil
  have q: "takeWhile (\<lambda>c. c \<noteq> CHR ''?'') s = s" and f: "takeWhile (\<lambda>c. c \<noteq> CHR ''#'') s = s"
    using assms(1) unfolding takeWhile_eq_all_conv by (auto simp: free_def)
  show ?thesis unfolding Nil withoutQuery_def withoutFragment_def append_Nil2 q f ..
next
  case (Cons c cs)
  have s: "\<forall>c \<in> set s. c \<noteq> CHR ''?''" "\<forall>c \<in> set s. c \<noteq> CHR ''#''" using assms(1) by (auto simp: free_def)
  have "c = CHR ''?'' \<or> c = CHR ''#''" using assms(2) Cons by (simp add: ends_def)
  then show ?thesis
    unfolding Cons withoutQuery_def withoutFragment_def using s
    by (auto simp: takeWhile_append2 takeWhile_eq_all_conv)
qed

text \<open>What is shown of a URL does not depend on its userinfo, its query or its fragment.\<close>

lemma urlForMessage_url:
  assumes "free '':/?#'' scheme" "free ''/?#'' ui" "free ''/?#@'' host" "free ''?#'' path" "ends ''/'' path" "ends ''?#'' tail"
  shows "urlForMessage (scheme @ ''://'' @ ui @ ''@'' @ host @ path @ tail) = truncateForMessage (scheme @ ''://'' @ host @ path)"
    and "urlForMessage (scheme @ ''://'' @ host @ path @ tail) = truncateForMessage (scheme @ ''://'' @ host @ path)"
proof -
  have e: "ends ''/?#'' path" using assms(5) by (auto simp: ends_def)
  have "free ''?#'' (scheme @ ''://'' @ ui @ ''@'' @ host @ path)" using assms(1-4) by (auto simp: free_def)
  from cut_tail [OF this assms(6)] withoutUserinfo_url [OF assms(1-3) e]
  show "urlForMessage (scheme @ ''://'' @ ui @ ''@'' @ host @ path @ tail) = truncateForMessage (scheme @ ''://'' @ host @ path)"
    by (simp add: urlForMessage_def)
  have "free ''?#'' (scheme @ ''://'' @ host @ path)" using assms(1-4) by (auto simp: free_def)
  from cut_tail [OF this assms(6)] withoutUserinfo_plain [OF assms(1,3) e]
  show "urlForMessage (scheme @ ''://'' @ host @ path @ tail) = truncateForMessage (scheme @ ''://'' @ host @ path)"
    by (simp add: urlForMessage_def)
qed

end
