(* ===== verification/Paths.thy ===== *)
theory Paths imports GoStrings begin

text \<open>
  The lexical path functions of Go's \<^verbatim>\<open>path\<close> package that the program uses: \<^verbatim>\<open>Clean\<close>,
  \<^verbatim>\<open>IsAbs\<close>, \<^verbatim>\<open>Dir\<close> and \<^verbatim>\<open>Join\<close>. The lemmas describe the elements of a cleaned path: none
  is empty or a dot, and a parent element stands only at the front of a relative path.
\<close>

section \<open>The functions\<close>

text \<open>\<open>st\<close> holds the elements kept so far, the last one first.\<close>

definition cleanStep :: "bool \<Rightarrow> gostring list \<Rightarrow> gostring \<Rightarrow> gostring list" where
  "cleanStep rooted st el =
     (if el = [] \<or> el = ''.'' then st
      else if el = ''..'' then
        (case st of
           [] \<Rightarrow> if rooted then [] else [''..'']
         | s # ss \<Rightarrow> if s = ''..'' then ''..'' # st else ss)
      else el # st)"

definition cleanElems :: "bool \<Rightarrow> gostring list \<Rightarrow> gostring list" where
  "cleanElems rooted els = rev (foldl (cleanStep rooted) [] els)"

definition pathIsAbs :: "gostring \<Rightarrow> bool" where
  "pathIsAbs p \<longleftrightarrow> hasPrefix p ''/''"

definition pathClean :: "gostring \<Rightarrow> gostring" where
  "pathClean p =
     (let els = cleanElems (pathIsAbs p) (splitStr p ''/'') in
      if pathIsAbs p then CHR ''/'' # joinStr els ''/''
      else if els = [] then ''.''
      else joinStr els ''/'')"

definition pathDir :: "gostring \<Rightarrow> gostring" where
  "pathDir p = pathClean (rev (dropWhile (\<lambda>c. c \<noteq> CHR ''/'') (rev p)))"

definition pathJoin :: "gostring list \<Rightarrow> gostring" where
  "pathJoin els = (let els = filter (\<lambda>e. e \<noteq> []) els in if els = [] then [] else pathClean (joinStr els ''/''))"

section \<open>The elements of a cleaned path\<close>

definition plainElem :: "gostring \<Rightarrow> bool" where
  "plainElem e \<longleftrightarrow> e \<noteq> [] \<and> e \<noteq> ''.'' \<and> e \<noteq> ''..'' \<and> CHR ''/'' \<notin> set e"

text \<open>A stack of kept elements: plain ones above parents, which only a relative path has.\<close>

definition cleanStack :: "bool \<Rightarrow> gostring list \<Rightarrow> bool" where
  "cleanStack rooted st \<longleftrightarrow>
     (\<exists>plain n. st = plain @ replicate n ''..'' \<and> (\<forall>e \<in> set plain. plainElem e) \<and> (rooted \<longrightarrow> n = 0))"

lemma plain_no_dotdot: "plainElem e \<Longrightarrow> e \<noteq> ''..''"
  by (simp add: plainElem_def)

lemma cleanStack_step:
  assumes "cleanStack rooted st" "CHR ''/'' \<notin> set el"
  shows "cleanStack rooted (cleanStep rooted st el)"
proof -
  from assms(1) obtain plain n where st: "st = plain @ replicate n ''..''" "\<forall>e \<in> set plain. plainElem e" "rooted \<longrightarrow> n = 0"
    by (auto simp: cleanStack_def)
  consider (skip) "el = [] \<or> el = ''.''" | (parent) "el = ''..''" | (plain) "plainElem el"
    using assms(2) by (auto simp: plainElem_def)
  then show ?thesis
  proof cases
    case skip
    with assms(1) show ?thesis by (auto simp: cleanStep_def)
  next
    case parent
    show ?thesis
    proof (cases plain)
      case Nil
      show ?thesis
      proof (cases n)
        case 0
        have "[''..''] = [] @ replicate (Suc 0) ''..''" by simp
        then have "\<not> rooted \<Longrightarrow> cleanStack rooted [''..'']" unfolding cleanStack_def by (metis empty_iff empty_set)
        moreover have "cleanStack r []" for r by (simp add: cleanStack_def)
        ultimately show ?thesis using parent Nil 0 st by (simp add: cleanStep_def)
      next
        case (Suc m)
        then have "cleanStep rooted st el = [] @ replicate (Suc n) ''..''" "\<not> rooted"
          using parent Nil st by (auto simp: cleanStep_def)
        then show ?thesis unfolding cleanStack_def by (metis empty_iff empty_set)
      qed
    next
      case (Cons e es)
      then have "cleanStep rooted st el = es @ replicate n ''..''"
        using parent st plain_no_dotdot [of e] by (simp add: cleanStep_def)
      with st Cons show ?thesis by (auto simp: cleanStack_def)
    qed
  next
    case plain
    then have "cleanStep rooted st el = (el # plain) @ replicate n ''..''"
      using st by (auto simp: cleanStep_def plainElem_def)
    moreover have "\<forall>e \<in> set (el # plain). plainElem e" using plain st by simp
    ultimately show ?thesis using st(3) unfolding cleanStack_def by metis
  qed
qed

lemma cleanStack_fold:
  "cleanStack rooted st \<Longrightarrow> \<forall>el \<in> set els. CHR ''/'' \<notin> set el \<Longrightarrow> cleanStack rooted (foldl (cleanStep rooted) st els)"
  by (induction els arbitrary: st) (simp_all add: cleanStack_step)

lemma cleanElems_shape:
  assumes "\<forall>el \<in> set els. CHR ''/'' \<notin> set el"
  obtains n plain where "cleanElems rooted els = replicate n ''..'' @ plain" "\<forall>e \<in> set plain. plainElem e" "rooted \<longrightarrow> n = 0"
proof -
  have "cleanStack rooted []" by (simp add: cleanStack_def)
  from cleanStack_fold [OF this assms] obtain plain n where
    "foldl (cleanStep rooted) [] els = plain @ replicate n ''..''" "\<forall>e \<in> set plain. plainElem e" "rooted \<longrightarrow> n = 0"
    by (auto simp: cleanStack_def)
  then show ?thesis by (intro that [of n "rev plain"]) (simp_all add: cleanElems_def)
qed

lemma split_no_slash: "\<forall>el \<in> set (splitStr p ''/''). CHR ''/'' \<notin> set el"
  by (simp add: splitStr_char_free)

text \<open>
  A cleaned path that is neither absolute nor a parent nor below one consists of plain
  elements only, so it names something inside the directory it is joined to.
\<close>

lemma clean_inside:
  assumes "pathClean p = q" "q \<noteq> ''.''" "\<not> pathIsAbs q" "q \<noteq> ''..''" "\<not> hasPrefix q ''../''"
  shows "splitStr q ''/'' \<noteq> [] \<and> (\<forall>e \<in> set (splitStr q ''/''). plainElem e)"
proof -
  have rel: "\<not> pathIsAbs p"
    using assms(1,3) by (auto simp: pathClean_def pathIsAbs_def hasPrefix_def)
  obtain n plain where els: "cleanElems False (splitStr p ''/'') = replicate n ''..'' @ plain" "\<forall>e \<in> set plain. plainElem e"
    using cleanElems_shape [OF split_no_slash, of False p] by metis
  let ?els = "replicate n ''..'' @ plain"
  have q: "q = (if ?els = [] then ''.'' else joinStr ?els ''/'')"
    using assms(1) rel els(1) by (simp add: pathClean_def)
  with assms(2) have ne: "?els \<noteq> []" by auto
  have n: "n = 0"
  proof (rule ccontr)
    assume "n \<noteq> 0"
    then obtain m where "n = Suc m" by (cases n) auto
    then have "q = ''..'' \<or> hasPrefix q ''../''"
      using q by (cases "replicate m ''..'' @ plain") (auto simp: joinStr_Cons hasPrefix_def)
    with assms(4,5) show False by simp
  qed
  have "splitStr (joinStr plain ''/'') ''/'' = plain"
    using ne n els(2) by (intro splitStr_joinStr) (auto simp: plainElem_def)
  with q n ne els(2) show ?thesis by simp
qed

lemma pathClean_id:
  assumes "es \<noteq> []" "\<forall>e \<in> set es. plainElem e"
  shows "pathClean (joinStr es ''/'') = joinStr es ''/''"
proof -
  have split: "splitStr (joinStr es ''/'') ''/'' = es"
    using assms by (intro splitStr_joinStr) (auto simp: plainElem_def)
  have "foldl (cleanStep False) st es = rev es @ st" for st
    using assms(2)
  proof (induction es arbitrary: st)
    case Nil
    then show ?case by simp
  next
    case (Cons e es)
    then have "cleanStep False st e = e # st" by (auto simp: cleanStep_def plainElem_def)
    with Cons show ?case by simp
  qed
  then have els: "cleanElems False es = es" by (simp add: cleanElems_def)
  obtain e es' where es: "es = e # es'" using assms(1) by (cases es) auto
  with assms(2) have "e \<noteq> []" "hd e \<noteq> CHR ''/''" by (cases e; auto simp: plainElem_def)+
  then have "\<not> pathIsAbs (joinStr es ''/'')"
    unfolding es by (cases es'; cases e) (auto simp: pathIsAbs_def hasPrefix_def)
  with els split assms(1) show ?thesis by (simp add: pathClean_def)
qed

end
