(* ===== verification/Names.thy ===== *)
theory Names imports Runes begin

text \<open>
  The name predicates of \<^verbatim>\<open>internal/galaxy/helpers\<close> (\<^verbatim>\<open>helpers.go\<close>, \<^verbatim>\<open>digest.go\<close>, \<^verbatim>\<open>path.go\<close>,
  \<^verbatim>\<open>roles.go\<close>). They range over runes; the lemmas show that on the alphabets used a rune
  test is a byte test, and relate each predicate to the byte pattern its comment names.
\<close>

section \<open>Alphabets\<close>

definition lowerRune :: "nat \<Rightarrow> bool" where "lowerRune r \<longleftrightarrow> 97 \<le> r \<and> r \<le> 122"
definition upperRune :: "nat \<Rightarrow> bool" where "upperRune r \<longleftrightarrow> 65 \<le> r \<and> r \<le> 90"
definition digitRune :: "nat \<Rightarrow> bool" where "digitRune r \<longleftrightarrow> 48 \<le> r \<and> r \<le> 57"

definition isASCIIAlnum :: "nat \<Rightarrow> bool" where
  "isASCIIAlnum r \<longleftrightarrow> lowerRune r \<or> upperRune r \<or> digitRune r"

text \<open>The rune is one of the bytes of an ASCII string: \<^verbatim>\<open>strings.ContainsRune\<close>.\<close>

definition oneOf :: "gostring \<Rightarrow> nat \<Rightarrow> bool" where
  "oneOf cs r \<longleftrightarrow> r \<in> byteOf ` set cs"

definition runesMatch :: "gostring \<Rightarrow> (nat \<Rightarrow> bool) \<Rightarrow> (nat \<Rightarrow> bool) \<Rightarrow> bool" where
  "runesMatch s first rest \<longleftrightarrow> (case runes s of [] \<Rightarrow> False | r # rs \<Rightarrow> first r \<and> list_all rest rs)"

section \<open>Collections\<close>

text \<open>The loop's cases: a lower-case letter anywhere, a digit or underscore past the first rune.\<close>

definition isCollectionNamePart :: "gostring \<Rightarrow> bool" where
  "isCollectionNamePart part \<longleftrightarrow> runesMatch part lowerRune (\<lambda>r. lowerRune r \<or> digitRune r \<or> oneOf ''_'' r)"

definition isURLCollectionNamePart :: "gostring \<Rightarrow> bool" where
  "isURLCollectionNamePart part \<longleftrightarrow> part \<noteq> [] \<and>
     list_all (\<lambda>r. lowerRune r \<or> upperRune r \<or> digitRune r \<or> oneOf ''_'' r) (runes part)"

definition splitFQDN :: "gostring \<Rightarrow> (gostring \<times> gostring) option" where
  "splitFQDN value =
     (case splitStr (trimSpace value) ''.'' of
        [a, b] \<Rightarrow> if a = [] \<or> b = [] then None else Some (a, b)
      | _ \<Rightarrow> None)"

definition isCollectionName :: "gostring \<Rightarrow> bool" where
  "isCollectionName value \<longleftrightarrow>
     (case splitFQDN value of
        Some (namespace, name) \<Rightarrow> isCollectionNamePart namespace \<and> isCollectionNamePart name
      | None \<Rightarrow> False)"

text \<open>\<open>toUpper\<close> is \<^verbatim>\<open>unicode.ToUpper\<close>.\<close>

definition upperFirstRune :: "(nat \<Rightarrow> nat) \<Rightarrow> gostring \<Rightarrow> gostring" where
  "upperFirstRune toUpper s =
     (if s = [] then s
      else let (r, size) = decodeRune s in
        if r = runeError \<and> size = 1 then s else encodeRune (toUpper r) @ drop size s)"

section \<open>Digests and path elements\<close>

definition hexByte :: "char \<Rightarrow> bool" where
  "hexByte c \<longleftrightarrow> digitRune (byteOf c) \<or> (97 \<le> byteOf c \<and> byteOf c \<le> 102)"

definition isSHA256Hex :: "gostring \<Rightarrow> bool" where
  "isSHA256Hex s \<longleftrightarrow> length s = 64 \<and> list_all hexByte s"

text \<open>On POSIX, where the last two guards of the source cannot fire.\<close>

definition isPathElement :: "gostring \<Rightarrow> bool" where
  "isPathElement name \<longleftrightarrow> name \<noteq> [] \<and> name \<noteq> ''.'' \<and> name \<noteq> ''..'' \<and> CHR ''/'' \<notin> set name \<and>
     list_all (\<lambda>r. \<not> isUnsafeRune r) (runes name)"

section \<open>Roles\<close>

definition isRoleNamePart :: "gostring \<Rightarrow> bool" where
  "isRoleNamePart part \<longleftrightarrow> length part \<le> 64 \<and> runesMatch part isASCIIAlnum (\<lambda>r. isASCIIAlnum r \<or> oneOf ''_-'' r)"

definition splitRoleName :: "gostring \<Rightarrow> (gostring \<times> gostring) option" where
  "splitRoleName value =
     (case splitStr (trimSpace value) ''.'' of
        [a, b] \<Rightarrow> if isRoleNamePart a \<and> isRoleNamePart b then Some (a, b) else None
      | _ \<Rightarrow> None)"

definition isRoleName :: "gostring \<Rightarrow> bool" where
  "isRoleName value \<longleftrightarrow> splitRoleName value \<noteq> None"

definition isRoleInstallName :: "gostring \<Rightarrow> bool" where
  "isRoleInstallName name \<longleftrightarrow> isPathElement name \<and> length name \<le> 128 \<and> name \<noteq> ''ansible_collections'' \<and>
     runesMatch name (\<lambda>r. isASCIIAlnum r \<or> oneOf ''_'' r) (\<lambda>r. isASCIIAlnum r \<or> oneOf ''_.-'' r)"

definition isRoleVersion :: "gostring \<Rightarrow> bool" where
  "isRoleVersion s \<longleftrightarrow>
     \<not> (128 < length s \<or> containsStr s ''..'' \<or> containsStr s ''//'' \<or> hasSuffix s ''/'' \<or> hasSuffix s ''.lock'') \<and>
     runesMatch s isASCIIAlnum (\<lambda>r. isASCIIAlnum r \<or> oneOf ''._/+-'' r)"

definition roleArtifactFilename :: "gostring \<Rightarrow> gostring \<Rightarrow> gostring" where
  "roleArtifactFilename name version = ''role.'' @ name @ ''-'' @ version @ ''.tar.gz''"

section \<open>Rune tests on ASCII alphabets are byte tests\<close>

text \<open>Only an ASCII byte decodes to an ASCII rune.\<close>

lemma decode_ascii: "s \<noteq> [] \<Longrightarrow> byteOf (hd s) < 0x80 \<Longrightarrow> decodeRune s = (byteOf (hd s), 1)"
  by (cases s) (auto simp: decodeRune_def)

lemma decode_high:
  assumes "s \<noteq> []" "\<not> byteOf (hd s) < 0x80"
  shows "0x80 \<le> fst (decodeRune s)"
proof -
  obtain b bs where s: "map byteOf s = b # bs" "0x80 \<le> b" using assms by (cases s) auto
  show ?thesis
  proof (cases "firstByte b")
    case None
    with s show ?thesis by (simp add: decodeRune_def runeError_def)
  next
    case (Some x)
    obtain sz lo hi where f: "firstByte b = Some (sz, lo, hi)" using Some by (cases x) auto
    note c = firstByte_cases [OF f]
    show ?thesis
    proof (cases "length bs + 1 < sz \<or> bs ! 0 < lo \<or> hi < bs ! 0")
      case True
      with s f show ?thesis by (auto simp: decodeRune_def runeError_def)
    next
      case in_range: False
      then have x: "0x80 \<le> bs ! 0" "bs ! 0 \<le> 0xBF" using c(2,3) by linarith+
      consider "sz = 2" "0xC2 \<le> b" "b \<le> 0xDF" | "sz = 3" "0xE0 \<le> b" "b \<le> 0xEF" "b = 0xE0 \<longrightarrow> lo = 0xA0"
        | "sz = 4" "0xF0 \<le> b" "b \<le> 0xF4" "b = 0xF0 \<longrightarrow> lo = 0x90"
        using c(1) f by (auto simp: firstByte_def split: if_splits)
      then show ?thesis
      proof cases
        case 1
        then have "b mod 32 = b - 0xC0" by (simp add: mod_nat_eqI)
        with 1 s f in_range show ?thesis by (auto simp: decodeRune_def)
      next
        case 2
        have "0x80 \<le> b mod 16 * 4096 + bs ! 0 mod 64 * 64 + y" for y
        proof (cases "b = 0xE0")
          case True
          with 2 in_range x cont_mod [OF x] show ?thesis by auto
        next
          case False
          with 2 lead_mod(1) [OF 2(2,3)] show ?thesis by auto
        qed
        with 2 s f in_range show ?thesis by (auto simp: decodeRune_def runeError_def)
      next
        case 3
        have "0x80 \<le> b mod 8 * 262144 + bs ! 0 mod 64 * 4096 + y" for y
        proof (cases "b = 0xF0")
          case True
          with 3 in_range x cont_mod [OF x] show ?thesis by auto
        next
          case False
          with 3 lead_mod(2) [OF 3(2,3)] show ?thesis by auto
        qed
        from this [of "bs ! 1 mod 64 * 64 + bs ! 2 mod 64"] 3 s f in_range show ?thesis
          by (auto simp: decodeRune_def runeError_def add.assoc)
      qed
    qed
  qed
qed

lemma runes_step: "s \<noteq> [] \<Longrightarrow> runes s = fst (decodeRune s) # runes (drop (snd (decodeRune s)) s)"
  by (subst runes.simps) simp

lemma runes_ascii: "\<forall>c \<in> set s. byteOf c < 0x80 \<Longrightarrow> runes s = map byteOf s"
proof (induction s)
  case Nil
  then show ?case by simp
next
  case (Cons c s)
  then show ?case by (subst runes.simps) (simp add: decode_ascii)
qed

lemma ascii_runes: "\<forall>r \<in> set (runes s). r < 0x80 \<Longrightarrow> \<forall>c \<in> set s. byteOf c < 0x80"
proof (induction s rule: runes.induct)
  case (1 s)
  show ?case
  proof (cases s)
    case Nil
    then show ?thesis by simp
  next
    case (Cons c cs)
    have "fst (decodeRune s) < 0x80" using 1(2) runes_step [of s] Cons by simp
    with decode_high [of s] Cons have c: "byteOf c < 0x80" by fastforce
    then have "decodeRune s = (byteOf c, 1)" using Cons decode_ascii [of s] by simp
    with 1 Cons c runes_step [of s] show ?thesis by simp
  qed
qed

lemma list_all_runes:
  assumes "\<And>r. P r \<Longrightarrow> r < 0x80"
  shows "list_all P (runes s) \<longleftrightarrow> list_all (\<lambda>c. P (byteOf c)) s"
proof
  assume all: "list_all P (runes s)"
  then have "\<forall>c \<in> set s. byteOf c < 0x80" using assms by (intro ascii_runes) (auto simp: list_all_iff)
  with all show "list_all (\<lambda>c. P (byteOf c)) s" by (simp add: runes_ascii list_all_iff)
next
  assume all: "list_all (\<lambda>c. P (byteOf c)) s"
  then have "\<forall>c \<in> set s. byteOf c < 0x80" using assms by (auto simp: list_all_iff)
  with all show "list_all P (runes s)" by (simp add: runes_ascii list_all_iff)
qed

lemma runesMatch_bytes:
  assumes "\<And>r. f r \<Longrightarrow> r < 0x80" "\<And>r. g r \<Longrightarrow> r < 0x80"
  shows "runesMatch s f g \<longleftrightarrow> s \<noteq> [] \<and> f (byteOf (hd s)) \<and> list_all (\<lambda>c. g (byteOf c)) (tl s)"
proof (cases s)
  case Nil
  then show ?thesis by (simp add: runesMatch_def)
next
  case (Cons c cs)
  have r: "runes s = fst (decodeRune s) # runes (drop (snd (decodeRune s)) s)" using Cons by (intro runes_step) simp
  show ?thesis
  proof (cases "byteOf c < 0x80")
    case True
    then have "decodeRune s = (byteOf c, 1)" using Cons decode_ascii [of s] by simp
    with r Cons show ?thesis by (simp add: runesMatch_def list_all_runes [OF assms(2)])
  next
    case False
    then have "0x80 \<le> fst (decodeRune s)" using Cons decode_high [of s] by simp
    then have "\<not> f (fst (decodeRune s))" using assms(1) by fastforce
    moreover have "\<not> f (byteOf c)" using False assms(1) by fastforce
    ultimately show ?thesis using r Cons by (simp add: runesMatch_def)
  qed
qed

section \<open>The byte patterns\<close>

text \<open>A character class as a list of ranges.\<close>

definition inClass :: "(char \<times> char) list \<Rightarrow> char \<Rightarrow> bool" where
  "inClass rs c \<longleftrightarrow> (\<exists>(lo, hi) \<in> set rs. lo \<le> c \<and> c \<le> hi)"

lemma inClass_simps [simp]:
  "\<not> inClass [] c" "inClass ((lo, hi) # rs) c \<longleftrightarrow> lo \<le> c \<and> c \<le> hi \<or> inClass rs c"
  by (auto simp: inClass_def)

abbreviation (input) "az \<equiv> (CHR ''a'', CHR ''z'')"
abbreviation (input) "AZ \<equiv> (CHR ''A'', CHR ''Z'')"
abbreviation (input) "d09 \<equiv> (CHR ''0'', CHR ''9'')"
abbreviation (input) "usc \<equiv> (CHR ''_'', CHR ''_'')"
abbreviation (input) "dash \<equiv> (CHR ''-'', CHR ''-'')"
abbreviation (input) "dot \<equiv> (CHR ''.'', CHR ''.'')"

text \<open>\<open>^[first][rest]*$\<close>\<close>

definition bytesMatch :: "(char \<times> char) list \<Rightarrow> (char \<times> char) list \<Rightarrow> gostring \<Rightarrow> bool" where
  "bytesMatch first rest s \<longleftrightarrow> s \<noteq> [] \<and> inClass first (hd s) \<and> list_all (inClass rest) (tl s)"

lemma rune_class:
  "lowerRune (byteOf c) \<longleftrightarrow> CHR ''a'' \<le> c \<and> c \<le> CHR ''z''" "upperRune (byteOf c) \<longleftrightarrow> CHR ''A'' \<le> c \<and> c \<le> CHR ''Z''"
  "digitRune (byteOf c) \<longleftrightarrow> CHR ''0'' \<le> c \<and> c \<le> CHR ''9''"
  by (simp_all add: lowerRune_def upperRune_def digitRune_def byteOf_def less_eq_char_def)

lemma one_class: "byteOf c = byteOf d \<longleftrightarrow> d \<le> c \<and> c \<le> d"
  by (auto simp: byteOf_def less_eq_char_def)

lemma collectionNamePart_pattern: "isCollectionNamePart s \<longleftrightarrow> bytesMatch [az] [az, d09, usc] s"
proof -
  have "isCollectionNamePart s \<longleftrightarrow> s \<noteq> [] \<and> lowerRune (byteOf (hd s)) \<and>
      list_all (\<lambda>c. lowerRune (byteOf c) \<or> digitRune (byteOf c) \<or> oneOf ''_'' (byteOf c)) (tl s)"
    unfolding isCollectionNamePart_def
    by (rule runesMatch_bytes) (auto simp: lowerRune_def digitRune_def oneOf_def byteOf_def)
  then show ?thesis by (simp add: bytesMatch_def rune_class oneOf_def one_class list_all_iff)
qed

lemma urlNamePart_pattern: "isURLCollectionNamePart s \<longleftrightarrow> s \<noteq> [] \<and> list_all (inClass [az, AZ, d09, usc]) s"
proof -
  have "list_all (\<lambda>r. lowerRune r \<or> upperRune r \<or> digitRune r \<or> oneOf ''_'' r) (runes s) \<longleftrightarrow>
      list_all (\<lambda>c. lowerRune (byteOf c) \<or> upperRune (byteOf c) \<or> digitRune (byteOf c) \<or> oneOf ''_'' (byteOf c)) s"
    by (rule list_all_runes) (auto simp: lowerRune_def upperRune_def digitRune_def oneOf_def byteOf_def)
  then show ?thesis
    unfolding isURLCollectionNamePart_def by (simp add: list_all_iff rune_class oneOf_def one_class)
qed

lemma roleNamePart_pattern:
  "isRoleNamePart s \<longleftrightarrow> length s \<le> 64 \<and> bytesMatch [az, AZ, d09] [az, AZ, d09, usc, dash] s"
proof -
  have "runesMatch s isASCIIAlnum (\<lambda>r. isASCIIAlnum r \<or> oneOf ''_-'' r) \<longleftrightarrow> s \<noteq> [] \<and> isASCIIAlnum (byteOf (hd s)) \<and>
      list_all (\<lambda>c. isASCIIAlnum (byteOf c) \<or> oneOf ''_-'' (byteOf c)) (tl s)"
    by (rule runesMatch_bytes) (auto simp: isASCIIAlnum_def lowerRune_def upperRune_def digitRune_def oneOf_def byteOf_def)
  then show ?thesis
    unfolding isRoleNamePart_def
    by (simp only: bytesMatch_def isASCIIAlnum_def) (simp add: rune_class oneOf_def one_class disj_assoc list_all_iff)
qed

lemma installName_pattern:
  "isRoleInstallName s \<longleftrightarrow> length s \<le> 128 \<and> s \<noteq> ''ansible_collections'' \<and>
     bytesMatch [az, AZ, d09, usc] [az, AZ, d09, usc, dot, dash] s"
proof -
  have m: "runesMatch s (\<lambda>r. isASCIIAlnum r \<or> oneOf ''_'' r) (\<lambda>r. isASCIIAlnum r \<or> oneOf ''_.-'' r) \<longleftrightarrow>
      s \<noteq> [] \<and> (isASCIIAlnum (byteOf (hd s)) \<or> oneOf ''_'' (byteOf (hd s))) \<and>
      list_all (\<lambda>c. isASCIIAlnum (byteOf c) \<or> oneOf ''_.-'' (byteOf c)) (tl s)"
    by (rule runesMatch_bytes) (auto simp: isASCIIAlnum_def lowerRune_def upperRune_def digitRune_def oneOf_def byteOf_def)
  have path: "isPathElement s"
    if "s \<noteq> []" "isASCIIAlnum (byteOf (hd s)) \<or> oneOf ''_'' (byteOf (hd s))"
      "list_all (\<lambda>c. isASCIIAlnum (byteOf c) \<or> oneOf ''_.-'' (byteOf c)) (tl s)"
  proof -
    note h = that
    obtain c cs where s: "s = c # cs" using h(1) by (cases s) auto
    let ?ok = "\<lambda>r. 0x20 \<le> r \<and> r < 0x7F \<and> r \<noteq> 47"
    have ok: "\<forall>d \<in> set s. ?ok (byteOf d)"
      using h(2,3) unfolding s
      by (auto simp: list_all_iff isASCIIAlnum_def lowerRune_def upperRune_def digitRune_def oneOf_def byteOf_def)
    then have "runes s = map byteOf s" by (intro runes_ascii) auto
    then have "list_all (\<lambda>r. \<not> isUnsafeRune r) (runes s)"
      using ok by (auto simp: list_all_iff isUnsafeRune_def isControl_def isLineTerminator_def)
    moreover have "CHR ''/'' \<notin> set s" using ok by (auto simp: byteOf_def)
    moreover have "hd s \<noteq> CHR ''.''"
      using h(2) by (auto simp: isASCIIAlnum_def lowerRune_def upperRune_def digitRune_def oneOf_def byteOf_def)
    ultimately show ?thesis using s by (auto simp: isPathElement_def)
  qed
  show ?thesis
    unfolding isRoleInstallName_def m using path
    by (auto simp: bytesMatch_def isASCIIAlnum_def rune_class oneOf_def one_class list_all_iff)
qed

end
