(* ===== verification/ChainScan.thy ===== *)
theory ChainScan imports Paths Names begin

text \<open>
  \<^verbatim>\<open>internal/galaxy/manifest/chain.go\<close>, first half: the bounded walk over an artifact's tar
  stream. A tar stream is the list of headers \<^verbatim>\<open>tar.Reader.Next\<close> returns, each with the
  bytes the stream still holds for the entry, and how the stream ends. Reading an entry
  yields exactly the \<^verbatim>\<open>Size\<close> bytes of its header, or fails when fewer are there.
  SHA-256 is an arbitrary function \<open>sha\<close>: nothing here depends on what it computes.

  The lemmas say what an accepted scan holds: one key for each retained entry, in arrival
  order and without duplicates, the digest of each regular file and the target of each link.
\<close>

section \<open>Errors\<close>

datatype chainReason =
    ManifestDoesNotParse
  | PointsAt gostring
  | PointerNotDigest gostring
  | NotVerifiedDocument
  | NoFilesManifest
  | FilesManifestDigest
  | ListingDoesNotParse
  | DelimExpected char
  | TwoFilesKeys
  | ContentAfterObject
  | TooManyRows
  | FieldTooLong gostring gostring nat
  | RowWithoutName
  | RowOutsideArchive gostring
  | ListedTwice gostring
  | TypeOverFile gostring gostring
  | OtherChecksumType gostring gostring
  | RowNotDigest gostring gostring
  | NotCarried gostring
  | DigestMismatch gostring
  | TooManyHops gostring
  | Unlisted gostring

datatype chainErr =
    ArchiveTooManyEntries
  | ArchiveEntryNameTooLong nat
  | ArchiveEntryHasNegativeSize gostring
  | ArchiveEntryIsTooLarge gostring int
  | ArchiveExceedsMaxSize
  | ArchiveEntryHasEmptyName
  | ArchiveEntryIsAbsolutePath gostring
  | ArchiveEntryEscapesDestination gostring
  | ArchiveDuplicateEntry gostring
  | SymlinkTargetIsEmpty gostring
  | SymlinkTargetIsAbsolute gostring
  | SymlinkTargetEscapesDestination gostring
  | HardlinkTargetIsEmpty gostring
  | TarStreamUnreadable
  | ArtifactNotTarGz
  | OpenCancelled
  | ManifestNotFound
  | ManifestChainMismatch chainReason

section \<open>The tar stream\<close>

datatype tarType = TypeReg | TypeDir | TypeSymlink | TypeLink | TypeOther

record tarEntry =
  te_name :: gostring
  te_type :: tarType
  te_link :: gostring
  te_size :: int
  te_avail :: gostring

datatype tarEnd = TarEOF | TarFails

definition tarContent :: "tarEntry \<Rightarrow> gostring option" where
  "tarContent e = (if length (te_avail e) < nat (te_size e) then None else Some (take (nat (te_size e)) (te_avail e)))"

type_synonym digest = "8 word list"

record archiveScan =
  as_hashes :: "gostring \<Rightarrow> digest option"
  as_links :: "gostring \<Rightarrow> gostring option"
  as_files :: gostring
  as_order :: "gostring list"

definition archiveMaxEntrySize :: int where "archiveMaxEntrySize = 512 * 2 ^ 20"
definition archiveMaxTotalSize :: int where "archiveMaxTotalSize = 4 * 2 ^ 30"
definition archiveMaxEntryCount :: int where "archiveMaxEntryCount = 100000"
definition archiveMaxEntryNameLen :: nat where "archiveMaxEntryNameLen = 1024"
definition filesManifestMaxBytes :: int where "filesManifestMaxBytes = 32 * 2 ^ 20"
definition manifestFileName :: gostring where "manifestFileName = ''MANIFEST.json''"
definition filesManifestFileName :: gostring where "filesManifestFileName = ''FILES.json''"

section \<open>The rules on one header\<close>

text \<open>
  The sums cannot wrap: both addends are at most the archive cap when the addition is made,
  so the \<^verbatim>\<open>int64\<close> of the source is an integer here.
\<close>

definition chargeEntrySize :: "tarEntry \<Rightarrow> int \<Rightarrow> (chainErr, int) res" where
  "chargeEntrySize e declared =
     (if te_size e < 0 then Inl (ArchiveEntryHasNegativeSize (te_name e))
      else if te_size e > archiveMaxEntrySize then Inl (ArchiveEntryIsTooLarge (te_name e) (te_size e))
      else if declared + te_size e > archiveMaxTotalSize then Inl ArchiveExceedsMaxSize
      else Inr (declared + te_size e))"

definition checkEntryNameLength :: "gostring \<Rightarrow> (chainErr, unit) res" where
  "checkEntryNameLength name =
     (if length name \<le> archiveMaxEntryNameLen then Inr () else Inl (ArchiveEntryNameTooLong (length name)))"

definition checkEntryNameLengths :: "tarEntry \<Rightarrow> (chainErr, unit) res" where
  "checkEntryNameLengths e =
     bindE (checkEntryNameLength (te_name e)) (\<lambda>_.
       if te_type e \<noteq> TypeSymlink \<and> te_type e \<noteq> TypeLink then Inr ()
       else if length (te_link e) > archiveMaxEntryNameLen then Inl (ArchiveEntryNameTooLong (length (te_link e)))
       else Inr ())"

definition cleanEntryPath :: "gostring \<Rightarrow> (chainErr, gostring) res" where
  "cleanEntryPath name =
     (if name = [] then Inl ArchiveEntryHasEmptyName
      else
        let cleaned = pathClean name in
        if cleaned = ''.'' then Inr []
        else if pathIsAbs cleaned then Inl (ArchiveEntryIsAbsolutePath name)
        else if cleaned = ''..'' \<or> hasPrefix cleaned ''../'' then Inl (ArchiveEntryEscapesDestination name)
        else Inr cleaned)"

section \<open>Recording an entry\<close>

definition claim :: "archiveScan \<Rightarrow> gostring \<Rightarrow> (chainErr, archiveScan) res" where
  "claim a key =
     (if as_hashes a key \<noteq> None \<or> as_links a key \<noteq> None then Inl (ArchiveDuplicateEntry key)
      else Inr (a\<lparr>as_order := as_order a @ [key]\<rparr>))"

definition link :: "archiveScan \<Rightarrow> gostring \<Rightarrow> gostring \<Rightarrow> archiveScan" where
  "link a key target = a\<lparr>as_links := (as_links a)(key \<mapsto> target)\<rparr>"

definition recordSymlink :: "archiveScan \<Rightarrow> gostring \<Rightarrow> gostring \<Rightarrow> (chainErr, archiveScan) res" where
  "recordSymlink a key linkname =
     (if linkname = [] then Inl (SymlinkTargetIsEmpty key)
      else if pathIsAbs linkname then Inl (SymlinkTargetIsAbsolute linkname)
      else
        let resolved = pathJoin [pathDir key, linkname] in
        if resolved = ''.'' \<or> resolved = ''..'' \<or> hasPrefix resolved ''../'' then Inl (SymlinkTargetEscapesDestination linkname)
        else Inr (link a key resolved))"

definition recordHardlink :: "archiveScan \<Rightarrow> gostring \<Rightarrow> gostring \<Rightarrow> (chainErr, archiveScan) res" where
  "recordHardlink a key linkname =
     (if linkname = [] then Inl (HardlinkTargetIsEmpty key)
      else bindE (cleanEntryPath linkname) (\<lambda>target.
        if target = [] then Inl (HardlinkTargetIsEmpty key) else Inr (link a key target)))"

definition recordFilesManifest :: "(gostring \<Rightarrow> digest) \<Rightarrow> archiveScan \<Rightarrow> tarEntry \<Rightarrow> (chainErr, archiveScan) res" where
  "recordFilesManifest sha a e =
     (if te_size e > filesManifestMaxBytes then Inl (ArchiveEntryIsTooLarge filesManifestFileName (te_size e))
      else case tarContent e of
        None \<Rightarrow> Inl TarStreamUnreadable
      | Some body \<Rightarrow> Inr (a\<lparr>as_files := body, as_hashes := (as_hashes a)(filesManifestFileName \<mapsto> sha body)\<rparr>))"

definition recordRegular :: "(gostring \<Rightarrow> digest) \<Rightarrow> archiveScan \<Rightarrow> tarEntry \<Rightarrow> gostring \<Rightarrow> (chainErr, archiveScan) res" where
  "recordRegular sha a e key =
     (if key = filesManifestFileName then recordFilesManifest sha a e
      else case tarContent e of
        None \<Rightarrow> Inl TarStreamUnreadable
      | Some body \<Rightarrow> Inr (a\<lparr>as_hashes := (as_hashes a)(key \<mapsto> sha body)\<rparr>))"

definition scanEntry :: "(gostring \<Rightarrow> digest) \<Rightarrow> archiveScan \<Rightarrow> tarEntry \<Rightarrow> (chainErr, archiveScan) res" where
  "scanEntry sha a e =
     (if te_type e \<noteq> TypeReg \<and> te_type e \<noteq> TypeSymlink \<and> te_type e \<noteq> TypeLink then Inr a
      else bindE (cleanEntryPath (te_name e)) (\<lambda>key.
        if key = [] then Inr a
        else bindE (claim a key) (\<lambda>a.
          case te_type e of
            TypeSymlink \<Rightarrow> recordSymlink a key (te_link e)
          | TypeLink \<Rightarrow> recordHardlink a key (te_link e)
          | _ \<Rightarrow> recordRegular sha a e key)))"

fun scanLoop :: "(gostring \<Rightarrow> digest) \<Rightarrow> int \<Rightarrow> int \<Rightarrow> archiveScan \<Rightarrow> tarEntry list \<Rightarrow> tarEnd \<Rightarrow> (chainErr, archiveScan) res" where
  "scanLoop sha entries declared a [] end = (if end = TarEOF then Inr a else Inl TarStreamUnreadable)"
| "scanLoop sha entries declared a (e # es) end =
     (if entries + 1 > archiveMaxEntryCount then Inl ArchiveTooManyEntries
      else bindE (checkEntryNameLengths e) (\<lambda>_.
        bindE (chargeEntrySize e declared) (\<lambda>declared.
          bindE (scanEntry sha a e) (\<lambda>a. scanLoop sha (entries + 1) declared a es end))))"

definition scanArchive :: "(gostring \<Rightarrow> digest) \<Rightarrow> tarEntry list \<Rightarrow> tarEnd \<Rightarrow> (chainErr, archiveScan) res" where
  "scanArchive sha es end =
     scanLoop sha 0 0 \<lparr>as_hashes = (\<lambda>_. None), as_links = (\<lambda>_. None), as_files = [], as_order = []\<rparr> es end"

section \<open>What an accepted scan holds\<close>

text \<open>The key of an entry the scan retains.\<close>

definition entryKey :: "tarEntry \<Rightarrow> gostring option" where
  "entryKey e =
     (if te_type e \<notin> {TypeReg, TypeSymlink, TypeLink} then None
      else case cleanEntryPath (te_name e) of Inr key \<Rightarrow> if key = [] then None else Some key | Inl _ \<Rightarrow> None)"

definition linkTarget :: "tarEntry \<Rightarrow> gostring \<Rightarrow> gostring" where
  "linkTarget e key = (if te_type e = TypeSymlink then pathJoin [pathDir key, te_link e] else pathClean (te_link e))"

text \<open>The scan after the entries \<open>es\<close>.\<close>

definition scanned :: "(gostring \<Rightarrow> digest) \<Rightarrow> tarEntry list \<Rightarrow> archiveScan \<Rightarrow> bool" where
  "scanned sha es a \<longleftrightarrow>
     as_order a = List.map_filter entryKey es \<and> distinct (as_order a) \<and>
     (\<forall>k d. as_hashes a k = Some d \<longleftrightarrow>
        (\<exists>e \<in> set es. entryKey e = Some k \<and> te_type e = TypeReg \<and> (\<exists>body. tarContent e = Some body \<and> d = sha body))) \<and>
     (\<forall>k t. as_links a k = Some t \<longleftrightarrow>
        (\<exists>e \<in> set es. entryKey e = Some k \<and> te_type e \<in> {TypeSymlink, TypeLink} \<and> t = linkTarget e k)) \<and>
     (\<forall>e \<in> set es. entryKey e = Some filesManifestFileName \<and> te_type e = TypeReg \<longrightarrow> tarContent e = Some (as_files a)) \<and>
     (\<forall>e \<in> set es. te_type e = TypeReg \<and> entryKey e \<noteq> None \<longrightarrow> tarContent e \<noteq> None)"

lemma set_map_filter_iff: "k \<in> set (List.map_filter f xs) \<longleftrightarrow> (\<exists>x \<in> set xs. f x = Some k)"
  by (force simp: List.map_filter_def)

lemma scanned_seq: "scanned sha es a \<Longrightarrow> as_order a = List.map_filter entryKey es"
  unfolding scanned_def by (elim conjE)

lemma scanned_order: "scanned sha es a \<Longrightarrow> k \<in> set (as_order a) \<longleftrightarrow> (\<exists>e \<in> set es. entryKey e = Some k)"
  unfolding scanned_seq by (rule set_map_filter_iff)

lemma scanned_hash:
  "scanned sha es a \<Longrightarrow> as_hashes a k = Some d \<longleftrightarrow>
     (\<exists>e \<in> set es. entryKey e = Some k \<and> te_type e = TypeReg \<and> (\<exists>body. tarContent e = Some body \<and> d = sha body))"
  unfolding scanned_def by meson

lemma scanned_link:
  "scanned sha es a \<Longrightarrow> as_links a k = Some t \<longleftrightarrow>
     (\<exists>e \<in> set es. entryKey e = Some k \<and> te_type e \<in> {TypeSymlink, TypeLink} \<and> t = linkTarget e k)"
  unfolding scanned_def by meson

lemma scanned_files:
  "scanned sha es a \<Longrightarrow> e \<in> set es \<Longrightarrow> entryKey e = Some filesManifestFileName \<Longrightarrow> te_type e = TypeReg \<Longrightarrow> tarContent e = Some (as_files a)"
  unfolding scanned_def by meson

lemma scanned_content:
  "scanned sha es a \<Longrightarrow> e \<in> set es \<Longrightarrow> entryKey e = Some k \<Longrightarrow> te_type e = TypeReg \<Longrightarrow> tarContent e \<noteq> None"
  unfolding scanned_def by (metis option.discI)

lemma scanned_distinct: "scanned sha es a \<Longrightarrow> distinct (as_order a)"
  unfolding scanned_def by meson

text \<open>The duplicate test of \<open>claim\<close> over the two maps is a test on the keys kept so far.\<close>

lemma scanned_keys:
  assumes "scanned sha es a"
  shows "(\<exists>e \<in> set es. entryKey e = Some k) \<longleftrightarrow> as_hashes a k \<noteq> None \<or> as_links a k \<noteq> None"
proof
  assume "\<exists>e \<in> set es. entryKey e = Some k"
  then obtain e where e: "e \<in> set es" "entryKey e = Some k" by auto
  show "as_hashes a k \<noteq> None \<or> as_links a k \<noteq> None"
  proof (cases "te_type e")
    case TypeReg
    with scanned_content [OF assms e] obtain body where "tarContent e = Some body" by auto
    with e TypeReg scanned_hash [OF assms, of k "sha body"] have "as_hashes a k = Some (sha body)" by blast
    then show ?thesis by simp
  next
    case TypeSymlink
    with e scanned_link [OF assms, of k "linkTarget e k"] show ?thesis by auto
  next
    case TypeLink
    with e scanned_link [OF assms, of k "linkTarget e k"] show ?thesis by auto
  qed (use e(2) in \<open>simp_all add: entryKey_def\<close>)
next
  assume "as_hashes a k \<noteq> None \<or> as_links a k \<noteq> None"
  then show "\<exists>e \<in> set es. entryKey e = Some k"
  proof
    assume "as_hashes a k \<noteq> None"
    then obtain d where "as_hashes a k = Some d" by auto
    with scanned_hash [OF assms] show ?thesis by blast
  next
    assume "as_links a k \<noteq> None"
    then obtain t where "as_links a k = Some t" by auto
    with scanned_link [OF assms] show ?thesis by blast
  qed
qed

lemma scanEntry_skip: "scanEntry sha a e = Inr a' \<Longrightarrow> entryKey e = None \<Longrightarrow> a' = a"
  by (auto simp: scanEntry_def entryKey_def bindE_Inr_iff split: if_splits)

lemma claim_Inr: "claim a k = Inr a' \<longleftrightarrow> as_hashes a k = None \<and> as_links a k = None \<and> a' = a\<lparr>as_order := as_order a @ [k]\<rparr>"
  by (auto simp: claim_def)

lemma recordRegular_Inr:
  "recordRegular sha a e k = Inr a' \<Longrightarrow>
     \<exists>body. tarContent e = Some body \<and>
       a' = a\<lparr>as_files := (if k = filesManifestFileName then body else as_files a), as_hashes := (as_hashes a)(k \<mapsto> sha body)\<rparr>"
  by (auto simp: recordRegular_def recordFilesManifest_def split: if_splits option.splits)

lemma cleanEntryPath_Inr: "cleanEntryPath name = Inr k \<Longrightarrow> k \<noteq> [] \<Longrightarrow> k = pathClean name"
  by (auto simp: cleanEntryPath_def Let_def split: if_splits)

lemma recordSymlink_Inr: "recordSymlink a k l = Inr a' \<Longrightarrow> a' = link a k (pathJoin [pathDir k, l])"
  by (auto simp: recordSymlink_def Let_def split: if_splits)

lemma recordHardlink_Inr: "recordHardlink a k l = Inr a' \<Longrightarrow> a' = link a k (pathClean l)"
  by (auto simp: recordHardlink_def bindE_Inr_iff dest: cleanEntryPath_Inr split: if_splits)

text \<open>The two ways an entry is recorded.\<close>

lemma scanEntry_keep:
  assumes "scanEntry sha a e = Inr a'" "entryKey e = Some k"
  shows "as_hashes a k = None \<and> as_links a k = None \<and>
    (te_type e = TypeReg \<and> (\<exists>body. tarContent e = Some body \<and>
       a' = a\<lparr>as_order := as_order a @ [k], as_files := (if k = filesManifestFileName then body else as_files a),
              as_hashes := (as_hashes a)(k \<mapsto> sha body)\<rparr>)
     \<or> te_type e \<in> {TypeSymlink, TypeLink} \<and>
       a' = a\<lparr>as_order := as_order a @ [k], as_links := (as_links a)(k \<mapsto> linkTarget e k)\<rparr>)"
proof -
  have t: "te_type e \<in> {TypeReg, TypeSymlink, TypeLink}" and key: "cleanEntryPath (te_name e) = Inr k" "k \<noteq> []"
    using assms(2) by (auto simp: entryKey_def split: if_splits sum.splits)
  with assms(1) obtain a1 where a1: "claim a k = Inr a1"
    and r: "(case te_type e of TypeSymlink \<Rightarrow> recordSymlink a1 k (te_link e)
             | TypeLink \<Rightarrow> recordHardlink a1 k (te_link e) | _ \<Rightarrow> recordRegular sha a1 e k) = Inr a'"
    by (auto simp: scanEntry_def bindE_Inr_iff)
  show ?thesis
  proof (cases "te_type e")
    case TypeReg
    with r recordRegular_Inr [of sha a1 e k a'] a1 show ?thesis by (auto simp: claim_Inr)
  next
    case TypeSymlink
    with r recordSymlink_Inr [of a1 k "te_link e" a'] a1 show ?thesis by (auto simp: claim_Inr link_def linkTarget_def)
  next
    case TypeLink
    with r recordHardlink_Inr [of a1 k "te_link e" a'] a1 show ?thesis by (auto simp: claim_Inr link_def linkTarget_def)
  qed (use t in simp_all)
qed

lemma map_filter_snoc: "List.map_filter f (xs @ [x]) = List.map_filter f xs @ (case f x of Some y \<Rightarrow> [y] | None \<Rightarrow> [])"
  by (simp add: List.map_filter_def split: option.split)

lemma scanned_step:
  assumes s: "scanned sha es a" and e: "scanEntry sha a e = Inr a'"
  shows "scanned sha (es @ [e]) a'"
proof (cases "entryKey e")
  case None
  with scanEntry_skip [OF e None] s scanned_distinct [OF s, unfolded scanned_seq [OF s]]
  show ?thesis unfolding scanned_def map_filter_snoc by simp
next
  case (Some k)
  note keep = scanEntry_keep [OF e Some]
  then have fresh: "\<not> (\<exists>e \<in> set es. entryKey e = Some k)" using scanned_keys [OF s, of k] by blast
  then have new: "k \<notin> set (as_order a)" using scanned_order [OF s] by blast
  have other: "entryKey x \<noteq> Some k" if "x \<in> set es" for x using fresh that by blast
  from keep consider
    (reg) body where "te_type e = TypeReg" "tarContent e = Some body"
      "a' = a\<lparr>as_order := as_order a @ [k], as_files := (if k = filesManifestFileName then body else as_files a),
              as_hashes := (as_hashes a)(k \<mapsto> sha body)\<rparr>"
  | (lnk) "te_type e \<in> {TypeSymlink, TypeLink}"
      "a' = a\<lparr>as_order := as_order a @ [k], as_links := (as_links a)(k \<mapsto> linkTarget e k)\<rparr>" by blast
  then show ?thesis
  proof cases
    case reg
    show ?thesis unfolding scanned_def
    proof (intro conjI allI ballI)
      show "as_order a' = List.map_filter entryKey (es @ [e])"
        using s Some reg(3) by (simp add: scanned_def map_filter_snoc)
      show "distinct (as_order a')" using scanned_distinct [OF s] new reg(3) by simp
      show "as_hashes a' j = Some d \<longleftrightarrow>
        (\<exists>x \<in> set (es @ [e]). entryKey x = Some j \<and> te_type x = TypeReg \<and> (\<exists>body. tarContent x = Some body \<and> d = sha body))" for j d
        using scanned_hash [OF s, of j d] other Some reg by auto
      show "as_links a' j = Some t \<longleftrightarrow>
        (\<exists>x \<in> set (es @ [e]). entryKey x = Some j \<and> te_type x \<in> {TypeSymlink, TypeLink} \<and> t = linkTarget x j)" for j t
        using scanned_link [OF s, of j t] reg by auto
      show "entryKey x = Some filesManifestFileName \<and> te_type x = TypeReg \<longrightarrow> tarContent x = Some (as_files a')"
        if "x \<in> set (es @ [e])" for x
        using that scanned_files [OF s] other Some reg by auto
      show "te_type x = TypeReg \<and> entryKey x \<noteq> None \<longrightarrow> tarContent x \<noteq> None" if "x \<in> set (es @ [e])" for x
        using that scanned_content [OF s] reg by auto
    qed
  next
    case lnk
    show ?thesis unfolding scanned_def
    proof (intro conjI allI ballI)
      show "as_order a' = List.map_filter entryKey (es @ [e])"
        using s Some lnk(2) by (simp add: scanned_def map_filter_snoc)
      show "distinct (as_order a')" using scanned_distinct [OF s] new lnk(2) by simp
      show "as_hashes a' j = Some d \<longleftrightarrow>
        (\<exists>x \<in> set (es @ [e]). entryKey x = Some j \<and> te_type x = TypeReg \<and> (\<exists>body. tarContent x = Some body \<and> d = sha body))" for j d
        using scanned_hash [OF s, of j d] lnk by auto
      show "as_links a' j = Some t \<longleftrightarrow>
        (\<exists>x \<in> set (es @ [e]). entryKey x = Some j \<and> te_type x \<in> {TypeSymlink, TypeLink} \<and> t = linkTarget x j)" for j t
        using scanned_link [OF s, of j t] other Some lnk by auto
      show "entryKey x = Some filesManifestFileName \<and> te_type x = TypeReg \<longrightarrow> tarContent x = Some (as_files a')"
        if "x \<in> set (es @ [e])" for x
        using that scanned_files [OF s] Some lnk by auto
      show "te_type x = TypeReg \<and> entryKey x \<noteq> None \<longrightarrow> tarContent x \<noteq> None" if "x \<in> set (es @ [e])" for x
        using that scanned_content [OF s] lnk by auto
    qed
  qed
qed

lemma scanLoop_scanned:
  "scanLoop sha n d a es end = Inr a' \<Longrightarrow> scanned sha done a \<Longrightarrow> end = TarEOF \<and> scanned sha (done @ es) a'"
proof (induction es arbitrary: n d a "done")
  case Nil
  then show ?case by (simp split: if_splits)
next
  case (Cons e es)
  then obtain d1 a1 where "scanEntry sha a e = Inr a1" "scanLoop sha (n + 1) d1 a1 es end = Inr a'"
    by (auto simp: bindE_Inr_iff split: if_splits)
  with Cons.IH [of "n + 1" d1 a1 "done @ [e]"] scanned_step [OF Cons.prems(2)] show ?case by simp
qed

lemma scanned_empty: "scanned sha [] \<lparr>as_hashes = (\<lambda>_. None), as_links = (\<lambda>_. None), as_files = [], as_order = []\<rparr>"
  by (simp add: scanned_def List.map_filter_def)

lemma scanArchive_scanned:
  assumes "scanArchive sha es end = Inr a"
  shows "end = TarEOF \<and> scanned sha es a"
  using scanLoop_scanned [OF assms [unfolded scanArchive_def] scanned_empty] by simp

section \<open>Bounds\<close>

lemma scanLoop_bounds:
  "scanLoop sha n d a es end = Inr a' \<Longrightarrow>
     (es \<noteq> [] \<longrightarrow> n + int (length es) \<le> archiveMaxEntryCount \<and> d + sum_list (map te_size es) \<le> archiveMaxTotalSize) \<and>
     (\<forall>e \<in> set es. 0 \<le> te_size e \<and> te_size e \<le> archiveMaxEntrySize \<and> length (te_name e) \<le> archiveMaxEntryNameLen)"
proof (induction es arbitrary: n d a)
  case Nil
  then show ?case by simp
next
  case (Cons e es)
  then obtain a1 where step: "n + 1 \<le> archiveMaxEntryCount" "checkEntryNameLengths e = Inr ()"
    "chargeEntrySize e d = Inr (d + te_size e)" "scanLoop sha (n + 1) (d + te_size e) a1 es end = Inr a'"
    by (auto simp: bindE_Inr_iff chargeEntrySize_def split: if_splits)
  have "0 \<le> te_size e \<and> te_size e \<le> archiveMaxEntrySize \<and> d + te_size e \<le> archiveMaxTotalSize"
    using step(3) by (auto simp: chargeEntrySize_def split: if_splits)
  moreover have "length (te_name e) \<le> archiveMaxEntryNameLen"
    using step(2) by (auto simp: checkEntryNameLengths_def checkEntryNameLength_def bindE_Inr_iff split: if_splits)
  ultimately show ?case using Cons.IH [OF step(4)] step(1) by (cases es) auto
qed

text \<open>A retained key names something inside the archive: all its elements are plain.\<close>

lemma entryKey_inside:
  assumes "entryKey e = Some k"
  shows "\<forall>el \<in> set (splitStr k ''/''). plainElem el"
proof -
  from assms have "cleanEntryPath (te_name e) = Inr k" "k \<noteq> []"
    by (auto simp: entryKey_def split: if_splits sum.splits)
  then have "pathClean (te_name e) = k" "k \<noteq> ''.''" "\<not> pathIsAbs k" "k \<noteq> ''..''" "\<not> hasPrefix k ''../''"
    by (auto simp: cleanEntryPath_def Let_def split: if_splits)
  then show ?thesis using clean_inside by blast
qed

end
