(* ===== verification/FileSystem.thy ===== *)
theory FileSystem imports Paths begin

text \<open>
  The file system as the program's \<^verbatim>\<open>os\<close> calls see it: a tree of directories, regular
  files (by inode, since hard links share one) and symbolic links, with POSIX name
  resolution. A real path is the list of its elements from the root. The lemmas say when
  resolution stays where its text says, and what each call can change.
\<close>

section \<open>State\<close>

datatype node = NDir | NFile nat | NSym gostring

type_synonym fpath = "gostring list"

record fsys =
  fs_node :: "fpath \<Rightarrow> node option"
  fs_data :: "nat \<Rightarrow> bool \<times> gostring"
  fs_next :: nat

text \<open>An inode's data is whether its mode has a write bit, and its content.\<close>

datatype osErr = ENOENT | ENOTDIR | EEXIST | EACCES | EISDIR | ELOOP | EPERM

section \<open>Name resolution\<close>

function namei :: "fsys \<Rightarrow> nat \<Rightarrow> bool \<Rightarrow> fpath \<Rightarrow> gostring list \<Rightarrow> (osErr, fpath) res" where
  "namei fs n follow cur [] = Inr cur"
| "namei fs n follow cur (e # es) =
     (if e = [] \<or> e = ''.'' then namei fs n follow cur es
      else if e = ''..'' then namei fs n follow (butlast cur) es
      else
        case fs_node fs (cur @ [e]) of
          None \<Rightarrow> if es = [] then Inr (cur @ [e]) else Inl ENOENT
        | Some NDir \<Rightarrow> namei fs n follow (cur @ [e]) es
        | Some (NFile _) \<Rightarrow> if es = [] then Inr (cur @ [e]) else Inl ENOTDIR
        | Some (NSym t) \<Rightarrow>
            if es = [] \<and> \<not> follow then Inr (cur @ [e])
            else if n = 0 then Inl ELOOP
            else namei fs (n - 1) follow (if pathIsAbs t then [] else cur) (splitStr t ''/'' @ es))"
  by pat_completeness auto
termination by (relation "measures [\<lambda>(fs, n, follow, cur, es). n, \<lambda>(fs, n, follow, cur, es). length es]") auto

declare namei.simps [simp del]

definition symlinkMax :: nat where "symlinkMax = 40"

definition stat :: "fsys \<Rightarrow> fpath \<Rightarrow> (osErr, node) res" where
  "stat fs p = bindE (namei fs symlinkMax True [] p) (\<lambda>q. case fs_node fs q of None \<Rightarrow> Inl ENOENT | Some nd \<Rightarrow> Inr nd)"

definition lstat :: "fsys \<Rightarrow> fpath \<Rightarrow> (osErr, node) res" where
  "lstat fs p = bindE (namei fs symlinkMax False [] p) (\<lambda>q. case fs_node fs q of None \<Rightarrow> Inl ENOENT | Some nd \<Rightarrow> Inr nd)"

section \<open>Calls that change the tree\<close>

definition setNode :: "fsys \<Rightarrow> fpath \<Rightarrow> node \<Rightarrow> fsys" where
  "setNode fs p nd = fs\<lparr>fs_node := (fs_node fs)(p \<mapsto> nd)\<rparr>"

definition osMkdir :: "fsys \<Rightarrow> fpath \<Rightarrow> (osErr, fsys) res" where
  "osMkdir fs p =
     bindE (namei fs symlinkMax False [] p) (\<lambda>q. if fs_node fs q \<noteq> None then Inl EEXIST else Inr (setNode fs q NDir))"

fun osMkdirAllRev :: "fsys \<Rightarrow> fpath \<Rightarrow> (osErr, unit) res \<times> fsys" where
  "osMkdirAllRev fs [] = (Inr (), fs)"
| "osMkdirAllRev fs (e # rp) =
     (case stat fs (rev (e # rp)) of
        Inr NDir \<Rightarrow> (Inr (), fs)
      | Inr _ \<Rightarrow> (Inl ENOTDIR, fs)
      | Inl _ \<Rightarrow>
          (case osMkdirAllRev fs rp of
             (Inl err, fs) \<Rightarrow> (Inl err, fs)
           | (Inr _, fs) \<Rightarrow>
               (case osMkdir fs (rev (e # rp)) of
                  Inr fs \<Rightarrow> (Inr (), fs)
                | Inl err \<Rightarrow> if lstat fs (rev (e # rp)) = Inr NDir then (Inr (), fs) else (Inl err, fs))))"

definition osMkdirAll :: "fsys \<Rightarrow> fpath \<Rightarrow> (osErr, unit) res \<times> fsys" where
  "osMkdirAll fs p = osMkdirAllRev fs (rev p)"

text \<open>
  \<^verbatim>\<open>O_CREATE|O_WRONLY|O_TRUNC\<close> with a mode: the inode opened for writing. \<open>root\<close> is
  whether the process ignores a missing write bit.
\<close>

definition osCreate :: "bool \<Rightarrow> fsys \<Rightarrow> fpath \<Rightarrow> bool \<Rightarrow> (osErr, nat \<times> fsys) res" where
  "osCreate root fs p writable =
     bindE (namei fs symlinkMax True [] p) (\<lambda>q.
       case fs_node fs q of
         None \<Rightarrow> Inr (fs_next fs, (setNode fs q (NFile (fs_next fs)))
                   \<lparr>fs_data := (fs_data fs)(fs_next fs := (writable, [])), fs_next := fs_next fs + 1\<rparr>)
       | Some (NFile i) \<Rightarrow>
           if root \<or> fst (fs_data fs i) then Inr (i, fs\<lparr>fs_data := (fs_data fs)(i := (fst (fs_data fs i), []))\<rparr>)
           else Inl EACCES
       | Some _ \<Rightarrow> Inl EISDIR)"

definition osWrite :: "fsys \<Rightarrow> nat \<Rightarrow> gostring \<Rightarrow> fsys" where
  "osWrite fs i content = fs\<lparr>fs_data := (fs_data fs)(i := (fst (fs_data fs i), content))\<rparr>"

definition osSymlink :: "fsys \<Rightarrow> gostring \<Rightarrow> fpath \<Rightarrow> (osErr, fsys) res" where
  "osSymlink fs target p =
     bindE (namei fs symlinkMax False [] p) (\<lambda>q. if fs_node fs q \<noteq> None then Inl EEXIST else Inr (setNode fs q (NSym target)))"

definition osLink :: "fsys \<Rightarrow> fpath \<Rightarrow> fpath \<Rightarrow> (osErr, fsys) res" where
  "osLink fs old p =
     bindE (namei fs symlinkMax False [] old) (\<lambda>o'.
       case fs_node fs o' of
         None \<Rightarrow> Inl ENOENT
       | Some NDir \<Rightarrow> Inl EPERM
       | Some nd \<Rightarrow>
           bindE (namei fs symlinkMax False [] p) (\<lambda>q. if fs_node fs q \<noteq> None then Inl EEXIST else Inr (setNode fs q nd)))"

section \<open>Well-formed trees\<close>

definition wfFs :: "fsys \<Rightarrow> bool" where
  "wfFs fs \<longleftrightarrow> fs_node fs [] = Some NDir \<and> (\<forall>p e. fs_node fs (p @ [e]) \<noteq> None \<longrightarrow> fs_node fs p = Some NDir) \<and>
     (\<forall>p i. fs_node fs p = Some (NFile i) \<longrightarrow> i < fs_next fs)"

text \<open>No symbolic link stands on the way from \<open>cur\<close> along \<open>es\<close>, the last element included.\<close>

definition noSym :: "fsys \<Rightarrow> fpath \<Rightarrow> gostring list \<Rightarrow> bool" where
  "noSym fs cur es \<longleftrightarrow> (\<forall>k t. 0 < k \<longrightarrow> k \<le> length es \<longrightarrow> fs_node fs (cur @ take k es) \<noteq> Some (NSym t))"

lemma noSym_Nil [simp]: "noSym fs cur []"
  by (simp add: noSym_def)

lemma noSym_Cons: "noSym fs cur (e # es) \<longleftrightarrow> (\<forall>t. fs_node fs (cur @ [e]) \<noteq> Some (NSym t)) \<and> noSym fs (cur @ [e]) es"
proof
  assume a: "noSym fs cur (e # es)"
  have "fs_node fs (cur @ [e]) \<noteq> Some (NSym t)" for t
    using a [unfolded noSym_def, rule_format, of 1 t] by simp
  moreover have "fs_node fs ((cur @ [e]) @ take k es) \<noteq> Some (NSym t)" if "0 < k" "k \<le> length es" for k t
    using a [unfolded noSym_def, rule_format, of "Suc k" t] that by simp
  ultimately show "(\<forall>t. fs_node fs (cur @ [e]) \<noteq> Some (NSym t)) \<and> noSym fs (cur @ [e]) es" by (simp add: noSym_def)
next
  assume a: "(\<forall>t. fs_node fs (cur @ [e]) \<noteq> Some (NSym t)) \<and> noSym fs (cur @ [e]) es"
  show "noSym fs cur (e # es)"
    unfolding noSym_def
  proof (intro allI impI)
    fix k t
    assume k: "0 < k" "k \<le> length (e # es)"
    then obtain j where "k = Suc j" by (cases k) auto
    with k a show "fs_node fs (cur @ take k (e # es)) \<noteq> Some (NSym t)"
      by (cases "j = 0") (auto simp: noSym_def)
  qed
qed

lemma noSym_take: "noSym fs cur es \<Longrightarrow> noSym fs cur (take k es)"
  by (auto simp: noSym_def min_def)

lemma noSym_append: "noSym fs cur (xs @ ys) \<longleftrightarrow> noSym fs cur xs \<and> noSym fs (cur @ xs) ys"
  by (induction xs arbitrary: cur) (auto simp: noSym_Cons)

text \<open>Without links on the way a path of plain elements names itself.\<close>

lemma namei_plain:
  "namei fs n follow cur es = Inr p \<Longrightarrow> noSym fs cur es \<Longrightarrow> \<forall>e \<in> set es. plainElem e \<Longrightarrow> p = cur @ es"
proof (induction es arbitrary: cur)
  case Nil
  then show ?case by (simp add: namei.simps)
next
  case (Cons e es)
  then have e: "e \<noteq> []" "e \<noteq> ''.''" "e \<noteq> ''..''" and s: "\<forall>t. fs_node fs (cur @ [e]) \<noteq> Some (NSym t)" "noSym fs (cur @ [e]) es"
    by (auto simp: plainElem_def noSym_Cons)
  show ?case
  proof (cases "fs_node fs (cur @ [e])")
    case None
    with Cons.prems(1) e show ?thesis by (auto simp: namei.simps split: if_splits)
  next
    case (Some nd)
    then show ?thesis
    proof (cases nd)
      case NDir
      with Some Cons.prems(1) e have "namei fs n follow (cur @ [e]) es = Inr p" by (simp add: namei.simps)
      from Cons.IH [OF this s(2)] Cons.prems(3) show ?thesis by simp
    next
      case (NFile i)
      with Some Cons.prems(1) e show ?thesis by (auto simp: namei.simps split: if_splits)
    next
      case (NSym t)
      with Some s show ?thesis by simp
    qed
  qed
qed

text \<open>Through real directories resolution walks to its end, a missing or final element included.\<close>

lemma namei_dirs:
  "\<forall>k < length es. fs_node fs (cur @ take k es) = Some NDir \<Longrightarrow> \<forall>t. fs_node fs (cur @ es) \<noteq> Some (NSym t) \<or> \<not> follow \<Longrightarrow>
     \<forall>e \<in> set es. plainElem e \<Longrightarrow> namei fs n follow cur es = Inr (cur @ es)"
proof (induction es arbitrary: cur)
  case Nil
  then show ?case by (simp add: namei.simps)
next
  case (Cons e es)
  have e: "e \<noteq> []" "e \<noteq> ''.''" "e \<noteq> ''..''" using Cons.prems(3) by (auto simp: plainElem_def)
  show ?case
  proof (cases "es = []")
    case True
    with Cons.prems(2) e show ?thesis by (auto simp: namei.simps split: option.split node.split)
  next
    case False
    then have "fs_node fs (cur @ [e]) = Some NDir" using Cons.prems(1) [rule_format, of 1] by simp
    moreover have "\<forall>k < length es. fs_node fs ((cur @ [e]) @ take k es) = Some NDir"
    proof (intro allI impI)
      fix k
      assume "k < length es"
      then show "fs_node fs ((cur @ [e]) @ take k es) = Some NDir" using Cons.prems(1) [rule_format, of "Suc k"] by simp
    qed
    ultimately show ?thesis using Cons.IH [of "cur @ [e]"] Cons.prems(2,3) e by (simp add: namei.simps)
  qed
qed

lemma wf_parent: "wfFs fs \<Longrightarrow> fs_node fs (p @ [e]) \<noteq> None \<Longrightarrow> fs_node fs p = Some NDir"
  unfolding wfFs_def by blast

lemma wf_ancestor: "wfFs fs \<Longrightarrow> fs_node fs (p @ q) \<noteq> None \<Longrightarrow> q \<noteq> [] \<Longrightarrow> fs_node fs p = Some NDir"
proof (induction q rule: rev_induct)
  case Nil
  then show ?case by simp
next
  case (snoc e q)
  then have "fs_node fs (p @ q) = Some NDir" using wf_parent [of fs "p @ q" e] by simp
  with snoc show ?case by (cases "q = []") auto
qed

lemma namei_parent:
  "namei fs n follow cur es = Inr p \<Longrightarrow> wfFs fs \<Longrightarrow> fs_node fs cur = Some NDir \<Longrightarrow>
     p = [] \<or> fs_node fs (butlast p) = Some NDir"
proof (induction fs n follow cur es rule: namei.induct)
  case (1 fs n follow cur)
  then show ?case
    using wf_parent [of fs "butlast cur" "last cur"] by (cases "cur = []") (auto simp: namei.simps)
next
  case (2 fs n follow cur e es)
  have up: "fs_node fs (butlast cur) = Some NDir"
    using wf_parent [of fs "butlast cur" "last cur"] 2(6,7) by (cases "cur = []") auto
  have root: "fs_node fs [] = Some NDir" using 2(6) by (simp add: wfFs_def)
  show ?case
  proof (cases "e = [] \<or> e = ''.'' \<or> e = ''..''")
    case True
    with 2 up show ?thesis by (auto simp: namei.simps split: if_splits)
  next
    case e: False
    show ?thesis
    proof (cases "fs_node fs (cur @ [e])")
      case None
      with 2(5,7) e show ?thesis by (auto simp: namei.simps split: if_splits)
    next
      case (Some nd)
      then show ?thesis
      proof (cases nd)
        case (NSym t)
        with Some 2(4) [OF _ _ Some NSym] 2(5-7) e root show ?thesis
          by (auto simp: namei.simps split: if_splits)
      qed (use Some 2(3) 2(5-7) e in \<open>auto simp: namei.simps split: if_splits\<close>)
    qed
  qed
qed

end
