(* ===== verification/Extractor.thy ===== *)
theory Extractor imports ChainScan FileSystem begin

text \<open>
  \<^verbatim>\<open>internal/galaxy/archive/archive.go\<close>: extraction of a tar stream into a directory, over
  the file system of theory FileSystem. The state of an extraction is the file system and
  the set of paths already proved real directories; a failing step keeps the changes made
  before the failure, as the code does. Paths below the destination are written as lists of
  elements, the destination \<open>dst\<close> being the clean absolute path the caller passes.
\<close>

section \<open>State and errors\<close>

datatype exErr =
    ExArchive chainErr
  | ExSymlinkTarget gostring
  | ExTargetResolvesToRoot gostring
  | ExTargetResolvesToSelf gostring
  | ExPathContainsSymlink fpath
  | ExOs osErr
  | ExTarStream

record exState =
  ex_fs :: fsys
  ex_verified :: "fpath set"

type_synonym 'a exRun = "(exErr, 'a) res \<times> exState"

definition thenS :: "'a exRun \<Rightarrow> ('a \<Rightarrow> exState \<Rightarrow> 'b exRun) \<Rightarrow> 'b exRun" where
  "thenS r f = (case r of (Inl e, st) \<Rightarrow> (Inl e, st) | (Inr x, st) \<Rightarrow> f x st)"

definition liftS :: "(exErr, 'a) res \<Rightarrow> exState \<Rightarrow> 'a exRun" where
  "liftS r st = (r, st)"

section \<open>Names\<close>

definition sanitizeArchivePath :: "gostring \<Rightarrow> (exErr, gostring) res" where
  "sanitizeArchivePath name =
     (if name = [] then Inl (ExArchive ArchiveEntryHasEmptyName)
      else
        let cleaned = pathClean name in
        if cleaned = ''.'' then Inr []
        else if pathIsAbs cleaned then Inl (ExArchive (ArchiveEntryIsAbsolutePath name))
        else if cleaned = ''..'' \<or> hasPrefix cleaned ''../'' then Inl (ExArchive (ArchiveEntryEscapesDestination name))
        else Inr cleaned)"

text \<open>\<^verbatim>\<open>filepath.Rel\<close> on two paths neither of which cleans to the other's parent dots only.\<close>

fun dropCommon :: "gostring list \<Rightarrow> gostring list \<Rightarrow> gostring list \<times> gostring list" where
  "dropCommon (b # bs) (t # ts) = (if b = t then dropCommon bs ts else (b # bs, t # ts))"
| "dropCommon bs ts = (bs, ts)"

definition pathElems :: "gostring \<Rightarrow> gostring list" where
  "pathElems p = (if p = [] \<or> p = ''.'' then [] else splitStr p ''/'')"

definition pathRel :: "gostring \<Rightarrow> gostring \<Rightarrow> gostring option" where
  "pathRel basepath targpath =
     (let base = pathClean basepath; targ = pathClean targpath in
      if targ = base then Some ''.''
      else if pathIsAbs base \<noteq> pathIsAbs targ then None
      else
        let (bs, ts) = dropCommon (pathElems base) (splitStr targ ''/'') in
        if bs \<noteq> [] \<and> hd bs = ''..'' then None
        else Some (joinStr (replicate (length bs) ''..'' @ ts) ''/''))"

definition safeSymlinkTarget :: "gostring \<Rightarrow> gostring \<Rightarrow> (exErr, gostring) res" where
  "safeSymlinkTarget relPath linkName =
     (if linkName = [] then Inl (ExArchive (SymlinkTargetIsEmpty relPath))
      else if pathIsAbs linkName then Inl (ExArchive (SymlinkTargetIsAbsolute linkName))
      else
        let cleaned = pathClean linkName in
        if cleaned = ''.'' then Inl (ExSymlinkTarget linkName)
        else
          let baseDir = pathDir relPath; resolved = pathClean (pathJoin [baseDir, cleaned]) in
          if resolved = ''.'' then Inl (ExTargetResolvesToRoot linkName)
          else if resolved = ''..'' \<or> hasPrefix resolved ''../'' then Inl (ExArchive (SymlinkTargetEscapesDestination linkName))
          else case pathRel baseDir resolved of
            None \<Rightarrow> Inl (ExSymlinkTarget linkName)
          | Some relTarget \<Rightarrow> if relTarget = ''.'' then Inl (ExTargetResolvesToSelf linkName) else Inr relTarget)"

section \<open>Directories\<close>

definition checkPathComponentNotSymlink :: "fpath \<Rightarrow> exState \<Rightarrow> unit exRun" where
  "checkPathComponentNotSymlink current st =
     (if current \<in> ex_verified st then (Inr (), st)
      else case lstat (ex_fs st) current of
        Inl err \<Rightarrow> if err = ENOENT then (Inr (), st) else (Inl (ExOs err), st)
      | Inr (NSym _) \<Rightarrow> (Inl (ExPathContainsSymlink current), st)
      | Inr NDir \<Rightarrow> (Inr (), st\<lparr>ex_verified := insert current (ex_verified st)\<rparr>)
      | Inr (NFile _) \<Rightarrow> (Inr (), st))"

fun checkComponents :: "fpath \<Rightarrow> gostring list \<Rightarrow> exState \<Rightarrow> unit exRun" where
  "checkComponents current [] st = (Inr (), st)"
| "checkComponents current (part # parts) st =
     (if part = [] \<or> part = ''.'' then checkComponents current parts st
      else thenS (checkPathComponentNotSymlink (current @ [part]) st) (\<lambda>_. checkComponents (current @ [part]) parts))"

definition ensureNoSymlinkParents :: "fpath \<Rightarrow> gostring \<Rightarrow> exState \<Rightarrow> unit exRun" where
  "ensureNoSymlinkParents baseDir relPath st =
     (if relPath = [] \<or> relPath = ''.'' then (Inr (), st) else checkComponents baseDir (splitStr relPath ''/'') st)"

definition ensureDir :: "fpath \<Rightarrow> exState \<Rightarrow> unit exRun" where
  "ensureDir dir st =
     (if dir \<in> ex_verified st then (Inr (), st)
      else case osMkdirAll (ex_fs st) dir of
        (Inl err, fs) \<Rightarrow> (Inl (ExOs err), st\<lparr>ex_fs := fs\<rparr>)
      | (Inr _, fs) \<Rightarrow> (Inr (), st\<lparr>ex_fs := fs, ex_verified := insert dir (ex_verified st)\<rparr>))"

section \<open>Entries\<close>

definition classifyOpenRegularFileError :: "exState \<Rightarrow> fpath \<Rightarrow> gostring \<Rightarrow> osErr \<Rightarrow> exErr" where
  "classifyOpenRegularFileError st targetPath entryName openErr =
     (case stat (ex_fs st) targetPath of Inr _ \<Rightarrow> ExArchive (ArchiveDuplicateEntry entryName) | Inl _ \<Rightarrow> ExOs openErr)"

text \<open>The mode of a new file has no write bit, whatever the header says.\<close>

definition extractRegularFile :: "bool \<Rightarrow> tarEntry \<Rightarrow> fpath \<Rightarrow> exState \<Rightarrow> unit exRun" where
  "extractRegularFile root e targetPath st =
     thenS (ensureDir (butlast targetPath) st) (\<lambda>_ st.
       case osCreate root (ex_fs st) targetPath False of
         Inl err \<Rightarrow> (Inl (classifyOpenRegularFileError st targetPath (te_name e) err), st)
       | Inr (i, fs) \<Rightarrow>
           (if length (te_avail e) < nat (te_size e) then Inl ExTarStream else Inr (),
            st\<lparr>ex_fs := osWrite fs i (take (nat (te_size e)) (te_avail e))\<rparr>))"

definition extractSymlink :: "gostring \<Rightarrow> fpath \<Rightarrow> tarEntry \<Rightarrow> exState \<Rightarrow> unit exRun" where
  "extractSymlink relPath targetPath e st =
     thenS (liftS (safeSymlinkTarget relPath (te_link e)) st) (\<lambda>linkTarget st.
       thenS (ensureDir (butlast targetPath) st) (\<lambda>_ st.
         case osSymlink (ex_fs st) linkTarget targetPath of
           Inl err \<Rightarrow> (Inl (ExOs err), st)
         | Inr fs \<Rightarrow> (Inr (), st\<lparr>ex_fs := fs\<rparr>)))"

definition extractHardlink :: "fpath \<Rightarrow> fpath \<Rightarrow> tarEntry \<Rightarrow> exState \<Rightarrow> unit exRun" where
  "extractHardlink dst targetPath e st =
     thenS (liftS (sanitizeArchivePath (te_link e)) st) (\<lambda>linkRel st.
       if linkRel = [] then (Inl (ExArchive (HardlinkTargetIsEmpty (te_name e))), st)
       else thenS (ensureNoSymlinkParents dst linkRel st) (\<lambda>_ st.
         thenS (ensureDir (butlast targetPath) st) (\<lambda>_ st.
           case osLink (ex_fs st) (dst @ splitStr linkRel ''/'') targetPath of
             Inl err \<Rightarrow> (Inl (ExOs err), st)
           | Inr fs \<Rightarrow> (Inr (), st\<lparr>ex_fs := fs\<rparr>))))"

definition handleTarEntry :: "bool \<Rightarrow> fpath \<Rightarrow> tarEntry \<Rightarrow> exState \<Rightarrow> unit exRun" where
  "handleTarEntry root dst e st =
     thenS (liftS (sanitizeArchivePath (te_name e)) st) (\<lambda>relPath st.
       if relPath = [] then (Inr (), st)
       else
         let targetPath = dst @ splitStr relPath ''/'' in
         thenS (ensureNoSymlinkParents dst relPath st) (\<lambda>_ st.
           case te_type e of
             TypeDir \<Rightarrow> ensureDir targetPath st
           | TypeReg \<Rightarrow> extractRegularFile root e targetPath st
           | TypeSymlink \<Rightarrow> extractSymlink relPath targetPath e st
           | TypeLink \<Rightarrow> extractHardlink dst targetPath e st
           | TypeOther \<Rightarrow> (Inr (), st)))"

definition chargeHeaderSize :: "tarEntry \<Rightarrow> int \<Rightarrow> (exErr, int) res" where
  "chargeHeaderSize e declared =
     (if te_size e < 0 then Inl (ExArchive (ArchiveEntryHasNegativeSize (te_name e)))
      else if te_size e > archiveMaxEntrySize then Inl (ExArchive (ArchiveEntryIsTooLarge (te_name e) (te_size e)))
      else if declared + te_size e > archiveMaxTotalSize then Inl (ExArchive ArchiveExceedsMaxSize)
      else Inr (declared + te_size e))"

fun extractTarEntries :: "bool \<Rightarrow> fpath \<Rightarrow> int \<Rightarrow> int \<Rightarrow> int \<Rightarrow> tarEntry list \<Rightarrow> tarEnd \<Rightarrow> exState \<Rightarrow> unit exRun" where
  "extractTarEntries root dst maxEntries entries declared [] end st =
     (if end = TarEOF then (Inr (), st) else (Inl ExTarStream, st))"
| "extractTarEntries root dst maxEntries entries declared (e # es) end st =
     (if entries + 1 > maxEntries then (Inl (ExArchive ArchiveTooManyEntries), st)
      else thenS (liftS (chargeHeaderSize e declared) st) (\<lambda>declared st.
        thenS (handleTarEntry root dst e st) (\<lambda>_ st.
          extractTarEntries root dst maxEntries (entries + 1) declared es end st)))"

definition extractTarGzStream :: "bool \<Rightarrow> fpath \<Rightarrow> (exErr, tarEntry list \<times> tarEnd) res \<Rightarrow> fsys \<Rightarrow> unit exRun" where
  "extractTarGzStream root dst opened fs =
     thenS (liftS opened \<lparr>ex_fs = fs, ex_verified = {}\<rparr>) (\<lambda>(es, end) st.
       extractTarEntries root dst archiveMaxEntryCount 0 0 es end st)"

section \<open>The invariant\<close>

text \<open>
  A link target that starts at depth \<open>d\<close> below the destination and stays inside:
  at most \<open>d\<close> parents, then plain elements.
\<close>

definition containedTarget :: "nat \<Rightarrow> gostring \<Rightarrow> bool" where
  "containedTarget d t \<longleftrightarrow>
     \<not> pathIsAbs t \<and>
     (\<exists>k plain. splitStr t ''/'' = replicate k ''..'' @ plain \<and> k \<le> d \<and> (\<forall>e \<in> set plain. plainElem e))"

definition exInv :: "fpath \<Rightarrow> exState \<Rightarrow> bool" where
  "exInv dst st \<longleftrightarrow>
     wfFs (ex_fs st) \<and> fs_node (ex_fs st) dst = Some NDir \<and>
     (\<forall>p \<in> ex_verified st. fs_node (ex_fs st) p = Some NDir) \<and>
     (\<forall>q e t. fs_node (ex_fs st) (dst @ q @ [e]) = Some (NSym t) \<longrightarrow> containedTarget (length q) t) \<and>
     (\<forall>p q i. \<not> prefix dst p \<longrightarrow> fs_node (ex_fs st) p = Some (NFile i) \<longrightarrow> fs_node (ex_fs st) (dst @ q) \<noteq> Some (NFile i))"

text \<open>Nothing outside the destination changes, neither names nor the content behind them.\<close>

definition outsideSame :: "fpath \<Rightarrow> fsys \<Rightarrow> fsys \<Rightarrow> bool" where
  "outsideSame dst fs fs' \<longleftrightarrow>
     (\<forall>p. \<not> prefix dst p \<longrightarrow> fs_node fs' p = fs_node fs p) \<and>
     (\<forall>p i. \<not> prefix dst p \<longrightarrow> fs_node fs p = Some (NFile i) \<longrightarrow> fs_data fs' i = fs_data fs i)"

end
