(* ===== verification/ExtractSafe.thy ===== *)
theory ExtractSafe imports Extractor begin

text \<open>
  Extraction stays inside its destination. The invariant \<open>exInv\<close> is kept by every step of
  an extraction, failing ones included; under it nothing outside the destination changes
  and every name below the destination resolves to something below it, whatever symbolic
  links the archive planted.
\<close>

section \<open>Names\<close>

lemma sanitize_plain:
  assumes "sanitizeArchivePath name = Inr p" "p \<noteq> []"
  shows "\<forall>e \<in> set (splitStr p ''/''). plainElem e"
proof -
  from assms have "pathClean name = p" "p \<noteq> ''.''" "\<not> pathIsAbs p" "p \<noteq> ''..''" "\<not> hasPrefix p ''../''"
    by (auto simp: sanitizeArchivePath_def Let_def split: if_splits)
  then show ?thesis using clean_inside by blast
qed

lemma plain_no_slash: "\<forall>e \<in> set es. plainElem e \<Longrightarrow> \<forall>e \<in> set es. CHR ''/'' \<notin> set e"
  by (simp add: plainElem_def)

lemma split_join_plain: "es \<noteq> [] \<Longrightarrow> \<forall>e \<in> set es. plainElem e \<Longrightarrow> splitStr (joinStr es ''/'') ''/'' = es"
  by (intro splitStr_joinStr) (auto simp: plainElem_def)

lemma join_split_slash: "joinStr (splitStr p ''/'') ''/'' = p"
  by (rule joinStr_splitStr) simp

lemma joinStr_snoc: "es \<noteq> [] \<Longrightarrow> joinStr (es @ [e]) sep = joinStr es sep @ sep @ e"
proof (induction es)
  case Nil
  then show ?case by simp
next
  case (Cons x es)
  then show ?case by (cases es) (simp_all add: joinStr_Cons)
qed

lemma join_plain_head: "es \<noteq> [] \<Longrightarrow> \<forall>e \<in> set es. plainElem e \<Longrightarrow> \<not> pathIsAbs (joinStr es ''/'') \<and> joinStr es ''/'' \<noteq> [] \<and> joinStr es ''/'' \<noteq> ''.''"
proof -
  assume es: "es \<noteq> []" "\<forall>e \<in> set es. plainElem e"
  then obtain e es' where e: "es = e # es'" by (cases es) auto
  with es have "e \<noteq> []" "CHR ''/'' \<notin> set e" "e \<noteq> ''.''" by (auto simp: plainElem_def)
  with e show ?thesis
    by (cases es'; cases e) (auto simp: joinStr_Cons pathIsAbs_def hasPrefix_def)
qed

text \<open>The directory of a clean relative path: its elements but the last.\<close>

definition dirText :: "gostring list \<Rightarrow> gostring" where
  "dirText es = (if es = [] then ''.'' else joinStr es ''/'')"

lemma clean_dir:
  assumes "\<forall>e \<in> set es. plainElem e"
  shows "pathClean (dirText es) = dirText es" "pathElems (dirText es) = es" "\<not> pathIsAbs (dirText es)"
proof -
  have "pathClean ''.'' = ''.''"
    by (simp add: pathClean_def pathIsAbs_def hasPrefix_def splitStr_def cleanElems_def cleanStep_def Let_def)
  then show "pathClean (dirText es) = dirText es" using pathClean_id [of es] assms by (simp add: dirText_def)
  show "pathElems (dirText es) = es"
    using split_join_plain [of es] join_plain_head [of es] assms by (auto simp: pathElems_def dirText_def)
  show "\<not> pathIsAbs (dirText es)"
    using join_plain_head [of es] assms by (auto simp: dirText_def pathIsAbs_def hasPrefix_def)
qed

lemma cleanElems_trailing: "cleanElems r (es @ [[]]) = cleanElems r es"
  by (simp add: cleanElems_def cleanStep_def)

lemma pathDir_plain:
  assumes "\<forall>e \<in> set (es @ [l]). plainElem e"
  shows "pathDir (joinStr (es @ [l]) ''/'') = dirText es"
proof -
  have l: "CHR ''/'' \<notin> set l" using assms by (simp add: plainElem_def)
  show ?thesis
  proof (cases "es = []")
    case True
    have dw: "dropWhile (\<lambda>c. c \<noteq> CHR ''/'') (rev l) = []" using l by (auto simp: dropWhile_eq_Nil_conv)
    have "pathDir (joinStr (es @ [l]) ''/'') = pathClean []"
      unfolding pathDir_def True by (simp only: append_Nil joinStr.simps dw rev.simps)
    with True show ?thesis
      by (simp add: dirText_def pathClean_def pathIsAbs_def hasPrefix_def splitStr_def cleanElems_def cleanStep_def Let_def)
  next
    case False
    let ?d = "joinStr es ''/''"
    have "dropWhile (\<lambda>c. c \<noteq> CHR ''/'') (rev l @ CHR ''/'' # rev ?d) = CHR ''/'' # rev ?d"
      using l by (subst dropWhile_append2) auto
    then have "pathDir (joinStr (es @ [l]) ''/'') = pathClean (?d @ ''/'')"
      using False by (simp add: pathDir_def joinStr_snoc)
    also have "?d @ ''/'' = joinStr (es @ [[]]) ''/''" using False by (simp add: joinStr_snoc)
    also have "pathClean (joinStr (es @ [[]]) ''/'') = pathClean ?d"
    proof -
      have s: "splitStr (joinStr (es @ [[]]) ''/'') ''/'' = es @ [[]]"
        using assms by (intro splitStr_joinStr) (auto simp: plainElem_def)
      have "splitStr ?d ''/'' = es" using split_join_plain False assms by simp
      moreover have "pathIsAbs (joinStr (es @ [[]]) ''/'') = pathIsAbs ?d"
        using False join_plain_head [of es] assms
        by (cases "joinStr es ''/''") (auto simp: joinStr_snoc pathIsAbs_def hasPrefix_def)
      ultimately show ?thesis unfolding pathClean_def s by (simp add: cleanElems_trailing)
    qed
    also have "pathClean ?d = dirText es" using pathClean_id [of es] False assms by (simp add: dirText_def)
    finally show ?thesis .
  qed
qed

lemma dropCommon_split: "dropCommon bs ts = (bs', ts') \<Longrightarrow> \<exists>c. bs = c @ bs' \<and> ts = c @ ts'"
proof (induction bs ts rule: dropCommon.induct)
  case (1 b bs t ts)
  show ?case
  proof (cases "b = t")
    case True
    with 1 obtain c where "bs = c @ bs'" "ts = c @ ts'" by auto
    with True show ?thesis by (intro exI [of _ "b # c"]) simp
  next
    case False
    with 1 show ?thesis by (intro exI [of _ "[]"]) auto
  qed
qed auto

lemma relative_target:
  assumes "\<forall>e \<in> set es. plainElem e" "rs \<noteq> []" "\<forall>e \<in> set rs. plainElem e"
    and t: "pathRel (dirText es) (joinStr rs ''/'') = Some t" "t \<noteq> ''.''"
  shows "containedTarget (length es) t \<and>
    (\<exists>k ts. splitStr t ''/'' = replicate k ''..'' @ ts \<and> k \<le> length es \<and> take (length es - k) es @ ts = rs)"
proof -
  note dir = clean_dir [OF assms(1)]
  have r: "pathClean (joinStr rs ''/'') = joinStr rs ''/''" "splitStr (joinStr rs ''/'') ''/'' = rs" "\<not> pathIsAbs (joinStr rs ''/'')"
    using pathClean_id split_join_plain join_plain_head assms(2,3) by auto
  obtain bs ts where d: "dropCommon es rs = (bs, ts)" by (cases "dropCommon es rs") auto
  from dropCommon_split [OF d] obtain c where c: "es = c @ bs" "rs = c @ ts" by auto
  have ne: "joinStr rs ''/'' \<noteq> dirText es" using t by (auto simp: pathRel_def dir(1) r(1) Let_def)
  have tt: "t = joinStr (replicate (length bs) ''..'' @ ts) ''/''"
  proof -
    have "pathRel (dirText es) (joinStr rs ''/'') =
      (if bs \<noteq> [] \<and> hd bs = ''..'' then None else Some (joinStr (replicate (length bs) ''..'' @ ts) ''/''))"
      unfolding pathRel_def Let_def dir(1,2) r(1,2) d using ne dir(3) r(3) by simp
    with t(1) show ?thesis by (simp split: if_splits)
  qed
  have nonempty: "replicate (length bs) ''..'' @ ts \<noteq> []"
  proof
    assume "replicate (length bs) ''..'' @ ts = []"
    then have "es = rs" using c by simp
    with ne assms(2) show False by (simp add: dirText_def)
  qed
  have split: "splitStr t ''/'' = replicate (length bs) ''..'' @ ts"
  proof -
    have "\<forall>e \<in> set ts. plainElem e" using assms(3) unfolding c(2) by simp
    from plain_no_slash [OF this] have "\<forall>e \<in> set (replicate (length bs) ''..'' @ ts). CHR ''/'' \<notin> set e"
      by (simp add: ball_Un set_replicate_conv_if)
    then show ?thesis unfolding tt by (intro splitStr_joinStr nonempty)
  qed
  have "\<not> pathIsAbs t"
  proof (cases bs)
    case Nil
    moreover have "\<forall>e \<in> set ts. plainElem e" using assms(3) unfolding c(2) by simp
    ultimately show ?thesis using tt nonempty join_plain_head [of ts] by simp
  next
    case (Cons b bs')
    then show ?thesis
      unfolding tt by (cases "replicate (length bs') ''..'' @ ts") (auto simp: joinStr_Cons pathIsAbs_def hasPrefix_def)
  qed
  moreover have "length bs \<le> length es" "\<forall>e \<in> set ts. plainElem e" "take (length es - length bs) es @ ts = rs"
    using c assms(3) by auto
  ultimately show ?thesis using split unfolding containedTarget_def by blast
qed

lemma clean_abs: "pathIsAbs (pathClean p) = pathIsAbs p"
proof (cases "pathIsAbs p")
  case True
  then show ?thesis by (simp add: pathClean_def pathIsAbs_def hasPrefix_def Let_def)
next
  case False
  obtain n plain where els: "cleanElems False (splitStr p ''/'') = replicate n ''..'' @ plain" "\<forall>e \<in> set plain. plainElem e"
    using cleanElems_shape [OF split_no_slash, of False p] by metis
  have "\<not> pathIsAbs (joinStr (replicate n ''..'' @ plain) ''/'')"
  proof (cases n)
    case 0
    then show ?thesis using join_plain_head [of plain] els(2) by (cases "plain = []") (auto simp: pathIsAbs_def hasPrefix_def)
  next
    case (Suc m)
    then show ?thesis
      by (cases "replicate m ''..'' @ plain") (auto simp: joinStr_Cons pathIsAbs_def hasPrefix_def)
  qed
  then show ?thesis using False els(1) by (auto simp: pathClean_def Let_def pathIsAbs_def hasPrefix_def)
qed

lemma safeSymlinkTarget_contained:
  assumes "\<forall>e \<in> set (es @ [l]). plainElem e" "safeSymlinkTarget (joinStr (es @ [l]) ''/'') ln = Inr t"
  shows "containedTarget (length es) t"
proof -
  define joined where "joined = pathJoin [dirText es, pathClean ln]"
  define resolved where "resolved = pathClean joined"
  note dir = pathDir_plain [OF assms(1)]
  from assms(2) have r: "resolved \<noteq> ''.''" "resolved \<noteq> ''..''" "\<not> hasPrefix resolved ''../''"
    and t: "pathRel (dirText es) resolved = Some t" "t \<noteq> ''.''"
    by (auto simp: safeSymlinkTarget_def Let_def dir resolved_def joined_def split: if_splits option.splits)
  have es: "\<forall>e \<in> set es. plainElem e" using assms(1) by simp
  have "\<not> pathIsAbs resolved"
    using t clean_dir [OF es] clean_abs [of resolved] by (auto simp: pathRel_def Let_def split: if_splits)
  then have "splitStr resolved ''/'' \<noteq> []" "\<forall>e \<in> set (splitStr resolved ''/''). plainElem e"
    using clean_inside [of joined resolved] r by (auto simp: resolved_def)
  with relative_target [OF es this] t show ?thesis by (simp add: join_split_slash)
qed

section \<open>Steps that only add directories\<close>

text \<open>\<open>fs'\<close> is \<open>fs\<close> with directories added at missing prefixes of \<open>p\<close>.\<close>

definition addsDirs :: "fpath \<Rightarrow> fsys \<Rightarrow> fsys \<Rightarrow> bool" where
  "addsDirs p fs fs' \<longleftrightarrow>
     wfFs fs' \<and> fs_data fs' = fs_data fs \<and> fs_next fs' = fs_next fs \<and>
     (\<forall>q. fs_node fs' q = fs_node fs q \<or> fs_node fs q = None \<and> fs_node fs' q = Some NDir \<and> prefix q p)"

lemma addsDirs_refl: "wfFs fs \<Longrightarrow> addsDirs p fs fs"
  by (simp add: addsDirs_def)

lemma addsDirs_node:
  "addsDirs p fs fs' \<Longrightarrow> fs_node fs' q = fs_node fs q \<or> fs_node fs q = None \<and> fs_node fs' q = Some NDir \<and> prefix q p"
  unfolding addsDirs_def by (elim conjE allE)

lemma addsDirs_keep: "addsDirs p fs fs' \<Longrightarrow> fs_node fs q = Some nd \<Longrightarrow> fs_node fs' q = Some nd"
  using addsDirs_node [of p fs fs' q] by auto

lemma addsDirs_noSym:
  assumes "addsDirs p fs fs'" "noSym fs cur es"
  shows "noSym fs' cur es"
  unfolding noSym_def
proof (intro allI impI)
  fix k t
  assume "0 < k" "k \<le> length es"
  with assms(2) have "fs_node fs (cur @ take k es) \<noteq> Some (NSym t)" by (simp add: noSym_def)
  with addsDirs_node [OF assms(1), of "cur @ take k es"] show "fs_node fs' (cur @ take k es) \<noteq> Some (NSym t)" by auto
qed

lemma wf_setNode:
  assumes "wfFs fs" "fs_node fs p = None" "p \<noteq> []" "fs_node fs (butlast p) = Some NDir" "\<forall>i. nd = NFile i \<longrightarrow> i < fs_next fs"
  shows "wfFs (setNode fs p nd)"
  unfolding wfFs_def
proof (intro conjI allI impI)
  show "fs_node (setNode fs p nd) [] = Some NDir" using assms(1,3) by (simp add: setNode_def wfFs_def)
next
  fix q e
  assume q: "fs_node (setNode fs p nd) (q @ [e]) \<noteq> None"
  show "fs_node (setNode fs p nd) q = Some NDir"
  proof (cases "q @ [e] = p")
    case True
    then have "q = butlast p" by auto
    with assms(2,4) True show ?thesis by (auto simp: setNode_def)
  next
    case False
    with q have "fs_node fs (q @ [e]) \<noteq> None" by (simp add: setNode_def)
    with assms(1) have "fs_node fs q = Some NDir" by (rule wf_parent)
    with assms(2) show ?thesis by (auto simp: setNode_def)
  qed
next
  fix q i
  assume "fs_node (setNode fs p nd) q = Some (NFile i)"
  with assms(1,5) show "i < fs_next (setNode fs p nd)" by (auto simp: setNode_def wfFs_def split: if_splits)
qed

lemma plain_rev: "\<forall>e \<in> set es. plainElem e \<Longrightarrow> \<forall>e \<in> set (rev es). plainElem e"
  by simp

text \<open>Resolution of a link-free path gives the path, with a real parent.\<close>

lemma namei_self:
  assumes "namei fs n follow [] p = Inr q" "noSym fs [] p" "\<forall>e \<in> set p. plainElem e" "wfFs fs"
  shows "q = p \<and> (p = [] \<or> fs_node fs (butlast p) = Some NDir)"
  using namei_plain [OF assms(1-3)] namei_parent [OF assms(1,4)] assms(4) by (simp add: wfFs_def)

lemma osMkdirAllRev_adds:
  "osMkdirAllRev fs rp = (r, fs') \<Longrightarrow> wfFs fs \<Longrightarrow> noSym fs [] (rev rp) \<Longrightarrow> \<forall>e \<in> set rp. plainElem e \<Longrightarrow>
     addsDirs (rev rp) fs fs' \<and> (r = Inr () \<longrightarrow> fs_node fs' (rev rp) = Some NDir)"
proof (induction fs rp arbitrary: r fs' rule: osMkdirAllRev.induct)
  case (1 fs)
  then show ?case by (simp add: addsDirs_refl wfFs_def)
next
  case (2 fs e rp)
  let ?p = "rev (e # rp)"
  have plain: "\<forall>x \<in> set ?p. plainElem x" using 2(5) by simp
  show ?case
  proof (cases "stat fs ?p")
    case (Inr nd)
    then obtain q where q: "namei fs symlinkMax True [] ?p = Inr q" "fs_node fs q = Some nd"
      by (auto simp: stat_def bindE_Inr_iff split: option.splits)
    from namei_self [OF q(1) 2(4) plain 2(3)] q(2) have "fs_node fs ?p = Some nd" by simp
    with Inr 2(2,3) show ?thesis by (cases nd) (auto simp: addsDirs_refl)
  next
    case (Inl err)
    obtain r1 fs1 where rec: "osMkdirAllRev fs rp = (r1, fs1)" by (cases "osMkdirAllRev fs rp") auto
    have "noSym fs [] (rev rp)" using 2(4) by (simp add: noSym_append)
    from 2(1) [OF Inl rec 2(3) this] 2(5) have a1: "addsDirs (rev rp) fs fs1" "r1 = Inr () \<longrightarrow> fs_node fs1 (rev rp) = Some NDir"
      by auto
    then have wf1: "wfFs fs1" and a1': "addsDirs ?p fs fs1" by (auto simp: addsDirs_def prefix_def)
    have s1: "noSym fs1 [] ?p" using addsDirs_noSym [OF a1(1) 2(4)] .
    show ?thesis
    proof (cases r1)
      case r1: (Inl err1)
      with 2(2) Inl rec a1' show ?thesis by auto
    next
      case r1: (Inr u)
      with a1(2) have par: "fs_node fs1 (rev rp) = Some NDir" by simp
      show ?thesis
      proof (cases "osMkdir fs1 ?p")
        case mk: (Inr fs2)
        then obtain q where q: "namei fs1 symlinkMax False [] ?p = Inr q" "fs_node fs1 q = None" "fs2 = setNode fs1 q NDir"
          by (auto simp: osMkdir_def bindE_Inr_iff split: if_splits)
        with namei_self [OF q(1) s1 plain wf1] have q': "fs_node fs1 ?p = None" "fs2 = setNode fs1 ?p NDir" by auto
        have "wfFs fs2" unfolding q'(2) using wf1 q'(1) par by (intro wf_setNode) auto
        moreover have "fs_node fs ?p = None" using addsDirs_keep [OF a1', of ?p] q'(1) by (cases "fs_node fs ?p") auto
        ultimately have "addsDirs ?p fs fs2" using a1' q' by (auto simp: addsDirs_def setNode_def)
        moreover have "fs' = fs2" using 2(2) Inl rec r1 mk by simp
        ultimately show ?thesis using q'(2) by (simp add: setNode_def)
      next
        case mk: (Inl err2)
        then have f: "fs' = fs1" and r: "r = Inr () \<longrightarrow> lstat fs1 ?p = Inr NDir"
          using 2(2) Inl rec r1 by (auto split: if_splits)
        have "fs_node fs1 ?p = Some NDir" if "lstat fs1 ?p = Inr NDir"
        proof -
          from that obtain q where q: "namei fs1 symlinkMax False [] ?p = Inr q" "fs_node fs1 q = Some NDir"
            by (auto simp: lstat_def bindE_Inr_iff split: option.splits)
          with namei_self [OF q(1) s1 plain wf1] show ?thesis by simp
        qed
        with f r a1' show ?thesis by auto
      qed
    qed
  qed
qed

section \<open>The destination\<close>

text \<open>A place below the destination the extraction may write to: no link on the way.\<close>

definition okPlace :: "fpath \<Rightarrow> fsys \<Rightarrow> gostring list \<Rightarrow> bool" where
  "okPlace dst fs rel \<longleftrightarrow> noSym fs dst rel \<and> (\<forall>e \<in> set rel. plainElem e)"

lemma dst_noSym:
  assumes "wfFs fs" "fs_node fs dst = Some NDir"
  shows "noSym fs [] dst"
  unfolding noSym_def
proof (intro allI impI)
  fix k t
  assume "0 < k" "k \<le> length dst"
  then show "fs_node fs ([] @ take k dst) \<noteq> Some (NSym t)"
    using wf_ancestor [OF assms(1), of "take k dst" "drop k dst"] assms(2) by (cases "drop k dst = []") auto
qed

lemma dst_prefix:
  assumes "wfFs fs" "fs_node fs dst = Some NDir" "prefix q (dst @ rel)" "fs_node fs q = None"
  shows "\<exists>r. r \<noteq> [] \<and> q = dst @ r"
proof -
  have "\<not> prefix q dst"
  proof
    assume "prefix q dst"
    then obtain z where z: "dst = q @ z" by (auto simp: prefix_def)
    with assms wf_ancestor [OF assms(1), of q z] show False by (cases "z = []") auto
  qed
  then obtain r where r: "q = dst @ r" using assms(3) by (auto simp: prefix_append)
  with assms(2,4) show ?thesis by (cases "r = []") auto
qed

lemma exInvD:
  assumes "exInv dst st"
  shows "wfFs (ex_fs st)" "fs_node (ex_fs st) dst = Some NDir"
    "p \<in> ex_verified st \<Longrightarrow> fs_node (ex_fs st) p = Some NDir"
    "fs_node (ex_fs st) (dst @ q @ [e]) = Some (NSym t) \<Longrightarrow> containedTarget (length q) t"
    "\<not> prefix dst o' \<Longrightarrow> fs_node (ex_fs st) o' = Some (NFile i) \<Longrightarrow> fs_node (ex_fs st) (dst @ q) \<noteq> Some (NFile i)"
  using assms unfolding exInv_def by blast+

lemma exInvI:
  assumes "wfFs (ex_fs st)" "fs_node (ex_fs st) dst = Some NDir"
    "\<And>p. p \<in> ex_verified st \<Longrightarrow> fs_node (ex_fs st) p = Some NDir"
    "\<And>q e t. fs_node (ex_fs st) (dst @ q @ [e]) = Some (NSym t) \<Longrightarrow> containedTarget (length q) t"
    "\<And>p q i. \<not> prefix dst p \<Longrightarrow> fs_node (ex_fs st) p = Some (NFile i) \<Longrightarrow> fs_node (ex_fs st) (dst @ q) \<noteq> Some (NFile i)"
  shows "exInv dst st"
  using assms unfolding exInv_def by blast

definition exOk :: "fpath \<Rightarrow> exState \<Rightarrow> exState \<Rightarrow> bool" where
  "exOk dst st st' \<longleftrightarrow> exInv dst st' \<and> outsideSame dst (ex_fs st) (ex_fs st')"

lemma outsideSame_refl [simp]: "outsideSame dst fs fs"
  by (simp add: outsideSame_def)

lemma exOk_refl: "exInv dst st \<Longrightarrow> exOk dst st st"
  by (simp add: exOk_def)

lemma exOk_trans: "exOk dst a b \<Longrightarrow> exOk dst b c \<Longrightarrow> exOk dst a c"
  by (auto simp: exOk_def outsideSame_def)

lemma exOk_then:
  assumes "exOk dst st (snd r)" "\<And>x st1. r = (Inr x, st1) \<Longrightarrow> exOk dst st st1 \<Longrightarrow> exOk dst st1 (snd (f x st1))"
  shows "exOk dst st (snd (thenS r f))"
proof (cases r)
  case (Pair x st1)
  then show ?thesis
    using assms exOk_trans by (cases x) (auto simp: thenS_def)
qed

lemma exInv_same_fs:
  "exInv dst st \<Longrightarrow> \<forall>p \<in> V. fs_node (ex_fs st) p = Some NDir \<Longrightarrow> exOk dst st (st\<lparr>ex_verified := V\<rparr>)"
  by (simp add: exOk_def exInv_def)

lemma exOk_addsDirs:
  assumes i: "exInv dst st" and a: "addsDirs (dst @ rel) (ex_fs st) fs'"
  shows "exOk dst st (st\<lparr>ex_fs := fs'\<rparr>)"
proof -
  let ?fs = "ex_fs st"
  from i have wf: "wfFs ?fs" and d: "fs_node ?fs dst = Some NDir" by (auto simp: exInv_def)
  have new: "fs_node fs' q = fs_node ?fs q \<or> fs_node fs' q = Some NDir \<and> prefix dst q" for q
    using addsDirs_node [OF a, of q] dst_prefix [OF wf d, of q rel] by auto
  have keep: "fs_node ?fs q = Some nd \<Longrightarrow> fs_node fs' q = Some nd" for q nd using addsDirs_keep [OF a] .
  have nsym: "fs_node fs' q = Some (NSym t) \<Longrightarrow> fs_node ?fs q = Some (NSym t)" for q t using new [of q] by auto
  have nfile: "fs_node fs' q = Some (NFile j) \<Longrightarrow> fs_node ?fs q = Some (NFile j)" for q j using new [of q] by auto
  have "exInv dst (st\<lparr>ex_fs := fs'\<rparr>)"
  proof (rule exInvI)
    show "wfFs (ex_fs (st\<lparr>ex_fs := fs'\<rparr>))" using a by (simp add: addsDirs_def)
    show "fs_node (ex_fs (st\<lparr>ex_fs := fs'\<rparr>)) dst = Some NDir" using keep [OF d] by simp
    show "fs_node (ex_fs (st\<lparr>ex_fs := fs'\<rparr>)) p = Some NDir" if "p \<in> ex_verified (st\<lparr>ex_fs := fs'\<rparr>)" for p
      using keep exInvD(3) [OF i] that by simp
    show "containedTarget (length q) t" if "fs_node (ex_fs (st\<lparr>ex_fs := fs'\<rparr>)) (dst @ q @ [e]) = Some (NSym t)" for q e t
      using exInvD(4) [OF i, of q e t] nsym [of "dst @ q @ [e]" t] that by simp
    show "fs_node (ex_fs (st\<lparr>ex_fs := fs'\<rparr>)) (dst @ q) \<noteq> Some (NFile j)"
      if "\<not> prefix dst p" "fs_node (ex_fs (st\<lparr>ex_fs := fs'\<rparr>)) p = Some (NFile j)" for p q j
      using exInvD(5) [OF i that(1)] nfile that(2) by auto
  qed
  moreover have "outsideSame dst ?fs fs'"
    using new a by (auto simp: outsideSame_def addsDirs_def)
  ultimately show ?thesis by (simp add: exOk_def)
qed

section \<open>The steps of the code\<close>

text \<open>The destination: a clean absolute path, a real directory when the extraction starts.\<close>

abbreviation plainPath :: "fpath \<Rightarrow> bool" where
  "plainPath p \<equiv> \<forall>e \<in> set p. plainElem e"

lemma place_noSym:
  "exInv dst st \<Longrightarrow> okPlace dst (ex_fs st) rel \<Longrightarrow> noSym (ex_fs st) [] (dst @ rel)"
  using dst_noSym exInvD(1,2) by (simp add: noSym_append okPlace_def)

lemma place_self:
  assumes "exInv dst st" "okPlace dst (ex_fs st) rel" "plainPath dst" "namei (ex_fs st) n follow [] (dst @ rel) = Inr q"
  shows "q = dst @ rel \<and> (rel \<noteq> [] \<longrightarrow> fs_node (ex_fs st) (dst @ butlast rel) = Some NDir)"
proof -
  have "plainPath (dst @ rel)" using assms(2,3) by (auto simp: okPlace_def)
  from namei_self [OF assms(4) place_noSym [OF assms(1,2)] this exInvD(1) [OF assms(1)]]
  show ?thesis by (auto simp: butlast_append)
qed

lemma checkComponent_ok:
  assumes i: "exInv dst st" and p: "plainPath p" "noSym (ex_fs st) [] p" and e: "plainElem e"
    and r: "checkPathComponentNotSymlink (p @ [e]) st = (r, st')"
  shows "ex_fs st' = ex_fs st \<and> exOk dst st st' \<and> (r = Inr () \<longrightarrow> (\<forall>t. fs_node (ex_fs st) (p @ [e]) \<noteq> Some (NSym t)))"
proof (cases "\<exists>t. fs_node (ex_fs st) (p @ [e]) = Some (NSym t)")
  case True
  then obtain t where t: "fs_node (ex_fs st) (p @ [e]) = Some (NSym t)" by auto
  note wf = exInvD(1) [OF i]
  have "fs_node (ex_fs st) ([] @ take k (p @ [e])) = Some NDir" if "k < length (p @ [e])" for k
    using wf_ancestor [OF wf, of "take k (p @ [e])" "drop k (p @ [e])", unfolded append_take_drop_id] t that by simp
  then have "namei (ex_fs st) symlinkMax False [] (p @ [e]) = Inr ([] @ p @ [e])"
    using p e by (intro namei_dirs) auto
  with t have "lstat (ex_fs st) (p @ [e]) = Inr (NSym t)" by (simp add: lstat_def)
  moreover have "p @ [e] \<notin> ex_verified st" using exInvD(3) [OF i, of "p @ [e]"] t by auto
  ultimately show ?thesis using r exOk_refl [OF i] by (auto simp: checkPathComponentNotSymlink_def)
next
  case False
  then have s: "noSym (ex_fs st) [] (p @ [e])" using p(2) by (simp add: noSym_append noSym_Cons)
  have dir: "fs_node (ex_fs st) (p @ [e]) = Some NDir" if "lstat (ex_fs st) (p @ [e]) = Inr NDir"
  proof -
    from that obtain q where "namei (ex_fs st) symlinkMax False [] (p @ [e]) = Inr q" "fs_node (ex_fs st) q = Some NDir"
      by (auto simp: lstat_def bindE_Inr_iff split: option.splits)
    with namei_plain [OF this(1) s] p(1) e show ?thesis by simp
  qed
  have "exOk dst st (st\<lparr>ex_verified := insert (p @ [e]) (ex_verified st)\<rparr>)" if "lstat (ex_fs st) (p @ [e]) = Inr NDir"
    using exInv_same_fs [OF i, of "insert (p @ [e]) (ex_verified st)"] dir [OF that] exInvD(3) [OF i] by simp
  with r False exOk_refl [OF i] show ?thesis
    by (auto simp: checkPathComponentNotSymlink_def split: if_splits sum.splits node.splits)
qed

lemma checkComponents_ok:
  "checkComponents p es st = (r, st') \<Longrightarrow> exInv dst st \<Longrightarrow> plainPath p \<Longrightarrow> noSym (ex_fs st) [] p \<Longrightarrow> plainPath es \<Longrightarrow>
     ex_fs st' = ex_fs st \<and> exOk dst st st' \<and> (r = Inr () \<longrightarrow> noSym (ex_fs st) p es)"
proof (induction es arbitrary: p st)
  case Nil
  then show ?case by (auto simp: exOk_refl)
next
  case (Cons e es)
  have e: "plainElem e" "e \<noteq> []" "e \<noteq> ''.''" using Cons.prems(5) by (auto simp: plainElem_def)
  obtain r1 st1 where c: "checkPathComponentNotSymlink (p @ [e]) st = (r1, st1)" by (cases "checkPathComponentNotSymlink (p @ [e]) st")
  note ok = checkComponent_ok [OF Cons.prems(2,3,4) e(1) c]
  show ?case
  proof (cases r1)
    case (Inl err)
    with Cons.prems(1) e c ok show ?thesis by (auto simp: thenS_def)
  next
    case (Inr u)
    with Cons.prems(1) e c have rec: "checkComponents (p @ [e]) es st1 = (r, st')" by (simp add: thenS_def)
    have inv: "exInv dst st1" "plainPath (p @ [e])" "noSym (ex_fs st1) [] (p @ [e])" "plainPath es"
      using ok Inr Cons.prems e by (auto simp: exOk_def noSym_append noSym_Cons)
    from Cons.IH [OF rec inv] ok Inr exOk_trans show ?thesis by (auto simp: noSym_Cons)
  qed
qed

lemma ensureNoSymlinkParents_ok:
  assumes "ensureNoSymlinkParents dst rel st = (r, st')" "exInv dst st" "plainPath dst"
    and rel: "plainPath (splitStr rel ''/'')" "rel \<noteq> []" "rel \<noteq> ''.''"
  shows "ex_fs st' = ex_fs st \<and> exOk dst st st' \<and> (r = Inr () \<longrightarrow> okPlace dst (ex_fs st') (splitStr rel ''/''))"
  using checkComponents_ok [OF _ assms(2,3) dst_noSym [OF exInvD(1,2) [OF assms(2)]] rel(1)] assms(1) rel
  by (auto simp: ensureNoSymlinkParents_def okPlace_def)

lemma ensureDir_ok:
  assumes r: "ensureDir (dst @ rel) st = (r, st')" and i: "exInv dst st" and d: "plainPath dst" and p: "okPlace dst (ex_fs st) rel"
  shows "exOk dst st st' \<and> addsDirs (dst @ rel) (ex_fs st) (ex_fs st') \<and> (r = Inr () \<longrightarrow> fs_node (ex_fs st') (dst @ rel) = Some NDir)"
proof (cases "dst @ rel \<in> ex_verified st")
  case True
  with r i exInvD(1,3) [OF i] show ?thesis by (auto simp: ensureDir_def exOk_refl addsDirs_refl)
next
  case False
  obtain r1 fs1 where m: "osMkdirAll (ex_fs st) (dst @ rel) = (r1, fs1)" by (cases "osMkdirAll (ex_fs st) (dst @ rel)")
  have a: "addsDirs (dst @ rel) (ex_fs st) fs1 \<and> (r1 = Inr () \<longrightarrow> fs_node fs1 (dst @ rel) = Some NDir)"
    using osMkdirAllRev_adds [OF m [unfolded osMkdirAll_def] exInvD(1) [OF i]] place_noSym [OF i p] d p
    by (auto simp: okPlace_def)
  with exOk_addsDirs [OF i] have k: "exOk dst st (st\<lparr>ex_fs := fs1\<rparr>)" by blast
  show ?thesis
  proof (cases r1)
    case (Inl err)
    with r False m a k show ?thesis by (auto simp: ensureDir_def)
  next
    case (Inr u)
    have "exOk dst (st\<lparr>ex_fs := fs1\<rparr>) (st\<lparr>ex_fs := fs1, ex_verified := insert (dst @ rel) (ex_verified st)\<rparr>)"
      using exInv_same_fs [of dst "st\<lparr>ex_fs := fs1\<rparr>" "insert (dst @ rel) (ex_verified st)"] k a Inr
        exInvD(3) [of dst "st\<lparr>ex_fs := fs1\<rparr>"] by (auto simp: exOk_def)
    with k exOk_trans r False m a Inr show ?thesis by (auto simp: ensureDir_def)
  qed
qed

text \<open>A new node at a free place below the destination.\<close>

lemma exOk_setNode:
  assumes i: "exInv dst st" and rel: "rel \<noteq> []" and free: "fs_node (ex_fs st) (dst @ rel) = None"
    and par: "fs_node (ex_fs st) (dst @ butlast rel) = Some NDir"
    and sym: "\<And>t. nd = NSym t \<Longrightarrow> containedTarget (length rel - 1) t"
    and fil: "\<And>j. nd = NFile j \<Longrightarrow> j < fs_next (ex_fs st) \<and> (\<forall>p. \<not> prefix dst p \<longrightarrow> fs_node (ex_fs st) p \<noteq> Some (NFile j))"
  shows "exOk dst st (st\<lparr>ex_fs := setNode (ex_fs st) (dst @ rel) nd\<rparr>)"
proof -
  let ?fs = "ex_fs st" and ?st = "st\<lparr>ex_fs := setNode (ex_fs st) (dst @ rel) nd\<rparr>"
  have "wfFs (setNode ?fs (dst @ rel) nd)"
    using exInvD(1) [OF i] free rel par fil by (intro wf_setNode) (auto simp: butlast_append)
  moreover have "exInv dst ?st"
  proof (rule exInvI)
    show "wfFs (ex_fs ?st)" using calculation by simp
    show "fs_node (ex_fs ?st) dst = Some NDir" using exInvD(2) [OF i] rel by (simp add: setNode_def)
    show "fs_node (ex_fs ?st) p = Some NDir" if "p \<in> ex_verified ?st" for p
      using exInvD(3) [OF i, of p] that free by (auto simp: setNode_def)
    show "containedTarget (length q) t" if "fs_node (ex_fs ?st) (dst @ q @ [e]) = Some (NSym t)" for q e t
      using exInvD(4) [OF i, of q e t] sym that by (auto simp: setNode_def split: if_splits)
    show "fs_node (ex_fs ?st) (dst @ q) \<noteq> Some (NFile j)"
      if "\<not> prefix dst p" "fs_node (ex_fs ?st) p = Some (NFile j)" for p q j
      using exInvD(5) [OF i that(1), of j q] fil that by (auto simp: setNode_def split: if_splits)
  qed
  moreover have "outsideSame dst ?fs (setNode ?fs (dst @ rel) nd)"
    by (auto simp: outsideSame_def setNode_def)
  ultimately show ?thesis by (simp add: exOk_def)
qed

text \<open>Content written to an inode that has no name outside.\<close>

lemma exOk_data:
  assumes i: "exInv dst st" and own: "\<forall>p. \<not> prefix dst p \<longrightarrow> fs_node (ex_fs st) p \<noteq> Some (NFile j)"
  shows "exOk dst st (st\<lparr>ex_fs := (ex_fs st)\<lparr>fs_data := (fs_data (ex_fs st))(j := v), fs_next := max n (fs_next (ex_fs st))\<rparr>\<rparr>)"
proof -
  let ?fs' = "(ex_fs st)\<lparr>fs_data := (fs_data (ex_fs st))(j := v), fs_next := max n (fs_next (ex_fs st))\<rparr>"
  have "wfFs ?fs'" using exInvD(1) [OF i] by (fastforce simp: wfFs_def)
  then have "exInv dst (st\<lparr>ex_fs := ?fs'\<rparr>)"
    using exInvD [OF i] by (intro exInvI) auto
  moreover have "outsideSame dst (ex_fs st) ?fs'" using own by (auto simp: outsideSame_def)
  ultimately show ?thesis by (simp add: exOk_def)
qed

lemma inside_not_outside:
  assumes "exInv dst st" "fs_node (ex_fs st) (dst @ q) = Some (NFile j)"
  shows "\<forall>p. \<not> prefix dst p \<longrightarrow> fs_node (ex_fs st) p \<noteq> Some (NFile j)"
  using exInvD(5) [OF assms(1)] assms(2) by blast

lemma fresh_not_used:
  assumes "wfFs fs"
  shows "fs_node fs p \<noteq> Some (NFile (fs_next fs))"
  using assms unfolding wfFs_def by blast

text \<open>What each kind of entry does at a place free of links.\<close>

lemma extractRegularFile_ok:
  assumes i: "exInv dst st" and d: "plainPath dst" and p: "okPlace dst (ex_fs st) (rel @ [l])"
  shows "exOk dst st (snd (extractRegularFile root e (dst @ rel @ [l]) st))"
  unfolding extractRegularFile_def
proof (rule exOk_then)
  have p': "okPlace dst (ex_fs st) rel" using p by (auto simp: okPlace_def noSym_append)
  have b: "butlast (dst @ rel @ [l]) = dst @ rel" by (simp add: butlast_append)
  then show "exOk dst st (snd (ensureDir (butlast (dst @ rel @ [l])) st))"
    using ensureDir_ok [OF _ i d p'] by (cases "ensureDir (dst @ rel) st") auto
  fix x st1
  assume r: "ensureDir (butlast (dst @ rel @ [l])) st = (Inr x, st1)" and k: "exOk dst st st1"
  from r b ensureDir_ok [OF _ i d p'] have a: "addsDirs (dst @ rel) (ex_fs st) (ex_fs st1)" by auto
  have i1: "exInv dst st1" using k by (simp add: exOk_def)
  have p1: "okPlace dst (ex_fs st1) (rel @ [l])" using p addsDirs_noSym [OF a] by (auto simp: okPlace_def)
  let ?t = "dst @ rel @ [l]"
  show "exOk dst st1 (snd (case osCreate root (ex_fs st1) ?t False of
      Inl err \<Rightarrow> (Inl (classifyOpenRegularFileError st1 ?t (te_name e) err), st1)
    | Inr (j, fs) \<Rightarrow> (if length (te_avail e) < nat (te_size e) then Inl ExTarStream else Inr (),
        st1\<lparr>ex_fs := osWrite fs j (take (nat (te_size e)) (te_avail e))\<rparr>)))"
  proof (cases "osCreate root (ex_fs st1) ?t False")
    case (Inl err)
    with exOk_refl [OF i1] show ?thesis by simp
  next
    case (Inr r)
    obtain j fs where r: "r = (j, fs)" by (cases r)
    from Inr r obtain q where q: "namei (ex_fs st1) symlinkMax True [] ?t = Inr q"
      by (auto simp: osCreate_def bindE_Inr_iff)
    from place_self [OF i1 p1 d] q have q': "q = ?t" and par: "fs_node (ex_fs st1) (dst @ rel) = Some NDir" by auto
    let ?content = "take (nat (te_size e)) (te_avail e)"
    show ?thesis
    proof (cases "fs_node (ex_fs st1) ?t")
      case None
      with Inr r q q' have fs: "j = fs_next (ex_fs st1)" "fs = (setNode (ex_fs st1) ?t (NFile j))
          \<lparr>fs_data := (fs_data (ex_fs st1))(j := (False, [])), fs_next := j + 1\<rparr>"
        by (auto simp: osCreate_def)
      define st2 where "st2 = st1\<lparr>ex_fs := (ex_fs st1)\<lparr>fs_data := (fs_data (ex_fs st1))(j := (False, ?content)), fs_next := max (j + 1) (fs_next (ex_fs st1))\<rparr>\<rparr>"
      have fresh: "fs_node (ex_fs st1) o' \<noteq> Some (NFile j)" for o'
        unfolding fs(1) by (rule fresh_not_used [OF exInvD(1) [OF i1]])
      then have k2: "exOk dst st1 st2" unfolding st2_def by (intro exOk_data [OF i1]) blast
      then have i2: "exInv dst st2" by (simp add: exOk_def)
      have "exOk dst st2 (st2\<lparr>ex_fs := setNode (ex_fs st2) (dst @ rel @ [l]) (NFile j)\<rparr>)"
        using None par fresh by (intro exOk_setNode [OF i2]) (auto simp: st2_def)
      moreover have "st2\<lparr>ex_fs := setNode (ex_fs st2) (dst @ rel @ [l]) (NFile j)\<rparr> = st1\<lparr>ex_fs := osWrite fs j ?content\<rparr>"
        by (simp add: st2_def fs setNode_def osWrite_def)
      ultimately show ?thesis using Inr r exOk_trans [OF k2] by simp
    next
      case (Some nd)
      with Inr r q q' have nd: "nd = NFile j" and fs: "fs = (ex_fs st1)\<lparr>fs_data := (fs_data (ex_fs st1))(j := (fst (fs_data (ex_fs st1) j), []))\<rparr>"
        by (auto simp: osCreate_def split: node.splits if_splits)
      have own: "\<forall>p. \<not> prefix dst p \<longrightarrow> fs_node (ex_fs st1) p \<noteq> Some (NFile j)"
        using inside_not_outside [OF i1, of "rel @ [l]"] Some nd by simp
      have "st1\<lparr>ex_fs := osWrite fs j ?content\<rparr> =
          st1\<lparr>ex_fs := (ex_fs st1)\<lparr>fs_data := (fs_data (ex_fs st1))(j := (fst (fs_data (ex_fs st1) j), ?content)), fs_next := max 0 (fs_next (ex_fs st1))\<rparr>\<rparr>"
        by (simp add: fs osWrite_def)
      with exOk_data [OF i1 own, of 0 "(fst (fs_data (ex_fs st1) j), ?content)"] Inr r show ?thesis by simp
    qed
  qed
qed

lemma extractSymlink_ok:
  assumes i: "exInv dst st" and d: "plainPath dst" and p: "okPlace dst (ex_fs st) (rel @ [l])"
  shows "exOk dst st (snd (extractSymlink (joinStr (rel @ [l]) ''/'') (dst @ rel @ [l]) e st))"
  unfolding extractSymlink_def
proof (rule exOk_then)
  show "exOk dst st (snd (liftS (safeSymlinkTarget (joinStr (rel @ [l]) ''/'') (te_link e)) st))"
    using exOk_refl [OF i] by (simp add: liftS_def)
  fix t st0
  assume "liftS (safeSymlinkTarget (joinStr (rel @ [l]) ''/'') (te_link e)) st = (Inr t, st0)"
  then have st0: "st0 = st" and t: "safeSymlinkTarget (joinStr (rel @ [l]) ''/'') (te_link e) = Inr t" by (auto simp: liftS_def)
  have c: "containedTarget (length rel) t"
    using safeSymlinkTarget_contained [OF _ t] p by (auto simp: okPlace_def)
  have p': "okPlace dst (ex_fs st) rel" using p by (auto simp: okPlace_def noSym_append)
  have b: "butlast (dst @ rel @ [l]) = dst @ rel" by (simp add: butlast_append)
  show "exOk dst st0 (snd (thenS (ensureDir (butlast (dst @ rel @ [l])) st0) (\<lambda>_ st.
      case osSymlink (ex_fs st) t (dst @ rel @ [l]) of
        Inl err \<Rightarrow> (Inl (ExOs err), st) | Inr fs \<Rightarrow> (Inr (), st\<lparr>ex_fs := fs\<rparr>))))"
    unfolding st0
  proof (rule exOk_then)
    show "exOk dst st (snd (ensureDir (butlast (dst @ rel @ [l])) st))"
      using b ensureDir_ok [OF _ i d p'] by (cases "ensureDir (dst @ rel) st") auto
    fix x st1
    assume r: "ensureDir (butlast (dst @ rel @ [l])) st = (Inr x, st1)" and k: "exOk dst st st1"
    from r b ensureDir_ok [OF _ i d p'] have a: "addsDirs (dst @ rel) (ex_fs st) (ex_fs st1)" by auto
    have i1: "exInv dst st1" using k by (simp add: exOk_def)
    have p1: "okPlace dst (ex_fs st1) (rel @ [l])" using p addsDirs_noSym [OF a] by (auto simp: okPlace_def)
    show "exOk dst st1 (snd (case osSymlink (ex_fs st1) t (dst @ rel @ [l]) of
        Inl err \<Rightarrow> (Inl (ExOs err), st1) | Inr fs \<Rightarrow> (Inr (), st1\<lparr>ex_fs := fs\<rparr>)))"
    proof (cases "osSymlink (ex_fs st1) t (dst @ rel @ [l])")
      case (Inl err)
      with exOk_refl [OF i1] show ?thesis by simp
    next
      case (Inr fs)
      then obtain q where q: "namei (ex_fs st1) symlinkMax False [] (dst @ rel @ [l]) = Inr q"
        "fs_node (ex_fs st1) q = None" "fs = setNode (ex_fs st1) q (NSym t)"
        by (auto simp: osSymlink_def bindE_Inr_iff split: if_splits)
      from place_self [OF i1 p1 d q(1)] have q': "q = dst @ rel @ [l]" "fs_node (ex_fs st1) (dst @ rel) = Some NDir" by auto
      have "exOk dst st1 (st1\<lparr>ex_fs := setNode (ex_fs st1) (dst @ rel @ [l]) (NSym t)\<rparr>)"
        using q(2) q' c by (intro exOk_setNode [OF i1]) auto
      with Inr q(3) q'(1) show ?thesis by simp
    qed
  qed
qed

end
