(* ===== verification/Contained.thy ===== *)
theory Contained imports ExtractSafe begin

text \<open>
  The whole extraction: the remaining entry kinds, the loop over the stream, and what its
  invariant means for name resolution below the destination.
\<close>

section \<open>Hard links and single entries\<close>

lemma addsDirs_place: "addsDirs p fs fs' \<Longrightarrow> okPlace dst fs rel \<Longrightarrow> okPlace dst fs' rel"
  by (simp add: okPlace_def addsDirs_noSym)

lemma okPlace_butlast: "okPlace dst fs (rel @ [l]) \<Longrightarrow> okPlace dst fs rel"
  by (simp add: okPlace_def noSym_append)

lemma ensureDir_snd:
  assumes "exInv dst st" "plainPath dst" "okPlace dst (ex_fs st) rel"
  shows "exOk dst st (snd (ensureDir (dst @ rel) st))"
  using ensureDir_ok [OF _ assms] by (cases "ensureDir (dst @ rel) st") auto

lemma osLink_Inr:
  assumes "osLink fs old p = Inr fs'"
  shows "\<exists>o' nd q. namei fs symlinkMax False [] old = Inr o' \<and> fs_node fs o' = Some nd \<and> nd \<noteq> NDir \<and>
    namei fs symlinkMax False [] p = Inr q \<and> fs_node fs q = None \<and> fs' = setNode fs q nd"
proof -
  from assms obtain o' where o': "namei fs symlinkMax False [] old = Inr o'"
    and r: "(case fs_node fs o' of None \<Rightarrow> Inl ENOENT | Some NDir \<Rightarrow> Inl EPERM
       | Some nd \<Rightarrow> bindE (namei fs symlinkMax False [] p) (\<lambda>q. if fs_node fs q \<noteq> None then Inl EEXIST else Inr (setNode fs q nd))) = Inr fs'"
    unfolding osLink_def bindE_Inr_iff by blast
  then obtain nd where nd: "fs_node fs o' = Some nd" "nd \<noteq> NDir" by (auto split: option.splits node.splits)
  with r have "bindE (namei fs symlinkMax False [] p) (\<lambda>q. if fs_node fs q \<noteq> None then Inl EEXIST else Inr (setNode fs q nd)) = Inr fs'"
    by (cases nd) auto
  then obtain q where "namei fs symlinkMax False [] p = Inr q" "fs_node fs q = None" "fs' = setNode fs q nd"
    by (auto simp: bindE_Inr_iff split: if_splits)
  with o' nd show ?thesis by blast
qed

lemma extractHardlink_ok:
  assumes i: "exInv dst st" and d: "plainPath dst" and p: "okPlace dst (ex_fs st) (rel @ [l])"
  shows "exOk dst st (snd (extractHardlink dst (dst @ rel @ [l]) e st))"
  unfolding extractHardlink_def
proof (rule exOk_then)
  show "exOk dst st (snd (liftS (sanitizeArchivePath (te_link e)) st))"
    using exOk_refl [OF i] by (simp add: liftS_def)
  fix lr st0
  assume "liftS (sanitizeArchivePath (te_link e)) st = (Inr lr, st0)"
  then have st0: "st0 = st" and lr: "sanitizeArchivePath (te_link e) = Inr lr" by (auto simp: liftS_def)
  have b: "butlast (dst @ rel @ [l]) = dst @ rel" by (simp add: butlast_append)
  let ?old = "splitStr lr ''/''" and ?t = "dst @ rel @ [l]"
  show "exOk dst st0 (snd (if lr = [] then (Inl (ExArchive (HardlinkTargetIsEmpty (te_name e))), st0)
      else thenS (ensureNoSymlinkParents dst lr st0) (\<lambda>_ st.
        thenS (ensureDir (butlast ?t) st) (\<lambda>_ st.
          case osLink (ex_fs st) (dst @ ?old) ?t of
            Inl err \<Rightarrow> (Inl (ExOs err), st) | Inr fs \<Rightarrow> (Inr (), st\<lparr>ex_fs := fs\<rparr>)))))"
  proof (cases "lr = []")
    case True
    with exOk_refl [OF i] show ?thesis by (simp add: st0)
  next
    case False
    have old: "plainPath ?old" using sanitize_plain [OF lr False] .
    have nd: "lr \<noteq> ''.''" using lr by (auto simp: sanitizeArchivePath_def Let_def split: if_splits)
    note check = ensureNoSymlinkParents_ok [OF _ i d old False nd]
    have "exOk dst st (snd (thenS (ensureNoSymlinkParents dst lr st) (\<lambda>_ st.
        thenS (ensureDir (butlast ?t) st) (\<lambda>_ st.
          case osLink (ex_fs st) (dst @ ?old) ?t of
            Inl err \<Rightarrow> (Inl (ExOs err), st) | Inr fs \<Rightarrow> (Inr (), st\<lparr>ex_fs := fs\<rparr>)))))"
    proof (rule exOk_then)
      show "exOk dst st (snd (ensureNoSymlinkParents dst lr st))"
        using check by (cases "ensureNoSymlinkParents dst lr st") auto
      fix u st1
      assume c: "ensureNoSymlinkParents dst lr st = (Inr u, st1)" and "exOk dst st st1"
      then have i1: "exInv dst st1" by (simp add: exOk_def)
      from check [OF c] have fs1: "ex_fs st1 = ex_fs st" and o1: "okPlace dst (ex_fs st1) ?old" by auto
      have p1: "okPlace dst (ex_fs st1) (rel @ [l])" using p fs1 by simp
      note p1' = okPlace_butlast [OF p1]
      show "exOk dst st1 (snd (thenS (ensureDir (butlast ?t) st1) (\<lambda>_ st.
          case osLink (ex_fs st) (dst @ ?old) ?t of
            Inl err \<Rightarrow> (Inl (ExOs err), st) | Inr fs \<Rightarrow> (Inr (), st\<lparr>ex_fs := fs\<rparr>))))"
      proof (rule exOk_then)
        show "exOk dst st1 (snd (ensureDir (butlast ?t) st1))"
          unfolding b by (rule ensureDir_snd [OF i1 d p1'])
        fix u st2
        assume e2: "ensureDir (butlast ?t) st1 = (Inr u, st2)" and "exOk dst st1 st2"
        then have i2: "exInv dst st2" by (simp add: exOk_def)
        from e2 b ensureDir_ok [OF _ i1 d p1'] have a: "addsDirs (dst @ rel) (ex_fs st1) (ex_fs st2)" by auto
        note o2 = addsDirs_place [OF a o1] and p2 = addsDirs_place [OF a p1]
        show "exOk dst st2 (snd (case osLink (ex_fs st2) (dst @ ?old) ?t of
            Inl err \<Rightarrow> (Inl (ExOs err), st2) | Inr fs \<Rightarrow> (Inr (), st2\<lparr>ex_fs := fs\<rparr>)))"
        proof (cases "osLink (ex_fs st2) (dst @ ?old) ?t")
          case (Inl err)
          with exOk_refl [OF i2] show ?thesis by simp
        next
          case (Inr fs)
          from osLink_Inr [OF this] obtain o' nd q where o': "namei (ex_fs st2) symlinkMax False [] (dst @ ?old) = Inr o'"
              "fs_node (ex_fs st2) o' = Some nd"
            and q: "namei (ex_fs st2) symlinkMax False [] ?t = Inr q" "fs_node (ex_fs st2) q = None" "fs = setNode (ex_fs st2) q nd"
            by blast
          from place_self [OF i2 o2 d o'(1)] have old': "o' = dst @ ?old" by simp
          from place_self [OF i2 p2 d q(1)] have q': "q = ?t" "fs_node (ex_fs st2) (dst @ rel) = Some NDir" by auto
          have nsym: "nd \<noteq> NSym t" for t
            using o2 o'(2) splitStr_nonempty [of lr "''/''"] unfolding old' okPlace_def noSym_def
            by (metis length_greater_0_conv order_refl take_all_iff)
          have "exOk dst st2 (st2\<lparr>ex_fs := setNode (ex_fs st2) (dst @ rel @ [l]) nd\<rparr>)"
          proof (rule exOk_setNode [OF i2])
            fix j
            assume j: "nd = NFile j"
            have "j < fs_next (ex_fs st2)" using exInvD(1) [OF i2] o'(2) j unfolding wfFs_def by blast
            with inside_not_outside [OF i2, of ?old j] o'(2) j old'
            show "j < fs_next (ex_fs st2) \<and> (\<forall>p. \<not> prefix dst p \<longrightarrow> fs_node (ex_fs st2) p \<noteq> Some (NFile j))" by simp
          qed (use q(2) q' nsym in auto)
          with Inr q(3) q'(1) show ?thesis by simp
        qed
      qed
    qed
    with False show ?thesis by (simp add: st0)
  qed
qed

lemma handleTarEntry_ok:
  assumes i: "exInv dst st" and d: "plainPath dst"
  shows "exOk dst st (snd (handleTarEntry root dst e st))"
  unfolding handleTarEntry_def
proof (rule exOk_then)
  show "exOk dst st (snd (liftS (sanitizeArchivePath (te_name e)) st))"
    using exOk_refl [OF i] by (simp add: liftS_def)
  fix rp st0
  assume "liftS (sanitizeArchivePath (te_name e)) st = (Inr rp, st0)"
  then have st0: "st0 = st" and rp: "sanitizeArchivePath (te_name e) = Inr rp" by (auto simp: liftS_def)
  show "exOk dst st0 (snd (if rp = [] then (Inr (), st0)
      else let targetPath = dst @ splitStr rp ''/'' in
        thenS (ensureNoSymlinkParents dst rp st0) (\<lambda>_ st.
          case te_type e of
            TypeReg \<Rightarrow> extractRegularFile root e targetPath st
          | TypeDir \<Rightarrow> ensureDir targetPath st
          | TypeSymlink \<Rightarrow> extractSymlink rp targetPath e st
          | TypeLink \<Rightarrow> extractHardlink dst targetPath e st
          | TypeOther \<Rightarrow> (Inr (), st))))"
  proof (cases "rp = []")
    case True
    with exOk_refl [OF i] show ?thesis by (simp add: st0)
  next
    case False
    let ?rel = "splitStr rp ''/''"
    have pl: "plainPath ?rel" using sanitize_plain [OF rp False] .
    have nd: "rp \<noteq> ''.''" using rp by (auto simp: sanitizeArchivePath_def Let_def split: if_splits)
    obtain rel l where rl: "?rel = rel @ [l]" by (cases ?rel rule: rev_cases) auto
    have rps: "rp = joinStr (rel @ [l]) ''/''" using join_split_slash [of rp] rl by simp
    note check = ensureNoSymlinkParents_ok [OF _ i d pl False nd]
    have "exOk dst st (snd (thenS (ensureNoSymlinkParents dst rp st) (\<lambda>_ st.
          case te_type e of
            TypeReg \<Rightarrow> extractRegularFile root e (dst @ ?rel) st
          | TypeDir \<Rightarrow> ensureDir (dst @ ?rel) st
          | TypeSymlink \<Rightarrow> extractSymlink rp (dst @ ?rel) e st
          | TypeLink \<Rightarrow> extractHardlink dst (dst @ ?rel) e st
          | TypeOther \<Rightarrow> (Inr (), st))))"
    proof (rule exOk_then)
      show "exOk dst st (snd (ensureNoSymlinkParents dst rp st))"
        using check by (cases "ensureNoSymlinkParents dst rp st") auto
      fix u st1
      assume c: "ensureNoSymlinkParents dst rp st = (Inr u, st1)" and "exOk dst st st1"
      then have i1: "exInv dst st1" by (simp add: exOk_def)
      have p1: "okPlace dst (ex_fs st1) (rel @ [l])" using check [OF c, THEN conjunct2, THEN conjunct2, unfolded rl] by simp
      show "exOk dst st1 (snd (case te_type e of
            TypeReg \<Rightarrow> extractRegularFile root e (dst @ ?rel) st1
          | TypeDir \<Rightarrow> ensureDir (dst @ ?rel) st1
          | TypeSymlink \<Rightarrow> extractSymlink rp (dst @ ?rel) e st1
          | TypeLink \<Rightarrow> extractHardlink dst (dst @ ?rel) e st1
          | TypeOther \<Rightarrow> (Inr (), st1)))"
        unfolding rl using extractRegularFile_ok [OF i1 d p1] ensureDir_snd [OF i1 d p1]
          extractSymlink_ok [OF i1 d p1] extractHardlink_ok [OF i1 d p1] exOk_refl [OF i1]
        by (cases "te_type e") (simp_all add: rps)
    qed
    with False show ?thesis by (simp add: st0 Let_def)
  qed
qed

lemma extractTarEntries_ok:
  "exInv dst st \<Longrightarrow> plainPath dst \<Longrightarrow> exOk dst st (snd (extractTarEntries root dst m n c es end st))"
proof (induction es arbitrary: n c st)
  case Nil
  then show ?case by (simp add: exOk_refl)
next
  case (Cons e es)
  note refl = exOk_refl [OF Cons.prems(1)]
  show ?case
  proof (cases "n + 1 > m")
    case True
    with refl show ?thesis by simp
  next
    case False
    have "exOk dst st (snd (thenS (liftS (chargeHeaderSize e c) st) (\<lambda>c st.
        thenS (handleTarEntry root dst e st) (\<lambda>_ st. extractTarEntries root dst m (n + 1) c es end st))))"
    proof (rule exOk_then)
      show "exOk dst st (snd (liftS (chargeHeaderSize e c) st))" using refl by (simp add: liftS_def)
      fix c1 st0
      assume "liftS (chargeHeaderSize e c) st = (Inr c1, st0)"
      then have st0: "st0 = st" by (simp add: liftS_def)
      show "exOk dst st0 (snd (thenS (handleTarEntry root dst e st0) (\<lambda>_ st. extractTarEntries root dst m (n + 1) c1 es end st)))"
      proof (rule exOk_then)
        show "exOk dst st0 (snd (handleTarEntry root dst e st0))" unfolding st0 by (rule handleTarEntry_ok [OF Cons.prems])
        fix u st1
        assume "exOk dst st0 st1"
        then show "exOk dst st1 (snd (extractTarEntries root dst m (n + 1) c1 es end st1))"
          using Cons.IH Cons.prems(2) by (simp add: exOk_def)
      qed
    qed
    with False show ?thesis by simp
  qed
qed

lemma extractTarGzStream_ok:
  assumes "exInv dst \<lparr>ex_fs = fs, ex_verified = {}\<rparr>" "plainPath dst"
  shows "exOk dst \<lparr>ex_fs = fs, ex_verified = {}\<rparr> (snd (extractTarGzStream root dst opened fs))"
  unfolding extractTarGzStream_def
proof (rule exOk_then)
  show "exOk dst \<lparr>ex_fs = fs, ex_verified = {}\<rparr> (snd (liftS opened \<lparr>ex_fs = fs, ex_verified = {}\<rparr>))"
    using exOk_refl [OF assms(1)] by (simp add: liftS_def)
  fix x st1
  assume "exOk dst \<lparr>ex_fs = fs, ex_verified = {}\<rparr> st1"
  then show "exOk dst st1 (snd ((case x of (es, end) \<Rightarrow> \<lambda>st. extractTarEntries root dst archiveMaxEntryCount 0 0 es end st) st1))"
    using extractTarEntries_ok [OF _ assms(2)] by (cases x) (simp add: exOk_def)
qed


section \<open>No name below the destination leads out of it\<close>

lemma replicate_split:
  "e # es = replicate k ''..'' @ fs \<Longrightarrow> plainPath fs \<Longrightarrow>
     (if e = ''..'' then \<exists>j. k = Suc j \<and> es = replicate j ''..'' @ fs else k = 0 \<and> fs = e # es \<and> plainElem e)"
  by (cases k) (auto dest: plain_no_dotdot)

lemma namei_contained_aux:
  "namei fs n follow cur xs = Inr p \<Longrightarrow> cur = dst @ c \<Longrightarrow> xs = replicate k ''..'' @ es \<Longrightarrow> k \<le> length c \<Longrightarrow> plainPath es \<Longrightarrow>
     (\<And>q e t. fs_node fs (dst @ q @ [e]) = Some (NSym t) \<Longrightarrow> containedTarget (length q) t) \<Longrightarrow> prefix dst p"
proof (induction fs n follow cur xs arbitrary: c k es rule: namei.induct)
  case (1 fs n follow cur)
  then have "p = dst @ c" by (simp add: namei.simps)
  then show ?case by simp
next
  case (2 fs n follow cur e xs)
  note run = 2(5) and cur = 2(6) and xs = 2(7) and k = 2(8) and pl = 2(9) and links = 2(10)
  from replicate_split [OF xs pl]
  consider (up) j where "e = ''..''" "k = Suc j" "xs = replicate j ''..'' @ es"
    | (down) "e \<noteq> ''..''" "k = 0" "es = e # xs" "plainElem e"
    by (auto split: if_splits)
  then show ?case
  proof cases
    case up
    then have c: "c \<noteq> []" "j \<le> length (butlast c)" using k by auto
    have "namei fs n follow (butlast cur) xs = Inr p" using run up by (simp add: namei.simps)
    from 2(2) [OF _ _ this, of "butlast c" j es] up c cur pl links show ?thesis by (simp add: butlast_append)
  next
    case down
    then have e: "e \<noteq> []" "e \<noteq> ''.''" and pxs: "plainPath xs" using pl by (auto simp: plainElem_def)
    show ?thesis
    proof (cases "fs_node fs (cur @ [e])")
      case None
      with run e down cur show ?thesis by (auto simp: namei.simps split: if_splits)
    next
      case (Some nd)
      show ?thesis
      proof (cases nd)
        case NDir
        with Some run e down have "namei fs n follow (cur @ [e]) xs = Inr p" by (simp add: namei.simps)
        from 2(3) [OF _ _ Some NDir this, of "c @ [e]" 0 xs] e down cur pxs links show ?thesis by simp
      next
        case (NFile i)
        with Some run e down cur show ?thesis by (auto simp: namei.simps split: if_splits)
      next
        case (NSym t)
        show ?thesis
        proof (cases "xs = [] \<and> \<not> follow")
          case True
          with Some NSym run e down cur show ?thesis by (auto simp: namei.simps)
        next
          case False
          with Some NSym run e down have n: "n \<noteq> 0"
            and go: "namei fs (n - 1) follow (if pathIsAbs t then [] else cur) (splitStr t ''/'' @ xs) = Inr p"
            by (auto simp: namei.simps split: if_splits)
          from links [of c e t] Some NSym cur have ct: "containedTarget (length c) t" by simp
          then obtain m plain where m: "splitStr t ''/'' = replicate m ''..'' @ plain" "m \<le> length c" "plainPath plain" "\<not> pathIsAbs t"
            by (auto simp: containedTarget_def)
          from 2(4) [OF _ _ Some NSym False n go, of c m "plain @ xs"] e down m cur pxs links show ?thesis by auto
        qed
      qed
    qed
  qed
qed

text \<open>
  Under the invariant a lookup of plain elements below the destination, with every link
  followed, ends below the destination.
\<close>

lemma names_contained:
  assumes "exInv dst st" "namei (ex_fs st) n follow dst es = Inr p" "plainPath es"
  shows "prefix dst p"
  using namei_contained_aux [OF assms(2), of dst "[]" 0 es] assms(3) exInvD(4) [OF assms(1)] by simp

end
