(* ===== verification/Chain.thy ===== *)
theory Chain imports ChainScan begin

text \<open>
  \<^verbatim>\<open>internal/galaxy/manifest/chain.go\<close>, second half: the pointer in \<^verbatim>\<open>MANIFEST.json\<close>, the
  streamed walk over \<^verbatim>\<open>FILES.json\<close> and the checks that tie an archive to the verified
  document. The JSON decoder appears as what it reports: \<open>cl_tokens\<close> is the sequence
  \<^verbatim>\<open>Token\<close> yields on a document, ending in \<open>JBad\<close> where the text stops being JSON, and
  \<open>cl_row\<close> is \<^verbatim>\<open>Decode\<close> into a row at the head of such a sequence, with the number of
  tokens it consumes less one. Nothing is assumed of either.
\<close>

section \<open>What the standard library supplies\<close>

datatype jsonTok = JDelim char | JString gostring | JScalar | JBad

record chainPointer =
  cp_name :: gostring
  cp_chksum_type :: gostring
  cp_chksum_sha256 :: gostring

record filesEntry =
  fe_name :: gostring
  fe_ftype :: gostring
  fe_chksum_type :: gostring
  fe_chksum_sha256 :: gostring

record chainLib =
  cl_sha256 :: "gostring \<Rightarrow> digest"
  cl_pointer :: "gostring \<Rightarrow> chainPointer option"
  cl_tokens :: "gostring \<Rightarrow> jsonTok list"
  cl_row :: "jsonTok list \<Rightarrow> (filesEntry \<times> nat) option"

section \<open>Digests\<close>

definition hexNibble :: "char \<Rightarrow> 8 word" where
  "hexNibble c =
     (if byteOf c \<le> byteOf CHR ''9'' then word_of_nat (byteOf c) - word_of_nat (byteOf CHR ''0'')
      else word_of_nat (byteOf c) - word_of_nat (byteOf CHR ''a'') + 10)"

definition sha256FromHex :: "gostring \<Rightarrow> digest option" where
  "sha256FromHex s =
     (if \<not> isSHA256Hex s then None
      else Some (map (\<lambda>i. or (push_bit 4 (hexNibble (s ! (i * 2)))) (hexNibble (s ! (i * 2 + 1)))) [0..<32]))"

section \<open>The pointer\<close>

definition mismatch :: "chainReason \<Rightarrow> (chainErr, 'a) res" where
  "mismatch r = Inl (ManifestChainMismatch r)"

definition checkFieldLength :: "gostring \<Rightarrow> gostring \<Rightarrow> gostring \<Rightarrow> (chainErr, unit) res" where
  "checkFieldLength document field value =
     (if length value \<le> archiveMaxEntryNameLen then Inr () else mismatch (FieldTooLong document field (length value)))"

definition checkPointerFieldLengths :: "chainPointer \<Rightarrow> (chainErr, unit) res" where
  "checkPointerFieldLengths doc =
     bindE (checkFieldLength manifestFileName ''name'' (cp_name doc)) (\<lambda>_.
     bindE (checkFieldLength manifestFileName ''chksum_type'' (cp_chksum_type doc)) (\<lambda>_.
     checkFieldLength manifestFileName ''chksum_sha256'' (cp_chksum_sha256 doc)))"

definition parseChainPointer :: "chainLib \<Rightarrow> gostring \<Rightarrow> (chainErr, digest) res" where
  "parseChainPointer L manifestJSON =
     (case cl_pointer L manifestJSON of
        None \<Rightarrow> mismatch ManifestDoesNotParse
      | Some doc \<Rightarrow> bindE (checkPointerFieldLengths doc) (\<lambda>_.
          if pathClean (cp_name doc) \<noteq> filesManifestFileName then mismatch (PointsAt (cp_name doc))
          else case sha256FromHex (cp_chksum_sha256 doc) of
            None \<Rightarrow> mismatch (PointerNotDigest (cp_chksum_sha256 doc))
          | Some want \<Rightarrow> Inr want))"

section \<open>One row of the listing\<close>

definition checkListedFieldLengths :: "filesEntry \<Rightarrow> (chainErr, unit) res" where
  "checkListedFieldLengths row =
     bindE (checkFieldLength filesManifestFileName ''name'' (fe_name row)) (\<lambda>_.
     bindE (checkFieldLength filesManifestFileName ''ftype'' (fe_ftype row)) (\<lambda>_.
     bindE (checkFieldLength filesManifestFileName ''chksum_type'' (fe_chksum_type row)) (\<lambda>_.
     checkFieldLength filesManifestFileName ''chksum_sha256'' (fe_chksum_sha256 row))))"

definition listedName :: "gostring \<Rightarrow> (chainErr, gostring) res" where
  "listedName name =
     (if name = [] then mismatch RowWithoutName
      else
        let cleaned = pathClean name in
        if pathIsAbs cleaned \<or> cleaned = ''..'' \<or> hasPrefix cleaned ''../'' then mismatch (RowOutsideArchive name)
        else Inr cleaned)"

definition chainMaxLinkHops :: nat where "chainMaxLinkHops = 8"

text \<open>\<open>n\<close> is the number of hops left, the current one included.\<close>

fun resolveHops :: "archiveScan \<Rightarrow> nat \<Rightarrow> gostring \<Rightarrow> (chainErr, digest) res" where
  "resolveHops a 0 key = mismatch (TooManyHops key)"
| "resolveHops a (Suc n) key =
     (case as_hashes a key of
        Some d \<Rightarrow> Inr d
      | None \<Rightarrow>
          (case as_links a key of
             None \<Rightarrow> mismatch (NotCarried key)
           | Some target \<Rightarrow> resolveHops a n target))"

definition resolveEntryDigest :: "archiveScan \<Rightarrow> gostring \<Rightarrow> (chainErr, digest) res" where
  "resolveEntryDigest a key = resolveHops a (chainMaxLinkHops + 1) key"

definition verifyListedFile :: "archiveScan \<Rightarrow> gostring \<Rightarrow> filesEntry \<Rightarrow> (chainErr, unit) res" where
  "verifyListedFile a key row =
     (if fe_chksum_type row \<noteq> ''sha256'' then mismatch (OtherChecksumType key (fe_chksum_type row))
      else case sha256FromHex (fe_chksum_sha256 row) of
        None \<Rightarrow> mismatch (RowNotDigest key (fe_chksum_sha256 row))
      | Some want \<Rightarrow> bindE (resolveEntryDigest a key) (\<lambda>got.
          if got \<noteq> want then mismatch (DigestMismatch key) else Inr ()))"

definition checkListedRow :: "archiveScan \<Rightarrow> gostring set \<Rightarrow> filesEntry \<Rightarrow> (chainErr, gostring set) res" where
  "checkListedRow a listed row =
     bindE (checkListedFieldLengths row) (\<lambda>_.
     bindE (listedName (fe_name row)) (\<lambda>key.
       if key \<in> listed then mismatch (ListedTwice key)
       else if fe_ftype row \<noteq> ''file'' then
         (if as_hashes a key \<noteq> None then mismatch (TypeOverFile key (fe_ftype row)) else Inr (insert key listed))
       else if key = filesManifestFileName then Inr (insert key listed)
       else bindE (verifyListedFile a key row) (\<lambda>_. Inr (insert key listed))))"

section \<open>The walk over FILES.json\<close>

text \<open>A token, or \<open>None\<close> for the error of \<^verbatim>\<open>Token\<close> at the end of the text or at a syntax error.\<close>

definition nextTok :: "jsonTok list \<Rightarrow> (jsonTok \<times> jsonTok list) option" where
  "nextTok ts = (case ts of [] \<Rightarrow> None | t # ts \<Rightarrow> if t = JBad then None else Some (t, ts))"

definition expectDelim :: "char \<Rightarrow> jsonTok list \<Rightarrow> (chainErr, jsonTok list) res" where
  "expectDelim want ts =
     (case nextTok ts of
        None \<Rightarrow> mismatch ListingDoesNotParse
      | Some (t, ts) \<Rightarrow> if t = JDelim want then Inr ts else mismatch (DelimExpected want))"

fun skipValue :: "int \<Rightarrow> jsonTok list \<Rightarrow> (chainErr, jsonTok list) res" where
  "skipValue depth [] = mismatch ListingDoesNotParse"
| "skipValue depth (t # ts) =
     (case t of
        JBad \<Rightarrow> mismatch ListingDoesNotParse
      | JDelim d \<Rightarrow>
          (if d = CHR ''{'' \<or> d = CHR ''['' then skipValue (depth + 1) ts
           else if depth - 1 = 0 then Inr ts else skipValue (depth - 1) ts)
      | _ \<Rightarrow> if depth = 0 then Inr ts else skipValue depth ts)"

definition skipListingValue :: "jsonTok list \<Rightarrow> (chainErr, jsonTok list) res" where
  "skipListingValue ts = skipValue 0 ts"

text \<open>\<^verbatim>\<open>More\<close>: something other than a closing delimiter follows.\<close>

definition decMore :: "jsonTok list \<Rightarrow> bool" where
  "decMore ts \<longleftrightarrow> ts \<noteq> [] \<and> hd ts \<noteq> JDelim CHR '']'' \<and> hd ts \<noteq> JDelim CHR ''}''"

definition decodeRow :: "chainLib \<Rightarrow> jsonTok list \<Rightarrow> (chainErr, filesEntry \<times> jsonTok list) res" where
  "decodeRow L ts =
     (case cl_row L ts of
        None \<Rightarrow> mismatch ListingDoesNotParse
      | Some (row, n) \<Rightarrow> Inr (row, drop (Suc n) ts))"

text \<open>\<open>left\<close> is the number of rows the cap still admits.\<close>

fun walkRows :: "chainLib \<Rightarrow> archiveScan \<Rightarrow> nat \<Rightarrow> gostring set \<Rightarrow> jsonTok list \<Rightarrow> (chainErr, gostring set \<times> jsonTok list) res" where
  "walkRows L a left listed ts =
     (if \<not> decMore ts then bindE (expectDelim CHR '']'' ts) (\<lambda>ts. Inr (listed, ts))
      else case left of
        0 \<Rightarrow> mismatch TooManyRows
      | Suc left \<Rightarrow> bindE (decodeRow L ts) (\<lambda>(row, ts).
          bindE (checkListedRow a listed row) (\<lambda>listed. walkRows L a left listed ts)))"

declare walkRows.simps [simp del]

definition walkListingRows :: "chainLib \<Rightarrow> archiveScan \<Rightarrow> gostring set \<Rightarrow> jsonTok list \<Rightarrow> (chainErr, gostring set \<times> jsonTok list) res" where
  "walkListingRows L a listed ts =
     bindE (expectDelim CHR ''['' ts) (\<lambda>ts. walkRows L a (nat archiveMaxEntryCount) listed ts)"

text \<open>Every step consumes tokens, which is why the walk over the document ends.\<close>

lemma nextTok_shorter: "nextTok ts = Some (t, us) \<Longrightarrow> length us < length ts"
  by (auto simp: nextTok_def split: list.splits if_splits)

lemma expectDelim_shorter: "expectDelim d ts = Inr us \<Longrightarrow> length us < length ts"
  by (auto simp: expectDelim_def mismatch_def dest: nextTok_shorter split: option.splits if_splits)

lemma skipValue_shorter: "skipValue depth ts = Inr us \<Longrightarrow> length us < length ts"
  by (induction depth ts rule: skipValue.induct)
     (fastforce simp: mismatch_def split: jsonTok.splits if_splits)+

lemma walkRows_shorter: "walkRows L a left listed ts = Inr (listed', us) \<Longrightarrow> length us \<le> length ts"
proof (induction left arbitrary: listed ts)
  case 0
  then show ?case
    by (subst (asm) walkRows.simps) (auto simp: bindE_Inr_iff mismatch_def dest: expectDelim_shorter split: if_splits)
next
  case (Suc left)
  show ?case
  proof (cases "decMore ts")
    case True
    with Suc.prems obtain row n listed1 where "walkRows L a left listed1 (drop (Suc n) ts) = Inr (listed', us)"
      by (subst (asm) walkRows.simps) (auto simp: bindE_Inr_iff decodeRow_def mismatch_def split: option.splits)
    from Suc.IH [OF this] show ?thesis by simp
  next
    case False
    with Suc.prems show ?thesis
      by (subst (asm) walkRows.simps) (auto simp: bindE_Inr_iff dest: expectDelim_shorter)
  qed
qed

lemma walkListingRows_shorter: "walkListingRows L a listed ts = Inr (listed', us) \<Longrightarrow> length us \<le> length ts"
  by (fastforce simp: walkListingRows_def bindE_Inr_iff dest: expectDelim_shorter walkRows_shorter)

text \<open>The members of the top-level object, with the flag that one \<^verbatim>\<open>files\<close> key was walked.\<close>

function walkMembers :: "chainLib \<Rightarrow> archiveScan \<Rightarrow> bool \<Rightarrow> gostring set \<Rightarrow> jsonTok list \<Rightarrow> (chainErr, gostring set \<times> jsonTok list) res" where
  "walkMembers L a walked listed ts =
     (case nextTok ts of
        None \<Rightarrow> mismatch ListingDoesNotParse
      | Some (JString key, ts1) \<Rightarrow>
          (if key \<noteq> ''files'' then
             (case skipListingValue ts1 of Inl e \<Rightarrow> Inl e | Inr ts2 \<Rightarrow> walkMembers L a walked listed ts2)
           else if walked then mismatch TwoFilesKeys
           else
             (case walkListingRows L a listed ts1 of Inl e \<Rightarrow> Inl e | Inr (listed, ts2) \<Rightarrow> walkMembers L a True listed ts2))
      | Some (_, ts1) \<Rightarrow> Inr (listed, ts1))"
  by pat_completeness auto
termination
  by (relation "measure (\<lambda>(L, a, walked, listed, ts). length ts)")
     (auto simp: skipListingValue_def dest!: nextTok_shorter skipValue_shorter walkListingRows_shorter)

declare walkMembers.simps [simp del]

definition walkListingDocument :: "chainLib \<Rightarrow> archiveScan \<Rightarrow> gostring set \<Rightarrow> jsonTok list \<Rightarrow> (chainErr, gostring set) res" where
  "walkListingDocument L a listed ts =
     bindE (expectDelim CHR ''{'' ts) (\<lambda>ts.
     bindE (walkMembers L a False listed ts) (\<lambda>(listed, ts).
       if ts \<noteq> [] then mismatch ContentAfterObject else Inr listed))"

definition verifyListing :: "chainLib \<Rightarrow> archiveScan \<Rightarrow> (chainErr, gostring set) res" where
  "verifyListing L a = walkListingDocument L a {} (cl_tokens L (as_files a))"

section \<open>The chain\<close>

fun checkUnlisted :: "gostring list \<Rightarrow> gostring set \<Rightarrow> (chainErr, unit) res" where
  "checkUnlisted [] listed = Inr ()"
| "checkUnlisted (key # order) listed =
     (if key = manifestFileName \<or> key = filesManifestFileName then checkUnlisted order listed
      else if key \<notin> listed then mismatch (Unlisted key)
      else checkUnlisted order listed)"

definition verifyChainScan :: "chainLib \<Rightarrow> archiveScan \<Rightarrow> digest \<Rightarrow> gostring \<Rightarrow> (chainErr, unit) res" where
  "verifyChainScan L a wantFiles manifestJSON =
     (if as_hashes a manifestFileName \<noteq> Some (cl_sha256 L manifestJSON) then mismatch NotVerifiedDocument
      else case as_hashes a filesManifestFileName of
        None \<Rightarrow> mismatch NoFilesManifest
      | Some gotFiles \<Rightarrow>
          if gotFiles \<noteq> wantFiles then mismatch FilesManifestDigest
          else bindE (verifyListing L a) (\<lambda>listed. checkUnlisted (as_order a) listed))"

text \<open>
  \<open>opened\<close> is what the decompressor under the byte limit and the tar reader make of the
  artifact: an error that refuses to open, or the tar stream.
\<close>

definition verifyChainStream :: "chainLib \<Rightarrow> (chainErr, tarEntry list \<times> tarEnd) res \<Rightarrow> gostring \<Rightarrow> (chainErr, unit) res" where
  "verifyChainStream L opened manifestJSON =
     bindE (parseChainPointer L manifestJSON) (\<lambda>wantFiles.
     bindE opened (\<lambda>(es, end).
     bindE (scanArchive (cl_sha256 L) es end) (\<lambda>a. verifyChainScan L a wantFiles manifestJSON)))"

section \<open>Reading MANIFEST.json\<close>

definition topLevelManifest :: "tarEntry \<Rightarrow> bool" where
  "topLevelManifest e \<longleftrightarrow> te_type e = TypeReg \<and> pathClean (te_name e) = manifestFileName"

definition readManifestBody :: "chainErr \<Rightarrow> tarEntry \<Rightarrow> (chainErr, gostring) res" where
  "readManifestBody fault e =
     (if te_size e \<le> 0 then Inl ManifestNotFound
      else case tarContent e of None \<Rightarrow> Inl fault | Some body \<Rightarrow> Inr body)"

text \<open>\<open>fault\<close> is what \<^verbatim>\<open>walkError\<close> makes of the error that ends the stream.\<close>

fun readFromTarGzStream :: "chainErr \<Rightarrow> tarEntry list \<Rightarrow> tarEnd \<Rightarrow> (chainErr, gostring) res" where
  "readFromTarGzStream fault [] end = (if end = TarEOF then Inl ManifestNotFound else Inl fault)"
| "readFromTarGzStream fault (e # es) end =
     bindE (checkEntryNameLength (te_name e)) (\<lambda>_.
       if te_size e > archiveMaxEntrySize then Inl (ArchiveEntryIsTooLarge (te_name e) (te_size e))
       else if \<not> topLevelManifest e then readFromTarGzStream fault es end
       else readManifestBody fault e)"

end
