(* ===== verification/ChainSound.thy ===== *)
theory ChainSound imports Chain begin

text \<open>
  What the chain check establishes. The streamed walk over \<^verbatim>\<open>FILES.json\<close> accepts exactly
  the documents that decode as a whole, to a list of rows each of which is admitted, under
  pairwise distinct names. Together with the scan this gives, for each entry an accepted
  archive carries, the digest the verified document vouches for.
\<close>

section \<open>Reference: the document decoded whole\<close>

fun parseRows :: "chainLib \<Rightarrow> nat \<Rightarrow> jsonTok list \<Rightarrow> (filesEntry list \<times> jsonTok list) option" where
  "parseRows L left ts =
     (if \<not> decMore ts then
        (case expectDelim CHR '']'' ts of Inl _ \<Rightarrow> None | Inr ts \<Rightarrow> Some ([], ts))
      else case left of
        0 \<Rightarrow> None
      | Suc left \<Rightarrow>
          (case decodeRow L ts of
             Inl _ \<Rightarrow> None
           | Inr (row, ts) \<Rightarrow> map_option (\<lambda>(rows, ts). (row # rows, ts)) (parseRows L left ts)))"

declare parseRows.simps [simp del]

definition parseArray :: "chainLib \<Rightarrow> jsonTok list \<Rightarrow> (filesEntry list \<times> jsonTok list) option" where
  "parseArray L ts =
     (case expectDelim CHR ''['' ts of Inl _ \<Rightarrow> None | Inr ts \<Rightarrow> parseRows L (nat archiveMaxEntryCount) ts)"

lemma parseRows_shorter: "parseRows L left ts = Some (rows, vs) \<Longrightarrow> length vs \<le> length ts"
proof (induction left arbitrary: ts rows)
  case 0
  then show ?case
    by (subst (asm) parseRows.simps) (auto dest!: expectDelim_shorter split: if_splits sum.splits)
next
  case (Suc left)
  show ?case
  proof (cases "decMore ts")
    case True
    with Suc.prems obtain n rows1 where "parseRows L left (drop (Suc n) ts) = Some (rows1, vs)"
      by (subst (asm) parseRows.simps) (auto simp: decodeRow_def mismatch_def split: option.splits)
    from Suc.IH [OF this] show ?thesis by simp
  next
    case False
    with Suc.prems show ?thesis
      by (subst (asm) parseRows.simps) (auto dest!: expectDelim_shorter split: sum.splits)
  qed
qed

lemma parseArray_shorter: "parseArray L ts = Some (rows, vs) \<Longrightarrow> length vs < length ts"
  by (fastforce simp: parseArray_def dest: expectDelim_shorter parseRows_shorter split: sum.splits)

text \<open>At most one \<^verbatim>\<open>files\<close> member; the rows of a document without one are empty.\<close>

function parseMembers :: "chainLib \<Rightarrow> bool \<Rightarrow> jsonTok list \<Rightarrow> (filesEntry list \<times> jsonTok list) option" where
  "parseMembers L found ts =
     (case nextTok ts of
        None \<Rightarrow> None
      | Some (JString key, ts1) \<Rightarrow>
          (if key \<noteq> ''files'' then
             (case skipListingValue ts1 of Inl _ \<Rightarrow> None | Inr ts2 \<Rightarrow> parseMembers L found ts2)
           else if found then None
           else
             (case parseArray L ts1 of
                None \<Rightarrow> None
              | Some (rows, ts2) \<Rightarrow> map_option (\<lambda>(more, ts). (rows @ more, ts)) (parseMembers L True ts2)))
      | Some (_, ts1) \<Rightarrow> Some ([], ts1))"
  by pat_completeness auto
termination
  by (relation "measure (\<lambda>(L, found, ts). length ts)")
     (auto simp: skipListingValue_def dest!: nextTok_shorter skipValue_shorter parseArray_shorter)

declare parseMembers.simps [simp del]

definition parseListing :: "chainLib \<Rightarrow> jsonTok list \<Rightarrow> filesEntry list option" where
  "parseListing L ts =
     (case expectDelim CHR ''{'' ts of
        Inl _ \<Rightarrow> None
      | Inr ts \<Rightarrow> (case parseMembers L False ts of Some (rows, []) \<Rightarrow> Some rows | _ \<Rightarrow> None))"

fun checkRows :: "archiveScan \<Rightarrow> gostring set \<Rightarrow> filesEntry list \<Rightarrow> (chainErr, gostring set) res" where
  "checkRows a listed [] = Inr listed"
| "checkRows a listed (row # rows) = bindE (checkListedRow a listed row) (\<lambda>listed. checkRows a listed rows)"

section \<open>Streaming is decoding and then checking\<close>

lemma checkRows_append: "checkRows a listed (xs @ ys) = bindE (checkRows a listed xs) (\<lambda>l. checkRows a l ys)"
  by (induction xs arbitrary: listed) (simp_all add: bindE_def split: sum.split)

lemma walkRows_parse:
  "walkRows L a left listed ts = Inr (listed', vs) \<longleftrightarrow>
     (\<exists>rows. parseRows L left ts = Some (rows, vs) \<and> checkRows a listed rows = Inr listed')"
proof (induction left arbitrary: listed ts)
  case 0
  show ?case
    by (subst walkRows.simps, subst parseRows.simps) (auto simp: bindE_Inr_iff mismatch_def split: sum.split)
next
  case (Suc left)
  show ?case
  proof (cases "decMore ts")
    case False
    then show ?thesis
      by (subst walkRows.simps, subst parseRows.simps) (auto simp: bindE_Inr_iff split: sum.split)
  next
    case more: True
    show ?thesis
    proof (cases "decodeRow L ts")
      case (Inl e)
      with more show ?thesis by (subst walkRows.simps, subst parseRows.simps) simp
    next
      case (Inr r)
      obtain row ts1 where r: "r = (row, ts1)" by (cases r)
      have "walkRows L a (Suc left) listed ts = Inr (listed', vs) \<longleftrightarrow>
          (\<exists>l. checkListedRow a listed row = Inr l \<and> walkRows L a left l ts1 = Inr (listed', vs))"
        using more Inr r by (subst walkRows.simps) (simp add: bindE_Inr_iff)
      also have "\<dots> \<longleftrightarrow> (\<exists>rows. parseRows L left ts1 = Some (rows, vs) \<and> checkRows a listed (row # rows) = Inr listed')"
        unfolding Suc.IH by (auto simp: bindE_Inr_iff)
      also have "\<dots> \<longleftrightarrow> (\<exists>rows. parseRows L (Suc left) ts = Some (rows, vs) \<and> checkRows a listed rows = Inr listed')"
        using more Inr r by (subst (2) parseRows.simps) auto
      finally show ?thesis .
    qed
  qed
qed

lemma walkListingRows_parse:
  "walkListingRows L a listed ts = Inr (listed', vs) \<longleftrightarrow>
     (\<exists>rows. parseArray L ts = Some (rows, vs) \<and> checkRows a listed rows = Inr listed')"
  by (auto simp: walkListingRows_def parseArray_def bindE_Inr_iff walkRows_parse split: sum.splits)

lemma walkMembers_parse:
  "walkMembers L a walked listed ts = Inr (listed', vs) \<longleftrightarrow>
     (\<exists>rows. parseMembers L walked ts = Some (rows, vs) \<and> checkRows a listed rows = Inr listed')"
proof (induction "length ts" arbitrary: walked listed ts rule: less_induct)
  case less
  show ?case
  proof (cases "nextTok ts")
    case None
    then show ?thesis by (simp add: walkMembers.simps [of L a walked] parseMembers.simps [of L walked] mismatch_def)
  next
    case (Some p)
    obtain t ts1 where p: "p = (t, ts1)" by (cases p)
    with Some have l1: "length ts1 < length ts" by (auto dest: nextTok_shorter)
    show ?thesis
    proof (cases "\<exists>key. t = JString key")
      case False
      with Some p show ?thesis
        by (cases t) (auto simp: walkMembers.simps [of L a walked] parseMembers.simps [of L walked])
    next
      case True
      then obtain key where t: "t = JString key" by auto
      consider (skip) "key \<noteq> ''files''" | (twice) "key = ''files''" "walked" | (rows) "key = ''files''" "\<not> walked" by auto
      then show ?thesis
      proof cases
        case skip
        show ?thesis
        proof (cases "skipListingValue ts1")
          case (Inl e)
          with skip Some p t show ?thesis
            by (simp add: walkMembers.simps [of L a walked] parseMembers.simps [of L walked])
        next
          case (Inr ts2)
          then have "length ts2 < length ts" using l1 by (auto simp: skipListingValue_def dest: skipValue_shorter)
          from less.hyps [OF this] skip Some p t Inr show ?thesis
            by (simp add: walkMembers.simps [of L a walked listed ts] parseMembers.simps [of L walked ts])
        qed
      next
        case twice
        with Some p t show ?thesis
          by (simp add: walkMembers.simps [of L a True] parseMembers.simps [of L True] mismatch_def)
      next
        case rows
        have w: "walkMembers L a walked listed ts = Inr (listed', vs) \<longleftrightarrow>
            (\<exists>l ts2. walkListingRows L a listed ts1 = Inr (l, ts2) \<and> walkMembers L a True l ts2 = Inr (listed', vs))"
          using rows Some p t by (auto simp: walkMembers.simps [of L a False listed ts] split: sum.splits)
        also have "\<dots> \<longleftrightarrow> (\<exists>l ts2 rs. parseArray L ts1 = Some (rs, ts2) \<and> checkRows a listed rs = Inr l \<and>
            (\<exists>more. parseMembers L True ts2 = Some (more, vs) \<and> checkRows a l more = Inr listed'))"
          using less.hyps l1 by (meson walkListingRows_parse parseArray_shorter less_trans)
        also have "\<dots> \<longleftrightarrow> (\<exists>rs. parseMembers L walked ts = Some (rs, vs) \<and> checkRows a listed rs = Inr listed')"
          using rows Some p t
          by (auto simp: parseMembers.simps [of L False ts] checkRows_append bindE_Inr_iff split: option.splits)
        finally show ?thesis .
      qed
    qed
  qed
qed

lemma walkListingDocument_parse:
  "walkListingDocument L a listed ts = Inr listed' \<longleftrightarrow>
     (\<exists>rows. parseListing L ts = Some rows \<and> checkRows a listed rows = Inr listed')"
  by (auto simp: walkListingDocument_def parseListing_def bindE_Inr_iff walkMembers_parse mismatch_def
      split: sum.splits option.splits list.splits if_splits)

section \<open>The rows an accepted listing has\<close>

definition rowKey :: "filesEntry \<Rightarrow> gostring" where
  "rowKey row = pathClean (fe_name row)"

definition rowAdmitted :: "archiveScan \<Rightarrow> filesEntry \<Rightarrow> bool" where
  "rowAdmitted a row \<longleftrightarrow>
     checkListedFieldLengths row = Inr () \<and> listedName (fe_name row) = Inr (rowKey row) \<and>
     (if fe_ftype row \<noteq> ''file'' then as_hashes a (rowKey row) = None
      else rowKey row = filesManifestFileName \<or>
        fe_chksum_type row = ''sha256'' \<and>
        (\<exists>d. sha256FromHex (fe_chksum_sha256 row) = Some d \<and> resolveEntryDigest a (rowKey row) = Inr d))"

lemma listedName_Inr: "listedName n = Inr k \<Longrightarrow> k = pathClean n"
  by (auto simp: listedName_def mismatch_def Let_def split: if_splits)

lemma verifyListedFile_Inr:
  "verifyListedFile a key row = Inr () \<longleftrightarrow>
     fe_chksum_type row = ''sha256'' \<and>
     (\<exists>d. sha256FromHex (fe_chksum_sha256 row) = Some d \<and> resolveEntryDigest a key = Inr d)"
  by (auto simp: verifyListedFile_def mismatch_def bindE_Inr_iff split: option.splits)

lemma checkListedRow_Inr:
  "checkListedRow a listed row = Inr listed' \<longleftrightarrow>
     rowAdmitted a row \<and> rowKey row \<notin> listed \<and> listed' = insert (rowKey row) listed"
proof (cases "checkListedFieldLengths row = Inr () \<and> (\<exists>k. listedName (fe_name row) = Inr k)")
  case False
  then show ?thesis
    by (cases "checkListedFieldLengths row"; cases "listedName (fe_name row)")
       (simp_all add: checkListedRow_def rowAdmitted_def)
next
  case True
  then have t: "checkListedFieldLengths row = Inr ()" "listedName (fe_name row) = Inr (rowKey row)"
    by (auto simp: rowKey_def dest: listedName_Inr)
  have v: "bindE (verifyListedFile a (rowKey row) row) (\<lambda>_. Inr (insert (rowKey row) listed)) = Inr listed' \<longleftrightarrow>
    verifyListedFile a (rowKey row) row = Inr () \<and> listed' = insert (rowKey row) listed"
    by (auto simp: bindE_Inr_iff)
  show ?thesis
    unfolding checkListedRow_def rowAdmitted_def t bindE_simps verifyListedFile_Inr [symmetric]
    using v by (simp add: mismatch_def) blast
qed

lemma checkRows_Inr:
  "checkRows a listed rows = Inr listed' \<longleftrightarrow>
     (\<forall>row \<in> set rows. rowAdmitted a row) \<and> distinct (map rowKey rows) \<and> rowKey ` set rows \<inter> listed = {} \<and>
     listed' = listed \<union> rowKey ` set rows"
  by (induction rows arbitrary: listed) (auto simp: bindE_Inr_iff checkListedRow_Inr)

lemma checkUnlisted_Inr:
  "checkUnlisted order listed = Inr () \<longleftrightarrow> set order \<subseteq> listed \<union> {manifestFileName, filesManifestFileName}"
  by (induction order) (auto simp: mismatch_def)

text \<open>The streamed verdict, stated on the decoded document.\<close>

lemma verifyListing_exact:
  "verifyListing L a = Inr listed \<longleftrightarrow>
     (\<exists>rows. parseListing L (cl_tokens L (as_files a)) = Some rows \<and> (\<forall>row \<in> set rows. rowAdmitted a row) \<and>
        distinct (map rowKey rows) \<and> listed = rowKey ` set rows)"
  by (auto simp: verifyListing_def walkListingDocument_parse checkRows_Inr)

lemma verifyChainScan_exact:
  "verifyChainScan L a want doc = Inr () \<longleftrightarrow>
     as_hashes a manifestFileName = Some (cl_sha256 L doc) \<and> as_hashes a filesManifestFileName = Some want \<and>
     (\<exists>rows. parseListing L (cl_tokens L (as_files a)) = Some rows \<and> (\<forall>row \<in> set rows. rowAdmitted a row) \<and>
        distinct (map rowKey rows) \<and>
        set (as_order a) \<subseteq> rowKey ` set rows \<union> {manifestFileName, filesManifestFileName})"
  unfolding verifyChainScan_def
  by (auto simp: bindE_Inr_iff verifyListing_exact checkUnlisted_Inr mismatch_def split: option.splits)

section \<open>What the signed document vouches for\<close>

text \<open>A regular file resolves to its own digest, without following a link.\<close>

lemma resolve_regular: "as_hashes a k = Some d \<Longrightarrow> resolveEntryDigest a k = Inr d"
  by (simp add: resolveEntryDigest_def)

text \<open>The rows vouch for a file under key \<open>k\<close> with content \<open>body\<close>.\<close>

definition vouched :: "chainLib \<Rightarrow> filesEntry list \<Rightarrow> gostring \<Rightarrow> gostring \<Rightarrow> bool" where
  "vouched L rows k body \<longleftrightarrow>
     (\<exists>row \<in> set rows. rowKey row = k \<and> fe_ftype row = ''file'' \<and> fe_chksum_type row = ''sha256'' \<and>
        sha256FromHex (fe_chksum_sha256 row) = Some (cl_sha256 L body))"

lemma chain_covers_entries:
  assumes ok: "verifyChainStream L (Inr (es, end)) doc = Inr ()"
  obtains files rows where
    "parseChainPointer L doc = Inr (cl_sha256 L files)" "parseListing L (cl_tokens L files) = Some rows"
    "distinct (map rowKey rows)" "end = TarEOF" "distinct (List.map_filter entryKey es)"
    "\<And>e k. e \<in> set es \<Longrightarrow> entryKey e = Some k \<Longrightarrow> k \<in> rowKey ` set rows \<union> {manifestFileName, filesManifestFileName}"
    "\<And>e k. e \<in> set es \<Longrightarrow> entryKey e = Some k \<Longrightarrow> te_type e = TypeReg \<Longrightarrow>
       \<exists>body. tarContent e = Some body \<and> (k = manifestFileName \<longrightarrow> cl_sha256 L body = cl_sha256 L doc) \<and>
         (k = filesManifestFileName \<longrightarrow> body = files) \<and>
         (k \<noteq> manifestFileName \<and> k \<noteq> filesManifestFileName \<longrightarrow> vouched L rows k body)"
    "\<exists>e \<in> set es. entryKey e = Some manifestFileName \<and> te_type e = TypeReg"
proof -
  from ok obtain want a where w: "parseChainPointer L doc = Inr want" and a: "scanArchive (cl_sha256 L) es end = Inr a"
    and v: "verifyChainScan L a want doc = Inr ()"
    by (auto simp: verifyChainStream_def bindE_Inr_iff)
  from scanArchive_scanned [OF a] have e: "end = TarEOF" and s: "scanned (cl_sha256 L) es a" by auto
  from v obtain rows where m: "as_hashes a manifestFileName = Some (cl_sha256 L doc)"
    and f: "as_hashes a filesManifestFileName = Some want"
    and rows: "parseListing L (cl_tokens L (as_files a)) = Some rows" "\<And>row. row \<in> set rows \<Longrightarrow> rowAdmitted a row"
      "distinct (map rowKey rows)" "set (as_order a) \<subseteq> rowKey ` set rows \<union> {manifestFileName, filesManifestFileName}"
    unfolding verifyChainScan_exact by blast
  obtain fe where fe: "fe \<in> set es" "entryKey fe = Some filesManifestFileName" "te_type fe = TypeReg" "want = cl_sha256 L (as_files a)"
    using scanned_hash [OF s, of filesManifestFileName want] f scanned_files [OF s] by fastforce
  have listed: "k \<in> rowKey ` set rows \<union> {manifestFileName, filesManifestFileName}" if "x \<in> set es" "entryKey x = Some k" for x k
    using rows(4) scanned_order [OF s] that by blast
  have body: "\<exists>body. tarContent x = Some body \<and> (k = manifestFileName \<longrightarrow> cl_sha256 L body = cl_sha256 L doc) \<and>
         (k = filesManifestFileName \<longrightarrow> body = as_files a) \<and>
         (k \<noteq> manifestFileName \<and> k \<noteq> filesManifestFileName \<longrightarrow> vouched L rows k body)"
    if x: "x \<in> set es" "entryKey x = Some k" "te_type x = TypeReg" for x k
  proof -
    from scanned_content [OF s x] obtain b where b: "tarContent x = Some b" by auto
    with x scanned_hash [OF s, of k "cl_sha256 L b"] have h: "as_hashes a k = Some (cl_sha256 L b)" by blast
    have "vouched L rows k b" if k: "k \<noteq> manifestFileName" "k \<noteq> filesManifestFileName"
    proof -
      from listed [OF x(1,2)] k obtain row where row: "row \<in> set rows" "rowKey row = k" by auto
      from rows(2) [OF row(1)] have "fe_ftype row = ''file''" "fe_chksum_type row = ''sha256''"
        "sha256FromHex (fe_chksum_sha256 row) = Some (cl_sha256 L b)"
        using row(2) h k(2) resolve_regular [OF h] by (auto simp: rowAdmitted_def split: if_splits)
      with row show ?thesis by (auto simp: vouched_def)
    qed
    moreover have "b = as_files a" if "k = filesManifestFileName" using scanned_files [OF s x(1) _ x(3)] x(2) b that by simp
    moreover have "cl_sha256 L b = cl_sha256 L doc" if "k = manifestFileName" using h m that by simp
    ultimately show ?thesis using b by blast
  qed
  have "\<exists>x \<in> set es. entryKey x = Some manifestFileName \<and> te_type x = TypeReg"
    using scanned_hash [OF s, of manifestFileName "cl_sha256 L doc"] m by blast
  moreover have "distinct (List.map_filter entryKey es)" using scanned_distinct [OF s] scanned_seq [OF s] by simp
  ultimately show thesis using that [OF _ rows(1,3) e] w fe(4) listed body by blast
qed

section \<open>Reading the manifest and checking the chain agree\<close>

lemma top_key: "topLevelManifest e \<longleftrightarrow> te_type e = TypeReg \<and> te_name e \<noteq> [] \<and> entryKey e = Some manifestFileName"
proof
  assume t: "topLevelManifest e"
  have "pathClean [] \<noteq> manifestFileName"
    by (simp add: pathClean_def manifestFileName_def pathIsAbs_def hasPrefix_def splitStr_def cleanElems_def cleanStep_def Let_def)
  with t have "te_name e \<noteq> []" by (auto simp: topLevelManifest_def)
  with t show "te_type e = TypeReg \<and> te_name e \<noteq> [] \<and> entryKey e = Some manifestFileName"
    by (simp add: topLevelManifest_def entryKey_def cleanEntryPath_def Let_def manifestFileName_def pathIsAbs_def hasPrefix_def)
next
  assume k: "te_type e = TypeReg \<and> te_name e \<noteq> [] \<and> entryKey e = Some manifestFileName"
  then have "cleanEntryPath (te_name e) = Inr manifestFileName"
    by (auto simp: entryKey_def split: if_splits sum.splits)
  with k cleanEntryPath_Inr [of "te_name e" manifestFileName] show "topLevelManifest e"
    by (simp add: topLevelManifest_def manifestFileName_def)
qed

lemma read_first:
  "readFromTarGzStream fault es end = Inr d \<Longrightarrow> \<exists>e \<in> set es. topLevelManifest e \<and> tarContent e = Some d \<and> d \<noteq> []"
proof (induction es)
  case Nil
  then show ?case by (simp split: if_splits)
next
  case (Cons e es)
  then consider "topLevelManifest e" "readManifestBody fault e = Inr d" | "readFromTarGzStream fault es end = Inr d"
    by (auto simp: bindE_Inr_iff split: if_splits)
  then show ?case
  proof cases
    case 1
    then show ?thesis
      by (auto simp: readManifestBody_def tarContent_def split: if_splits option.splits)
  next
    case 2
    with Cons.IH show ?thesis by auto
  qed
qed

lemma map_filter_unique:
  "distinct (List.map_filter f xs) \<Longrightarrow> x \<in> set xs \<Longrightarrow> y \<in> set xs \<Longrightarrow> f x = Some k \<Longrightarrow> f y = Some k \<Longrightarrow> x = y"
proof (induction xs)
  case Nil
  then show ?case by simp
next
  case (Cons z zs)
  have "distinct (List.map_filter f zs)" "f z = Some k \<Longrightarrow> k \<notin> set (List.map_filter f zs)"
    using Cons.prems(1) by (auto simp: List.map_filter_def split: if_splits)
  with Cons set_map_filter_iff [of k f zs] show ?case by auto
qed

section \<open>Digest text\<close>

text \<open>The lower-case hexadecimal text of a digest.\<close>

definition hexDigit :: "nat \<Rightarrow> char" where
  "hexDigit n = (if n < 10 then char_of (48 + n) else char_of (87 + n))"

definition hexText :: "digest \<Rightarrow> gostring" where
  "hexText d = concat (map (\<lambda>b. [hexDigit (unat b div 16), hexDigit (unat b mod 16)]) d)"

lemma below16: "n < 16 \<Longrightarrow> n \<in> {0, 1, 2, 3, 4, 5, 6, 7, 8, 9, 10, 11, 12, 13, 14, 15}" for n :: nat
  by simp presburger

lemma hexDigit_byte: "n < 16 \<Longrightarrow> hexByte (hexDigit n)"
  by (auto dest!: below16 simp: hexDigit_def hexByte_def digitRune_def byteOf_def)

lemma hexNibble_digit: "n < 16 \<Longrightarrow> hexNibble (hexDigit n) = word_of_nat n"
  by (auto dest!: below16 simp: hexDigit_def hexNibble_def byteOf_def)

lemma hexByte_digit: "hexByte c \<Longrightarrow> \<exists>n < 16. c = hexDigit n"
proof -
  assume "hexByte c"
  then consider "48 \<le> byteOf c" "byteOf c \<le> 57" | "97 \<le> byteOf c" "byteOf c \<le> 102"
    by (auto simp: hexByte_def digitRune_def)
  then show ?thesis
  proof cases
    case 1
    then have "byteOf c - 48 < 10" "48 + (byteOf c - 48) = byteOf c" by auto
    then have "c = hexDigit (byteOf c - 48)" by (simp add: hexDigit_def byteOf_def)
    with 1 show ?thesis by (intro exI [of _ "byteOf c - 48"]) simp
  next
    case 2
    then have "\<not> byteOf c - 87 < 10" "87 + (byteOf c - 87) = byteOf c" by auto
    then have "c = hexDigit (byteOf c - 87)" by (simp add: hexDigit_def byteOf_def)
    with 2 show ?thesis by (intro exI [of _ "byteOf c - 87"]) simp
  qed
qed

lemma nibbles_or:
  "h < 16 \<Longrightarrow> l < 16 \<Longrightarrow> or (push_bit 4 (word_of_nat h)) (word_of_nat l :: 8 word) = word_of_nat (16 * h + l)"
  by (auto dest!: below16)

lemma byte_split: "word_of_nat (16 * (unat b div 16) + unat b mod 16) = (b :: 8 word)"
  by simp

lemma byte_nat: "n < 256 \<Longrightarrow> unat (word_of_nat n :: 8 word) = n"
  by (simp add: unsigned_of_nat take_bit_nat_eq_self)

lemma unat_byte: "h < 16 \<Longrightarrow> l < 16 \<Longrightarrow> unat (word_of_nat (16 * h + l) :: 8 word) = 16 * h + l"
  by (rule byte_nat) simp

lemma hexText_nth:
  "i < length d \<Longrightarrow> hexText d ! (i * 2) = hexDigit (unat (d ! i) div 16) \<and> hexText d ! (i * 2 + 1) = hexDigit (unat (d ! i) mod 16)"
proof (induction d arbitrary: i)
  case Nil
  then show ?case by simp
next
  case (Cons b d)
  then show ?case by (cases i) (simp_all add: hexText_def)
qed

lemma length_hexText: "length (hexText d) = 2 * length d"
  by (induction d) (simp_all add: hexText_def)

lemma sha256FromHex_text:
  assumes "length d = 32"
  shows "sha256FromHex (hexText d) = Some d"
proof -
  have small: "unat b div 16 < 16" for b :: "8 word"
  proof -
    have "unat b < 2 ^ LENGTH(8)" by (rule unsigned_less)
    then show ?thesis by simp
  qed
  have "list_all hexByte (hexText d)"
    by (induction d) (simp_all add: hexText_def hexDigit_byte small)
  then have "isSHA256Hex (hexText d)" using assms by (simp add: isSHA256Hex_def length_hexText)
  moreover have "map (\<lambda>i. or (push_bit 4 (hexNibble (hexText d ! (i * 2)))) (hexNibble (hexText d ! (i * 2 + 1)))) [0..<32] = d"
  proof (rule nth_equalityI)
    show "length (map (\<lambda>i. or (push_bit 4 (hexNibble (hexText d ! (i * 2)))) (hexNibble (hexText d ! (i * 2 + 1)))) [0..<32]) = length d"
      using assms by simp
    fix i assume "i < length (map (\<lambda>i. or (push_bit 4 (hexNibble (hexText d ! (i * 2)))) (hexNibble (hexText d ! (i * 2 + 1)))) [0..<32])"
    then have i: "i < 32" by simp
    with hexText_nth [of i d] assms small [of "d ! i"]
    show "map (\<lambda>i. or (push_bit 4 (hexNibble (hexText d ! (i * 2)))) (hexNibble (hexText d ! (i * 2 + 1)))) [0..<32] ! i = d ! i"
      using nibbles_or [of "unat (d ! i) div 16" "unat (d ! i) mod 16"] by (simp add: hexNibble_digit)
  qed
  ultimately show ?thesis by (simp add: sha256FromHex_def)
qed

lemma sha256FromHex_Some:
  assumes "sha256FromHex s = Some d"
  shows "length d = 32 \<and> s = hexText d"
proof -
  have s: "length s = 64" "\<And>i. i < 64 \<Longrightarrow> hexByte (s ! i)"
    and d: "d = map (\<lambda>i. or (push_bit 4 (hexNibble (s ! (i * 2)))) (hexNibble (s ! (i * 2 + 1)))) [0..<32]"
    using assms by (auto simp: sha256FromHex_def isSHA256Hex_def list_all_length split: if_splits)
  have "s ! j = hexText d ! j" if j: "j < 64" for j
  proof -
    let ?i = "j div 2"
    have i: "?i < 32" "?i * 2 < 64" "?i * 2 + 1 < 64" using j by presburger+
    obtain h l where h: "h < 16" "s ! (?i * 2) = hexDigit h" and l: "l < 16" "s ! (?i * 2 + 1) = hexDigit l"
      using hexByte_digit [OF s(2) [OF i(2)]] hexByte_digit [OF s(2) [OF i(3)]] by blast
    have "d ! ?i = word_of_nat (16 * h + l)" using i(1) h l by (simp add: d hexNibble_digit nibbles_or)
    then have "unat (d ! ?i) = 16 * h + l" using unat_byte [OF h(1) l(1)] by (simp only:)
    with h l have "unat (d ! ?i) div 16 = h" "unat (d ! ?i) mod 16 = l" by simp_all
    with hexText_nth [of ?i d] i(1) h l
    have "hexText d ! (?i * 2) = s ! (?i * 2)" "hexText d ! (?i * 2 + 1) = s ! (?i * 2 + 1)" by (simp_all add: d)
    moreover have "j = ?i * 2 \<or> j = ?i * 2 + 1" by presburger
    ultimately show ?thesis by metis
  qed
  moreover have "length d = 32" by (simp add: d)
  ultimately show ?thesis using s(1) by (simp add: list_eq_iff_nth_eq length_hexText)
qed

end
