(* ===== verification/Placed.thy ===== *)
theory Placed imports Contained ChainSound begin

text \<open>
  What a successful extraction leaves in an empty destination, and its composition with the
  chain check: every regular entry's file holds the entry's content, and every file has the
  content of a regular entry, so after a passed chain check no byte is written that the
  verified document does not vouch for.
\<close>

section \<open>Successful steps\<close>

text \<open>Every file below the destination carries a processed key and a processed entry's content.\<close>

definition placed :: "fpath \<Rightarrow> tarEntry list \<Rightarrow> exState \<Rightarrow> bool" where
  "placed dst es st \<longleftrightarrow>
     (\<forall>q i. fs_node (ex_fs st) (dst @ q) = Some (NFile i) \<longrightarrow>
        (\<exists>e \<in> set es. entryKey e = Some (joinStr q ''/'')) \<and>
        (\<exists>e \<in> set es. te_type e = TypeReg \<and> entryKey e \<noteq> None \<and> tarContent e = Some (snd (fs_data (ex_fs st) i)))) \<and>
     (\<forall>e \<in> set es. \<forall>k. te_type e = TypeReg \<longrightarrow> entryKey e = Some k \<longrightarrow>
        (\<exists>i. fs_node (ex_fs st) (dst @ splitStr k ''/'') = Some (NFile i) \<and> tarContent e = Some (snd (fs_data (ex_fs st) i))))"

lemma placed_file:
  assumes "placed dst es st" "fs_node (ex_fs st) (dst @ q) = Some (NFile i)"
  shows "\<exists>e \<in> set es. entryKey e = Some (joinStr q ''/'')"
    "\<exists>e \<in> set es. te_type e = TypeReg \<and> entryKey e \<noteq> None \<and> tarContent e = Some (snd (fs_data (ex_fs st) i))"
  using assms unfolding placed_def by blast+

lemma placed_entry:
  assumes "placed dst es st" "e \<in> set es" "te_type e = TypeReg" "entryKey e = Some k"
  shows "\<exists>i. fs_node (ex_fs st) (dst @ splitStr k ''/'') = Some (NFile i) \<and> tarContent e = Some (snd (fs_data (ex_fs st) i))"
  using assms unfolding placed_def by blast

lemma placedI:
  assumes "\<And>q i. fs_node (ex_fs st) (dst @ q) = Some (NFile i) \<Longrightarrow>
        (\<exists>e \<in> set es. entryKey e = Some (joinStr q ''/'')) \<and>
        (\<exists>e \<in> set es. te_type e = TypeReg \<and> entryKey e \<noteq> None \<and> tarContent e = Some (snd (fs_data (ex_fs st) i)))"
    "\<And>e k. e \<in> set es \<Longrightarrow> te_type e = TypeReg \<Longrightarrow> entryKey e = Some k \<Longrightarrow>
        \<exists>i. fs_node (ex_fs st) (dst @ splitStr k ''/'') = Some (NFile i) \<and> tarContent e = Some (snd (fs_data (ex_fs st) i))"
  shows "placed dst es st"
  using assms unfolding placed_def by blast

text \<open>A step that changes no file keeps what is placed; so does one more entry without a file.\<close>

lemma placed_same_files:
  assumes p: "placed dst es st" and n: "\<And>q i. fs_node (ex_fs st') q = Some (NFile i) \<longleftrightarrow> fs_node (ex_fs st) q = Some (NFile i)"
    and d: "fs_data (ex_fs st') = fs_data (ex_fs st)" and e: "te_type e \<noteq> TypeReg \<or> entryKey e = None"
  shows "placed dst (es @ [e]) st'"
proof (rule placedI)
  fix q i
  assume "fs_node (ex_fs st') (dst @ q) = Some (NFile i)"
  then have "fs_node (ex_fs st) (dst @ q) = Some (NFile i)" by (simp add: n)
  from placed_file [OF p this] d
  show "(\<exists>e \<in> set (es @ [e]). entryKey e = Some (joinStr q ''/'')) \<and>
    (\<exists>e \<in> set (es @ [e]). te_type e = TypeReg \<and> entryKey e \<noteq> None \<and> tarContent e = Some (snd (fs_data (ex_fs st') i)))"
    by auto
next
  fix x k
  assume "x \<in> set (es @ [e])" "te_type x = TypeReg" "entryKey x = Some k"
  with e have "x \<in> set es" by auto
  from placed_entry [OF p this \<open>te_type x = TypeReg\<close> \<open>entryKey x = Some k\<close>] d
  show "\<exists>i. fs_node (ex_fs st') (dst @ splitStr k ''/'') = Some (NFile i) \<and> tarContent x = Some (snd (fs_data (ex_fs st') i))"
    by (simp add: n)
qed

lemma addsDirs_files: "addsDirs p fs fs' \<Longrightarrow> fs_node fs' q = Some (NFile i) \<longleftrightarrow> fs_node fs q = Some (NFile i)"
  using addsDirs_node [of p fs fs' q] by auto

lemma sanitize_key:
  "te_type e \<in> {TypeReg, TypeSymlink, TypeLink} \<Longrightarrow> sanitizeArchivePath (te_name e) = Inr k \<Longrightarrow> k \<noteq> [] \<Longrightarrow> entryKey e = Some k"
  by (auto simp: sanitizeArchivePath_def entryKey_def cleanEntryPath_def Let_def split: if_splits)

lemma sanitize_root: "sanitizeArchivePath (te_name e) = Inr [] \<Longrightarrow> entryKey e = None"
  by (auto simp: sanitizeArchivePath_def entryKey_def cleanEntryPath_def Let_def pathClean_def split: if_splits)

lemma thenS_Inr: "thenS r f = (Inr y, st') \<longleftrightarrow> (\<exists>x st. r = (Inr x, st) \<and> f x st = (Inr y, st'))"
  by (cases r) (auto simp: thenS_def split: sum.splits)

lemma liftS_Inr: "liftS r st = (Inr x, st') \<longleftrightarrow> r = Inr x \<and> st' = st"
  by (auto simp: liftS_def)

text \<open>Directories.\<close>

lemma ensureDir_placed:
  assumes "ensureDir (dst @ rel) st = (r, st')" "exInv dst st" "plainPath dst" "okPlace dst (ex_fs st) rel"
  shows "exInv dst st' \<and> addsDirs (dst @ rel) (ex_fs st) (ex_fs st')"
  using ensureDir_ok [OF assms] by (simp add: exOk_def)

text \<open>A regular file at a place where none stands gets a new inode with the entry's content.\<close>

lemma extractRegularFile_Inr:
  assumes run: "extractRegularFile root e (dst @ rel @ [l]) st = (Inr (), st')"
    and i: "exInv dst st" and d: "plainPath dst" and p: "okPlace dst (ex_fs st) (rel @ [l])"
    and free: "\<And>j. fs_node (ex_fs st) (dst @ rel @ [l]) \<noteq> Some (NFile j)"
  shows "\<exists>fs1 body. addsDirs (dst @ rel) (ex_fs st) fs1 \<and> tarContent e = Some body \<and>
    fs_node (ex_fs st') = (fs_node fs1)(dst @ rel @ [l] \<mapsto> NFile (fs_next fs1)) \<and>
    fs_data (ex_fs st') = (fs_data fs1)(fs_next fs1 := (False, body))"
proof -
  have b: "butlast (dst @ rel @ [l]) = dst @ rel" by (simp add: butlast_append)
  from run obtain u st1 where e1: "ensureDir (dst @ rel) st = (Inr u, st1)"
    and c: "(case osCreate root (ex_fs st1) (dst @ rel @ [l]) False of
         Inl err \<Rightarrow> (Inl (classifyOpenRegularFileError st1 (dst @ rel @ [l]) (te_name e) err), st1)
       | Inr (j, fs) \<Rightarrow> (if length (te_avail e) < nat (te_size e) then Inl ExTarStream else Inr (),
            st1\<lparr>ex_fs := osWrite fs j (take (nat (te_size e)) (te_avail e))\<rparr>)) = (Inr (), st')"
    unfolding extractRegularFile_def thenS_Inr b by blast
  from ensureDir_placed [OF e1 i d okPlace_butlast [OF p]]
  have i1: "exInv dst st1" and a: "addsDirs (dst @ rel) (ex_fs st) (ex_fs st1)" by auto
  from c obtain j fs where cr: "osCreate root (ex_fs st1) (dst @ rel @ [l]) False = Inr (j, fs)"
    and body: "tarContent e = Some (take (nat (te_size e)) (te_avail e))"
    and st': "st' = st1\<lparr>ex_fs := osWrite fs j (take (nat (te_size e)) (te_avail e))\<rparr>"
    by (auto simp: tarContent_def split: sum.splits if_splits)
  from cr obtain q where q: "namei (ex_fs st1) symlinkMax True [] (dst @ rel @ [l]) = Inr q"
    by (auto simp: osCreate_def bindE_Inr_iff)
  from place_self [OF i1 addsDirs_place [OF a p] d] q have q': "q = dst @ rel @ [l]" by simp
  have "fs_node (ex_fs st1) (dst @ rel @ [l]) = None"
    using cr q q' free addsDirs_files [OF a] by (auto simp: osCreate_def split: option.splits node.splits)
  with cr q q' have "j = fs_next (ex_fs st1)" "fs = (setNode (ex_fs st1) (dst @ rel @ [l]) (NFile j))
      \<lparr>fs_data := (fs_data (ex_fs st1))(j := (False, [])), fs_next := j + 1\<rparr>"
    by (auto simp: osCreate_def)
  with st' have "fs_node (ex_fs st') = (fs_node (ex_fs st1))(dst @ rel @ [l] \<mapsto> NFile (fs_next (ex_fs st1)))"
    "fs_data (ex_fs st') = (fs_data (ex_fs st1))(fs_next (ex_fs st1) := (False, take (nat (te_size e)) (te_avail e)))"
    by (auto simp: osWrite_def setNode_def)
  with a body show ?thesis by blast
qed

lemma extractSymlink_Inr:
  assumes run: "extractSymlink rp (dst @ rel @ [l]) e st = (Inr (), st')"
    and i: "exInv dst st" and d: "plainPath dst" and p: "okPlace dst (ex_fs st) (rel @ [l])"
  shows "\<exists>fs1 t. addsDirs (dst @ rel) (ex_fs st) fs1 \<and> fs_node fs1 (dst @ rel @ [l]) = None \<and>
    fs_node (ex_fs st') = (fs_node fs1)(dst @ rel @ [l] \<mapsto> NSym t) \<and> fs_data (ex_fs st') = fs_data fs1"
proof -
  have b: "butlast (dst @ rel @ [l]) = dst @ rel" by (simp add: butlast_append)
  from run obtain t u st1 where e1: "ensureDir (dst @ rel) st = (Inr u, st1)"
    and c: "(case osSymlink (ex_fs st1) t (dst @ rel @ [l]) of
         Inl err \<Rightarrow> (Inl (ExOs err), st1) | Inr fs \<Rightarrow> (Inr (), st1\<lparr>ex_fs := fs\<rparr>)) = (Inr (), st')"
    unfolding extractSymlink_def thenS_Inr liftS_Inr b by blast
  from ensureDir_placed [OF e1 i d okPlace_butlast [OF p]]
  have i1: "exInv dst st1" and a: "addsDirs (dst @ rel) (ex_fs st) (ex_fs st1)" by auto
  from c obtain fs where ln: "osSymlink (ex_fs st1) t (dst @ rel @ [l]) = Inr fs" and st': "st' = st1\<lparr>ex_fs := fs\<rparr>"
    by (auto split: sum.splits)
  from ln obtain q where q: "namei (ex_fs st1) symlinkMax False [] (dst @ rel @ [l]) = Inr q"
    "fs_node (ex_fs st1) q = None" "fs = setNode (ex_fs st1) q (NSym t)"
    by (auto simp: osSymlink_def bindE_Inr_iff split: if_splits)
  from place_self [OF i1 addsDirs_place [OF a p] d q(1)] q a st' show ?thesis
    by (auto simp: setNode_def)
qed

lemma extractHardlink_Inr:
  assumes run: "extractHardlink dst (dst @ rel @ [l]) e st = (Inr (), st')"
    and i: "exInv dst st" and d: "plainPath dst" and p: "okPlace dst (ex_fs st) (rel @ [l])"
  shows "\<exists>fs1 old nd. addsDirs (dst @ rel) (ex_fs st) fs1 \<and> fs_node fs1 (dst @ rel @ [l]) = None \<and> fs_node fs1 (dst @ old) = Some nd \<and>
    fs_node (ex_fs st') = (fs_node fs1)(dst @ rel @ [l] \<mapsto> nd) \<and> fs_data (ex_fs st') = fs_data fs1"
proof -
  have b: "butlast (dst @ rel @ [l]) = dst @ rel" by (simp add: butlast_append)
  from run obtain lr u0 u st0 st1 where lr: "sanitizeArchivePath (te_link e) = Inr lr" "lr \<noteq> []"
    and e0: "ensureNoSymlinkParents dst lr st = (Inr u0, st0)" and e1: "ensureDir (dst @ rel) st0 = (Inr u, st1)"
    and c: "(case osLink (ex_fs st1) (dst @ splitStr lr ''/'') (dst @ rel @ [l]) of
         Inl err \<Rightarrow> (Inl (ExOs err), st1) | Inr fs \<Rightarrow> (Inr (), st1\<lparr>ex_fs := fs\<rparr>)) = (Inr (), st')"
    unfolding extractHardlink_def thenS_Inr liftS_Inr b by (auto simp: thenS_Inr split: if_splits)
  have nd: "lr \<noteq> ''.''" using lr by (auto simp: sanitizeArchivePath_def Let_def split: if_splits)
  note chk = ensureNoSymlinkParents_ok [OF e0 i d sanitize_plain [OF lr] lr(2) nd]
  then have i0: "exInv dst st0" and fs0: "ex_fs st0 = ex_fs st" by (auto simp: exOk_def)
  have o0: "okPlace dst (ex_fs st0) (splitStr lr ''/'')" using chk [THEN conjunct2, THEN conjunct2] by simp
  have p0: "okPlace dst (ex_fs st0) (rel @ [l])" using p fs0 by simp
  from ensureDir_placed [OF e1 i0 d okPlace_butlast [OF p0]]
  have i1: "exInv dst st1" and a: "addsDirs (dst @ rel) (ex_fs st0) (ex_fs st1)" by auto
  from c obtain fs where ln: "osLink (ex_fs st1) (dst @ splitStr lr ''/'') (dst @ rel @ [l]) = Inr fs" and st': "st' = st1\<lparr>ex_fs := fs\<rparr>"
    by (auto split: sum.splits)
  from osLink_Inr [OF ln] obtain o' x q where o': "namei (ex_fs st1) symlinkMax False [] (dst @ splitStr lr ''/'') = Inr o'"
      "fs_node (ex_fs st1) o' = Some x"
    and q: "namei (ex_fs st1) symlinkMax False [] (dst @ rel @ [l]) = Inr q" "fs_node (ex_fs st1) q = None" "fs = setNode (ex_fs st1) q x"
    by blast
  from place_self [OF i1 addsDirs_place [OF a o0] d o'(1)] place_self [OF i1 addsDirs_place [OF a p0] d q(1)] o' q a st' fs0
  show ?thesis by (auto simp: setNode_def)
qed

section \<open>One entry, then the stream\<close>

lemma placed_regular:
  assumes p: "placed dst es st" and i: "exInv dst st" and e: "te_type e = TypeReg" "entryKey e = Some (joinStr rel ''/'')" "tarContent e = Some body"
    and a: "addsDirs z (ex_fs st) fs1" and rel: "splitStr (joinStr rel ''/'') ''/'' = rel"
    and free: "\<And>j. fs_node (ex_fs st) (dst @ rel) \<noteq> Some (NFile j)"
    and st': "fs_node (ex_fs st') = (fs_node fs1)(dst @ rel \<mapsto> NFile (fs_next fs1))"
      "fs_data (ex_fs st') = (fs_data fs1)(fs_next fs1 := (False, body))"
  shows "placed dst (es @ [e]) st'"
proof (rule placedI)
  have wf: "wfFs fs1" using a by (simp add: addsDirs_def)
  have data: "fs_data fs1 = fs_data (ex_fs st)" using a by (simp add: addsDirs_def)
  have old: "fs_node (ex_fs st) q' = Some (NFile i')" "i' \<noteq> fs_next fs1" if "fs_node fs1 q' = Some (NFile i')" for q' i'
    using that addsDirs_files [OF a, of q' i'] fresh_not_used [OF wf, of q'] by auto
  fix q j
  assume n: "fs_node (ex_fs st') (dst @ q) = Some (NFile j)"
  show "(\<exists>x \<in> set (es @ [e]). entryKey x = Some (joinStr q ''/'')) \<and>
    (\<exists>x \<in> set (es @ [e]). te_type x = TypeReg \<and> entryKey x \<noteq> None \<and> tarContent x = Some (snd (fs_data (ex_fs st') j)))"
  proof (cases "q = rel")
    case True
    with n st' e show ?thesis by auto
  next
    case False
    with n st'(1) have "fs_node fs1 (dst @ q) = Some (NFile j)" by simp
    from old [OF this] placed_file [OF p, of q j] st'(2) data show ?thesis by auto
  qed
next
  have wf: "wfFs fs1" using a by (simp add: addsDirs_def)
  have data: "fs_data fs1 = fs_data (ex_fs st)" using a by (simp add: addsDirs_def)
  fix x k
  assume x: "x \<in> set (es @ [e])" "te_type x = TypeReg" "entryKey x = Some k"
  show "\<exists>j. fs_node (ex_fs st') (dst @ splitStr k ''/'') = Some (NFile j) \<and> tarContent x = Some (snd (fs_data (ex_fs st') j))"
  proof (cases "x \<in> set es")
    case True
    from placed_entry [OF p True x(2,3)] obtain j where j: "fs_node (ex_fs st) (dst @ splitStr k ''/'') = Some (NFile j)"
      "tarContent x = Some (snd (fs_data (ex_fs st) j))" by auto
    with free have "splitStr k ''/'' \<noteq> rel" by auto
    moreover have n1: "fs_node fs1 (dst @ splitStr k ''/'') = Some (NFile j)" using j(1) addsDirs_files [OF a] by simp
    moreover have "j \<noteq> fs_next fs1" using fresh_not_used [OF wf] n1 by auto
    ultimately show ?thesis using st' j(2) data by auto
  next
    case False
    with x have "x = e" by simp
    with x(3) e st' rel show ?thesis by auto
  qed
qed

lemma handleTarEntry_placed:
  assumes run: "handleTarEntry root dst e st = (Inr (), st')" and i: "exInv dst st" and d: "plainPath dst"
    and p: "placed dst es st" and fresh: "\<And>x. x \<in> set es \<Longrightarrow> entryKey e \<noteq> None \<Longrightarrow> entryKey x \<noteq> entryKey e"
  shows "placed dst (es @ [e]) st'"
proof -
  from run obtain rp where rp: "sanitizeArchivePath (te_name e) = Inr rp"
    and c: "(if rp = [] then (Inr (), st)
      else let targetPath = dst @ splitStr rp ''/'' in
        thenS (ensureNoSymlinkParents dst rp st) (\<lambda>_ st.
          case te_type e of
            TypeReg \<Rightarrow> extractRegularFile root e targetPath st
          | TypeDir \<Rightarrow> ensureDir targetPath st
          | TypeSymlink \<Rightarrow> extractSymlink rp targetPath e st
          | TypeLink \<Rightarrow> extractHardlink dst targetPath e st
          | TypeOther \<Rightarrow> (Inr (), st))) = (Inr (), st')"
    unfolding handleTarEntry_def thenS_Inr liftS_Inr by blast
  show ?thesis
  proof (cases "rp = []")
    case True
    with c rp sanitize_root placed_same_files [OF p, of st e] show ?thesis by simp
  next
    case False
    let ?rel = "splitStr rp ''/''"
    obtain rel l where rl: "?rel = rel @ [l]" by (cases ?rel rule: rev_cases) auto
    have rps: "joinStr (rel @ [l]) ''/'' = rp" using join_split_slash [of rp] rl by simp
    have nd: "rp \<noteq> ''.''" using rp by (auto simp: sanitizeArchivePath_def Let_def split: if_splits)
    from c False obtain u st1 where e0: "ensureNoSymlinkParents dst rp st = (Inr u, st1)"
      and k: "(case te_type e of
            TypeReg \<Rightarrow> extractRegularFile root e (dst @ ?rel) st1
          | TypeDir \<Rightarrow> ensureDir (dst @ ?rel) st1
          | TypeSymlink \<Rightarrow> extractSymlink rp (dst @ ?rel) e st1
          | TypeLink \<Rightarrow> extractHardlink dst (dst @ ?rel) e st1
          | TypeOther \<Rightarrow> (Inr (), st1)) = (Inr (), st')"
      unfolding Let_def by (auto simp: thenS_Inr)
    note chk = ensureNoSymlinkParents_ok [OF e0 i d sanitize_plain [OF rp False] False nd]
    then have i1: "exInv dst st1" and fs1: "ex_fs st1 = ex_fs st" by (auto simp: exOk_def)
    have p1: "okPlace dst (ex_fs st1) (rel @ [l])" using chk [THEN conjunct2, THEN conjunct2, unfolded rl] by simp
    have q1: "placed dst es st1" using p fs1 unfolding placed_def by simp
    have key: "te_type e \<in> {TypeReg, TypeSymlink, TypeLink} \<Longrightarrow> entryKey e = Some (joinStr (rel @ [l]) ''/'')"
      unfolding rps by (rule sanitize_key [OF _ rp False])
    show ?thesis
    proof (cases "te_type e")
      case TypeReg
      then have e: "entryKey e = Some (joinStr (rel @ [l]) ''/'')" using key by simp
      have free: "fs_node (ex_fs st1) (dst @ rel @ [l]) \<noteq> Some (NFile j)" for j
        using placed_file(1) [OF q1, of "rel @ [l]" j] fresh e by auto
      from k TypeReg rl have x: "extractRegularFile root e (dst @ rel @ [l]) st1 = (Inr (), st')" by simp
      from extractRegularFile_Inr [OF x i1 d p1 free] obtain fs2 body where
        a: "addsDirs (dst @ rel) (ex_fs st1) fs2" and b: "tarContent e = Some body"
        and s: "fs_node (ex_fs st') = (fs_node fs2)(dst @ rel @ [l] \<mapsto> NFile (fs_next fs2))"
        "fs_data (ex_fs st') = (fs_data fs2)(fs_next fs2 := (False, body))" by blast
      show ?thesis
        by (rule placed_regular [OF q1 i1 TypeReg e b a _ free s]) (simp add: rps rl)
    next
      case TypeDir
      with k rl have "ensureDir (dst @ (rel @ [l])) st1 = (Inr (), st')" by simp
      from ensureDir_placed [OF this i1 d p1] have a: "addsDirs (dst @ rel @ [l]) (ex_fs st1) (ex_fs st')" by simp
      show ?thesis
        by (rule placed_same_files [OF q1]) (use addsDirs_files [OF a] a TypeDir in \<open>simp_all add: addsDirs_def\<close>)
    next
      case TypeSymlink
      with k rl have "extractSymlink rp (dst @ rel @ [l]) e st1 = (Inr (), st')" by simp
      from extractSymlink_Inr [OF this i1 d p1] obtain fs2 t where
        a: "addsDirs (dst @ rel) (ex_fs st1) fs2" and s: "fs_node fs2 (dst @ rel @ [l]) = None"
        "fs_node (ex_fs st') = (fs_node fs2)(dst @ rel @ [l] \<mapsto> NSym t)" "fs_data (ex_fs st') = fs_data fs2" by blast
      have same: "fs_node (ex_fs st') q = Some (NFile j) \<longleftrightarrow> fs_node fs2 q = Some (NFile j)" for q j
        using s(1,2) by (cases "q = dst @ rel @ [l]") auto
      show ?thesis
        by (rule placed_same_files [OF q1])
           (use addsDirs_files [OF a] s(3) a TypeSymlink in \<open>simp_all add: same addsDirs_def\<close>)
    next
      case TypeLink
      then have e: "entryKey e = Some (joinStr (rel @ [l]) ''/'')" using key by simp
      from k rl TypeLink have "extractHardlink dst (dst @ rel @ [l]) e st1 = (Inr (), st')" by simp
      from extractHardlink_Inr [OF this i1 d p1] obtain fs2 old nd where
        a: "addsDirs (dst @ rel) (ex_fs st1) fs2" and s: "fs_node fs2 (dst @ rel @ [l]) = None" "fs_node fs2 (dst @ old) = Some nd"
        "fs_node (ex_fs st') = (fs_node fs2)(dst @ rel @ [l] \<mapsto> nd)" "fs_data (ex_fs st') = fs_data fs2" by blast
      have data: "fs_data (ex_fs st') = fs_data (ex_fs st1)" using s(4) a by (simp add: addsDirs_def)
      show ?thesis
      proof (rule placedI)
        fix q j
        assume n: "fs_node (ex_fs st') (dst @ q) = Some (NFile j)"
        obtain q' where q': "fs_node (ex_fs st1) (dst @ q') = Some (NFile j)" "q \<noteq> rel @ [l] \<longrightarrow> q' = q"
        proof (cases "q = rel @ [l]")
          case True
          then have "nd = NFile j" using n s(3) by simp
          with s(2) addsDirs_files [OF a] that [of old] True show thesis by simp
        next
          case False
          with n s(3) addsDirs_files [OF a] that [of q] show thesis by simp
        qed
        from placed_file [OF q1 q'(1)] q'(2) e data
        show "(\<exists>x \<in> set (es @ [e]). entryKey x = Some (joinStr q ''/'')) \<and>
          (\<exists>x \<in> set (es @ [e]). te_type x = TypeReg \<and> entryKey x \<noteq> None \<and> tarContent x = Some (snd (fs_data (ex_fs st') j)))"
          by (cases "q = rel @ [l]") auto
      next
        fix x k
        assume x: "x \<in> set (es @ [e])" "te_type x = TypeReg" "entryKey x = Some k"
        with TypeLink have "x \<in> set es" by auto
        from placed_entry [OF q1 this x(2,3)] obtain j where
          j: "fs_node (ex_fs st1) (dst @ splitStr k ''/'') = Some (NFile j)" "tarContent x = Some (snd (fs_data (ex_fs st1) j))" by auto
        from j(1) addsDirs_files [OF a] have n2: "fs_node fs2 (dst @ splitStr k ''/'') = Some (NFile j)" by simp
        with s(1) have "splitStr k ''/'' \<noteq> rel @ [l]" by auto
        with n2 s(3) j(2) data
        show "\<exists>j. fs_node (ex_fs st') (dst @ splitStr k ''/'') = Some (NFile j) \<and> tarContent x = Some (snd (fs_data (ex_fs st') j))"
          by simp
      qed
    next
      case TypeOther
      with k have "st' = st1" by simp
      with placed_same_files [OF q1, of st1 e] TypeOther show ?thesis by simp
    qed
  qed
qed

lemma extractTarEntries_placed:
  "extractTarEntries root dst m n c es end st = (Inr (), st') \<Longrightarrow> exInv dst st \<Longrightarrow> plainPath dst \<Longrightarrow> placed dst done st \<Longrightarrow>
     distinct (List.map_filter entryKey (done @ es)) \<Longrightarrow> placed dst (done @ es) st'"
proof (induction es arbitrary: n c st "done")
  case Nil
  then show ?case by (simp split: if_splits)
next
  case (Cons e es)
  from Cons.prems(1) obtain c1 u st1 where h: "handleTarEntry root dst e st = (Inr u, st1)"
    and r: "extractTarEntries root dst m (n + 1) c1 es end st1 = (Inr (), st')"
    by (auto simp: thenS_Inr liftS_Inr split: if_splits)
  have i1: "exInv dst st1" using handleTarEntry_ok [OF Cons.prems(2,3), of root e] h by (simp add: exOk_def)
  have "entryKey x \<noteq> entryKey e" if x: "x \<in> set done" "entryKey e \<noteq> None" for x
  proof
    assume eq: "entryKey x = entryKey e"
    from x(2) obtain k where k: "entryKey e = Some k" by auto
    have "List.map_filter entryKey (done @ e # es) = List.map_filter entryKey done @ k # List.map_filter entryKey es"
      using k by (simp add: List.map_filter_def)
    with Cons.prems(5) have "k \<notin> set (List.map_filter entryKey done)" by simp
    with x(1) eq k show False by (auto simp: set_map_filter_iff)
  qed
  with handleTarEntry_placed [OF _ Cons.prems(2,3,4)] h have "placed dst (done @ [e]) st1" by simp
  from Cons.IH [OF r i1 Cons.prems(3) this] Cons.prems(5) show ?case by simp
qed

text \<open>An empty destination: a real directory, below which nothing stands.\<close>

definition emptyDst :: "fpath \<Rightarrow> fsys \<Rightarrow> bool" where
  "emptyDst dst fs \<longleftrightarrow> wfFs fs \<and> fs_node fs dst = Some NDir \<and> (\<forall>q. q \<noteq> [] \<longrightarrow> fs_node fs (dst @ q) = None)"

lemma emptyDst_inv: "emptyDst dst fs \<Longrightarrow> exInv dst \<lparr>ex_fs = fs, ex_verified = {}\<rparr>"
proof (rule exInvI)
  assume e: "emptyDst dst fs"
  then show "wfFs (ex_fs \<lparr>ex_fs = fs, ex_verified = {}\<rparr>)" "fs_node (ex_fs \<lparr>ex_fs = fs, ex_verified = {}\<rparr>) dst = Some NDir"
    by (simp_all add: emptyDst_def)
  have none: "fs_node fs (dst @ q) = (if q = [] then Some NDir else None)" for q using e by (simp add: emptyDst_def)
  show "containedTarget (length q) t" if "fs_node (ex_fs \<lparr>ex_fs = fs, ex_verified = {}\<rparr>) (dst @ q @ [x]) = Some (NSym t)" for q x t
    using that none [of "q @ [x]"] by simp
  show "fs_node (ex_fs \<lparr>ex_fs = fs, ex_verified = {}\<rparr>) (dst @ q) \<noteq> Some (NFile i)" for q i
    using none [of q] by (cases "q = []") auto
qed simp_all

lemma extraction_places:
  assumes "extractTarGzStream root dst (Inr (es, end)) fs = (Inr (), st)" "emptyDst dst fs" "plainPath dst"
    and "distinct (List.map_filter entryKey es)"
  shows "placed dst es st"
proof -
  have "placed dst [] \<lparr>ex_fs = fs, ex_verified = {}\<rparr>"
  proof (rule placedI)
    fix q i
    assume "fs_node (ex_fs \<lparr>ex_fs = fs, ex_verified = {}\<rparr>) (dst @ q) = Some (NFile i)"
    then have False using assms(2) by (cases "q = []") (auto simp: emptyDst_def)
    then show "(\<exists>e \<in> set []. entryKey e = Some (joinStr q ''/'')) \<and>
      (\<exists>e \<in> set []. te_type e = TypeReg \<and> entryKey e \<noteq> None \<and> tarContent e = Some (snd (fs_data (ex_fs \<lparr>ex_fs = fs, ex_verified = {}\<rparr>) i)))" ..
  qed simp
  then show ?thesis
    using extractTarEntries_placed [OF _ emptyDst_inv [OF assms(2)] assms(3), of root archiveMaxEntryCount 0 0 es "end" st "[]"] assms(1,4)
    by (auto simp: extractTarGzStream_def thenS_Inr liftS_Inr)
qed

section \<open>Verify, then extract\<close>

lemma verified_extraction_files:
  assumes v: "verifyChainStream L (Inr (es, end)) doc = Inr ()"
    and x: "extractTarGzStream root dst (Inr (es, end)) fs = (Inr (), st)" "emptyDst dst fs" "plainPath dst"
  shows "\<exists>files rows. parseChainPointer L doc = Inr (cl_sha256 L files) \<and> parseListing L (cl_tokens L files) = Some rows \<and>
    (\<forall>q i. fs_node (ex_fs st) (dst @ q) = Some (NFile i) \<longrightarrow>
       (let body = snd (fs_data (ex_fs st) i) in
        cl_sha256 L body = cl_sha256 L doc \<or> body = files \<or> (\<exists>k. vouched L rows k body)))"
proof -
  obtain files rows where c: "parseChainPointer L doc = Inr (cl_sha256 L files)" "parseListing L (cl_tokens L files) = Some rows"
    and dk: "distinct (List.map_filter entryKey es)"
    and reg: "\<And>e k. e \<in> set es \<Longrightarrow> entryKey e = Some k \<Longrightarrow> te_type e = TypeReg \<Longrightarrow>
       \<exists>body. tarContent e = Some body \<and> (k = manifestFileName \<longrightarrow> cl_sha256 L body = cl_sha256 L doc) \<and>
         (k = filesManifestFileName \<longrightarrow> body = files) \<and>
         (k \<noteq> manifestFileName \<and> k \<noteq> filesManifestFileName \<longrightarrow> vouched L rows k body)"
    using chain_covers_entries [OF v] by metis
  note pl = extraction_places [OF x dk]
  have "cl_sha256 L b = cl_sha256 L doc \<or> b = files \<or> (\<exists>k. vouched L rows k b)"
    if n: "fs_node (ex_fs st) (dst @ q) = Some (NFile i)" and b: "b = snd (fs_data (ex_fs st) i)" for q i b
  proof -
    from placed_file(2) [OF pl n] obtain e k where e: "e \<in> set es" "te_type e = TypeReg" "entryKey e = Some k"
      "tarContent e = Some b" unfolding b by blast
    from reg [OF e(1,3,2)] e(4) show ?thesis by auto
  qed
  with c show ?thesis by (auto simp: Let_def)
qed

end
