(* ===== verification/ArchiveDemo.thy ===== *)
theory ArchiveDemo imports Placed begin

text \<open>
  A concrete archive with its signed document, the decoder and digest functions it needs,
  and an empty destination: the inputs on which the properties of the archive theories are
  evaluated.
\<close>

definition demoSha :: "gostring \<Rightarrow> digest" where
  "demoSha s = replicate 31 0 @ [word_of_nat (length s)]"

definition demoHex :: "gostring \<Rightarrow> gostring" where
  "demoHex low = concat (replicate 31 ''00'') @ low"

definition demoRow :: filesEntry where
  "demoRow = \<lparr>fe_name = ''./a'', fe_ftype = ''file'', fe_chksum_type = ''sha256'', fe_chksum_sha256 = demoHex ''01''\<rparr>"

definition demoChain :: chainLib where
  "demoChain = \<lparr>cl_sha256 = demoSha,
     cl_pointer = (\<lambda>_. Some \<lparr>cp_name = ''FILES.json'', cp_chksum_type = ''sha256'', cp_chksum_sha256 = demoHex ''03''\<rparr>),
     cl_tokens = (\<lambda>_. [JDelim CHR ''{'', JString ''files'', JDelim CHR ''['', JScalar, JDelim CHR '']'', JDelim CHR ''}'']),
     cl_row = (\<lambda>_. Some (demoRow, 0))\<rparr>"

definition demoTarFile :: "gostring \<Rightarrow> gostring \<Rightarrow> tarEntry" where
  "demoTarFile name body = \<lparr>te_name = name, te_type = TypeReg, te_link = [], te_size = int (length body), te_avail = body\<rparr>"

definition demoEntries :: "tarEntry list" where
  "demoEntries = [demoTarFile ''MANIFEST.json'' ''{}'', demoTarFile ''FILES.json'' ''{ }'', demoTarFile ''a'' ''x'']"

definition demoFs :: fsys where
  "demoFs = \<lparr>fs_node = (\<lambda>p. if p = [] \<or> p = [''d''] then Some NDir else None), fs_data = (\<lambda>_. (False, [])), fs_next = 0\<rparr>"

lemma demo_digest: "sha256FromHex (demoHex ''01'') = Some (demoSha ''x'')" "sha256FromHex (demoHex ''03'') = Some (demoSha ''{ }'')"
proof -
  have "demoHex ''01'' = hexText (demoSha ''x'')" "demoHex ''03'' = hexText (demoSha ''{ }'')"
    by code_simp+
  then show "sha256FromHex (demoHex ''01'') = Some (demoSha ''x'')" "sha256FromHex (demoHex ''03'') = Some (demoSha ''{ }'')"
    by (simp_all add: sha256FromHex_text demoSha_def)
qed

lemma demo_paths:
  "pathClean ''./a'' = ''a''" "pathClean ''a'' = ''a''" "pathClean ''MANIFEST.json'' = ''MANIFEST.json''" "pathClean ''FILES.json'' = ''FILES.json''"
  by code_simp+

definition demoScan :: archiveScan where
  "demoScan = \<lparr>as_hashes = [''MANIFEST.json'' \<mapsto> demoSha ''{}'', ''FILES.json'' \<mapsto> demoSha ''{ }'', ''a'' \<mapsto> demoSha ''x''],
     as_links = (\<lambda>_. None), as_files = ''{ }'', as_order = [''MANIFEST.json'', ''FILES.json'', ''a'']\<rparr>"

lemma demo_scan: "scanArchive demoSha demoEntries TarEOF = Inr demoScan"
  by (simp add: scanArchive_def demoEntries_def demoTarFile_def demoScan_def archiveMaxEntryCount_def checkEntryNameLengths_def
      checkEntryNameLength_def archiveMaxEntryNameLen_def chargeEntrySize_def archiveMaxEntrySize_def archiveMaxTotalSize_def
      scanEntry_def cleanEntryPath_def demo_paths pathIsAbs_def hasPrefix_def claim_def recordRegular_def recordFilesManifest_def
      filesManifestFileName_def filesManifestMaxBytes_def tarContent_def)

lemma demo_hashes:
  "as_hashes demoScan ''MANIFEST.json'' = Some (demoSha ''{}'')" "as_hashes demoScan ''FILES.json'' = Some (demoSha ''{ }'')"
  "as_hashes demoScan ''a'' = Some (demoSha ''x'')" "as_order demoScan = [''MANIFEST.json'', ''FILES.json'', ''a'']"
  by (simp_all add: demoScan_def)

lemma demo_fields: "length (demoHex ''01'') = 64" "length (demoHex ''03'') = 64"
  by code_simp+

lemma demo_row: "checkListedRow demoScan {} demoRow = Inr {''a''}"
  by (simp add: checkListedRow_def checkListedFieldLengths_def checkFieldLength_def demoRow_def demo_fields archiveMaxEntryNameLen_def
      listedName_def demo_paths pathIsAbs_def hasPrefix_def filesManifestFileName_def verifyListedFile_def demo_digest
      resolve_regular [OF demo_hashes(3)])

lemma demo_listing: "verifyListing demoChain demoScan = Inr {''a''}"
proof -
  have "walkRows demoChain demoScan 100000 {} [JScalar, JDelim CHR '']'', JDelim CHR ''}''] = Inr ({''a''}, [JDelim CHR ''}''])"
    by (subst walkRows.simps, subst walkRows.simps)
       (simp add: decMore_def decodeRow_def demoChain_def demo_row expectDelim_def nextTok_def split: nat.split)
  then have "walkMembers demoChain demoScan False {} [JString ''files'', JDelim CHR ''['', JScalar, JDelim CHR '']'', JDelim CHR ''}''] = Inr ({''a''}, [])"
    by (simp add: walkMembers.simps [of _ _ False] walkMembers.simps [of _ _ True] nextTok_def walkListingRows_def expectDelim_def archiveMaxEntryCount_def)
  then show ?thesis
    by (simp add: verifyListing_def walkListingDocument_def demoChain_def expectDelim_def nextTok_def)
qed

lemma demo_chain_parts: "cl_sha256 demoChain = demoSha"
  "cl_pointer demoChain d = Some \<lparr>cp_name = ''FILES.json'', cp_chksum_type = ''sha256'', cp_chksum_sha256 = demoHex ''03''\<rparr>"
  by (simp_all add: demoChain_def)

lemma demo_verified: "verifyChainStream demoChain (Inr (demoEntries, TarEOF)) ''{}'' = Inr ()"
proof -
  have p: "parseChainPointer demoChain ''{}'' = Inr (demoSha ''{ }'')"
    by (simp add: parseChainPointer_def demo_chain_parts checkPointerFieldLengths_def checkFieldLength_def demo_fields
        archiveMaxEntryNameLen_def demo_paths filesManifestFileName_def demo_digest)
  have "verifyChainScan demoChain demoScan (demoSha ''{ }'') ''{}'' = Inr ()"
    by (simp add: verifyChainScan_def demo_listing demo_chain_parts demo_hashes manifestFileName_def filesManifestFileName_def)
  then show ?thesis by (simp add: verifyChainStream_def p demo_chain_parts demo_scan)
qed

lemma demo_read: "readFromTarGzStream TarStreamUnreadable demoEntries TarEOF = Inr ''{}''"
  by code_simp

lemma demo_dst: "emptyDst [''d''] demoFs" "plainPath [''d'']"
  by (auto simp: emptyDst_def wfFs_def demoFs_def plainElem_def)

lemma demo_extracted:
  "fst (extractTarGzStream False [''d''] (Inr (demoEntries, TarEOF)) demoFs) = Inr ()"
  by code_simp

end
