(* ===== verification/Framing.thy ===== *)
theory Framing imports Prelude begin

unbundle bit_operations_syntax

text \<open>
  \<^verbatim>\<open>internal/galaxy/signature/framing.go\<close>: the walk that judges an OpenPGP packet stream
  before the parser reads it. A stream is a list of octets. The parser itself, go-crypto's
  \<^verbatim>\<open>packet.Read\<close>, is a parameter: \<open>unread\<close> gives how many octets of a segment it leaves.

  The lemmas say that an accepted stream is cut into whole packets of admitted tags, and
  that every stream so built from well-formed packets is accepted.
\<close>

section \<open>Tags and profiles\<close>

type_synonym octets = "8 word list"

type_synonym packetTagSet = "64 word"

definition tagSetHas :: "packetTagSet \<Rightarrow> nat \<Rightarrow> bool" where
  "tagSetHas s tag \<longleftrightarrow> s AND push_bit tag 1 \<noteq> 0"

definition packetTagSignature :: nat where "packetTagSignature = 2"
definition signatureBlobPacketTags :: packetTagSet where "signatureBlobPacketTags = push_bit packetTagSignature 1"
definition keyringPacketTags :: packetTagSet where
  "keyringPacketTags =
     push_bit packetTagSignature 1 OR push_bit 6 1 OR push_bit 12 1 OR push_bit 13 1 OR
     push_bit 14 1 OR push_bit 17 1 OR push_bit 21 1"
definition secretKeyPacketTags :: packetTagSet where
  "secretKeyPacketTags = push_bit 5 1 OR push_bit 7 1"

record packetProfile =
  pp_tags :: packetTagSet
  pp_maxPackets :: nat

definition keyringProfile :: packetProfile where
  "keyringProfile = \<lparr>pp_tags = keyringPacketTags, pp_maxPackets = 4096\<rparr>"

definition signatureBlobProfile :: packetProfile where
  "signatureBlobProfile = \<lparr>pp_tags = signatureBlobPacketTags, pp_maxPackets = 64\<rparr>"

section \<open>Packet headers\<close>

datatype framing = NoFraming | FramingIndeterminate | FramingPartial

datatype frameStatus = FrameUnreadable | FrameBounded | FrameUnbounded

record packetFrame =
  pf_framing :: framing
  pf_bodyLen :: nat
  pf_headerLen :: nat
  pf_tag :: nat

definition noFrame :: packetFrame where
  "noFrame = \<lparr>pf_framing = NoFraming, pf_bodyLen = 0, pf_headerLen = 0, pf_tag = 0\<rparr>"

definition boundedFrame :: "nat \<Rightarrow> nat \<Rightarrow> nat \<Rightarrow> packetFrame" where
  "boundedFrame tag header body = \<lparr>pf_framing = NoFraming, pf_bodyLen = body, pf_headerLen = header, pf_tag = tag\<rparr>"

definition be16 :: "octets \<Rightarrow> nat" where
  "be16 b = unat (b ! 0) * 256 + unat (b ! 1)"

definition be32 :: "octets \<Rightarrow> nat" where
  "be32 b = ((unat (b ! 0) * 256 + unat (b ! 1)) * 256 + unat (b ! 2)) * 256 + unat (b ! 3)"

definition oldFormatFrame :: "octets \<Rightarrow> packetFrame \<times> frameStatus" where
  "oldFormatFrame data =
     (let tag = unat (drop_bit 2 (data ! 0 AND 0x3f)); kind = data ! 0 AND 0x03 in
      if kind = 0 then
        (if length data < 2 then (noFrame, FrameUnreadable) else (boundedFrame tag 2 (unat (data ! 1)), FrameBounded))
      else if kind = 1 then
        (if length data < 3 then (noFrame, FrameUnreadable) else (boundedFrame tag 3 (be16 (drop 1 data)), FrameBounded))
      else if kind = 2 then
        (if length data < 5 then (noFrame, FrameUnreadable) else (boundedFrame tag 5 (be32 (drop 1 data)), FrameBounded))
      else (noFrame\<lparr>pf_tag := tag, pf_framing := FramingIndeterminate\<rparr>, FrameUnbounded))"

definition newFormatFrame :: "octets \<Rightarrow> packetFrame \<times> frameStatus" where
  "newFormatFrame data =
     (if length data < 2 then (noFrame, FrameUnreadable)
      else
        let tag = unat (data ! 0 AND 0x3f); lead = data ! 1 in
        if lead < 192 then (boundedFrame tag 2 (unat lead), FrameBounded)
        else if lead < 224 then
          (if length data < 3 then (noFrame, FrameUnreadable)
           else (boundedFrame tag 3 (unat (lead - 192) * 256 + unat (data ! 2) + 192), FrameBounded))
        else if lead < 255 then (noFrame\<lparr>pf_tag := tag, pf_framing := FramingPartial\<rparr>, FrameUnbounded)
        else
          (if length data < 6 then (noFrame, FrameUnreadable)
           else (boundedFrame tag 6 (be32 (drop 2 data)), FrameBounded)))"

definition readPacketFrame :: "octets \<Rightarrow> packetFrame \<times> frameStatus" where
  "readPacketFrame data =
     (if data ! 0 AND 0x80 = 0 then (noFrame, FrameUnreadable)
      else if data ! 0 AND 0x40 = 0 then oldFormatFrame data
      else newFormatFrame data)"

section \<open>Refusals\<close>

datatype framingErr =
    UnboundedPacket nat framing
  | UnreadableHeader nat
  | SecretKeyPacket nat
  | TagNotAdmitted nat
  | TooManyPackets nat
  | BodyMissing nat nat
  | ParserLeftUnread nat nat nat
  | NestedTooDeep
  | SubpacketOverrun string nat nat
  | EmptySubpacketBody

definition judgeHeader :: "packetProfile \<Rightarrow> packetFrame \<Rightarrow> frameStatus \<Rightarrow> nat \<Rightarrow> (framingErr, unit) res" where
  "judgeHeader p frame status remaining =
     (if status = FrameUnbounded then Inl (UnboundedPacket (pf_tag frame) (pf_framing frame))
      else if status = FrameUnreadable then Inl (UnreadableHeader remaining)
      else if tagSetHas secretKeyPacketTags (pf_tag frame) then Inl (SecretKeyPacket (pf_tag frame))
      else if \<not> tagSetHas (pp_tags p) (pf_tag frame) then Inl (TagNotAdmitted (pf_tag frame))
      else Inr ())"

section \<open>Signature bodies\<close>

definition maxEmbeddedSignatureDepth :: nat where "maxEmbeddedSignatureDepth = 4"

definition subpacketLenSize :: "8 word \<Rightarrow> nat option" where
  "subpacketLenSize version = (if version = 6 then Some 4 else if version = 4 \<or> version = 5 then Some 2 else None)"

definition subpacketAreaLen :: "octets \<Rightarrow> nat \<Rightarrow> nat" where
  "subpacketAreaLen b lenSize = (if lenSize = 4 then be32 b else be16 b)"

definition readSubpacketLength :: "octets \<Rightarrow> (nat \<times> octets) option" where
  "readSubpacketLength subs =
     (if subs ! 0 < 192 then Some (unat (subs ! 0), drop 1 subs)
      else if subs ! 0 < 255 then
        (if length subs < 2 then None else Some (unat (subs ! 0 - 192) * 256 + unat (subs ! 1) + 192, drop 2 subs))
      else
        (if length subs < 5 then None else Some (be32 (drop 1 subs), drop 5 subs)))"

lemma readSubpacketLength_shorter: "subs \<noteq> [] \<Longrightarrow> readSubpacketLength subs = Some (n, rest) \<Longrightarrow> length rest < length subs"
  by (auto simp: readSubpacketLength_def split: if_splits)

lemma area_shorter: "body \<noteq> [] \<Longrightarrow> length (take k (drop (4 + n) body)) < length body"
  "body \<noteq> [] \<Longrightarrow> length (take k (drop n (drop h (drop (4 + m) body)))) < length body"
  by (cases body; simp)+

lemma subpacket_shorter:
  assumes "subs \<noteq> []" "readSubpacketLength subs = Some (n, rest)"
  shows "length (drop n rest) < length subs" "length (drop 1 (take n rest)) < length subs"
  using readSubpacketLength_shorter [OF assms] by auto

function checkSignatureBodyFraming :: "octets \<Rightarrow> nat \<Rightarrow> (framingErr, unit) res"
  and walkSignatureSubpackets :: "octets \<Rightarrow> nat \<Rightarrow> (framingErr, unit) res" where
  "checkSignatureBodyFraming body depth =
     (if depth > maxEmbeddedSignatureDepth then Inl NestedTooDeep
      else if body = [] then Inr ()
      else case subpacketLenSize (body ! 0) of
        None \<Rightarrow> Inr ()
      | Some lenSize \<Rightarrow>
          if length body < 4 + lenSize then Inr ()
          else
            let rest = drop (4 + lenSize) body; hashed = subpacketAreaLen (drop 4 body) lenSize in
            if hashed > length rest then Inl (SubpacketOverrun ''hashed'' hashed (length rest))
            else
              (case walkSignatureSubpackets (take hashed rest) depth of
                 Inl err \<Rightarrow> Inl err
               | Inr _ \<Rightarrow>
                   let rest = drop hashed rest in
                   if length rest < lenSize then Inr ()
                   else
                     let unhashed = subpacketAreaLen rest lenSize; rest = drop lenSize rest in
                     if unhashed > length rest then Inl (SubpacketOverrun ''unhashed'' unhashed (length rest))
                     else walkSignatureSubpackets (take unhashed rest) depth))"
| "walkSignatureSubpackets subs depth =
     (if subs = [] then Inr ()
      else case readSubpacketLength subs of
        None \<Rightarrow> Inr ()
      | Some (len, rest) \<Rightarrow>
          if len > length rest then Inr ()
          else
            let contents = take len rest in
            if length contents < 1 then Inr ()
            else if length contents = 1 then Inl EmptySubpacketBody
            else if contents ! 0 AND 0x7f \<noteq> 32 then walkSignatureSubpackets (drop len rest) depth
            else
              (case checkSignatureBodyFraming (drop 1 contents) (depth + 1) of
                 Inl err \<Rightarrow> Inl err
               | Inr _ \<Rightarrow> walkSignatureSubpackets (drop len rest) depth))"
  by pat_completeness auto
termination
  by (relation "measure (\<lambda>x. case x of Inl (body, depth) \<Rightarrow> length body | Inr (subs, depth) \<Rightarrow> length subs)")
     (simp_all only: wf_measure in_measure sum.case prod.case area_shorter subpacket_shorter not_False_eq_True simp_thms)

declare checkSignatureBodyFraming.simps [simp del] walkSignatureSubpackets.simps [simp del]

section \<open>The walk\<close>

definition driveParser :: "(octets \<Rightarrow> nat) \<Rightarrow> octets \<Rightarrow> nat \<Rightarrow> (framingErr, unit) res" where
  "driveParser unread segment tag =
     (if unread segment \<noteq> 0 then Inl (ParserLeftUnread (unread segment) tag (length segment)) else Inr ())"

definition judgePacket :: "(octets \<Rightarrow> nat) \<Rightarrow> octets \<Rightarrow> packetFrame \<Rightarrow> (framingErr, unit) res" where
  "judgePacket unread data frame =
     (let body = drop (pf_headerLen frame) data in
      if pf_bodyLen frame > length body then Inl (BodyMissing (pf_bodyLen frame) (length body))
      else bindE (if pf_tag frame = packetTagSignature then checkSignatureBodyFraming (take (pf_bodyLen frame) body) 0 else Inr ()) (\<lambda>_.
        driveParser unread (take (pf_headerLen frame + pf_bodyLen frame) data) (pf_tag frame)))"

lemma readPacketFrame_header: "readPacketFrame data = (frame, FrameBounded) \<Longrightarrow> 2 \<le> pf_headerLen frame"
  by (auto simp: readPacketFrame_def oldFormatFrame_def newFormatFrame_def boundedFrame_def Let_def split: if_splits)

lemma judgeHeader_bounded: "judgeHeader p frame status n = Inr u \<Longrightarrow> status = FrameBounded"
  by (cases status) (auto simp: judgeHeader_def)

lemma readPacketFrame_drop:
  assumes "data \<noteq> []" "(frame, status) = readPacketFrame data" "judgeHeader p frame status n = Inr u"
  shows "length (drop (pf_headerLen frame + k) data) < length data"
  using assms(1) assms(2) [symmetric] judgeHeader_bounded [OF assms(3)] readPacketFrame_header [of data frame] by (cases data) auto

text \<open>\<open>packets\<close> counts this stream's packets so far; the result carries the count too.\<close>

function walkLoop :: "(octets \<Rightarrow> nat) \<Rightarrow> octets \<Rightarrow> packetProfile \<Rightarrow> nat \<Rightarrow> nat \<Rightarrow> nat \<times> (framingErr, unit) res" where
  "walkLoop unread data profile spent packets =
     (if data = [] then (packets, Inr ())
      else case readPacketFrame data of (frame, status) \<Rightarrow>
        (case judgeHeader profile frame status (length data) of
           Inl err \<Rightarrow> (packets, Inl err)
         | Inr _ \<Rightarrow>
             if spent + (packets + 1) > pp_maxPackets profile then (packets + 1, Inl (TooManyPackets (pp_maxPackets profile)))
             else
               (case judgePacket unread data frame of
                  Inl err \<Rightarrow> (packets + 1, Inl err)
                | Inr _ \<Rightarrow> walkLoop unread (drop (pf_headerLen frame + pf_bodyLen frame) data) profile spent (packets + 1))))"
  by pat_completeness auto
termination
  by (relation "measure (\<lambda>(unread, data, profile, spent, packets). length data)")
     (simp_all only: wf_measure in_measure prod.case readPacketFrame_drop not_False_eq_True simp_thms)

declare walkLoop.simps [simp del]

definition walkPacketFraming :: "(octets \<Rightarrow> nat) \<Rightarrow> octets \<Rightarrow> packetProfile \<Rightarrow> nat \<Rightarrow> nat \<times> (framingErr, unit) res" where
  "walkPacketFraming unread data profile spent = walkLoop unread data profile spent 0"

definition checkPacketFraming :: "(octets \<Rightarrow> nat) \<Rightarrow> octets \<Rightarrow> packetProfile \<Rightarrow> (framingErr, unit) res" where
  "checkPacketFraming unread data profile = snd (walkPacketFraming unread data profile 0)"

section \<open>Headers depend on their own octets\<close>

lemma be16_append: "2 \<le> length a \<Longrightarrow> be16 (a @ b) = be16 a"
  by (cases a) (auto simp: be16_def nth_append)

lemma be32_append: "4 \<le> length a \<Longrightarrow> be32 (a @ b) = be32 a"
  by (cases a) (auto simp: be32_def nth_append)

lemma be16_take: "2 \<le> k \<Longrightarrow> be16 (take k a) = be16 a"
  by (simp add: be16_def)

lemma be32_take: "4 \<le> k \<Longrightarrow> be32 (take k a) = be32 a"
  by (simp add: be32_def)

lemmas frame_defs = readPacketFrame_def oldFormatFrame_def newFormatFrame_def boundedFrame_def Let_def

lemma oldFormatFrame_append:
  assumes "data \<noteq> []" "snd (oldFormatFrame data) = FrameBounded"
  shows "oldFormatFrame (data @ rest) = oldFormatFrame data"
proof -
  have h: "(data @ rest) ! 0 = data ! 0" using assms(1) by (simp add: nth_append)
  consider "data ! 0 AND 0x03 = 0" "2 \<le> length data" | "data ! 0 AND 0x03 \<noteq> 0" "data ! 0 AND 0x03 = 1" "3 \<le> length data"
    | "data ! 0 AND 0x03 \<noteq> 0" "data ! 0 AND 0x03 \<noteq> 1" "data ! 0 AND 0x03 = 2" "5 \<le> length data"
    using assms(2) by (fastforce simp: oldFormatFrame_def Let_def split: if_split_asm)
  then show ?thesis
    using assms(1) by cases (simp_all add: oldFormatFrame_def Let_def h be16_append be32_append nth_append)
qed

lemma newFormatFrame_append:
  assumes "data \<noteq> []" "snd (newFormatFrame data) = FrameBounded"
  shows "newFormatFrame (data @ rest) = newFormatFrame data"
proof -
  have h: "(data @ rest) ! 0 = data ! 0" using assms(1) by (simp add: nth_append)
  have l: "2 \<le> length data" using assms(2) by (simp add: newFormatFrame_def split: if_split_asm)
  then have h1: "(data @ rest) ! Suc 0 = data ! Suc 0" by (simp add: nth_append)
  consider "data ! 1 < 192" | "\<not> data ! 1 < 192" "data ! 1 < 224" "3 \<le> length data"
    | "\<not> data ! 1 < 192" "\<not> data ! 1 < 224" "\<not> data ! 1 < 255" "6 \<le> length data"
    using assms(2) by (fastforce simp: newFormatFrame_def Let_def split: if_split_asm)
  then show ?thesis
    using assms(1) l by cases (simp_all add: newFormatFrame_def Let_def h h1 be32_append nth_append)
qed

lemma readPacketFrame_append:
  assumes "data \<noteq> []" "readPacketFrame data = (frame, FrameBounded)"
  shows "readPacketFrame (data @ rest) = (frame, FrameBounded)"
proof -
  have h: "(data @ rest) ! 0 = data ! 0" using assms(1) by (simp add: nth_append)
  show ?thesis
    using assms oldFormatFrame_append [OF assms(1)] newFormatFrame_append [OF assms(1)]
    by (auto simp: readPacketFrame_def h split: if_split_asm)
qed

lemma readPacketFrame_take:
  assumes "readPacketFrame data = (frame, FrameBounded)" "pf_headerLen frame \<le> k" "k \<le> length data"
  shows "readPacketFrame (take k data) = (frame, FrameBounded)"
  using assms by (auto simp: frame_defs drop_take be16_take be32_take split: if_splits)

section \<open>Accepted streams are whole packets\<close>

text \<open>One packet a profile admits: a bounded header and exactly its body.\<close>

definition okSegment :: "(octets \<Rightarrow> nat) \<Rightarrow> packetProfile \<Rightarrow> octets \<Rightarrow> bool" where
  "okSegment unread p s \<longleftrightarrow>
     s \<noteq> [] \<and>
     (\<exists>frame. readPacketFrame s = (frame, FrameBounded) \<and> length s = pf_headerLen frame + pf_bodyLen frame \<and>
        tagSetHas (pp_tags p) (pf_tag frame) \<and> \<not> tagSetHas secretKeyPacketTags (pf_tag frame) \<and>
        (pf_tag frame = packetTagSignature \<longrightarrow> checkSignatureBodyFraming (drop (pf_headerLen frame) s) 0 = Inr ())) \<and>
     unread s = 0"

lemma judgeHeader_Inr:
  "judgeHeader p frame status n = Inr () \<longleftrightarrow>
     status = FrameBounded \<and> tagSetHas (pp_tags p) (pf_tag frame) \<and> \<not> tagSetHas secretKeyPacketTags (pf_tag frame)"
  by (cases status) (auto simp: judgeHeader_def)

lemma judgePacket_Inr:
  "judgePacket unread data frame = Inr () \<longleftrightarrow>
     pf_bodyLen frame \<le> length data - pf_headerLen frame \<and>
     (pf_tag frame = packetTagSignature \<longrightarrow>
        checkSignatureBodyFraming (take (pf_bodyLen frame) (drop (pf_headerLen frame) data)) 0 = Inr ()) \<and>
     unread (take (pf_headerLen frame + pf_bodyLen frame) data) = 0"
  by (auto simp: judgePacket_def driveParser_def bindE_Inr_iff Let_def)

lemma bounded_header_fits:
  "readPacketFrame data = (frame, FrameBounded) \<Longrightarrow> data \<noteq> [] \<Longrightarrow> pf_headerLen frame \<le> length data"
  by (auto simp: frame_defs split: if_splits)

lemma walkLoop_segments:
  "walkLoop unread data p spent packets = (n, Inr ()) \<Longrightarrow>
     \<exists>segs. data = concat segs \<and> n = packets + length segs \<and> (segs \<noteq> [] \<longrightarrow> spent + n \<le> pp_maxPackets p) \<and>
       (\<forall>s \<in> set segs. okSegment unread p s)"
proof (induction "length data" arbitrary: data packets rule: less_induct)
  case less
  show ?case
  proof (cases "data = []")
    case True
    with less.prems show ?thesis by (intro exI [of _ "[]"]) (simp add: walkLoop.simps)
  next
    case False
    obtain frame status where f: "readPacketFrame data = (frame, status)" by (cases "readPacketFrame data")
    let ?h = "pf_headerLen frame" and ?b = "pf_bodyLen frame"
    from less.prems False f have j: "judgeHeader p frame status (length data) = Inr ()" and jp: "judgePacket unread data frame = Inr ()"
      and cap: "spent + (packets + 1) \<le> pp_maxPackets p"
      and rec: "walkLoop unread (drop (?h + ?b) data) p spent (packets + 1) = (n, Inr ())"
      by (simp_all add: walkLoop.simps [of unread data] split: sum.splits if_splits)
    from j have bd: "status = FrameBounded" by (simp add: judgeHeader_Inr)
    note fits = bounded_header_fits [OF f [unfolded bd] False]
    have len: "?h + ?b \<le> length data" using jp [unfolded judgePacket_Inr] fits by linarith
    have "length (drop (?h + ?b) data) < length data"
      by (rule readPacketFrame_drop [OF False f [symmetric] j])
    from less.hyps [OF this rec] obtain segs where segs: "drop (?h + ?b) data = concat segs" "n = packets + 1 + length segs"
      "segs \<noteq> [] \<longrightarrow> spent + n \<le> pp_maxPackets p" "\<forall>s \<in> set segs. okSegment unread p s" by blast
    let ?s = "take (?h + ?b) data"
    have "okSegment unread p ?s"
      unfolding okSegment_def
    proof (intro conjI exI)
      show "?s \<noteq> []" using readPacketFrame_header [OF f [unfolded bd]] False by simp
      show "readPacketFrame ?s = (frame, FrameBounded)" using readPacketFrame_take [OF f [unfolded bd] _ len] by simp
      show "length ?s = ?h + ?b" using len by simp
      show "tagSetHas (pp_tags p) (pf_tag frame)" "\<not> tagSetHas secretKeyPacketTags (pf_tag frame)"
        using j by (simp_all add: judgeHeader_Inr)
      show "pf_tag frame = packetTagSignature \<longrightarrow> checkSignatureBodyFraming (drop ?h ?s) 0 = Inr ()"
        using jp by (simp add: judgePacket_Inr drop_take)
      show "unread ?s = 0" using jp by (simp add: judgePacket_Inr)
    qed
    with segs cap show ?thesis
      by (intro exI [of _ "?s # segs"]) (auto simp flip: segs(1))
  qed
qed

lemma segments_walkLoop:
  "\<forall>s \<in> set segs. okSegment unread p s \<Longrightarrow> spent + packets + length segs \<le> pp_maxPackets p \<Longrightarrow>
     walkLoop unread (concat segs) p spent packets = (packets + length segs, Inr ())"
proof (induction segs arbitrary: packets)
  case Nil
  then show ?case by (simp add: walkLoop.simps)
next
  case (Cons s segs)
  then obtain frame where s: "s \<noteq> []" "readPacketFrame s = (frame, FrameBounded)" "length s = pf_headerLen frame + pf_bodyLen frame"
      "tagSetHas (pp_tags p) (pf_tag frame)" "\<not> tagSetHas secretKeyPacketTags (pf_tag frame)"
      "pf_tag frame = packetTagSignature \<longrightarrow> checkSignatureBodyFraming (drop (pf_headerLen frame) s) 0 = Inr ()" "unread s = 0"
    by (auto simp: okSegment_def)
  let ?data = "s @ concat segs"
  have f: "readPacketFrame ?data = (frame, FrameBounded)" by (rule readPacketFrame_append [OF s(1,2)])
  have j: "judgeHeader p frame FrameBounded n = Inr ()" for n using s by (simp add: judgeHeader_Inr)
  have jp: "judgePacket unread ?data frame = Inr ()"
    using s(3,6,7) by (auto simp: judgePacket_Inr)
  have d: "drop (pf_headerLen frame + pf_bodyLen frame) ?data = concat segs" using s(3) by simp
  have "walkLoop unread ?data p spent packets = walkLoop unread (concat segs) p spent (packets + 1)"
    using s(1) Cons.prems(2) by (subst walkLoop.simps) (simp add: f j jp s(3))
  with Cons show ?case by simp
qed

lemma checkPacketFraming_exact:
  "checkPacketFraming unread data p = Inr () \<longleftrightarrow>
     (\<exists>segs. data = concat segs \<and> length segs \<le> pp_maxPackets p \<and> (\<forall>s \<in> set segs. okSegment unread p s))"
proof
  assume "checkPacketFraming unread data p = Inr ()"
  then have "walkLoop unread data p 0 0 = (fst (walkLoop unread data p 0 0), Inr ())"
    by (simp add: checkPacketFraming_def walkPacketFraming_def prod_eq_iff)
  from walkLoop_segments [OF this] show "\<exists>segs. data = concat segs \<and> length segs \<le> pp_maxPackets p \<and> (\<forall>s \<in> set segs. okSegment unread p s)"
    by (metis add_0 le0 list.size(3))
next
  assume "\<exists>segs. data = concat segs \<and> length segs \<le> pp_maxPackets p \<and> (\<forall>s \<in> set segs. okSegment unread p s)"
  then show "checkPacketFraming unread data p = Inr ()"
    using segments_walkLoop [of _ unread p 0 0] by (auto simp: checkPacketFraming_def walkPacketFraming_def)
qed

section \<open>The tag sets\<close>

lemma tagSetHas_bit: "tagSetHas s t \<longleftrightarrow> bit s t"
  by (simp add: tagSetHas_def bit_iff_and_push_bit_not_eq_0)

lemma single_tag: "n < 64 \<Longrightarrow> bit (push_bit n 1 :: packetTagSet) t \<longleftrightarrow> t = n"
  by (auto simp: push_bit_of_1 bit_exp_iff)

lemma signatureBlob_tags: "tagSetHas signatureBlobPacketTags t \<longleftrightarrow> t = 2"
  unfolding tagSetHas_bit signatureBlobPacketTags_def packetTagSignature_def by (rule single_tag) simp

lemma keyring_tags: "tagSetHas keyringPacketTags t \<longleftrightarrow> t = 2 \<or> t = 6 \<or> t = 12 \<or> t = 13 \<or> t = 14 \<or> t = 17 \<or> t = 21"
proof -
  have "2 < (64 :: nat)" "6 < (64 :: nat)" "12 < (64 :: nat)" "13 < (64 :: nat)" "14 < (64 :: nat)" "17 < (64 :: nat)" "21 < (64 :: nat)"
    by simp_all
  then show ?thesis
    unfolding tagSetHas_bit keyringPacketTags_def packetTagSignature_def bit_or_iff by (simp only: single_tag) (rule refl | blast)?
qed

lemma secret_tags: "tagSetHas secretKeyPacketTags t \<longleftrightarrow> t = 5 \<or> t = 7"
proof -
  have "5 < (64 :: nat)" "7 < (64 :: nat)" by simp_all
  then show ?thesis
    unfolding tagSetHas_bit secretKeyPacketTags_def bit_or_iff by (simp only: single_tag)
qed

end
