(* ===== verification/SigVerify.thy ===== *)
theory SigVerify imports Armor begin

text \<open>
  \<^verbatim>\<open>internal/galaxy/signature\<close>: the status vocabulary (\<^verbatim>\<open>status.go\<close>), the count specification
  and policy (\<^verbatim>\<open>policy.go\<close>) and the verdict over gathered signatures (\<^verbatim>\<open>verify.go\<close>). The
  caller's pull is a list of blobs and how it ends. The theorems say when a run passes, in
  terms of the blobs alone.
\<close>

section \<open>Statuses\<close>

type_synonym status = gostring

definition statusCodes :: "status list" where
  "statusCodes = [''BADSIG'', ''ERRSIG'', ''NO_PUBKEY'', ''EXPKEYSIG'', ''REVKEYSIG'', ''EXPSIG'', ''NODATA'', ''BADARMOR'',
     ''KEYEXPIRED'', ''KEYREVOKED'', ''MISSING_PASSPHRASE'', ''BAD_PASSPHRASE'', ''NO_SECKEY'', ''UNEXPECTED'', ''ERROR'', ''FAILURE'']"

definition statusSynonyms :: "status \<Rightarrow> status option" where
  "statusSynonyms = [''KEYEXPIRED'' \<mapsto> ''EXPKEYSIG'', ''EXPKEYSIG'' \<mapsto> ''KEYEXPIRED'',
     ''KEYREVOKED'' \<mapsto> ''REVKEYSIG'', ''REVKEYSIG'' \<mapsto> ''KEYREVOKED'']"

definition ignores :: "status set \<Rightarrow> status \<Rightarrow> bool" where
  "ignores s code \<longleftrightarrow> code \<in> s \<or> (case statusSynonyms code of None \<Rightarrow> False | Some synonym \<Rightarrow> synonym \<in> s)"

text \<open>\<open>upper\<close> is \<^verbatim>\<open>strings.ToUpper\<close>.\<close>

fun parseStatusCodes :: "(gostring \<Rightarrow> gostring) \<Rightarrow> status set \<Rightarrow> gostring list \<Rightarrow> (gostring, status set) res" where
  "parseStatusCodes upper set' [] = Inr set'"
| "parseStatusCodes upper set' (value # values) =
     (let code = upper (trimSpace value) in
      if code \<notin> set statusCodes then Inl value else parseStatusCodes upper (insert code set') values)"

section \<open>The policy\<close>

record countSpec =
  cs_count :: nat
  cs_all :: bool
  cs_strict :: bool

record policy =
  po_ignore :: "status set"
  po_keyring :: gostring
  po_required :: countSpec
  po_disabled :: bool

datatype countErr = NegativeAll | InvalidCount gostring | CountTooLarge gostring

definition isDecimalDigits :: "gostring \<Rightarrow> bool" where
  "isDecimalDigits s \<longleftrightarrow> s \<noteq> [] \<and> list_all isDigit s"

definition parseCountSpec :: "gostring \<Rightarrow> (countErr, countSpec) res" where
  "parseCountSpec value =
     (if value = ''-1'' then Inl NegativeAll
      else
        let (strict, rest) = (if hasPrefix value ''+'' then (True, drop 1 value) else (False, value)) in
        if rest = ''all'' then Inr \<lparr>cs_count = 0, cs_all = True, cs_strict = strict\<rparr>
        else if \<not> isDecimalDigits rest then Inl (InvalidCount value)
        else if parseDec rest > 2 ^ 63 - 1 then Inl (CountTooLarge value)
        else Inr \<lparr>cs_count = nat (parseDec rest), cs_all = False, cs_strict = strict\<rparr>)"

datatype policyErr = PolicyCount countErr | PolicyStatus gostring

definition newPolicy :: "(gostring \<Rightarrow> gostring) \<Rightarrow> gostring \<Rightarrow> gostring \<Rightarrow> gostring list \<Rightarrow> bool \<Rightarrow> (policyErr, policy) res" where
  "newPolicy upper keyring required codes disabled =
     (case parseCountSpec required of
        Inl e \<Rightarrow> Inl (PolicyCount e)
      | Inr req \<Rightarrow>
          (case parseStatusCodes upper {} codes of
             Inl v \<Rightarrow> Inl (PolicyStatus v)
           | Inr ign \<Rightarrow> Inr \<lparr>po_ignore = ign, po_keyring = keyring, po_required = req, po_disabled = disabled\<rparr>))"

definition verificationEnabled :: "gostring \<Rightarrow> bool \<Rightarrow> bool" where
  "verificationEnabled keyringPath disabled \<longleftrightarrow> keyringPath \<noteq> [] \<and> \<not> disabled"

definition policyEnabled :: "policy \<Rightarrow> bool" where
  "policyEnabled p = verificationEnabled (po_keyring p) (po_disabled p)"

definition verdict :: "policy \<Rightarrow> nat \<Rightarrow> nat \<Rightarrow> nat \<Rightarrow> bool" where
  "verdict p verified failed gathered =
     (if cs_strict (po_required p) \<and> verified = 0 then False
      else if cs_all (po_required p) then failed = 0
      else gathered = 0 \<or> verified = cs_count (po_required p))"

datatype verdictReason = NoValidSignature | SomeFailed | CountZeroVerified nat | TooFew nat nat

definition verdictReasonOf :: "policy \<Rightarrow> nat \<Rightarrow> verdictReason" where
  "verdictReasonOf p verified =
     (if cs_strict (po_required p) \<and> verified = 0 then NoValidSignature
      else if cs_all (po_required p) then SomeFailed
      else if cs_count (po_required p) = 0 then CountZeroVerified verified
      else TooFew verified (cs_count (po_required p)))"

section \<open>One signature\<close>

record blob =
  bl_origin :: gostring
  bl_data :: gostring

record sigFailure =
  sf_err :: errChain
  sf_origin :: gostring
  sf_status :: status

definition classify :: "errChain \<Rightarrow> status" where
  "classify err =
     (if NoSignatureData \<in> set err then ''NODATA''
      else if UnknownIssuer \<in> set err then ''NO_PUBKEY''
      else if KeyRevoked \<in> set err then ''REVKEYSIG''
      else if KeyExpired \<in> set err then ''EXPKEYSIG''
      else if SignatureExpired \<in> set err then ''EXPSIG''
      else if ArmorCorrupt \<in> set err \<or> CorruptBase64 \<in> set err then ''BADARMOR''
      else if SignatureError \<in> set err then ''BADSIG''
      else ''ERRSIG'')"

text \<open>The signer is the fingerprint of its primary key, or nothing when the library names none.\<close>

definition checkOne :: "'key pgpLib \<Rightarrow> gostring \<Rightarrow> gostring \<Rightarrow> 'key list \<Rightarrow> (errChain, gostring option) res" where
  "checkOne L manifest blob keys =
     (if trimSpace blob = [] then Inl [NoSignatureData]
      else bindE
        (if containsStr blob ''-----BEGIN PGP SIGNATURE-----'' then
           bindE (decodeArmorBlock L blob) (\<lambda>(decoded, blockType).
             if blockType \<noteq> ''PGP SIGNATURE'' then Inl [InvalidArgument] else Inr decoded)
         else Inr blob)
        (\<lambda>packets.
          if packets = [] then Inl [NoSignatureData]
          else bindE (framingChain (checkPacketFraming (pl_unread L) (octetsOf packets) signatureBlobProfile)) (\<lambda>_.
            pl_check L keys manifest packets)))"

definition signerKey :: "gostring option \<Rightarrow> gostring" where
  "signerKey signer = (case signer of None \<Rightarrow> [] | Some fingerprint \<Rightarrow> fingerprint)"

section \<open>The walk and the verdict\<close>

record blobWalk =
  bw_failures :: "sigFailure list"
  bw_signers :: "gostring list"
  bw_gathered :: nat

definition recordSigner :: "gostring list \<Rightarrow> gostring option \<Rightarrow> gostring list" where
  "recordSigner signers signer = (let key = signerKey signer in if key \<in> set signers then signers else signers @ [key])"

definition recordFailure :: "sigFailure list \<Rightarrow> gostring \<Rightarrow> errChain \<Rightarrow> status set \<Rightarrow> sigFailure list" where
  "recordFailure failures origin err ignore =
     (let status = classify err in
      if ignores ignore status then failures
      else failures @ [\<lparr>sf_err = err, sf_origin = origin, sf_status = status\<rparr>])"

datatype 'e pullEnd = PullDone | PullFails 'e

fun walkBlobs :: "'key pgpLib \<Rightarrow> gostring \<Rightarrow> 'key list \<Rightarrow> policy \<Rightarrow> blobWalk \<Rightarrow> blob list \<Rightarrow> 'e pullEnd \<Rightarrow> blobWalk \<times> 'e option" where
  "walkBlobs L manifest keys p walk [] end' = (walk, case end' of PullDone \<Rightarrow> None | PullFails e \<Rightarrow> Some e)"
| "walkBlobs L manifest keys p walk (blob # blobs) end' =
     (let walk = walk\<lparr>bw_gathered := bw_gathered walk + 1\<rparr> in
      case checkOne L manifest (bl_data blob) keys of
        Inl err \<Rightarrow>
          walkBlobs L manifest keys p (walk\<lparr>bw_failures := recordFailure (bw_failures walk) (bl_origin blob) err (po_ignore p)\<rparr>) blobs end'
      | Inr signer \<Rightarrow>
          let walk = walk\<lparr>bw_signers := recordSigner (bw_signers walk) signer\<rparr> in
          if \<not> cs_all (po_required p) \<and> length (bw_signers walk) = cs_count (po_required p) then (walk, None)
          else walkBlobs L manifest keys p walk blobs end')"

record sigResult =
  sr_failures :: "sigFailure list"
  sr_verified :: nat
  sr_vacuous :: bool

datatype 'e verifyErr = KeyringRequired | GatherFailed 'e | VerificationFailed verdictReason "sigFailure list"

definition emptyWalk :: blobWalk where
  "emptyWalk = \<lparr>bw_failures = [], bw_signers = [], bw_gathered = 0\<rparr>"

definition verify :: "'key pgpLib \<Rightarrow> gostring \<Rightarrow> blob list \<Rightarrow> 'e pullEnd \<Rightarrow> 'key list \<Rightarrow> policy \<Rightarrow> sigResult \<times> 'e verifyErr option" where
  "verify L manifest blobs end' keys p =
     (if keys = [] then (\<lparr>sr_failures = [], sr_verified = 0, sr_vacuous = False\<rparr>, Some KeyringRequired)
      else
        let (walk, err) = walkBlobs L manifest keys p emptyWalk blobs end';
            verified = length (bw_signers walk);
            result = \<lparr>sr_failures = bw_failures walk, sr_verified = verified, sr_vacuous = False\<rparr>
        in case err of
             Some e \<Rightarrow> (result, Some (GatherFailed e))
           | None \<Rightarrow>
               let passed = verdict p verified (length (bw_failures walk)) (bw_gathered walk);
                   result = result\<lparr>sr_vacuous := (passed \<and> verified = 0)\<rparr>
               in if passed then (result, None)
                  else (result, Some (VerificationFailed (verdictReasonOf p verified) (bw_failures walk))))"

definition maxRenderedFailures :: nat where "maxRenderedFailures = 8"

definition hiddenStatuses :: "sigFailure list \<Rightarrow> status list" where
  "hiddenStatuses failures =
     (if length failures \<le> maxRenderedFailures then []
      else foldl (\<lambda>hidden f. if sf_status f \<in> set hidden then hidden else hidden @ [sf_status f]) []
             (drop maxRenderedFailures failures))"

section \<open>What decides a verdict\<close>

text \<open>The distinct signers of all the blobs, and the failures that are not ignored.\<close>

definition validSigners :: "'key pgpLib \<Rightarrow> gostring \<Rightarrow> 'key list \<Rightarrow> blob list \<Rightarrow> gostring set" where
  "validSigners L manifest keys blobs = {signerKey s |s b. b \<in> set blobs \<and> checkOne L manifest (bl_data b) keys = Inr s}"

definition tolerated :: "'key pgpLib \<Rightarrow> gostring \<Rightarrow> 'key list \<Rightarrow> policy \<Rightarrow> blob \<Rightarrow> bool" where
  "tolerated L manifest keys p b \<longleftrightarrow>
     (case checkOne L manifest (bl_data b) keys of Inr _ \<Rightarrow> True | Inl err \<Rightarrow> ignores (po_ignore p) (classify err))"

lemma validSigners_Nil [simp]: "validSigners L m k [] = {}"
  by (simp add: validSigners_def)

lemma validSigners_Cons:
  "validSigners L m k (b # bs) =
     (case checkOne L m (bl_data b) k of Inl _ \<Rightarrow> validSigners L m k bs | Inr s \<Rightarrow> insert (signerKey s) (validSigners L m k bs))"
  by (cases "checkOne L m (bl_data b) k") (auto simp: validSigners_def)

lemma finite_validSigners [simp]: "finite (validSigners L m k bs)"
  by (induction bs) (auto simp: validSigners_Cons split: sum.split)

lemma set_recordSigner: "set (recordSigner ss s) = insert (signerKey s) (set ss)"
  by (auto simp: recordSigner_def Let_def)

lemma distinct_recordSigner: "distinct ss \<Longrightarrow> distinct (recordSigner ss s)"
  by (simp add: recordSigner_def Let_def)

lemma length_recordSigner: "length (recordSigner ss s) = length ss \<or> length (recordSigner ss s) = Suc (length ss)"
  by (simp add: recordSigner_def Let_def)

text \<open>A walk that checks every blob.\<close>

lemma walkBlobs_all:
  assumes "cs_all (po_required p) \<or> cs_count (po_required p) = 0"
  shows "walkBlobs L m k p w bs e = (w', err) \<Longrightarrow> distinct (bw_signers w) \<Longrightarrow>
     distinct (bw_signers w') \<and> set (bw_signers w') = set (bw_signers w) \<union> validSigners L m k bs \<and>
     bw_gathered w' = bw_gathered w + length bs \<and>
     (bw_failures w' = [] \<longleftrightarrow> bw_failures w = [] \<and> (\<forall>b \<in> set bs. tolerated L m k p b)) \<and>
     err = (case e of PullDone \<Rightarrow> None | PullFails x \<Rightarrow> Some x)"
proof (induction bs arbitrary: w)
  case Nil
  then show ?case by auto
next
  case (Cons b bs)
  let ?w = "w\<lparr>bw_gathered := bw_gathered w + 1\<rparr>"
  show ?case
  proof (cases "checkOne L m (bl_data b) k")
    case (Inl x)
    let ?w1 = "?w\<lparr>bw_failures := recordFailure (bw_failures ?w) (bl_origin b) x (po_ignore p)\<rparr>"
    from Cons.prems(1) Inl have "walkBlobs L m k p ?w1 bs e = (w', err)" by (simp add: Let_def)
    from Cons.IH [OF this] Cons.prems(2) Inl show ?thesis
      by (auto simp: validSigners_Cons tolerated_def recordFailure_def Let_def)
  next
    case (Inr s)
    let ?w1 = "?w\<lparr>bw_signers := recordSigner (bw_signers ?w) s\<rparr>"
    have ne: "length (bw_signers ?w1) \<noteq> 0" using set_recordSigner [of "bw_signers w" s] by auto
    from ne have "\<not> (\<not> cs_all (po_required p) \<and> length (bw_signers ?w1) = cs_count (po_required p))" using assms by auto
    with Cons.prems(1) Inr have "walkBlobs L m k p ?w1 bs e = (w', err)" by (simp add: Let_def split: if_splits)
    from Cons.IH [OF this] Cons.prems(2) Inr show ?thesis
      by (auto simp: validSigners_Cons tolerated_def set_recordSigner distinct_recordSigner)
  qed
qed

text \<open>A counted walk ends with the distinct signers there are, up to its count.\<close>

lemma walkBlobs_count:
  assumes "\<not> cs_all (po_required p)" "cs_count (po_required p) = Suc n"
  shows "walkBlobs L m k p w bs PullDone = (w', err) \<Longrightarrow> distinct (bw_signers w) \<Longrightarrow> length (bw_signers w) \<le> n \<Longrightarrow>
     err = None \<and> length (bw_signers w') = min (Suc n) (card (set (bw_signers w) \<union> validSigners L m k bs)) \<and>
     (bw_gathered w' = 0 \<longleftrightarrow> bw_gathered w = 0 \<and> bs = [])"
proof (induction bs arbitrary: w)
  case Nil
  then show ?case by (auto simp: distinct_card)
next
  case (Cons b bs)
  let ?w = "w\<lparr>bw_gathered := bw_gathered w + 1\<rparr>"
  show ?case
  proof (cases "checkOne L m (bl_data b) k")
    case (Inl x)
    let ?w1 = "?w\<lparr>bw_failures := recordFailure (bw_failures ?w) (bl_origin b) x (po_ignore p)\<rparr>"
    from Cons.prems(1) Inl have "walkBlobs L m k p ?w1 bs PullDone = (w', err)" by (simp add: Let_def)
    from Cons.IH [OF this] Cons.prems(2,3) Inl show ?thesis
      by (auto simp: validSigners_Cons)
  next
    case (Inr s)
    let ?ss = "recordSigner (bw_signers w) s"
    let ?w1 = "?w\<lparr>bw_signers := ?ss\<rparr>"
    have d: "distinct ?ss" using Cons.prems(2) by (rule distinct_recordSigner)
    have set': "set ?ss \<union> validSigners L m k bs = set (bw_signers w) \<union> validSigners L m k (b # bs)"
      using Inr by (auto simp: validSigners_Cons set_recordSigner)
    show ?thesis
    proof (cases "length ?ss = Suc n")
      case True
      with Cons.prems(1) Inr assms have w': "w' = ?w1" "err = None" by (auto simp: Let_def)
      have "Suc n = card (set ?ss)" using distinct_card [OF d] True by simp
      also have "\<dots> \<le> card (set ?ss \<union> validSigners L m k bs)" by (rule card_mono) auto
      finally show ?thesis using True w' set' by simp
    next
      case False
      with Cons.prems(1) Inr assms have r: "walkBlobs L m k p ?w1 bs PullDone = (w', err)" by (auto simp: Let_def)
      have "length ?ss \<le> n" using False length_recordSigner [of "bw_signers w" s] Cons.prems(3) by auto
      from Cons.IH [OF r] d this set' show ?thesis by simp
    qed
  qed
qed

text \<open>What the walk of a whole run leaves, for every kind of requirement.\<close>

lemma walkBlobs_start_all:
  assumes "cs_all (po_required p) \<or> cs_count (po_required p) = 0" "walkBlobs L m k p emptyWalk bs PullDone = (w, err)"
  shows "err = None" "length (bw_signers w) = card (validSigners L m k bs)" "bw_gathered w = length bs"
    "bw_failures w = [] \<longleftrightarrow> (\<forall>b \<in> set bs. tolerated L m k p b)"
proof -
  from walkBlobs_all [OF assms] have d: "distinct (bw_signers w)" "set (bw_signers w) = validSigners L m k bs"
    and r: "err = None" "bw_gathered w = length bs" "bw_failures w = [] \<longleftrightarrow> (\<forall>b \<in> set bs. tolerated L m k p b)"
    by (auto simp: emptyWalk_def)
  from r show "err = None" "bw_gathered w = length bs" "bw_failures w = [] \<longleftrightarrow> (\<forall>b \<in> set bs. tolerated L m k p b)" by auto
  from d show "length (bw_signers w) = card (validSigners L m k bs)" by (metis distinct_card)
qed

lemma walkBlobs_start_count:
  assumes "\<not> cs_all (po_required p)" "cs_count (po_required p) = Suc n" "walkBlobs L m k p emptyWalk bs PullDone = (w, err)"
  shows "err = None" "length (bw_signers w) = min (Suc n) (card (validSigners L m k bs))" "bw_gathered w = 0 \<longleftrightarrow> bs = []"
  using walkBlobs_count [OF assms] by (auto simp: emptyWalk_def)

definition satisfied :: "'key pgpLib \<Rightarrow> gostring \<Rightarrow> 'key list \<Rightarrow> policy \<Rightarrow> blob list \<Rightarrow> bool" where
  "satisfied L manifest keys p blobs \<longleftrightarrow>
     (let valid = validSigners L manifest keys blobs; required = po_required p in
      (cs_strict required \<longrightarrow> valid \<noteq> {}) \<and>
      (if cs_all required then \<forall>b \<in> set blobs. tolerated L manifest keys p b
       else if cs_count required = 0 then valid = {}
       else blobs = [] \<or> cs_count required \<le> card valid))"

lemma verify_satisfied:
  assumes k: "k \<noteq> []"
  shows "snd (verify L m bs (PullDone :: 'e pullEnd) k p) = None \<longleftrightarrow> satisfied L m k p bs"
proof -
  obtain w and err :: "'e option" where w: "walkBlobs L m k p emptyWalk bs PullDone = (w, err)" by fastforce
  show ?thesis
  proof (cases "cs_all (po_required p) \<or> cs_count (po_required p) = 0")
    case True
    note walkBlobs_start_all [OF True w]
    with k w True show ?thesis by (auto simp: verify_def verdict_def satisfied_def Let_def)
  next
    case False
    then obtain n where n: "\<not> cs_all (po_required p)" "cs_count (po_required p) = Suc n" by (auto simp: gr0_conv_Suc)
    note walkBlobs_start_count [OF n w]
    with k w n show ?thesis by (auto simp: verify_def verdict_def satisfied_def Let_def)
  qed
qed

text \<open>A refusal names the clause that fails, with the numbers it compares.\<close>

fun clauseFails :: "'key pgpLib \<Rightarrow> gostring \<Rightarrow> 'key list \<Rightarrow> policy \<Rightarrow> blob list \<Rightarrow> verdictReason \<Rightarrow> bool" where
  "clauseFails L m k p bs NoValidSignature \<longleftrightarrow> cs_strict (po_required p) \<and> validSigners L m k bs = {}"
| "clauseFails L m k p bs SomeFailed \<longleftrightarrow> cs_all (po_required p) \<and> (\<exists>b \<in> set bs. \<not> tolerated L m k p b)"
| "clauseFails L m k p bs (CountZeroVerified n) \<longleftrightarrow>
     \<not> cs_all (po_required p) \<and> cs_count (po_required p) = 0 \<and> n = card (validSigners L m k bs) \<and> 0 < n"
| "clauseFails L m k p bs (TooFew got need) \<longleftrightarrow>
     \<not> cs_all (po_required p) \<and> need = cs_count (po_required p) \<and> got = card (validSigners L m k bs) \<and> got < need"

lemma verify_refusal:
  assumes k: "k \<noteq> []" and f: "snd (verify L m bs (PullDone :: 'e pullEnd) k p) = Some e"
  shows "\<exists>r fs. e = VerificationFailed r fs \<and> clauseFails L m k p bs r"
proof -
  obtain w and err :: "'e option" where w: "walkBlobs L m k p emptyWalk bs PullDone = (w, err)" by fastforce
  show ?thesis
  proof (cases "cs_all (po_required p) \<or> cs_count (po_required p) = 0")
    case True
    note walkBlobs_start_all [OF True w]
    with k w True f show ?thesis
      by (auto simp: verify_def verdict_def verdictReasonOf_def Let_def split: if_splits)
  next
    case False
    then obtain n where n: "\<not> cs_all (po_required p)" "cs_count (po_required p) = Suc n" by (auto simp: gr0_conv_Suc)
    have "min (Suc n) (card (validSigners L m k bs)) = 0 \<longleftrightarrow> validSigners L m k bs = {}" by (auto simp: min_def)
    note this walkBlobs_start_count [OF n w]
    with k w n f show ?thesis
      by (auto simp: verify_def verdict_def verdictReasonOf_def Let_def split: if_splits)
  qed
qed

end
