(* ===== verification/SigDemo.thy ===== *)
theory SigDemo imports SigVerify begin

text \<open>
  One signature check with concrete library functions: a parser that leaves nothing unread
  and a signature check that reports the last octet of the packet as the signer.
\<close>

definition demoPgp :: "unit pgpLib" where
  "demoPgp = \<lparr>pl_unread = \<lambda>_. 0, pl_armor = \<lambda>_. Inl [NoArmorFound], pl_keys = \<lambda>_. Inr [()],
     pl_check = \<lambda>_ _ packets. Inr (Some [last packets])\<rparr>"

text \<open>A new-format signature packet with a version 4 body and empty subpacket areas.\<close>

definition demoPacket :: "char \<Rightarrow> gostring" where
  "demoPacket signer =
     [CHR 0xC2, CHR 0x0B, CHR 0x04, CHR 0x00, CHR 0x01, CHR 0x08, CHR 0x00, CHR 0x00, CHR 0x00, CHR 0x00, CHR 0x01, CHR 0x02, signer]"

definition demoPolicy :: "nat \<Rightarrow> policy" where
  "demoPolicy n = \<lparr>po_ignore = {}, po_keyring = ''ring'', po_required = \<lparr>cs_count = n, cs_all = False, cs_strict = True\<rparr>, po_disabled = False\<rparr>"

lemma demo_framing: "checkPacketFraming (pl_unread demoPgp) (octetsOf (demoPacket CHR ''a'')) signatureBlobProfile = Inr ()"
  by code_simp

lemma demo_passes:
  "snd (verify demoPgp ''doc'' [\<lparr>bl_origin = ''one'', bl_data = demoPacket CHR ''a''\<rparr>, \<lparr>bl_origin = ''two'', bl_data = demoPacket CHR ''b''\<rparr>]
     (PullDone :: unit pullEnd) [()] (demoPolicy 2)) = None"
  by code_simp

lemma demo_refused:
  "snd (verify demoPgp ''doc'' [\<lparr>bl_origin = ''one'', bl_data = demoPacket CHR ''a''\<rparr>, \<lparr>bl_origin = ''two'', bl_data = demoPacket CHR ''a''\<rparr>]
     (PullDone :: unit pullEnd) [()] (demoPolicy 2)) = Some (VerificationFailed (TooFew 1 2) [])"
  by code_simp

end
