(* ===== verification/S3Lock.thy ===== *)
theory S3Lock imports GoStrings begin

text \<open>
  The distributed lock of \<^verbatim>\<open>internal/cache/s3/lock.go\<close>: acquirers that share one object
  through conditional writes, a heartbeat that refreshes its deadline, and the release. One
  acquisition is a state machine whose states are the S3 call it is in; \<open>react\<close> is the code
  after that call returns. The world interleaves acquirers, loses and delays their requests
  and moves the clock.
\<close>

section \<open>The object and the requests\<close>

text \<open>
  Times are nanoseconds. A record has its token and its deadline and \<^verbatim>\<open>Last-Modified\<close> headers
  as parsed, \<open>None\<close> for a header that is absent or malformed. An entity tag is a function of
  the written token and deadline.
\<close>

record lockObj =
  lo_token :: gostring
  lo_deadline :: "int option"
  lo_modified :: "int option"

type_synonym etags = "gostring \<Rightarrow> int option \<Rightarrow> gostring"

record lockTiming =
  lt_ttl :: int

definition maxImmediateLockRetries :: nat where "maxImmediateLockRetries = 8"

text \<open>A write's condition; a swap has a tag that is not empty.\<close>

datatype putCondition = Overwrite | IfNoneMatch | IfMatch gostring

definition isConditional :: "putCondition \<Rightarrow> bool" where
  "isConditional cond \<longleftrightarrow> cond \<noteq> Overwrite"

datatype request = HeadReq | PutReq putCondition gostring int | DeleteReq

datatype reply =
    HeadOk lockObj gostring
  | WriteOk
  | NotFound
  | PreconditionFailed
  | ConditionalConflict
  | RequestFailed gostring

text \<open>\<^verbatim>\<open>handlePutResponse\<close> of the client: a status is control flow only for a conditional write.\<close>

definition handlePutResponse :: "int \<Rightarrow> putCondition \<Rightarrow> reply" where
  "handlePutResponse status cond =
     (if status = 412 then (if isConditional cond then PreconditionFailed else RequestFailed ''put failed'')
      else if status = 404 then
        (case cond of IfMatch _ \<Rightarrow> NotFound | _ \<Rightarrow> RequestFailed ''bucket not found'')
      else if status = 409 then (if isConditional cond then ConditionalConflict else RequestFailed ''put failed'')
      else if status = 200 \<or> status = 204 then WriteOk
      else RequestFailed ''put failed'')"

lemma handlePutResponse_eval [simp]:
  "handlePutResponse 200 cond = WriteOk"
  "handlePutResponse 412 IfNoneMatch = PreconditionFailed"
  "handlePutResponse 412 (IfMatch etag) = PreconditionFailed"
  "handlePutResponse 404 (IfMatch etag) = NotFound"
  "isConditional cond \<Longrightarrow> handlePutResponse 409 cond = ConditionalConflict"
  by (simp_all add: handlePutResponse_def isConditional_def)

text \<open>
  What the store does with a request: a conditional write answers 412 when its condition
  fails and, for a swap, 404 when the object is gone.
\<close>

fun perform :: "etags \<Rightarrow> int \<Rightarrow> request \<Rightarrow> lockObj option \<Rightarrow> reply \<times> lockObj option" where
  "perform etagOf now HeadReq obj =
     (case obj of None \<Rightarrow> (NotFound, obj) | Some o1 \<Rightarrow> (HeadOk o1 (etagOf (lo_token o1) (lo_deadline o1)), obj))"
| "perform etagOf now (PutReq cond token deadline) obj =
     (let written = Some \<lparr>lo_token = token, lo_deadline = Some deadline, lo_modified = Some now\<rparr> in
      case cond of
        Overwrite \<Rightarrow> (handlePutResponse 200 cond, written)
      | IfNoneMatch \<Rightarrow> if obj = None then (handlePutResponse 200 cond, written) else (handlePutResponse 412 cond, obj)
      | IfMatch etag \<Rightarrow>
          (case obj of
             None \<Rightarrow> (handlePutResponse 404 cond, obj)
           | Some o1 \<Rightarrow>
               if etagOf (lo_token o1) (lo_deadline o1) = etag then (handlePutResponse 200 cond, written)
               else (handlePutResponse 412 cond, obj)))"
| "perform etagOf now DeleteReq obj = (WriteOk, None)"

section \<open>One acquisition\<close>

datatype lockErr =
    ParentErr gostring
  | LockWaitTimeout
  | LockWaitNoHolderObserved "lockErr option"
  | CompareAndSwapUnsupported
  | LockObjectNotFound
  | LockRequestErr gostring
  | LockLostErr

text \<open>The state of the caller's context and of the context bounding the wait.\<close>

record ctxState =
  cx_parent :: "gostring option"
  cx_waitDone :: bool

datatype pc =
    NotStarted
  | PutAbsent int
  | HeadHeld
  | PutSwap gostring int
  | HeadClaim
  | HeadAbandon lockErr
  | DeleteAbandon lockErr
  | Sleeping
  | Holding
  | HeadBeat
  | PutBeat int
  | Lost
  | HeadRelease
  | DeleteRelease
  | Released "lockErr option"
  | Refused lockErr

record client =
  cl_pc :: pc
  cl_attempt :: nat
  cl_retryNow :: nat
  cl_observed :: bool

record lockAttempt =
  la_release :: bool
  la_retryNow :: bool
  la_observed :: bool

definition noAttempt :: lockAttempt where
  "noAttempt = \<lparr>la_release = False, la_retryNow = False, la_observed = False\<rparr>"

definition waitCeilingErr :: "ctxState \<Rightarrow> bool \<Rightarrow> lockErr option \<Rightarrow> lockErr" where
  "waitCeilingErr cx observed inFlight =
     (case cx_parent cx of
        Some err \<Rightarrow> ParentErr err
      | None \<Rightarrow> if observed then LockWaitTimeout else LockWaitNoHolderObserved inFlight)"

definition acquireLockAttemptErr :: "ctxState \<Rightarrow> bool \<Rightarrow> lockErr \<Rightarrow> lockErr" where
  "acquireLockAttemptErr cx observed err = (if cx_waitDone cx then waitCeilingErr cx observed (Some err) else err)"

text \<open>A deadline is written with whole seconds.\<close>

definition deadlineAt :: "lockTiming \<Rightarrow> int \<Rightarrow> int" where
  "deadlineAt T now = (let t = now + lt_ttl T in t - t mod 1000000000)"

definition lockExpired :: "int \<Rightarrow> int \<Rightarrow> lockObj \<Rightarrow> bool" where
  "lockExpired now ttl o1 =
     (case lo_deadline o1 of
        Some t \<Rightarrow> now > t
      | None \<Rightarrow> (case lo_modified o1 of Some t \<Rightarrow> now - t > ttl | None \<Rightarrow> True))"

definition startAttempt :: "lockTiming \<Rightarrow> int \<Rightarrow> client \<Rightarrow> client" where
  "startAttempt T now cl = cl\<lparr>cl_pc := PutAbsent (deadlineAt T now)\<rparr>"

definition nextAttempt :: "lockTiming \<Rightarrow> int \<Rightarrow> client \<Rightarrow> client" where
  "nextAttempt T now cl = startAttempt T now (cl\<lparr>cl_attempt := cl_attempt cl + 1\<rparr>)"

text \<open>The body of the acquisition loop after an attempt.\<close>

definition afterAttempt :: "lockTiming \<Rightarrow> ctxState \<Rightarrow> int \<Rightarrow> client \<Rightarrow> lockAttempt \<Rightarrow> client" where
  "afterAttempt T cx now cl res =
     (let cl = cl\<lparr>cl_observed := (cl_observed cl \<or> la_observed res)\<rparr> in
      if la_release res then cl\<lparr>cl_pc := Holding\<rparr>
      else if la_retryNow res then
        (let cl = cl\<lparr>cl_retryNow := cl_retryNow cl + 1\<rparr> in
         if cl_retryNow cl \<le> maxImmediateLockRetries then nextAttempt T now cl else cl\<lparr>cl_pc := Sleeping\<rparr>)
      else cl\<lparr>cl_retryNow := 0, cl_pc := Sleeping\<rparr>)"

definition failAttempt :: "ctxState \<Rightarrow> client \<Rightarrow> lockErr \<Rightarrow> client" where
  "failAttempt cx cl err = cl\<lparr>cl_pc := Refused (acquireLockAttemptErr cx (cl_observed cl) err)\<rparr>"

fun replyErr :: "reply \<Rightarrow> lockErr" where
  "replyErr NotFound = LockObjectNotFound"
| "replyErr (RequestFailed err) = LockRequestErr err"
| "replyErr _ = LockRequestErr []"

text \<open>After the conditional create.\<close>

definition afterPutAbsent :: "lockTiming \<Rightarrow> ctxState \<Rightarrow> int \<Rightarrow> client \<Rightarrow> reply \<Rightarrow> client" where
  "afterPutAbsent T cx now cl reply =
     (case reply of
        WriteOk \<Rightarrow> cl\<lparr>cl_pc := HeadClaim\<rparr>
      | ConditionalConflict \<Rightarrow> afterAttempt T cx now cl noAttempt
      | PreconditionFailed \<Rightarrow> cl\<lparr>cl_pc := HeadHeld\<rparr>
      | err \<Rightarrow> cl\<lparr>cl_pc := HeadAbandon (replyErr err)\<rparr>)"

text \<open>After the \<^verbatim>\<open>HEAD\<close> of an object that is in the way.\<close>

definition reclaimIfExpired :: "lockTiming \<Rightarrow> ctxState \<Rightarrow> int \<Rightarrow> client \<Rightarrow> reply \<Rightarrow> client" where
  "reclaimIfExpired T cx now cl reply =
     (case reply of
        NotFound \<Rightarrow> afterAttempt T cx now cl (noAttempt\<lparr>la_retryNow := True\<rparr>)
      | HeadOk o1 etag \<Rightarrow>
          if \<not> lockExpired now (lt_ttl T) o1 then afterAttempt T cx now cl (noAttempt\<lparr>la_observed := True\<rparr>)
          else if trimSpace etag = [] then failAttempt cx cl CompareAndSwapUnsupported
          else cl\<lparr>cl_pc := PutSwap (trimSpace etag) (deadlineAt T now)\<rparr>
      | err \<Rightarrow> failAttempt cx cl (replyErr err))"

definition afterPutSwap :: "lockTiming \<Rightarrow> ctxState \<Rightarrow> int \<Rightarrow> client \<Rightarrow> reply \<Rightarrow> client" where
  "afterPutSwap T cx now cl reply =
     (case reply of
        WriteOk \<Rightarrow> cl\<lparr>cl_pc := HeadClaim\<rparr>
      | ConditionalConflict \<Rightarrow> afterAttempt T cx now cl noAttempt
      | NotFound \<Rightarrow> afterAttempt T cx now cl (noAttempt\<lparr>la_retryNow := True\<rparr>)
      | PreconditionFailed \<Rightarrow> afterAttempt T cx now cl (noAttempt\<lparr>la_observed := True\<rparr>)
      | err \<Rightarrow> cl\<lparr>cl_pc := HeadAbandon (replyErr err)\<rparr>)"

definition verifyOwner :: "gostring \<Rightarrow> reply \<Rightarrow> (lockErr, bool) res" where
  "verifyOwner token reply = (case reply of HeadOk o1 etag \<Rightarrow> Inr (lo_token o1 = token) | err \<Rightarrow> Inl (replyErr err))"

definition claimLock :: "lockTiming \<Rightarrow> ctxState \<Rightarrow> int \<Rightarrow> gostring \<Rightarrow> client \<Rightarrow> reply \<Rightarrow> client" where
  "claimLock T cx now token cl reply =
     (case verifyOwner token reply of
        Inl err \<Rightarrow> cl\<lparr>cl_pc := HeadAbandon err\<rparr>
      | Inr ours \<Rightarrow>
          if \<not> ours then afterAttempt T cx now cl (noAttempt\<lparr>la_observed := True\<rparr>)
          else afterAttempt T cx now cl (noAttempt\<lparr>la_release := True\<rparr>))"

definition heartbeatTick :: "lockTiming \<Rightarrow> int \<Rightarrow> gostring \<Rightarrow> client \<Rightarrow> reply \<Rightarrow> client" where
  "heartbeatTick T now token cl reply =
     (case verifyOwner token reply of
        Inl _ \<Rightarrow> cl\<lparr>cl_pc := Holding\<rparr>
      | Inr ours \<Rightarrow> if \<not> ours then cl\<lparr>cl_pc := Lost\<rparr> else cl\<lparr>cl_pc := PutBeat (deadlineAt T now)\<rparr>)"

text \<open>The release's \<^verbatim>\<open>HEAD\<close>: \<open>None\<close> goes on to the delete.\<close>

definition releaseLock :: "gostring \<Rightarrow> reply \<Rightarrow> (lockErr, bool) res" where
  "releaseLock token reply =
     (case reply of
        NotFound \<Rightarrow> Inr False
      | HeadOk o1 etag \<Rightarrow> Inr (lo_token o1 = token)
      | err \<Rightarrow> Inl (replyErr err))"

definition afterHeadRelease :: "gostring \<Rightarrow> client \<Rightarrow> reply \<Rightarrow> client" where
  "afterHeadRelease token cl reply =
     (case releaseLock token reply of
        Inl err \<Rightarrow> cl\<lparr>cl_pc := Released (Some err)\<rparr>
      | Inr deletes \<Rightarrow> cl\<lparr>cl_pc := (if deletes then DeleteRelease else Released None)\<rparr>)"

definition abandonLockObject :: "ctxState \<Rightarrow> gostring \<Rightarrow> client \<Rightarrow> lockErr \<Rightarrow> reply \<Rightarrow> client" where
  "abandonLockObject cx token cl err reply =
     (if releaseLock token reply = Inr True then cl\<lparr>cl_pc := DeleteAbandon err\<rparr> else failAttempt cx cl err)"

definition react :: "lockTiming \<Rightarrow> ctxState \<Rightarrow> int \<Rightarrow> gostring \<Rightarrow> client \<Rightarrow> reply \<Rightarrow> client" where
  "react T cx now token cl reply =
     (case cl_pc cl of
        PutAbsent _ \<Rightarrow> afterPutAbsent T cx now cl reply
      | HeadHeld \<Rightarrow> reclaimIfExpired T cx now cl reply
      | PutSwap _ _ \<Rightarrow> afterPutSwap T cx now cl reply
      | HeadClaim \<Rightarrow> claimLock T cx now token cl reply
      | HeadAbandon err \<Rightarrow> abandonLockObject cx token cl err reply
      | DeleteAbandon err \<Rightarrow> failAttempt cx cl err
      | HeadBeat \<Rightarrow> heartbeatTick T now token cl reply
      | PutBeat _ \<Rightarrow> cl\<lparr>cl_pc := Holding\<rparr>
      | HeadRelease \<Rightarrow> afterHeadRelease token cl reply
      | DeleteRelease \<Rightarrow> cl\<lparr>cl_pc := Released (if reply = WriteOk then None else Some (replyErr reply))\<rparr>
      | _ \<Rightarrow> cl)"

fun pendingRequest :: "gostring \<Rightarrow> pc \<Rightarrow> request option" where
  "pendingRequest token (PutAbsent d) = Some (PutReq IfNoneMatch token d)"
| "pendingRequest token HeadHeld = Some HeadReq"
| "pendingRequest token (PutSwap etag d) = Some (PutReq (IfMatch etag) token d)"
| "pendingRequest token HeadClaim = Some HeadReq"
| "pendingRequest token (HeadAbandon _) = Some HeadReq"
| "pendingRequest token (DeleteAbandon _) = Some DeleteReq"
| "pendingRequest token HeadBeat = Some HeadReq"
| "pendingRequest token (PutBeat d) = Some (PutReq Overwrite token d)"
| "pendingRequest token HeadRelease = Some HeadReq"
| "pendingRequest token DeleteRelease = Some DeleteReq"
| "pendingRequest token _ = None"

end
