(* ===== verification/S3World.thy ===== *)
theory S3World imports S3Lock begin

text \<open>
  Acquirers sharing the lock object. A request lands when the store performs it; a request
  whose sender gave up may still land later. Two ghosts follow the proof: the deadline each
  acquirer last wrote, its lease, and whether an unconditional write ever landed on another
  acquirer's object.
\<close>

section \<open>The world\<close>

record 'c lockWorld =
  lw_obj :: "lockObj option"
  lw_now :: int
  lw_client :: "'c \<Rightarrow> client"
  lw_flight :: "('c \<times> request) set"
  lw_lease :: "'c \<Rightarrow> int option"
  lw_overtaken :: bool

definition newClient :: client where
  "newClient = \<lparr>cl_pc = NotStarted, cl_attempt = 0, cl_retryNow = 0, cl_observed = False\<rparr>"

fun unconditional :: "request \<Rightarrow> bool" where
  "unconditional (PutReq cond _ _) \<longleftrightarrow> \<not> isConditional cond"
| "unconditional DeleteReq \<longleftrightarrow> True"
| "unconditional HeadReq \<longleftrightarrow> False"

fun leaseAfter :: "request \<Rightarrow> reply \<Rightarrow> int option \<Rightarrow> int option" where
  "leaseAfter (PutReq _ _ d) WriteOk lease = Some d"
| "leaseAfter DeleteReq _ lease = None"
| "leaseAfter _ _ lease = lease"

definition overtakes :: "gostring \<Rightarrow> request \<Rightarrow> lockObj option \<Rightarrow> bool" where
  "overtakes token q obj \<longleftrightarrow> unconditional q \<and> (case obj of None \<Rightarrow> False | Some o1 \<Rightarrow> lo_token o1 \<noteq> token)"

definition land :: "etags \<Rightarrow> ('c \<Rightarrow> gostring) \<Rightarrow> 'c \<Rightarrow> request \<Rightarrow> 'c lockWorld \<Rightarrow> reply \<times> 'c lockWorld" where
  "land etagOf tok c q w =
     (let (reply, obj) = perform etagOf (lw_now w) q (lw_obj w) in
      (reply, w\<lparr>lw_obj := obj,
                lw_lease := (lw_lease w)(c := leaseAfter q reply (lw_lease w c)),
                lw_overtaken := (lw_overtaken w \<or> overtakes (tok c) q (lw_obj w))\<rparr>))"

definition updClient :: "'c \<Rightarrow> client \<Rightarrow> 'c lockWorld \<Rightarrow> 'c lockWorld" where
  "updClient c cl w = w\<lparr>lw_client := (lw_client w)(c := cl)\<rparr>"

definition send :: "'c \<Rightarrow> request \<Rightarrow> 'c lockWorld \<Rightarrow> 'c lockWorld" where
  "send c q w = w\<lparr>lw_flight := insert (c, q) (lw_flight w)\<rparr>"

text \<open>
  \<open>served\<close>: the request is performed and answered. \<open>refused\<close>: a conditional write meets a
  concurrent request. \<open>given_up\<close>: the sender sees an error while its request is on the way.
  \<open>retried\<close>: the client sends an unconditional request again after losing the reply.
\<close>

inductive lockStep :: "lockTiming \<Rightarrow> etags \<Rightarrow> ('c \<Rightarrow> gostring) \<Rightarrow> 'c lockWorld \<Rightarrow> 'c lockWorld \<Rightarrow> bool"
  for T :: lockTiming and etagOf :: etags and tok :: "'c \<Rightarrow> gostring" where
  served: "pendingRequest (tok c) (cl_pc (lw_client w c)) = Some q \<Longrightarrow> land etagOf tok c q w = (reply, w1) \<Longrightarrow>
     lockStep T etagOf tok w (updClient c (react T cx (lw_now w) (tok c) (lw_client w c) reply) w1)"
| refused: "pendingRequest (tok c) (cl_pc (lw_client w c)) = Some (PutReq cond token d) \<Longrightarrow> isConditional cond \<Longrightarrow>
     lockStep T etagOf tok w (updClient c (react T cx (lw_now w) (tok c) (lw_client w c) (handlePutResponse 409 cond)) w)"
| given_up: "pendingRequest (tok c) (cl_pc (lw_client w c)) = Some q \<Longrightarrow>
     lockStep T etagOf tok w (updClient c (react T cx (lw_now w) (tok c) (lw_client w c) (RequestFailed err)) (send c q w))"
| retried: "pendingRequest (tok c) (cl_pc (lw_client w c)) = Some q \<Longrightarrow> unconditional q \<Longrightarrow>
     lockStep T etagOf tok w (send c q w)"
| lands: "(c, q) \<in> lw_flight w \<Longrightarrow> land etagOf tok c q w = (reply, w1) \<Longrightarrow>
     lockStep T etagOf tok w (w1\<lparr>lw_flight := lw_flight w - {(c, q)}\<rparr>)"
| acquire: "cl_pc (lw_client w c) = NotStarted \<Longrightarrow>
     lockStep T etagOf tok w (updClient c (startAttempt T (lw_now w) (lw_client w c)) w)"
| wake: "cl_pc (lw_client w c) = Sleeping \<Longrightarrow>
     lockStep T etagOf tok w (updClient c (nextAttempt T (lw_now w) (lw_client w c)) w)"
| ceiling: "cl_pc (lw_client w c) = Sleeping \<Longrightarrow> cx_waitDone cx \<Longrightarrow>
     lockStep T etagOf tok w
       (updClient c ((lw_client w c)\<lparr>cl_pc := Refused (waitCeilingErr cx (cl_observed (lw_client w c)) None)\<rparr>) w)"
| ticks: "cl_pc (lw_client w c) = Holding \<Longrightarrow>
     lockStep T etagOf tok w (updClient c ((lw_client w c)\<lparr>cl_pc := HeadBeat\<rparr>) w)"
| releases: "cl_pc (lw_client w c) = Holding \<Longrightarrow>
     lockStep T etagOf tok w (updClient c ((lw_client w c)\<lparr>cl_pc := HeadRelease\<rparr>) w)"
| lost: "cl_pc (lw_client w c) = Lost \<Longrightarrow>
     lockStep T etagOf tok w (updClient c ((lw_client w c)\<lparr>cl_pc := Released (Some LockLostErr)\<rparr>) w)"
| passes: "lw_now w \<le> t \<Longrightarrow> lockStep T etagOf tok w (w\<lparr>lw_now := t\<rparr>)"

text \<open>Every acquirer starts fresh, over any object none of them wrote.\<close>

definition startWorld :: "lockObj option \<Rightarrow> int \<Rightarrow> 'c lockWorld" where
  "startWorld obj now =
     \<lparr>lw_obj = obj, lw_now = now, lw_client = (\<lambda>_. newClient), lw_flight = {}, lw_lease = (\<lambda>_. None), lw_overtaken = False\<rparr>"

definition lockReach :: "lockTiming \<Rightarrow> etags \<Rightarrow> ('c \<Rightarrow> gostring) \<Rightarrow> 'c lockWorld \<Rightarrow> 'c lockWorld \<Rightarrow> bool" where
  "lockReach T etagOf tok = (lockStep T etagOf tok)\<^sup>*\<^sup>*"

section \<open>The invariant\<close>

definition liveLease :: "'c lockWorld \<Rightarrow> 'c \<Rightarrow> bool" where
  "liveLease w c \<longleftrightarrow> (case lw_lease w c of None \<Rightarrow> False | Some d \<Rightarrow> lw_now w \<le> d)"

definition ownsObject :: "('c \<Rightarrow> gostring) \<Rightarrow> 'c lockWorld \<Rightarrow> 'c \<Rightarrow> bool" where
  "ownsObject tok w c \<longleftrightarrow> (\<exists>o1. lw_obj w = Some o1 \<and> lo_token o1 = tok c \<and> lo_deadline o1 = lw_lease w c)"

text \<open>An entity tag whose object's deadline has passed.\<close>

definition staleTag :: "etags \<Rightarrow> int \<Rightarrow> gostring \<Rightarrow> bool" where
  "staleTag etagOf now e \<longleftrightarrow> (\<exists>token deadline. etagOf token deadline = e \<and> (\<forall>t. deadline = Some t \<longrightarrow> t < now))"

fun requestOk :: "etags \<Rightarrow> int \<Rightarrow> gostring \<Rightarrow> request \<Rightarrow> bool" where
  "requestOk etagOf now token (PutReq (IfMatch e) token' d) \<longleftrightarrow> token' = token \<and> staleTag etagOf now e"
| "requestOk etagOf now token (PutReq _ token' d) \<longleftrightarrow> token' = token"
| "requestOk etagOf now token _ \<longleftrightarrow> True"

definition leasesOk :: "('c \<Rightarrow> gostring) \<Rightarrow> 'c lockWorld \<Rightarrow> bool" where
  "leasesOk tok w \<longleftrightarrow> lw_overtaken w \<or> (\<forall>c. liveLease w c \<longrightarrow> ownsObject tok w c)"

definition requestsOk :: "etags \<Rightarrow> ('c \<Rightarrow> gostring) \<Rightarrow> 'c lockWorld \<Rightarrow> bool" where
  "requestsOk etagOf tok w \<longleftrightarrow>
     (\<forall>c q. (c, q) \<in> lw_flight w \<longrightarrow> requestOk etagOf (lw_now w) (tok c) q) \<and>
     (\<forall>c q. pendingRequest (tok c) (cl_pc (lw_client w c)) = Some q \<longrightarrow> requestOk etagOf (lw_now w) (tok c) q)"

text \<open>
  Entity tags identify what was written and carry no surrounding white space, as a header
  value does.
\<close>

definition tagsIdentify :: "etags \<Rightarrow> bool" where
  "tagsIdentify etagOf \<longleftrightarrow>
     (\<forall>t d. trimSpace (etagOf t d) = etagOf t d) \<and> (\<forall>t d t' d'. etagOf t d = etagOf t' d' \<longrightarrow> t = t' \<and> d = d')"

lemma staleTag_mono: "staleTag etagOf now e \<Longrightarrow> now \<le> t \<Longrightarrow> staleTag etagOf t e"
  unfolding staleTag_def by (metis order_less_le_trans)

lemma requestOk_mono: "requestOk etagOf now token q \<Longrightarrow> now \<le> t \<Longrightarrow> requestOk etagOf t token q"
  by (cases "(etagOf, now, token, q)" rule: requestOk.cases) (auto intro: staleTag_mono)

lemma staleTag_object:
  assumes "tagsIdentify etagOf" "staleTag etagOf now (etagOf (lo_token o1) (lo_deadline o1))" "lo_deadline o1 = Some t"
  shows "t < now"
  using assms unfolding staleTag_def tagsIdentify_def by metis

lemma liveLease_iff: "liveLease w c \<longleftrightarrow> (\<exists>d. lw_lease w c = Some d \<and> lw_now w \<le> d)"
  by (auto simp: liveLease_def split: option.splits)

text \<open>With no live lease but the writer's, a write keeps the leases in order.\<close>

lemma leasesOk_written:
  assumes "\<And>c'. c' \<noteq> c \<Longrightarrow> \<not> liveLease w c'" "lo_token o1 = tok c" "lo_deadline o1 = Some d"
  shows "leasesOk tok (w\<lparr>lw_obj := Some o1, lw_lease := (lw_lease w)(c := Some d), lw_overtaken := b\<rparr>)"
proof -
  have "liveLease w c' \<Longrightarrow> c' = c" for c' using assms(1) by blast
  with assms(2,3) show ?thesis by (fastforce simp: leasesOk_def liveLease_iff ownsObject_def)
qed

lemma leasesOk_deleted:
  assumes "\<And>c'. c' \<noteq> c \<Longrightarrow> \<not> liveLease w c'"
  shows "leasesOk tok (w\<lparr>lw_obj := None, lw_lease := (lw_lease w)(c := None), lw_overtaken := b\<rparr>)"
proof -
  have "liveLease w c' \<Longrightarrow> c' = c" for c' using assms(1) by blast
  then show ?thesis by (fastforce simp: leasesOk_def liveLease_iff)
qed

lemma land_leasesOk:
  assumes tok: "inj tok" and tags: "tagsIdentify etagOf" and ok: "leasesOk tok w"
    and q: "requestOk etagOf (lw_now w) (tok c) q" and l: "land etagOf tok c q w = (reply, w1)"
  shows "leasesOk tok w1"
proof (cases "lw_overtaken w \<or> overtakes (tok c) q (lw_obj w)")
  case True
  with l show ?thesis by (auto simp: land_def leasesOk_def split: prod.splits)
next
  case False
  with ok have own: "\<And>c'. liveLease w c' \<Longrightarrow> ownsObject tok w c'" by (simp add: leasesOk_def)
  have same: "lw_obj w = x \<Longrightarrow> leasesOk tok (w\<lparr>lw_obj := x, lw_overtaken := b\<rparr>)" for b x
    using own by (auto simp add: leasesOk_def liveLease_iff ownsObject_def)
  show ?thesis
  proof (cases q)
    case HeadReq
    with l False same show ?thesis by (cases "lw_obj w") (auto simp: land_def)
  next
    case DeleteReq
    have "\<not> liveLease w c'" if "c' \<noteq> c" for c'
      using own [of c'] False DeleteReq injD [OF tok, of c' c] that by (auto simp: ownsObject_def overtakes_def)
    from leasesOk_deleted [OF this] l DeleteReq show ?thesis by (auto simp: land_def)
  next
    case (PutReq cond token d)
    with q have token: "token = tok c" by (cases cond) auto
    show ?thesis
    proof (cases "reply = WriteOk")
      case True
      have w1: "w1 = w\<lparr>lw_obj := Some \<lparr>lo_token = tok c, lo_deadline = Some d, lo_modified = Some (lw_now w)\<rparr>,
          lw_lease := (lw_lease w)(c := Some d), lw_overtaken := False\<rparr>"
        using l True PutReq token False
        by (cases cond) (auto simp: land_def Let_def split: option.splits if_splits)
      have "\<not> liveLease w c'" if "c' \<noteq> c" for c'
      proof
        assume live: "liveLease w c'"
        then obtain o1 dl where o1: "lw_obj w = Some o1" "lo_token o1 = tok c'" "lo_deadline o1 = Some dl" "lw_now w \<le> dl"
          using own [OF live] by (auto simp: ownsObject_def liveLease_iff)
        show False
        proof (cases cond)
          case Overwrite
          with False PutReq o1 that tok show False by (auto simp: overtakes_def isConditional_def dest: injD)
        next
          case IfNoneMatch
          with l True PutReq o1 show False by (auto simp: land_def Let_def)
        next
          case (IfMatch e)
          with l True PutReq o1 have "etagOf (lo_token o1) (lo_deadline o1) = e" by (auto simp: land_def Let_def split: if_splits)
          with q PutReq IfMatch have "staleTag etagOf (lw_now w) (etagOf (lo_token o1) (lo_deadline o1))" by simp
          from staleTag_object [OF tags this o1(3)] o1(4) show False by simp
        qed
      qed
      from leasesOk_written [OF this] show ?thesis unfolding w1 by simp
    next
      case notWritten: False
      with l PutReq False have "w1 = w\<lparr>lw_obj := lw_obj w, lw_overtaken := False\<rparr>"
        by (cases cond) (auto simp: land_def Let_def split: option.splits if_splits)
      then show ?thesis using same [OF refl, of False] by simp
    qed
  qed
qed

section \<open>Requests in order\<close>

lemmas react_defs = afterPutAbsent_def reclaimIfExpired_def afterPutSwap_def claimLock_def heartbeatTick_def
  afterHeadRelease_def abandonLockObject_def failAttempt_def afterAttempt_def nextAttempt_def startAttempt_def Let_def

lemma react_swap:
  assumes "cl_pc (react T cx now token cl reply) = PutSwap e d" "pendingRequest token (cl_pc cl) \<noteq> None"
  shows "\<exists>o1 etag. reply = HeadOk o1 etag \<and> lockExpired now (lt_ttl T) o1 \<and> e = trimSpace etag"
  using assms by (cases "cl_pc cl") (auto simp: react_def react_defs split: reply.splits sum.splits if_splits)

lemma expired_stale:
  "lockExpired now ttl o1 \<Longrightarrow> tagsIdentify etagOf \<Longrightarrow> staleTag etagOf now (trimSpace (etagOf (lo_token o1) (lo_deadline o1)))"
  unfolding staleTag_def tagsIdentify_def lockExpired_def by (metis option.simps(5))

lemma pending_ok:
  "(\<And>e d. pc = PutSwap e d \<Longrightarrow> staleTag etagOf now e) \<Longrightarrow> pendingRequest token pc = Some q \<Longrightarrow> requestOk etagOf now token q"
  by (cases pc) auto

lemma land_reply_head:
  "land etagOf tok c q w = (HeadOk o1 etag, w1) \<Longrightarrow> etag = etagOf (lo_token o1) (lo_deadline o1)"
  by (cases q) (auto simp: land_def Let_def split: option.splits putCondition.splits if_splits prod.splits)

lemma land_sel:
  assumes "land etagOf tok c q w = (reply, w1)"
  shows "lw_now w1 = lw_now w" "lw_client w1 = lw_client w" "lw_flight w1 = lw_flight w"
    "lw_lease w1 = (lw_lease w)(c := leaseAfter q reply (lw_lease w c))"
  using assms by (auto simp: land_def split: prod.splits)

lemma updClient_sel [simp]:
  "lw_now (updClient c cl w) = lw_now w" "lw_flight (updClient c cl w) = lw_flight w" "lw_obj (updClient c cl w) = lw_obj w"
  "lw_lease (updClient c cl w) = lw_lease w" "lw_overtaken (updClient c cl w) = lw_overtaken w"
  "lw_client (updClient c cl w) = (lw_client w)(c := cl)"
  by (simp_all add: updClient_def)

lemma send_sel [simp]:
  "lw_now (send c q w) = lw_now w" "lw_flight (send c q w) = insert (c, q) (lw_flight w)" "lw_obj (send c q w) = lw_obj w"
  "lw_lease (send c q w) = lw_lease w" "lw_overtaken (send c q w) = lw_overtaken w" "lw_client (send c q w) = lw_client w"
  by (simp_all add: send_def)

lemma leasesOk_cong:
  "lw_obj w1 = lw_obj w \<Longrightarrow> lw_lease w1 = lw_lease w \<Longrightarrow> lw_now w1 = lw_now w \<Longrightarrow> lw_overtaken w1 = lw_overtaken w \<Longrightarrow>
     leasesOk tok w1 = leasesOk tok w"
  by (simp add: leasesOk_def liveLease_iff ownsObject_def)

text \<open>A client whose next call is no swap has its request in order.\<close>

lemma requestsOk_upd:
  assumes "requestsOk etagOf tok w" "\<And>e d. cl_pc cl = PutSwap e d \<Longrightarrow> staleTag etagOf (lw_now w) e"
  shows "requestsOk etagOf tok (updClient c cl w)"
  using assms pending_ok [of "cl_pc cl" etagOf "lw_now w"] by (auto simp: requestsOk_def)

lemma requestsOk_send:
  "requestsOk etagOf tok w \<Longrightarrow> pendingRequest (tok c) (cl_pc (lw_client w c)) = Some q \<Longrightarrow> requestsOk etagOf tok (send c q w)"
  by (auto simp: requestsOk_def)

lemma requestsOk_cong:
  "requestsOk etagOf tok w \<Longrightarrow> lw_flight w1 \<subseteq> lw_flight w \<Longrightarrow> lw_client w1 = lw_client w \<Longrightarrow> lw_now w \<le> lw_now w1 \<Longrightarrow>
     requestsOk etagOf tok w1"
  unfolding requestsOk_def by (metis requestOk_mono subsetD)

text \<open>
  A delete is only on the way once its sender is finished, so an acquirer that holds the lock
  has a lease.
\<close>

fun finished :: "pc \<Rightarrow> bool" where
  "finished (DeleteAbandon _) \<longleftrightarrow> True"
| "finished DeleteRelease \<longleftrightarrow> True"
| "finished (Released _) \<longleftrightarrow> True"
| "finished (Refused _) \<longleftrightarrow> True"
| "finished _ \<longleftrightarrow> False"

fun holding :: "pc \<Rightarrow> bool" where
  "holding HeadClaim \<longleftrightarrow> True"
| "holding Holding \<longleftrightarrow> True"
| "holding HeadBeat \<longleftrightarrow> True"
| "holding (PutBeat _) \<longleftrightarrow> True"
| "holding _ \<longleftrightarrow> False"

definition holdersOk :: "'c lockWorld \<Rightarrow> bool" where
  "holdersOk w \<longleftrightarrow>
     (\<forall>c. (c, DeleteReq) \<in> lw_flight w \<longrightarrow> finished (cl_pc (lw_client w c))) \<and>
     (\<forall>c. holding (cl_pc (lw_client w c)) \<longrightarrow> lw_lease w c \<noteq> None)"

lemma finished_not_holding: "finished pc \<Longrightarrow> \<not> holding pc"
  by (cases pc) auto

lemma pending_delete: "pendingRequest token pc = Some DeleteReq \<Longrightarrow> finished pc"
  by (cases pc) auto

lemma react_finished:
  "finished (cl_pc cl) \<Longrightarrow> finished (cl_pc (react T cx now token cl reply))"
  by (cases "cl_pc cl") (auto simp: react_def failAttempt_def)

text \<open>A client only starts to hold when its own write was performed.\<close>

lemma react_holding:
  assumes "holding (cl_pc (react T cx now token cl reply))" "pendingRequest token (cl_pc cl) = Some q"
  shows "holding (cl_pc cl) \<or> (\<exists>cond tk d. q = PutReq cond tk d \<and> reply = WriteOk)"
  using assms by (cases "cl_pc cl") (auto simp: react_def react_defs noAttempt_def split: reply.splits sum.splits if_splits)

lemma holdersOk_upd:
  assumes "holdersOk w" "finished (cl_pc (lw_client w c)) \<longrightarrow> finished (cl_pc cl)" "holding (cl_pc cl) \<longrightarrow> lw_lease w c \<noteq> None"
  shows "holdersOk (updClient c cl w)"
  using assms by (auto simp: holdersOk_def)

lemma leaseAfter_Some: "lease \<noteq> None \<Longrightarrow> q \<noteq> DeleteReq \<Longrightarrow> leaseAfter q reply lease \<noteq> None"
  by (cases "(q, reply, lease)" rule: leaseAfter.cases) auto

lemma holdersOk_land:
  assumes "holdersOk w" "land etagOf tok c q w = (reply, w1)" "q = DeleteReq \<longrightarrow> finished (cl_pc (lw_client w c))"
  shows "holdersOk w1"
  using assms(1,3) leaseAfter_Some [of "lw_lease w c" q reply] unfolding holdersOk_def land_sel [OF assms(2)]
  by (auto dest: finished_not_holding)

section \<open>The invariant holds in every run\<close>

definition lockInv :: "etags \<Rightarrow> ('c \<Rightarrow> gostring) \<Rightarrow> 'c lockWorld \<Rightarrow> bool" where
  "lockInv etagOf tok w \<longleftrightarrow> leasesOk tok w \<and> requestsOk etagOf tok w \<and> holdersOk w"

lemma lockInv_start: "lockInv etagOf tok (startWorld obj now)"
  by (simp add: lockInv_def leasesOk_def liveLease_def requestsOk_def holdersOk_def startWorld_def newClient_def)

text \<open>A client moves on without writing.\<close>

lemma lockInv_upd:
  assumes "lockInv etagOf tok w" "\<And>e d. cl_pc cl \<noteq> PutSwap e d"
    "finished (cl_pc (lw_client w c)) \<longrightarrow> finished (cl_pc cl)" "holding (cl_pc cl) \<longrightarrow> holding (cl_pc (lw_client w c))"
  shows "lockInv etagOf tok (updClient c cl w)"
proof -
  have "leasesOk tok (updClient c cl w)" using assms(1) by (simp add: lockInv_def cong: leasesOk_cong)
  moreover have "requestsOk etagOf tok (updClient c cl w)" using assms by (intro requestsOk_upd) (auto simp: lockInv_def)
  moreover have "holdersOk (updClient c cl w)" using assms by (intro holdersOk_upd) (auto simp: lockInv_def holdersOk_def)
  ultimately show ?thesis by (simp add: lockInv_def)
qed

text \<open>A client's code runs on a reply.\<close>

lemma lockInv_react:
  assumes inv: "lockInv etagOf tok w" and tags: "tagsIdentify etagOf"
    and p: "pendingRequest (tok c) (cl_pc (lw_client w c)) = Some q"
    and head: "\<And>o1 etag. reply = HeadOk o1 etag \<Longrightarrow> etag = etagOf (lo_token o1) (lo_deadline o1)"
    and wrote: "reply = WriteOk \<Longrightarrow> (\<exists>cond tk d. q = PutReq cond tk d) \<Longrightarrow> lw_lease w c \<noteq> None"
  shows "lockInv etagOf tok (updClient c (react T cx (lw_now w) (tok c) (lw_client w c) reply) w)" (is "lockInv _ _ ?w")
proof -
  let ?cl = "react T cx (lw_now w) (tok c) (lw_client w c) reply"
  have "leasesOk tok ?w" using inv by (simp add: lockInv_def cong: leasesOk_cong)
  moreover have "requestsOk etagOf tok ?w"
  proof (rule requestsOk_upd)
    show "requestsOk etagOf tok w" using inv by (simp add: lockInv_def)
    fix e d assume "cl_pc ?cl = PutSwap e d"
    from react_swap [OF this] p obtain o1 etag where
      "reply = HeadOk o1 etag" "lockExpired (lw_now w) (lt_ttl T) o1" "e = trimSpace etag" by auto
    with head expired_stale [OF _ tags] show "staleTag etagOf (lw_now w) e" by blast
  qed
  moreover have "holdersOk ?w"
  proof (rule holdersOk_upd)
    show "holdersOk w" using inv by (simp add: lockInv_def)
    show "finished (cl_pc (lw_client w c)) \<longrightarrow> finished (cl_pc ?cl)" using react_finished by blast
    show "holding (cl_pc ?cl) \<longrightarrow> lw_lease w c \<noteq> None"
      using react_holding [OF _ p] wrote inv by (fastforce simp: lockInv_def holdersOk_def)
  qed
  ultimately show ?thesis by (simp add: lockInv_def)
qed

lemma land_put_lease:
  "land etagOf tok c (PutReq cond tk d) w = (WriteOk, w1) \<Longrightarrow> lw_lease w1 c \<noteq> None"
  using land_sel(4) by fastforce

lemma lockInv_land:
  assumes "inj tok" "tagsIdentify etagOf" "lockInv etagOf tok w" "land etagOf tok c q w = (reply, w1)"
    "requestOk etagOf (lw_now w) (tok c) q" "q = DeleteReq \<longrightarrow> finished (cl_pc (lw_client w c))" "fl \<subseteq> lw_flight w"
  shows "lockInv etagOf tok (w1\<lparr>lw_flight := fl\<rparr>)"
proof -
  note sel = land_sel [OF assms(4)]
  have "leasesOk tok w1" using land_leasesOk [OF assms(1,2) _ assms(5,4)] assms(3) by (simp add: lockInv_def)
  then have "leasesOk tok (w1\<lparr>lw_flight := fl\<rparr>)" by (simp add: leasesOk_def liveLease_iff ownsObject_def)
  moreover have "requestsOk etagOf tok (w1\<lparr>lw_flight := fl\<rparr>)"
    using requestsOk_cong [of etagOf tok w] assms(3,7) sel by (simp add: lockInv_def)
  moreover have "holdersOk w1" using holdersOk_land [OF _ assms(4,6)] assms(3) by (simp add: lockInv_def)
  then have "holdersOk (w1\<lparr>lw_flight := fl\<rparr>)" using assms(7) sel by (auto simp: holdersOk_def)
  ultimately show ?thesis by (simp add: lockInv_def)
qed

lemma lockInv_send:
  assumes "lockInv etagOf tok w" "pendingRequest (tok c) (cl_pc (lw_client w c)) = Some q"
  shows "lockInv etagOf tok (send c q w)"
  using assms pending_delete [of "tok c" "cl_pc (lw_client w c)"]
  by (auto simp: lockInv_def requestsOk_send holdersOk_def cong: leasesOk_cong)

lemma lockInv_time:
  assumes "lockInv etagOf tok w" "lw_now w \<le> t"
  shows "lockInv etagOf tok (w\<lparr>lw_now := t\<rparr>)"
proof -
  have "leasesOk tok (w\<lparr>lw_now := t\<rparr>)"
    using assms by (fastforce simp: lockInv_def leasesOk_def liveLease_iff ownsObject_def)
  moreover have "requestsOk etagOf tok (w\<lparr>lw_now := t\<rparr>)"
    using assms requestsOk_cong [of etagOf tok w] by (simp add: lockInv_def)
  moreover have "holdersOk (w\<lparr>lw_now := t\<rparr>)" using assms by (simp add: lockInv_def holdersOk_def)
  ultimately show ?thesis by (simp add: lockInv_def)
qed

lemma lockInv_step:
  assumes "inj tok" "tagsIdentify etagOf"
  shows "lockStep T etagOf tok w w' \<Longrightarrow> lockInv etagOf tok w \<Longrightarrow> lockInv etagOf tok w'"
proof (induction rule: lockStep.induct)
  case (served c w q reply w1 cx)
  note sel = land_sel [OF served(2)]
  have q: "requestOk etagOf (lw_now w) (tok c) q" using served by (simp add: lockInv_def requestsOk_def)
  have "lockInv etagOf tok (w1\<lparr>lw_flight := lw_flight w\<rparr>)"
    using lockInv_land [OF assms served(3,2) q] pending_delete served(1) by blast
  then have inv: "lockInv etagOf tok w1" using sel(3) by (metis lockWorld.surjective lockWorld.update_convs(4))
  have "lockInv etagOf tok (updClient c (react T cx (lw_now w1) (tok c) (lw_client w1 c) reply) w1)"
  proof (rule lockInv_react [OF inv assms(2)])
    show "pendingRequest (tok c) (cl_pc (lw_client w1 c)) = Some q" using served(1) sel by simp
    show "etag = etagOf (lo_token o1) (lo_deadline o1)" if "reply = HeadOk o1 etag" for o1 etag
      using land_reply_head served(2) that by metis
    show "lw_lease w1 c \<noteq> None" if "reply = WriteOk" "\<exists>cond tk d. q = PutReq cond tk d"
      using land_put_lease served(2) that by metis
  qed
  then show ?case using sel by simp
next
  case (refused c w cond token d cx)
  then show ?case by (intro lockInv_react [OF _ assms(2)]) auto
next
  case (given_up c w q cx err)
  have "lockInv etagOf tok (send c q w)" using given_up by (intro lockInv_send)
  from lockInv_react [OF this assms(2), of c q "RequestFailed err" T cx] given_up(1) show ?case by simp
next
  case (retried c w q)
  then show ?case by (intro lockInv_send)
next
  case (lands c q w reply w1)
  then show ?case by (intro lockInv_land [OF assms]) (auto simp: lockInv_def requestsOk_def holdersOk_def)
next
  case (passes w t)
  then show ?case by (intro lockInv_time)
qed (auto intro!: lockInv_upd simp: startAttempt_def nextAttempt_def)

lemma lockInv_reach:
  assumes "inj tok" "tagsIdentify etagOf"
  shows "lockReach T etagOf tok w w' \<Longrightarrow> lockInv etagOf tok w \<Longrightarrow> lockInv etagOf tok w'"
  unfolding lockReach_def by (induction rule: rtranclp_induct) (auto intro: lockInv_step [OF assms])

text \<open>
  Exclusion: until an unconditional write lands on another acquirer's object, an acquirer
  whose lease runs owns the object, so no other lease runs; and a holder has a lease.
\<close>

theorem lock_exclusion:
  assumes "inj tok" "tagsIdentify etagOf" "lockReach T etagOf tok (startWorld obj now) w" "\<not> lw_overtaken w"
  shows "liveLease w c \<Longrightarrow> ownsObject tok w c"
    and "liveLease w c \<Longrightarrow> liveLease w c' \<Longrightarrow> c = c'"
    and "cl_pc (lw_client w c) = Holding \<Longrightarrow> lw_lease w c \<noteq> None"
proof -
  have inv: "lockInv etagOf tok w" using lockInv_reach [OF assms(1-3) lockInv_start] .
  then show own: "liveLease w c \<Longrightarrow> ownsObject tok w c" for c using assms(4) by (simp add: lockInv_def leasesOk_def)
  show "liveLease w c \<Longrightarrow> liveLease w c' \<Longrightarrow> c = c'"
    using own [of c] own [of c'] injD [OF assms(1), of c c'] by (auto simp: ownsObject_def)
  show "cl_pc (lw_client w c) = Holding \<Longrightarrow> lw_lease w c \<noteq> None"
    using inv by (simp add: lockInv_def holdersOk_def)
qed

text \<open>Only a writer whose own lease has run out can overtake.\<close>

lemma overtakes_late:
  assumes "inj tok" "tagsIdentify etagOf" "lockReach T etagOf tok (startWorld obj now) w" "\<not> lw_overtaken w"
    "overtakes (tok c) q (lw_obj w)"
  shows "\<not> liveLease w c"
  using lock_exclusion(1) [OF assms(1-4), of c] assms(5) by (auto simp: ownsObject_def overtakes_def)

end
