(* ===== verification/S3Progress.thy ===== *)
theory S3Progress imports S3World begin

text \<open>
  An acquirer alone with the store: it takes a lock that is free or whose holder is dead. And
  a run in which a heartbeat's refresh, which no condition guards, lands on the object of the
  acquirer that reclaimed the lock.
\<close>

section \<open>Progress\<close>

definition liveCtx :: ctxState where
  "liveCtx = \<lparr>cx_parent = None, cx_waitDone = False\<rparr>"

definition soloStep :: "lockTiming \<Rightarrow> etags \<Rightarrow> ('c \<Rightarrow> gostring) \<Rightarrow> 'c \<Rightarrow> 'c lockWorld \<Rightarrow> 'c lockWorld" where
  "soloStep T etagOf tok c w =
     (case pendingRequest (tok c) (cl_pc (lw_client w c)) of
        None \<Rightarrow> w
      | Some q \<Rightarrow>
          let (reply, w1) = land etagOf tok c q w
          in updClient c (react T liveCtx (lw_now w) (tok c) (lw_client w c) reply) w1)"

lemma soloStep_reach: "lockReach T etagOf tok w (soloStep T etagOf tok c w)"
proof (cases "pendingRequest (tok c) (cl_pc (lw_client w c))")
  case None
  then show ?thesis by (simp add: soloStep_def lockReach_def)
next
  case (Some q)
  obtain reply w1 where l: "land etagOf tok c q w = (reply, w1)" by fastforce
  from served [OF Some l, of T liveCtx] Some l show ?thesis by (simp add: soloStep_def lockReach_def r_into_rtranclp)
qed

lemma lockReach_trans: "lockReach T etagOf tok u v \<Longrightarrow> lockReach T etagOf tok v w \<Longrightarrow> lockReach T etagOf tok u w"
  by (simp add: lockReach_def)

lemma lockReach_step: "lockReach T etagOf tok u v \<Longrightarrow> lockStep T etagOf tok v w \<Longrightarrow> lockReach T etagOf tok u w"
  by (simp add: lockReach_def)

lemma deadlineAt_live: "1000000000 \<le> lt_ttl T \<Longrightarrow> now \<le> deadlineAt T now"
  unfolding deadlineAt_def Let_def by (smt (verit) pos_mod_bound)

lemma free_lock_taken:
  fixes etagOf :: etags and tok :: "'c \<Rightarrow> gostring" and w :: "'c lockWorld"
  assumes "cl_pc (lw_client w c) = PutAbsent d" "lw_obj w = None"
    and w': "w' = soloStep T etagOf tok c (soloStep T etagOf tok c w)"
  shows "cl_pc (lw_client w' c) = Holding" "ownsObject tok w' c" "lw_lease w' c = Some d" "lw_now w' = lw_now w"
  using assms(1,2) unfolding w'
  by (simp_all add: soloStep_def land_def updClient_def react_def react_defs noAttempt_def verifyOwner_def ownsObject_def overtakes_def)

lemma dead_lock_taken:
  fixes etagOf :: etags and tok :: "'c \<Rightarrow> gostring" and w :: "'c lockWorld"
  assumes "cl_pc (lw_client w c) = PutAbsent d" "lw_obj w = Some o1" "lockExpired (lw_now w) (lt_ttl T) o1"
    "trimSpace (etagOf (lo_token o1) (lo_deadline o1)) = etagOf (lo_token o1) (lo_deadline o1)"
    "etagOf (lo_token o1) (lo_deadline o1) \<noteq> []"
    and w1: "w1 = soloStep T etagOf tok c (soloStep T etagOf tok c w)"
    and w': "w' = soloStep T etagOf tok c (soloStep T etagOf tok c w1)"
  shows "cl_pc (lw_client w' c) = Holding" "ownsObject tok w' c" "lw_lease w' c = Some (deadlineAt T (lw_now w))" "lw_now w' = lw_now w"
proof -
  let ?e = "etagOf (lo_token o1) (lo_deadline o1)"
  have "cl_pc (lw_client w1 c) = PutSwap ?e (deadlineAt T (lw_now w))" "lw_obj w1 = Some o1" "lw_now w1 = lw_now w"
    using assms(1-5) unfolding w1
    by (simp_all add: soloStep_def land_def updClient_def react_def afterPutAbsent_def reclaimIfExpired_def overtakes_def)
  then show "cl_pc (lw_client w' c) = Holding" "ownsObject tok w' c" "lw_lease w' c = Some (deadlineAt T (lw_now w))" "lw_now w' = lw_now w"
    unfolding w'
    by (simp_all add: soloStep_def land_def updClient_def react_def react_defs noAttempt_def verifyOwner_def ownsObject_def overtakes_def)
qed

definition lockFree :: "lockTiming \<Rightarrow> etags \<Rightarrow> 'c lockWorld \<Rightarrow> bool" where
  "lockFree T etagOf w \<longleftrightarrow>
     (case lw_obj w of
        None \<Rightarrow> True
      | Some o1 \<Rightarrow> lockExpired (lw_now w) (lt_ttl T) o1 \<and> etagOf (lo_token o1) (lo_deadline o1) \<noteq> [])"

lemma waiting_acquires:
  assumes ttl: "1000000000 \<le> lt_ttl T" and tags: "tagsIdentify etagOf"
    and pc: "cl_pc (lw_client w c) \<in> {NotStarted, Sleeping}" and free: "lockFree T etagOf w"
  shows "\<exists>w'. lockReach T etagOf tok w w' \<and> cl_pc (lw_client w' c) = Holding \<and> ownsObject tok w' c \<and> liveLease w' c"
proof -
  let ?d = "deadlineAt T (lw_now w)"
  have live: "lw_now w \<le> ?d" using ttl by (rule deadlineAt_live)
  obtain w1 where w1: "lockStep T etagOf tok w w1" "cl_pc (lw_client w1 c) = PutAbsent ?d" "lw_obj w1 = lw_obj w" "lw_now w1 = lw_now w"
  proof (cases "cl_pc (lw_client w c) = NotStarted")
    case True
    from that [OF acquire [where T = T and etagOf = etagOf and tok = tok, OF True]] show thesis by (simp add: startAttempt_def)
  next
    case False
    with pc have "cl_pc (lw_client w c) = Sleeping" by simp
    from that [OF wake [where T = T and etagOf = etagOf and tok = tok, OF this]] show thesis by (simp add: startAttempt_def nextAttempt_def)
  qed
  let ?s = "soloStep T etagOf tok c"
  have r1: "lockReach T etagOf tok w w1" using w1(1) by (simp add: lockReach_def r_into_rtranclp)
  have r2: "lockReach T etagOf tok w (?s (?s w1))"
    by (rule lockReach_trans [OF r1 lockReach_trans [OF soloStep_reach soloStep_reach]])
  show ?thesis
  proof (cases "lw_obj w")
    case None
    with w1 have n: "lw_obj w1 = None" by simp
    from free_lock_taken [where T = T and etagOf = etagOf and tok = tok, OF w1(2) n refl] w1(4) live r2 show ?thesis
      by (intro exI [of _ "?s (?s w1)"]) (simp add: liveLease_iff)
  next
    case (Some o1)
    with w1 have o1: "lw_obj w1 = Some o1" by simp
    have r3: "lockReach T etagOf tok w (?s (?s (?s (?s w1))))"
      by (rule lockReach_trans [OF r2 lockReach_trans [OF soloStep_reach soloStep_reach]])
    have "lockExpired (lw_now w1) (lt_ttl T) o1" "etagOf (lo_token o1) (lo_deadline o1) \<noteq> []"
      "trimSpace (etagOf (lo_token o1) (lo_deadline o1)) = etagOf (lo_token o1) (lo_deadline o1)"
      using free Some w1(4) tags by (auto simp: lockFree_def tagsIdentify_def)
    from dead_lock_taken [where T = T and etagOf = etagOf and tok = tok, OF w1(2) o1 this(1,3,2) refl refl] w1(4) live r3 show ?thesis
      by (intro exI [of _ "?s (?s (?s (?s w1)))"]) (simp add: liveLease_iff)
  qed
qed

section \<open>A refresh that arrives late\<close>

definition demoTiming :: lockTiming where "demoTiming = \<lparr>lt_ttl = 600000000000\<rparr>"

definition demoTok :: "bool \<Rightarrow> gostring" where "demoTok first = (if first then ''a'' else ''b'')"

text \<open>Quoted tags that spell the deadline and the token.\<close>

definition demoDeadline :: "int option \<Rightarrow> gostring" where
  "demoDeadline d = (case d of None \<Rightarrow> [] | Some i \<Rightarrow> (if i < 0 then CHR ''-'' else CHR ''+'') # intDec \<bar>i\<bar>)"

definition demoTag :: etags where
  "demoTag token deadline = CHR 0x22 # demoDeadline deadline @ CHR 0x22 # token @ [CHR 0x22]"

lemma intDec_noquote: "c \<in> set (intDec \<bar>i\<bar>) \<Longrightarrow> c \<noteq> CHR 0x22"
proof -
  assume "c \<in> set (intDec \<bar>i\<bar>)"
  then have "isDigit c" using bspec [OF intDec_digits [of "\<bar>i\<bar>"], of c] by simp
  then show ?thesis by (auto simp: isDigit_def digits_def)
qed

lemma demoDeadline_noquote: "c \<in> set (demoDeadline d) \<Longrightarrow> c \<noteq> CHR 0x22"
proof (cases d)
  case None
  assume "c \<in> set (demoDeadline d)"
  with None show ?thesis by (simp add: demoDeadline_def)
next
  case (Some i)
  assume "c \<in> set (demoDeadline d)"
  with Some have "c \<in> {CHR ''-'', CHR ''+''} \<or> c \<in> set (intDec \<bar>i\<bar>)"
    by (cases "i < 0") (simp_all add: demoDeadline_def del: intDec.simps, blast+)
  with intDec_noquote show ?thesis by blast
qed

definition readDeadline :: "gostring \<Rightarrow> int option" where
  "readDeadline s = (case s of [] \<Rightarrow> None | c # cs \<Rightarrow> Some (if c = CHR ''-'' then - parseDec cs else parseDec cs))"

lemma readDeadline_demo: "readDeadline (demoDeadline d) = d"
  by (cases d) (simp_all add: readDeadline_def demoDeadline_def parseDec_intDec del: intDec.simps)

lemma demoDeadline_inj: "demoDeadline d = demoDeadline d' \<Longrightarrow> d = d'"
  by (metis readDeadline_demo)

lemma demoTag_inj:
  assumes "demoTag t d = demoTag t' d'"
  shows "t = t' \<and> d = d'"
proof -
  have tw: "takeWhile (\<lambda>c. c \<noteq> CHR 0x22) (demoDeadline x @ CHR 0x22 # y) = demoDeadline x" for x y
    using demoDeadline_noquote [of _ x] by (subst takeWhile_append2) auto
  from assms have eq: "demoDeadline d @ CHR 0x22 # t @ [CHR 0x22] = demoDeadline d' @ CHR 0x22 # t' @ [CHR 0x22]"
    by (simp add: demoTag_def)
  from arg_cong [OF this, of "takeWhile (\<lambda>c. c \<noteq> CHR 0x22)"] have "d = d'" using demoDeadline_inj by (simp only: tw)
  with eq show ?thesis by simp
qed

lemma trimSpace_quoted: "trimSpace (CHR 0x22 # s @ [CHR 0x22]) = CHR 0x22 # s @ [CHR 0x22]"
proof -
  have sp: "\<forall>w \<in> set goSpaces. w \<noteq> [] \<and> hd w \<noteq> CHR 0x22 \<and> last w \<noteq> CHR 0x22"
    using goSpaces_graphic [of "CHR 0x22"] goSpaces_nonempty hd_in_set last_in_set by fastforce
  have 1: "trimLeftOf goSpaces (CHR 0x22 # r) = CHR 0x22 # r" for r
    using sp by (intro trimLeftOf_id) (auto simp: prefix_Cons)
  have 2: "trimLeftOf (map rev goSpaces) (CHR 0x22 # r) = CHR 0x22 # r" for r
    using sp by (intro trimLeftOf_id) (auto simp: prefix_Cons rev_eq_Cons_iff)
  show ?thesis using 1 2 by (simp add: trimSpace_def)
qed

lemma demo_tags: "tagsIdentify demoTag"
proof -
  have "trimSpace (demoTag t d) = demoTag t d" for t d
    using trimSpace_quoted [of "demoDeadline d @ CHR 0x22 # t"] by (simp add: demoTag_def)
  then show ?thesis using demoTag_inj by (auto simp: tagsIdentify_def)
qed

lemma demo_tok: "inj demoTok"
  by (auto simp: inj_def demoTok_def)

definition demoSolo :: "bool \<Rightarrow> bool lockWorld \<Rightarrow> bool lockWorld" where
  "demoSolo = soloStep demoTiming demoTag demoTok"

definition demoFirst :: "bool lockWorld" where
  "demoFirst =
     (let w = startWorld None 0 in
      demoSolo True (demoSolo True (updClient True (startAttempt demoTiming (lw_now w) (lw_client w True)) w)))"

text \<open>At 590 seconds, after failed refreshes, the first holder's heartbeat reads its own token.\<close>

definition demoBeat :: "bool lockWorld" where
  "demoBeat =
     (let w = demoFirst\<lparr>lw_now := 590000000000\<rparr> in
      demoSolo True (updClient True ((lw_client w True)\<lparr>cl_pc := HeadBeat\<rparr>) w))"

text \<open>At 601 seconds a second acquirer reclaims the lock; then the refresh lands.\<close>

definition demoReclaim :: "bool lockWorld" where
  "demoReclaim =
     (let w = demoBeat\<lparr>lw_now := 601000000000\<rparr> in
      demoSolo False (demoSolo False (demoSolo False (demoSolo False
        (updClient False (startAttempt demoTiming (lw_now w) (lw_client w False)) w)))))"

definition demoLate :: "bool lockWorld" where
  "demoLate = demoSolo True demoReclaim"

lemma demoSolo_reach: "lockReach demoTiming demoTag demoTok w (demoSolo c w)"
  unfolding demoSolo_def by (rule soloStep_reach)

text \<open>
  The runs are evaluated in two theorems, each world computed once; the facts below read them.
\<close>

lemma demo_worlds_eval:
  "(let w = demoFirst; b = demoBeat in
     cl_pc (lw_client w True) = Holding \<and> lw_now w = 0 \<and> cl_pc (lw_client w False) = NotStarted \<and>
     \<not> lw_overtaken w \<and> liveLease w True \<and>
     lw_now b = 590000000000 \<and> cl_pc (lw_client b False) = NotStarted \<and>
     lockFree demoTiming demoTag (b\<lparr>lw_now := 601000000000\<rparr>))"
  by code_simp

lemma demoLate_eval:
  "(let w = demoLate in lw_overtaken w \<and> cl_pc (lw_client w True) = Holding \<and>
     cl_pc (lw_client w False) = Holding \<and> liveLease w True \<and> liveLease w False)"
  by code_simp

lemma demoFirst_pc: "cl_pc (lw_client demoFirst True) = Holding" "lw_now demoFirst = 0" "cl_pc (lw_client demoFirst False) = NotStarted"
  using demo_worlds_eval by (simp_all add: Let_def)

lemma demoBeat_pc: "lw_now demoBeat = 590000000000" "cl_pc (lw_client demoBeat False) = NotStarted"
  using demo_worlds_eval by (simp_all add: Let_def)

lemma demoFirst_reach: "lockReach demoTiming demoTag demoTok (startWorld None 0) demoFirst"
proof -
  have "lockReach demoTiming demoTag demoTok (startWorld None 0) (startWorld None 0)" by (simp add: lockReach_def)
  from lockReach_step [where T = demoTiming and etagOf = demoTag and tok = demoTok, OF this acquire [of _ True]]
  show ?thesis
    unfolding demoFirst_def Let_def
    by (intro lockReach_trans [OF _ demoSolo_reach]) (simp add: startWorld_def newClient_def)
qed

lemma demoFirst_holds:
  "cl_pc (lw_client demoFirst True) = Holding" "\<not> lw_overtaken demoFirst" "liveLease demoFirst True"
  using demo_worlds_eval by (simp_all add: Let_def)

lemma demoBeat_free: "lockFree demoTiming demoTag (demoBeat\<lparr>lw_now := 601000000000\<rparr>)"
  using demo_worlds_eval by (simp add: Let_def)

lemma demoLate_reach: "lockReach demoTiming demoTag demoTok (startWorld None 0) demoLate"
proof -
  note step = lockReach_step [where T = demoTiming and etagOf = demoTag and tok = demoTok]
  note solo = lockReach_trans [OF _ demoSolo_reach]
  from step [OF demoFirst_reach passes [of demoFirst 590000000000]] demoFirst_pc
  have "lockReach demoTiming demoTag demoTok (startWorld None 0) (demoFirst\<lparr>lw_now := 590000000000\<rparr>)" by simp
  from step [OF this ticks [of _ True]] demoFirst_pc have "lockReach demoTiming demoTag demoTok (startWorld None 0) demoBeat"
    unfolding demoBeat_def Let_def by (intro solo) simp
  from step [OF this passes [of demoBeat 601000000000]] demoBeat_pc
  have "lockReach demoTiming demoTag demoTok (startWorld None 0) (demoBeat\<lparr>lw_now := 601000000000\<rparr>)" by simp
  from step [OF this acquire [of _ False]] demoBeat_pc have "lockReach demoTiming demoTag demoTok (startWorld None 0) demoReclaim"
    unfolding demoReclaim_def Let_def by (intro solo) simp
  then show ?thesis unfolding demoLate_def by (rule solo)
qed

lemma refresh_overtakes:
  "lockReach demoTiming demoTag demoTok (startWorld None 0) demoLate \<and> lw_overtaken demoLate \<and>
   cl_pc (lw_client demoLate True) = Holding \<and> cl_pc (lw_client demoLate False) = Holding \<and>
   liveLease demoLate True \<and> liveLease demoLate False"
using demoLate_reach demoLate_eval by (simp add: Let_def)

end
