(* ===== verification/GitSource.thy ===== *)
theory GitSource imports Names begin

text \<open>
  \<^verbatim>\<open>internal/galaxy/gitsource\<close>: repository URLs (\<^verbatim>\<open>url.go\<close>), refs (\<^verbatim>\<open>ref.go\<close>) and locators
  (\<^verbatim>\<open>locator.go\<close>). \<^verbatim>\<open>net/url.Parse\<close> and \<^verbatim>\<open>strings.ToLower\<close> are the fields of \<open>netLib\<close>; the
  theorem says which texts are locators and that parsing and printing are inverse.
\<close>

section \<open>Text helpers\<close>

text \<open>\<^verbatim>\<open>strings.Cut\<close> at the first, and \<^verbatim>\<open>strings.CutLast\<close> at the last, separator byte.\<close>

definition cutAt :: "char \<Rightarrow> gostring \<Rightarrow> (gostring \<times> gostring) option" where
  "cutAt sep s = (if sep \<in> set s then Some (takeWhile (\<lambda>c. c \<noteq> sep) s, tl (dropWhile (\<lambda>c. c \<noteq> sep) s)) else None)"

definition cutLastAt :: "char \<Rightarrow> gostring \<Rightarrow> (gostring \<times> gostring) option" where
  "cutLastAt sep s =
     (case cutAt sep (rev s) of None \<Rightarrow> None | Some (after, before) \<Rightarrow> Some (rev before, rev after))"

definition trimRightOf :: "char \<Rightarrow> gostring \<Rightarrow> gostring" where
  "trimRightOf c s = rev (dropWhile (\<lambda>x. x = c) (rev s))"

definition trimLeftByte :: "char \<Rightarrow> gostring \<Rightarrow> gostring" where
  "trimLeftByte c s = dropWhile (\<lambda>x. x = c) s"

definition trimBoth :: "char \<Rightarrow> gostring \<Rightarrow> gostring" where
  "trimBoth c s = trimRightOf c (trimLeftByte c s)"

definition replaceAll :: "gostring \<Rightarrow> gostring \<Rightarrow> gostring \<Rightarrow> gostring" where
  "replaceAll s old new = joinStr (splitStr s old) new"

definition asciiLower :: "char \<Rightarrow> char" where
  "asciiLower c = (if CHR ''A'' \<le> c \<and> c \<le> CHR ''Z'' then char_of (byteOf c + 32) else c)"

text \<open>\<^verbatim>\<open>strings.EqualFold\<close> against an ASCII text none of whose letters folds beyond ASCII.\<close>

definition equalFold :: "gostring \<Rightarrow> gostring \<Rightarrow> bool" where
  "equalFold s t \<longleftrightarrow> List.map asciiLower s = List.map asciiLower t"

section \<open>What net/url supplies\<close>

text \<open>
  \<open>pu_string\<close> is what \<^verbatim>\<open>URL.String\<close> prints and \<open>pu_bareString\<close> what it prints once the
  fragment is cleared; \<open>pu_host\<close> is the host with its port, \<open>pu_path\<close> the decoded path.
\<close>

record parsedURL =
  pu_scheme :: gostring
  pu_user :: "(gostring \<times> gostring option) option"
  pu_host :: gostring
  pu_hostname :: gostring
  pu_port :: gostring
  pu_path :: gostring
  pu_escapedPath :: gostring
  pu_rawQuery :: gostring
  pu_forceQuery :: bool
  pu_fragment :: gostring
  pu_rawFragment :: gostring
  pu_string :: gostring
  pu_bareString :: gostring

record netLib =
  nl_parse :: "gostring \<Rightarrow> parsedURL option"
  nl_lower :: "gostring \<Rightarrow> gostring"

section \<open>Repository URLs\<close>

record gitURL =
  gu_scheme :: gostring
  gu_user :: gostring
  gu_host :: gostring
  gu_port :: gostring
  gu_path :: gostring
  gu_scp :: bool

datatype gitErr = InvalidGitURL | GitURLUserinfo | InvalidGitSubdir | InvalidGitLocator | InvalidGitRef | GitAbbreviatedCommit

abbreviation (input) "colonSign \<equiv> (CHR '':'', CHR '':'')"
abbreviation (input) "afl \<equiv> (CHR ''a'', CHR ''f'')"
abbreviation (input) "AFu \<equiv> (CHR ''A'', CHR ''F'')"

text \<open>\<open>^(\[[0-9A-Fa-f:.]+\]|[A-Za-z0-9.-]+)$\<close> and \<open>^[A-Za-z0-9._-]+$\<close>\<close>

definition hostPattern :: "gostring \<Rightarrow> bool" where
  "hostPattern s \<longleftrightarrow>
     (3 \<le> length s \<and> hd s = CHR ''['' \<and> last s = CHR '']'' \<and> list_all (inClass [d09, AFu, afl, colonSign, dot]) (butlast (tl s))) \<or>
     (s \<noteq> [] \<and> list_all (inClass [AZ, az, d09, dot, dash]) s)"

definition sshUserPattern :: "gostring \<Rightarrow> bool" where
  "sshUserPattern s \<longleftrightarrow> s \<noteq> [] \<and> list_all (inClass [AZ, az, d09, dot, usc, dash]) s"

text \<open>\<open>^([A-Za-z0-9._-]+)@([^:/@\s]+):(.+)$\<close>, where a dot matches no line feed.\<close>

definition scpHostByte :: "char \<Rightarrow> bool" where
  "scpHostByte c \<longleftrightarrow> c \<notin> {CHR '':'', CHR ''/'', CHR ''@'', CHR 0x20, CHR 0x09, CHR 0x0A, CHR 0x0C, CHR 0x0D}"

definition scpLikePattern :: "gostring \<Rightarrow> (gostring \<times> gostring \<times> gostring) option" where
  "scpLikePattern s =
     (case cutAt CHR ''@'' s of
        None \<Rightarrow> None
      | Some (user, rest) \<Rightarrow>
          (case cutAt CHR '':'' rest of
             None \<Rightarrow> None
           | Some (host, path) \<Rightarrow>
               if sshUserPattern user \<and> host \<noteq> [] \<and> list_all scpHostByte host \<and> path \<noteq> [] \<and> CHR 0x0A \<notin> set path
               then Some (user, host, path) else None))"

definition defaultPort :: "gostring \<Rightarrow> gostring" where
  "defaultPort scheme = (if scheme = ''https'' then ''443'' else if scheme = ''http'' then ''80'' else if scheme = ''ssh'' then ''22'' else [])"

definition explicitPort :: "gostring \<Rightarrow> gostring \<Rightarrow> gostring" where
  "explicitPort scheme port = (if port = defaultPort scheme then [] else port)"

definition hostWithBrackets :: "netLib \<Rightarrow> parsedURL \<Rightarrow> gostring" where
  "hostWithBrackets N p =
     (let host = nl_lower N (pu_hostname p) in if CHR '':'' \<in> set host then ''['' @ host @ '']'' else host)"

definition isPathRune :: "nat \<Rightarrow> bool" where
  "isPathRune r \<longleftrightarrow> lowerRune r \<or> upperRune r \<or> digitRune r \<or> oneOf ''/.-_~+%@'' r"

definition checkPathSegments :: "netLib \<Rightarrow> gostring \<Rightarrow> (gitErr, unit) res" where
  "checkPathSegments N path =
     (if list_all (\<lambda>segment. replaceAll (nl_lower N segment) ''%2e'' ''.'' \<notin> {[], ''.'', ''..''}) (splitStr (trimPrefix path ''/'') ''/'')
      then Inr () else Inl InvalidGitURL)"

definition checkPath :: "netLib \<Rightarrow> gostring \<Rightarrow> (gitErr, unit) res" where
  "checkPath N path =
     (if path = [] \<or> path = ''/'' then Inl InvalidGitURL
      else if hasPrefix (trimLeftByte CHR ''/'' path) ''-'' then Inl InvalidGitURL
      else if \<not> list_all isPathRune (runes path) then Inl InvalidGitURL
      else checkPathSegments N path)"

definition schemeURLPath :: "netLib \<Rightarrow> gostring \<Rightarrow> bool \<Rightarrow> (gitErr, gostring) res" where
  "schemeURLPath N path prefix' =
     (if \<not> prefix' then bindE (checkPath N path) (\<lambda>_. Inr path)
      else let path = trimRightOf CHR ''/'' path in
        if path = [] then Inr [] else bindE (checkPath N path) (\<lambda>_. Inr path))"

definition checkSchemeAndQuery :: "gostring \<Rightarrow> parsedURL \<Rightarrow> (gitErr, unit) res" where
  "checkSchemeAndQuery scheme p =
     (if scheme \<noteq> ''https'' \<and> scheme \<noteq> ''http'' \<and> scheme \<noteq> ''ssh'' then Inl InvalidGitURL
      else if pu_rawQuery p \<noteq> [] \<or> pu_forceQuery p \<or> pu_fragment p \<noteq> [] \<or> pu_rawFragment p \<noteq> [] then Inl InvalidGitURL
      else Inr ())"

definition checkUserinfo :: "gostring \<Rightarrow> parsedURL \<Rightarrow> bool \<Rightarrow> (gitErr, gostring) res" where
  "checkUserinfo scheme p prefix' =
     (case pu_user p of
        None \<Rightarrow> if scheme = ''ssh'' \<and> \<not> prefix' then Inl InvalidGitURL else Inr []
      | Some (user, password) \<Rightarrow>
          if scheme \<noteq> ''ssh'' then Inl GitURLUserinfo
          else if password \<noteq> None then Inl GitURLUserinfo
          else if prefix' then Inl InvalidGitURL
          else if \<not> sshUserPattern user then Inl InvalidGitURL
          else Inr user)"

definition parseSchemeURL :: "netLib \<Rightarrow> gostring \<Rightarrow> bool \<Rightarrow> (gitErr, gitURL) res" where
  "parseSchemeURL N raw prefix' =
     (case nl_parse N raw of
        None \<Rightarrow> Inl InvalidGitURL
      | Some p \<Rightarrow>
          let scheme = nl_lower N (pu_scheme p) in
          bindE (checkSchemeAndQuery scheme p) (\<lambda>_.
          bindE (checkUserinfo scheme p prefix') (\<lambda>user.
            if pu_hostname p = [] \<or> \<not> hostPattern (hostWithBrackets N p) then Inl InvalidGitURL
            else bindE (schemeURLPath N (pu_escapedPath p) prefix') (\<lambda>path.
              Inr \<lparr>gu_scheme = scheme, gu_user = user, gu_host = hostWithBrackets N p,
                   gu_port = explicitPort scheme (pu_port p), gu_path = path, gu_scp = False\<rparr>))))"

definition parseSCPLike :: "netLib \<Rightarrow> gostring \<Rightarrow> gostring \<Rightarrow> gostring \<Rightarrow> (gitErr, gitURL) res" where
  "parseSCPLike N user host path =
     (if \<not> hostPattern host then Inl InvalidGitURL
      else bindE (checkPath N path) (\<lambda>_.
        Inr \<lparr>gu_scheme = ''ssh'', gu_user = user, gu_host = nl_lower N host, gu_port = [], gu_path = path, gu_scp = True\<rparr>))"

definition parseGitURLWith :: "netLib \<Rightarrow> gostring \<Rightarrow> bool \<Rightarrow> (gitErr, gitURL) res" where
  "parseGitURLWith N raw prefix' =
     (let trimmed = trimSpace raw in
      if trimmed = [] then Inl InvalidGitURL
      else if containsStr trimmed ''://'' then parseSchemeURL N trimmed prefix'
      else case scpLikePattern trimmed of
        Some (user, host, path) \<Rightarrow> if prefix' then Inl InvalidGitURL else parseSCPLike N user host path
      | None \<Rightarrow> Inl InvalidGitURL)"

definition parseGitURL :: "netLib \<Rightarrow> gostring \<Rightarrow> (gitErr, gitURL) res" where
  "parseGitURL N raw = parseGitURLWith N raw False"

definition parseGitPrefix :: "netLib \<Rightarrow> gostring \<Rightarrow> (gitErr, gitURL) res" where
  "parseGitPrefix N raw = parseGitURLWith N raw True"

definition gitURLString :: "gitURL \<Rightarrow> gostring" where
  "gitURLString u =
     (if gu_scp u then gu_user u @ ''@'' @ gu_host u @ '':'' @ gu_path u
      else gu_scheme u @ ''://'' @ (if gu_user u \<noteq> [] then gu_user u @ ''@'' else []) @ gu_host u @
        (if gu_port u \<noteq> [] then '':'' @ gu_port u else []) @ gu_path u)"

definition gitURLOrigin :: "gitURL \<Rightarrow> gostring" where
  "gitURLOrigin u =
     gu_scheme u @ ''://'' @ gu_host u @ '':'' @ (if gu_port u = [] then defaultPort (gu_scheme u) else gu_port u)"

text \<open>The requirement pointer's URL, ref and subdir.\<close>

definition splitSCM :: "gostring \<Rightarrow> gostring \<Rightarrow> gostring \<times> gostring \<times> gostring" where
  "splitSCM spec version =
     (let rawURL = trimSpace spec; ref = trimSpace version;
          (rawURL, ref) = (case cutAt CHR '','' rawURL of
              Some (before, after) \<Rightarrow> (before, after)
            | None \<Rightarrow> (rawURL, if ref = [] \<or> ref = ''*'' then ''HEAD'' else ref));
          rawURL = (if 4 \<le> length rawURL \<and> equalFold (take 4 rawURL) ''git+'' then drop 4 rawURL else rawURL)
      in case cutAt CHR ''#'' rawURL of
           Some (before, after) \<Rightarrow> (before, ref, trimBoth CHR ''/'' after)
         | None \<Rightarrow> (rawURL, ref, []))"

definition isGitPointer :: "netLib \<Rightarrow> gostring \<Rightarrow> bool" where
  "isGitPointer N value \<longleftrightarrow>
     (let lower = nl_lower N (trimSpace value) in hasPrefix lower ''git+'' \<or> hasPrefix lower ''git@'')"

end
