(* ===== verification/GitLocator.thy ===== *)
theory GitLocator imports GitSource begin

text \<open>
  Refs (\<^verbatim>\<open>ref.go\<close>) and git locators (\<^verbatim>\<open>locator.go\<close>): \<open>parseGitLocator\<close> and
  \<open>gitLocatorString\<close> are inverse, and what is accepted is exactly what a locator prints.
\<close>

section \<open>Refs\<close>

datatype refKind = RefHEAD | RefName | RefCommit | RefQualified

record gitRef =
  gr_name :: gostring
  gr_kind :: refKind

definition isCommitHash :: "gostring \<Rightarrow> bool" where
  "isCommitHash s \<longleftrightarrow> length s = 40 \<and> list_all (\<lambda>r. digitRune r \<or> 97 \<le> r \<and> r \<le> 102) (runes s)"

definition isHex :: "gostring \<Rightarrow> bool" where
  "isHex s \<longleftrightarrow> s \<noteq> [] \<and> list_all (\<lambda>r. digitRune r \<or> 97 \<le> r \<and> r \<le> 102 \<or> 65 \<le> r \<and> r \<le> 70) (runes s)"

definition refShapeOk :: "gostring \<Rightarrow> bool" where
  "refShapeOk name \<longleftrightarrow>
     \<not> (name = ''@'' \<or> containsStr name ''..'' \<or> containsStr name [CHR ''@'', CHR 0x7B]) \<and>
     \<not> (hasPrefix name ''/'' \<or> hasSuffix name ''/'' \<or> containsStr name ''//'') \<and> \<not> hasSuffix name ''.''"

definition isForbiddenRefRune :: "nat \<Rightarrow> bool" where
  "isForbiddenRefRune r \<longleftrightarrow> r < 0x20 \<or> r = 0x7F \<or> r = 0x20 \<or> oneOf (''~^:?*['' @ [CHR 0x5C]) r"

definition refComponentOk :: "gostring \<Rightarrow> bool" where
  "refComponentOk component \<longleftrightarrow>
     \<not> (hasPrefix component ''.'' \<or> hasSuffix component ''.lock'') \<and> \<not> (hasPrefix component ''-'' \<or> component = ''@'')"

definition checkRefFormat :: "gostring \<Rightarrow> (gitErr, unit) res" where
  "checkRefFormat name =
     (if \<not> refShapeOk name then Inl InvalidGitRef
      else if list_ex isForbiddenRefRune (runes name) then Inl InvalidGitRef
      else if \<not> list_all refComponentOk (splitStr name ''/'') then Inl InvalidGitRef
      else Inr ())"

text \<open>\<open>None\<close>: not read as a commit.\<close>

definition parseHexRef :: "netLib \<Rightarrow> gostring \<Rightarrow> (gitErr, gitRef option) res" where
  "parseHexRef N name =
     (if \<not> isHex name then Inr None
      else if length name = 40 then Inr (Some \<lparr>gr_name = nl_lower N name, gr_kind = RefCommit\<rparr>)
      else if 7 \<le> length name \<and> length name < 40 then Inl GitAbbreviatedCommit
      else Inr None)"

definition parseNamedRef :: "gostring \<Rightarrow> (gitErr, gitRef) res" where
  "parseNamedRef name =
     (if hasPrefix name ''refs/heads/'' \<or> hasPrefix name ''refs/tags/'' then
        bindE (checkRefFormat name) (\<lambda>_. Inr \<lparr>gr_name = name, gr_kind = RefQualified\<rparr>)
      else if hasPrefix name ''refs/'' then Inl InvalidGitRef
      else bindE (checkRefFormat (''refs/heads/'' @ name)) (\<lambda>_. Inr \<lparr>gr_name = name, gr_kind = RefName\<rparr>))"

definition parseRef :: "netLib \<Rightarrow> gostring \<Rightarrow> (gitErr, gitRef) res" where
  "parseRef N s =
     (let name = trimSpace s in
      if name = [] \<or> name = ''*'' \<or> name = ''HEAD'' then Inr \<lparr>gr_name = ''HEAD'', gr_kind = RefHEAD\<rparr>
      else bindE (parseHexRef N name) (\<lambda>hexRef. case hexRef of Some ref \<Rightarrow> Inr ref | None \<Rightarrow> parseNamedRef name))"

section \<open>Locators\<close>

record gitLocator =
  gl_url :: gostring
  gl_subdir :: gostring
  gl_commit :: gostring

definition gitLocatorString :: "gitLocator \<Rightarrow> gostring" where
  "gitLocatorString l =
     ''git+'' @ gl_url l @ ''#'' @ gl_subdir l @ (if gl_commit l \<noteq> [] then ''@'' @ gl_commit l else [])"

definition gitLocatorPinned :: "gitLocator \<Rightarrow> bool" where
  "gitLocatorPinned l \<longleftrightarrow> gl_commit l \<noteq> []"

definition isGitLocator :: "gostring \<Rightarrow> bool" where
  "isGitLocator s \<longleftrightarrow> hasPrefix s ''git+''"

definition parseSubdir :: "gostring \<Rightarrow> (gitErr, gostring) res" where
  "parseSubdir s =
     (let subdir = trimBoth CHR ''/'' (trimSpace s) in
      if subdir = [] then Inr []
      else if list_all (\<lambda>element. isPathElement element \<and> \<not> equalFold element ''.git'' \<and>
          \<not> list_ex (\<lambda>c. c = CHR ''@'' \<or> c = CHR 0x5C) element) (splitStr subdir ''/'') then Inr subdir
      else Inl InvalidGitSubdir)"

definition parseGitLocator :: "netLib \<Rightarrow> gostring \<Rightarrow> (gitErr, gitLocator) res" where
  "parseGitLocator N s =
     (if \<not> isGitLocator s then Inl InvalidGitLocator
      else case cutAt CHR ''#'' (drop 4 s) of
        None \<Rightarrow> Inl InvalidGitLocator
      | Some (rawURL, remainder) \<Rightarrow>
          if (case parseGitURL N rawURL of Inl _ \<Rightarrow> True | Inr u \<Rightarrow> gitURLString u \<noteq> rawURL) then Inl InvalidGitLocator
          else
            let (subdir, commit, hasCommit) =
                  (case cutLastAt CHR ''@'' remainder of None \<Rightarrow> (remainder, [], False) | Some (before, after) \<Rightarrow> (before, after, True))
            in if hasCommit \<and> \<not> isCommitHash commit then Inl InvalidGitLocator
               else if subdir \<noteq> [] \<and> (case parseSubdir subdir of Inl _ \<Rightarrow> True | Inr _ \<Rightarrow> False) then Inl InvalidGitLocator
               else Inr \<lparr>gl_url = rawURL, gl_subdir = subdir, gl_commit = commit\<rparr>)"

definition gitPinKey :: "gostring \<Rightarrow> gostring \<Rightarrow> gostring \<Rightarrow> gostring" where
  "gitPinKey url ref subdir = url @ [CHR 0x0A] @ ref @ [CHR 0x0A] @ subdir"

section \<open>Cutting\<close>

lemma cutAt_Some: "cutAt sep s = Some (a, b) \<longleftrightarrow> s = a @ sep # b \<and> sep \<notin> set a"
proof
  assume "cutAt sep s = Some (a, b)"
  then have s: "sep \<in> set s" "a = takeWhile (\<lambda>c. c \<noteq> sep) s" "b = tl (dropWhile (\<lambda>c. c \<noteq> sep) s)"
    by (auto simp: cutAt_def split: if_splits)
  from s(1) have "dropWhile (\<lambda>c. c \<noteq> sep) s \<noteq> []" by (auto simp: dropWhile_eq_Nil_conv)
  moreover from hd_dropWhile [OF this] have "hd (dropWhile (\<lambda>c. c \<noteq> sep) s) = sep" by simp
  ultimately have "dropWhile (\<lambda>c. c \<noteq> sep) s = sep # b" using s(3) by (metis list.collapse)
  with s(2) show "s = a @ sep # b \<and> sep \<notin> set a" by (metis (mono_tags, lifting) set_takeWhileD takeWhile_dropWhile_id)
next
  assume "s = a @ sep # b \<and> sep \<notin> set a"
  then show "cutAt sep s = Some (a, b)" by (auto simp: cutAt_def takeWhile_append dropWhile_append3 takeWhile_eq_all_conv dropWhile_append)
qed

lemma cutAt_None: "cutAt sep s = None \<longleftrightarrow> sep \<notin> set s"
  by (simp add: cutAt_def)

lemma cutLastAt_Some: "cutLastAt sep s = Some (a, b) \<longleftrightarrow> s = a @ sep # b \<and> sep \<notin> set b"
proof -
  have "cutLastAt sep s = Some (a, b) \<longleftrightarrow> cutAt sep (rev s) = Some (rev b, rev a)"
    by (auto simp: cutLastAt_def split: option.splits)
  also have "\<dots> \<longleftrightarrow> rev s = rev b @ sep # rev a \<and> sep \<notin> set b" by (simp add: cutAt_Some)
  also have "rev s = rev b @ sep # rev a \<longleftrightarrow> s = a @ sep # b"
    by (metis append.assoc append_Cons append_Nil rev.simps(2) rev_append rev_rev_ident)
  finally show ?thesis .
qed

lemma cutLastAt_None: "cutLastAt sep s = None \<longleftrightarrow> sep \<notin> set s"
  by (simp add: cutLastAt_def cutAt_def)

section \<open>What a canonical URL cannot hold\<close>

lemma commitHash_bytes: "isCommitHash s \<longleftrightarrow> length s = 40 \<and> list_all (inClass [d09, afl]) s"
proof -
  have "list_all (\<lambda>r. digitRune r \<or> 97 \<le> r \<and> r \<le> 102) (runes s) \<longleftrightarrow>
      list_all (\<lambda>c. digitRune (byteOf c) \<or> 97 \<le> byteOf c \<and> byteOf c \<le> 102) s"
    by (rule list_all_runes) (auto simp: digitRune_def)
  then show ?thesis
    by (simp add: isCommitHash_def list_all_iff rune_class less_eq_char_def byteOf_def digitRune_def)
qed

lemma pathRunes_bytes:
  "list_all isPathRune (runes s) \<longleftrightarrow> list_all (\<lambda>c. isPathRune (byteOf c)) s"
  by (rule list_all_runes) (auto simp: isPathRune_def lowerRune_def upperRune_def digitRune_def oneOf_def byteOf_def)

lemma checkPath_bytes: "checkPath N path = Inr u \<Longrightarrow> list_all (\<lambda>c. isPathRune (byteOf c)) path"
  by (auto simp: checkPath_def pathRunes_bytes split: if_splits)

lemma not_in_class: "list_all (inClass cs) s \<Longrightarrow> \<not> inClass cs c \<Longrightarrow> c \<notin> set s"
  by (auto simp: list_all_iff)

text \<open>
  What is used of the library: a port is decimal digits, and lower-casing an ASCII text
  lower-cases its letters.
\<close>

definition netLaws :: "netLib \<Rightarrow> bool" where
  "netLaws N \<longleftrightarrow>
     (\<forall>s p. nl_parse N s = Some p \<longrightarrow> list_all (inClass [d09]) (pu_port p)) \<and>
     (\<forall>s. list_all (\<lambda>c. byteOf c < 0x80) s \<longrightarrow> nl_lower N s = List.map asciiLower s)"

definition canonicalGitURL :: "netLib \<Rightarrow> gostring \<Rightarrow> bool" where
  "canonicalGitURL N raw \<longleftrightarrow> (case parseGitURL N raw of Inl _ \<Rightarrow> False | Inr u \<Rightarrow> gitURLString u = raw)"

abbreviation (input) "hashSign \<equiv> CHR ''#''"

lemma hostPattern_cases:
  assumes "hostPattern s"
  obtains (bracketed) m where "s = CHR ''['' # m @ [CHR '']'']" "list_all (inClass [d09, AFu, afl, colonSign, dot]) m"
  | (plain) "list_all (inClass [AZ, az, d09, dot, dash]) s"
proof -
  from assms consider
      (b) "3 \<le> length s" "hd s = CHR ''[''" "last s = CHR '']''" "list_all (inClass [d09, AFu, afl, colonSign, dot]) (butlast (tl s))"
    | (p) "list_all (inClass [AZ, az, d09, dot, dash]) s"
    unfolding hostPattern_def by blast
  then show thesis
  proof cases
    case b
    then obtain r where s: "s = CHR ''['' # r" "r \<noteq> []" by (cases s; cases "tl s") auto
    with b(3) have "s = CHR ''['' # butlast r @ [CHR '']'']" by (metis append_butlast_last_id last_ConsR)
    with b(4) s show thesis by (intro bracketed) auto
  next
    case p
    then show thesis by (rule plain)
  qed
qed

lemma hash_host: "hostPattern s \<Longrightarrow> hashSign \<notin> set s"
  by (erule hostPattern_cases) (auto dest: not_in_class [of _ _ hashSign])

lemma class_ascii:
  "list_all (inClass [d09, AFu, afl, colonSign, dot]) s \<Longrightarrow> list_all (\<lambda>c. byteOf c < 0x80) s"
  "list_all (inClass [AZ, az, d09, dot, dash]) s \<Longrightarrow> list_all (\<lambda>c. byteOf c < 0x80) s"
  by (auto simp: list_all_iff less_eq_char_def byteOf_def)

lemma host_ascii: "hostPattern s \<Longrightarrow> list_all (\<lambda>c. byteOf c < 0x80) s"
  by (erule hostPattern_cases) (auto dest!: class_ascii simp: byteOf_def)

lemma asciiLower_hash: "asciiLower c = hashSign \<Longrightarrow> c = hashSign"
proof (cases "CHR ''A'' \<le> c \<and> c \<le> CHR ''Z''")
  case True
  assume "asciiLower c = hashSign"
  with True have "byteOf (char_of (byteOf c + 32)) = 35" by (simp add: asciiLower_def byteOf_def)
  moreover have "byteOf c \<le> 90" using True by (simp add: less_eq_char_def byteOf_def)
  ultimately show ?thesis using True by (simp add: byteOf_char less_eq_char_def byteOf_def)
qed (simp add: asciiLower_def)

lemma hash_lower_host:
  assumes "netLaws N" "hostPattern s"
  shows "hashSign \<notin> set (nl_lower N s)"
proof -
  have "nl_lower N s = List.map asciiLower s" using assms host_ascii by (simp add: netLaws_def)
  with hash_host [OF assms(2)] asciiLower_hash show ?thesis by (metis (no_types, lifting) imageE list.set_map)
qed

lemma hash_user: "sshUserPattern s \<Longrightarrow> hashSign \<notin> set s"
  by (auto simp: sshUserPattern_def dest: not_in_class [of _ _ hashSign])

lemma hash_path: "checkPath N path = Inr u \<Longrightarrow> hashSign \<notin> set path"
proof
  assume "checkPath N path = Inr u" "hashSign \<in> set path"
  then have "isPathRune (byteOf hashSign)" using checkPath_bytes [of N path u] by (simp add: list_all_iff)
  then show False by (simp add: isPathRune_def lowerRune_def upperRune_def digitRune_def oneOf_def byteOf_def)
qed

lemma hash_scheme_url:
  assumes laws: "netLaws N" and u: "parseSchemeURL N raw False = Inr u"
  shows "hashSign \<notin> set (gitURLString u)"
proof -
  from u obtain p where p: "nl_parse N raw = Some p" by (auto simp: parseSchemeURL_def split: option.splits)
  with u have scheme: "gu_scheme u \<in> {''https'', ''http'', ''ssh''}" and user: "gu_user u = [] \<or> sshUserPattern (gu_user u)"
    and host: "hostPattern (gu_host u)" and port: "gu_port u = [] \<or> gu_port u = pu_port p"
    and path: "\<exists>v. checkPath N (gu_path u) = Inr v" and scp: "\<not> gu_scp u"
    by (auto simp: parseSchemeURL_def Let_def bindE_Inr_iff checkSchemeAndQuery_def checkUserinfo_def schemeURLPath_def explicitPort_def
        split: option.splits if_splits)
  have "list_all (inClass [d09]) (pu_port p)" using laws p by (simp add: netLaws_def)
  then have "hashSign \<notin> set (pu_port p)" by (rule not_in_class) simp
  with port have "hashSign \<notin> set (gu_port u)" by auto
  moreover have "hashSign \<notin> set (gu_user u)" using user hash_user by auto
  moreover have "hashSign \<notin> set (gu_path u)" using path hash_path by blast
  moreover have "hashSign \<notin> set (gu_host u)" using host by (rule hash_host)
  ultimately show ?thesis using scheme scp by (auto simp: gitURLString_def)
qed

lemma hash_scp_url:
  assumes "netLaws N" "scpLikePattern raw = Some (user, host, path)" "parseSCPLike N user host path = Inr u"
  shows "hashSign \<notin> set (gitURLString u)"
proof -
  from assms(2) have "sshUserPattern user" by (auto simp: scpLikePattern_def split: option.splits if_splits)
  moreover from assms(3) have "hostPattern host" "\<exists>v. checkPath N path = Inr v"
    "u = \<lparr>gu_scheme = ''ssh'', gu_user = user, gu_host = nl_lower N host, gu_port = [], gu_path = path, gu_scp = True\<rparr>"
    by (auto simp: parseSCPLike_def bindE_Inr_iff split: if_splits)
  ultimately show ?thesis using hash_user hash_path hash_lower_host [OF assms(1)] by (auto simp: gitURLString_def)
qed

lemma canonicalGitURL_hash: "netLaws N \<Longrightarrow> canonicalGitURL N raw \<Longrightarrow> hashSign \<notin> set raw"
  unfolding canonicalGitURL_def parseGitURL_def parseGitURLWith_def Let_def
  by (auto split: sum.splits if_splits option.splits prod.splits dest: hash_scheme_url hash_scp_url)

text \<open>A subdir that parses holds no commit separator.\<close>

lemma trimBoth_bytes: "c \<in> set s \<Longrightarrow> c = d \<or> c \<in> set (trimBoth d s)"
proof -
  have "c \<in> set s \<Longrightarrow> c = d \<or> c \<in> set (dropWhile (\<lambda>x. x = d) s)" for s by (induction s) auto
  from this [of s] this [of "rev (dropWhile (\<lambda>x. x = d) s)"] show "c \<in> set s \<Longrightarrow> c = d \<or> c \<in> set (trimBoth d s)"
    by (auto simp: trimBoth_def trimRightOf_def trimLeftByte_def)
qed

lemma parseSubdir_at: "parseSubdir s = Inr d \<Longrightarrow> CHR ''@'' \<notin> set s"
proof
  assume ok: "parseSubdir s = Inr d" and at: "CHR ''@'' \<in> set s"
  have "\<forall>w \<in> set goSpaces. CHR ''@'' \<notin> set w" by (rule goSpaces_graphic) simp_all
  with trimSpace_bytes [OF at] have "CHR ''@'' \<in> set (trimSpace s)" by blast
  from trimBoth_bytes [OF this, of "CHR ''/''"] have t: "CHR ''@'' \<in> set (trimBoth CHR ''/'' (trimSpace s))" by simp
  from set_splitStr [OF _ t, of "''/''"] obtain el where
    "el \<in> set (splitStr (trimBoth CHR ''/'' (trimSpace s)) ''/'')" "CHR ''@'' \<in> set el" by auto
  moreover from t have "trimBoth CHR ''/'' (trimSpace s) \<noteq> []" by auto
  ultimately show False using ok by (auto simp: parseSubdir_def Let_def list_all_iff list_ex_iff split: if_splits)
qed

lemma commitHash_at: "isCommitHash s \<Longrightarrow> CHR ''@'' \<notin> set s"
  unfolding commitHash_bytes by (auto dest: not_in_class [of _ _ "CHR ''@''"])

text \<open>A text is a locator exactly when a well-formed locator prints it.\<close>

definition wfGitLocator :: "netLib \<Rightarrow> gitLocator \<Rightarrow> bool" where
  "wfGitLocator N l \<longleftrightarrow> canonicalGitURL N (gl_url l) \<and>
     (gl_subdir l = [] \<or> (case parseSubdir (gl_subdir l) of Inl _ \<Rightarrow> False | Inr _ \<Rightarrow> True)) \<and>
     (gl_commit l = [] \<or> isCommitHash (gl_commit l))"

lemma parseGitLocator_string:
  assumes "netLaws N" "wfGitLocator N l"
  shows "parseGitLocator N (gitLocatorString l) = Inr l"
proof -
  let ?rest = "gl_subdir l @ (if gl_commit l \<noteq> [] then ''@'' @ gl_commit l else [])"
  from assms have url: "canonicalGitURL N (gl_url l)" and sub: "gl_subdir l \<noteq> [] \<Longrightarrow> \<exists>d. parseSubdir (gl_subdir l) = Inr d"
    and commit: "gl_commit l \<noteq> [] \<Longrightarrow> isCommitHash (gl_commit l)"
    by (auto simp: wfGitLocator_def split: sum.splits)
  have cut: "cutAt hashSign (drop 4 (gitLocatorString l)) = Some (gl_url l, ?rest)"
    using canonicalGitURL_hash [OF assms(1) url] by (simp add: cutAt_Some gitLocatorString_def)
  have at: "CHR ''@'' \<notin> set (gl_subdir l)" using sub parseSubdir_at by (cases "gl_subdir l = []") auto
  have last: "cutLastAt CHR ''@'' ?rest = (if gl_commit l = [] then None else Some (gl_subdir l, gl_commit l))"
    using at commit commitHash_at by (auto simp: cutLastAt_Some cutLastAt_None)
  show ?thesis
    unfolding parseGitLocator_def cut option.case prod.case last
    using url sub commit
    by (cases "gl_subdir l = []") (auto simp: isGitLocator_def hasPrefix_def gitLocatorString_def canonicalGitURL_def Let_def split: sum.splits)
qed

lemma gitLocatorString_parse:
  assumes "parseGitLocator N s = Inr l"
  shows "gitLocatorString l = s \<and> wfGitLocator N l"
proof -
  from assms obtain raw rest where pre: "isGitLocator s" and cut: "cutAt hashSign (drop 4 s) = Some (raw, rest)"
    by (auto simp: parseGitLocator_def split: if_splits option.splits)
  from pre have s: "s = ''git+'' @ raw @ hashSign # rest" using cut by (auto simp: isGitLocator_def hasPrefix_def cutAt_Some elim!: prefixE)
  have url: "canonicalGitURL N raw"
    using assms pre cut by (auto simp: parseGitLocator_def canonicalGitURL_def split: if_splits sum.splits)
  show ?thesis
  proof (cases "cutLastAt CHR ''@'' rest")
    case None
    then have l: "l = \<lparr>gl_url = raw, gl_subdir = rest, gl_commit = []\<rparr>" "rest \<noteq> [] \<longrightarrow> (\<exists>d. parseSubdir rest = Inr d)"
      using assms pre cut by (auto simp: parseGitLocator_def split: if_splits sum.splits)
    with s url show ?thesis by (auto simp: gitLocatorString_def wfGitLocator_def split: sum.splits)
  next
    case (Some bc)
    obtain b c where bc: "bc = (b, c)" by (cases bc)
    with Some have l: "l = \<lparr>gl_url = raw, gl_subdir = b, gl_commit = c\<rparr>" "isCommitHash c" "b \<noteq> [] \<longrightarrow> (\<exists>d. parseSubdir b = Inr d)"
      using assms pre cut by (auto simp: parseGitLocator_def split: if_splits sum.splits)
    moreover have "rest = b @ CHR ''@'' # c" using Some bc by (simp add: cutLastAt_Some)
    moreover have "c \<noteq> []" using l(2) by (auto simp: isCommitHash_def)
    ultimately show ?thesis using s url by (auto simp: gitLocatorString_def wfGitLocator_def split: sum.splits)
  qed
qed

end
