(* ===== verification/URLSource.thy ===== *)
theory URLSource imports GitLocator begin

text \<open>
  \<^verbatim>\<open>internal/galaxy/urlsource\<close>: tarball URLs (\<^verbatim>\<open>url.go\<close>) and their locators
  (\<^verbatim>\<open>locator.go\<close>). A tarball URL may embed one more in its path, so the parser calls itself;
  \<open>fuel\<close> bounds that nesting, and enough fuel is three times the text's length.
\<close>

section \<open>Tarball URLs\<close>

record tarURL =
  tu_scheme :: gostring
  tu_host :: gostring
  tu_port :: gostring
  tu_path :: gostring
  tu_query :: gostring

datatype urlErr = InvalidURLRequirement | URLRequirementUserinfo | InvalidURLLocator | URLCredentialInvalid | NestingExhausted

definition isHTTPURL :: "netLib \<Rightarrow> gostring \<Rightarrow> bool" where
  "isHTTPURL N value \<longleftrightarrow>
     (let lower = nl_lower N (trimSpace value) in hasPrefix lower ''https://'' \<or> hasPrefix lower ''http://'')"

definition defaultTarPort :: "gostring \<Rightarrow> gostring" where
  "defaultTarPort scheme = (if scheme = ''https'' then ''443'' else if scheme = ''http'' then ''80'' else [])"

definition explicitTarPort :: "gostring \<Rightarrow> gostring \<Rightarrow> gostring" where
  "explicitTarPort scheme port = (if port = defaultTarPort scheme then [] else port)"

definition isTarPathRune :: "nat \<Rightarrow> bool" where
  "isTarPathRune r \<longleftrightarrow> lowerRune r \<or> upperRune r \<or> digitRune r \<or> oneOf ''/.-_~+%@(),=:!'' r"

definition checkTarPath :: "netLib \<Rightarrow> gostring \<Rightarrow> bool \<Rightarrow> (urlErr, unit) res" where
  "checkTarPath N path prefix' =
     (if \<not> list_all isTarPathRune (runes path) then Inl InvalidURLRequirement
      else if path = [] \<or> path = ''/'' \<and> \<not> prefix' then Inr ()
      else if list_all (\<lambda>segment. replaceAll (nl_lower N segment) ''%2e'' ''.'' \<notin> {[], ''.'', ''..''}) (splitStr (trimPrefix path ''/'') ''/'')
      then Inr () else Inl InvalidURLRequirement)"

definition checkQuery :: "parsedURL \<Rightarrow> (urlErr, unit) res" where
  "checkQuery p =
     (if list_all (\<lambda>r. isTarPathRune r \<or> oneOf ''&?;'' r) (runes (pu_rawQuery p)) then Inr () else Inl InvalidURLRequirement)"

definition parseSchemeHost :: "netLib \<Rightarrow> gostring \<Rightarrow> (urlErr, parsedURL \<times> gostring) res" where
  "parseSchemeHost N trimmed =
     (if \<not> containsStr trimmed ''://'' then Inl InvalidURLRequirement
      else case nl_parse N trimmed of
        None \<Rightarrow> Inl InvalidURLRequirement
      | Some p \<Rightarrow>
          let scheme = nl_lower N (pu_scheme p) in
          if scheme \<noteq> ''https'' \<and> scheme \<noteq> ''http'' then Inl InvalidURLRequirement
          else if pu_hostname p = [] \<or> \<not> hostPattern (hostWithBrackets N p) then Inl InvalidURLRequirement
          else Inr (p, scheme))"

text \<open>The head and the embedded URL; the earlier marker wins.\<close>

definition splitEmbeddedPath :: "gostring \<Rightarrow> gostring \<times> gostring" where
  "splitEmbeddedPath path =
     (let https = (case indexStr path ''/https://'' of None \<Rightarrow> length path | Some i \<Rightarrow> i);
          idx = (case indexStr path ''/http://'' of None \<Rightarrow> https | Some i \<Rightarrow> if i < https then i else https)
      in if idx = length path then (path, []) else (take idx path, drop (idx + 1) path))"

definition tarURLString :: "tarURL \<Rightarrow> gostring" where
  "tarURLString u =
     tu_scheme u @ ''://'' @ tu_host u @ (if tu_port u \<noteq> [] then '':'' @ tu_port u else []) @ tu_path u @
     (if tu_query u \<noteq> [] then ''?'' @ tu_query u else [])"

text \<open>\<open>parse\<close> is the parser for an embedded URL.\<close>

definition checkSourcePath :: "(gostring \<Rightarrow> (urlErr, tarURL) res) \<Rightarrow> netLib \<Rightarrow> gostring \<Rightarrow> (urlErr, unit) res" where
  "checkSourcePath parse N path =
     (let (head, embedded) = splitEmbeddedPath path in
      if embedded = [] then checkTarPath N path False
      else bindE (if head \<noteq> [] then checkTarPath N head True else Inr ()) (\<lambda>_.
        bindE (parse embedded) (\<lambda>u. if tarURLString u \<noteq> embedded then Inl InvalidURLRequirement else Inr ())))"

definition parseTarURLStep :: "(gostring \<Rightarrow> (urlErr, tarURL) res) \<Rightarrow> netLib \<Rightarrow> gostring \<Rightarrow> (urlErr, tarURL) res" where
  "parseTarURLStep parse N raw =
     (let trimmed = trimSpace raw in
      if trimmed = [] then Inl InvalidURLRequirement
      else if CHR ''#'' \<in> set trimmed then Inl InvalidURLRequirement
      else bindE (parseSchemeHost N trimmed) (\<lambda>(p, scheme).
        if pu_user p \<noteq> None then Inl URLRequirementUserinfo
        else let path = pu_escapedPath p in
          bindE (checkSourcePath parse N path) (\<lambda>_.
          bindE (checkQuery p) (\<lambda>_.
            if (path = [] \<or> path = ''/'') \<and> pu_rawQuery p = [] then Inl InvalidURLRequirement
            else Inr \<lparr>tu_scheme = scheme, tu_host = hostWithBrackets N p, tu_port = explicitTarPort scheme (pu_port p),
                      tu_path = path, tu_query = pu_rawQuery p\<rparr>))))"

fun parseTarURLFuel :: "nat \<Rightarrow> netLib \<Rightarrow> gostring \<Rightarrow> (urlErr, tarURL) res" where
  "parseTarURLFuel 0 N raw = Inl NestingExhausted"
| "parseTarURLFuel (Suc fuel) N raw = parseTarURLStep (parseTarURLFuel fuel N) N raw"

definition parseTarURL :: "netLib \<Rightarrow> gostring \<Rightarrow> (urlErr, tarURL) res" where
  "parseTarURL N raw = parseTarURLFuel (3 * length raw + 2) N raw"

section \<open>Credential prefixes\<close>

record tarPrefix =
  tp_scheme :: gostring
  tp_host :: gostring
  tp_port :: gostring
  tp_path :: gostring

definition parsePrefixShape :: "netLib \<Rightarrow> gostring \<Rightarrow> (urlErr, parsedURL \<times> gostring) res" where
  "parsePrefixShape N trimmed =
     (if trimmed = [] then Inl URLCredentialInvalid
      else if CHR ''#'' \<in> set trimmed then Inl URLCredentialInvalid
      else case parseSchemeHost N trimmed of
        Inl _ \<Rightarrow> Inl URLCredentialInvalid
      | Inr (p, scheme) \<Rightarrow>
          if pu_user p \<noteq> None then Inl URLCredentialInvalid
          else if pu_rawQuery p \<noteq> [] \<or> pu_forceQuery p then Inl URLCredentialInvalid
          else Inr (p, scheme))"

definition parseTarPrefix :: "netLib \<Rightarrow> gostring \<Rightarrow> (urlErr, tarPrefix) res" where
  "parseTarPrefix N raw =
     bindE (parsePrefixShape N (trimSpace raw)) (\<lambda>(p, scheme).
       let path = trimRightOf CHR ''/'' (pu_escapedPath p) in
       if path \<noteq> [] \<and> (case checkTarPath N path True of Inl _ \<Rightarrow> True | Inr _ \<Rightarrow> False) then Inl URLCredentialInvalid
       else Inr \<lparr>tp_scheme = scheme, tp_host = hostWithBrackets N p, tp_port = explicitTarPort scheme (pu_port p), tp_path = path\<rparr>)"

definition tarPrefixString :: "tarPrefix \<Rightarrow> gostring" where
  "tarPrefixString p = tp_scheme p @ ''://'' @ tp_host p @ (if tp_port p \<noteq> [] then '':'' @ tp_port p else []) @ tp_path p"

definition trimBrackets :: "gostring \<Rightarrow> gostring" where
  "trimBrackets s = (let b = (\<lambda>c. c = CHR ''['' \<or> c = CHR '']'') in rev (dropWhile b (rev (dropWhile b s))))"

definition tarPrefixOrigin :: "tarPrefix \<Rightarrow> gostring" where
  "tarPrefixOrigin p =
     tp_scheme p @ ''://'' @ trimBrackets (tp_host p) @ '':'' @
     (if tp_port p = [] then defaultTarPort (tp_scheme p) else tp_port p)"

section \<open>Locators\<close>

record tarLocator =
  tl_url :: gostring
  tl_sha256 :: gostring

definition tarLocatorString :: "tarLocator \<Rightarrow> gostring" where
  "tarLocatorString l = ''url+'' @ tl_url l @ ''#'' @ (if tl_sha256 l \<noteq> [] then ''sha256:'' @ tl_sha256 l else [])"

definition isTarLocator :: "gostring \<Rightarrow> bool" where
  "isTarLocator s \<longleftrightarrow> hasPrefix s ''url+''"

definition parseTarLocator :: "netLib \<Rightarrow> gostring \<Rightarrow> (urlErr, tarLocator) res" where
  "parseTarLocator N s =
     (if \<not> isTarLocator s then Inl InvalidURLLocator
      else case cutAt CHR ''#'' (drop 4 s) of
        None \<Rightarrow> Inl InvalidURLLocator
      | Some (rawURL, pin) \<Rightarrow>
          if (case parseTarURL N rawURL of Inl _ \<Rightarrow> True | Inr u \<Rightarrow> tarURLString u \<noteq> rawURL) then Inl InvalidURLLocator
          else if pin = [] then Inr \<lparr>tl_url = rawURL, tl_sha256 = []\<rparr>
          else if \<not> hasPrefix pin ''sha256:'' \<or> \<not> isSHA256Hex (drop 7 pin) then Inl InvalidURLLocator
          else Inr \<lparr>tl_url = rawURL, tl_sha256 = drop 7 pin\<rparr>)"

definition urlPinKey :: "gostring \<Rightarrow> gostring" where "urlPinKey url = url"

definition canonicalTarURL :: "netLib \<Rightarrow> gostring \<Rightarrow> bool" where
  "canonicalTarURL N raw \<longleftrightarrow> (case parseTarURL N raw of Inl _ \<Rightarrow> False | Inr u \<Rightarrow> tarURLString u = raw)"

definition wfTarLocator :: "netLib \<Rightarrow> tarLocator \<Rightarrow> bool" where
  "wfTarLocator N l \<longleftrightarrow> canonicalTarURL N (tl_url l) \<and> (tl_sha256 l = [] \<or> isSHA256Hex (tl_sha256 l))"

lemma canonicalTarURL_hash: "canonicalTarURL N raw \<Longrightarrow> hashSign \<notin> set raw"
proof -
  assume "canonicalTarURL N raw"
  then have "hashSign \<notin> set (trimSpace raw)"
    by (auto simp: canonicalTarURL_def parseTarURL_def parseTarURLStep_def Let_def split: sum.splits if_splits)
  moreover have "\<forall>w \<in> set goSpaces. hashSign \<notin> set w" by (rule goSpaces_graphic) simp_all
  ultimately show ?thesis using trimSpace_bytes by blast
qed

lemma parseTarLocator_iff: "parseTarLocator N s = Inr l \<longleftrightarrow> s = tarLocatorString l \<and> wfTarLocator N l"
proof
  assume ok: "parseTarLocator N s = Inr l"
  then obtain raw pin where pre: "isTarLocator s" and cut: "cutAt hashSign (drop 4 s) = Some (raw, pin)"
    by (auto simp: parseTarLocator_def split: if_splits option.splits)
  then have s: "s = ''url+'' @ raw @ hashSign # pin" by (auto simp: isTarLocator_def hasPrefix_def cutAt_Some elim!: prefixE)
  from ok pre cut have url: "canonicalTarURL N raw"
    and l: "pin = [] \<and> l = \<lparr>tl_url = raw, tl_sha256 = []\<rparr> \<or>
      hasPrefix pin ''sha256:'' \<and> isSHA256Hex (drop 7 pin) \<and> l = \<lparr>tl_url = raw, tl_sha256 = drop 7 pin\<rparr>"
    by (auto simp: parseTarLocator_def canonicalTarURL_def split: if_splits sum.splits)
  from l show "s = tarLocatorString l \<and> wfTarLocator N l"
  proof (elim disjE conjE)
    assume "hasPrefix pin ''sha256:''" "isSHA256Hex (drop 7 pin)" "l = \<lparr>tl_url = raw, tl_sha256 = drop 7 pin\<rparr>"
    moreover from this(1) obtain r where "pin = ''sha256:'' @ r" by (auto simp: hasPrefix_def elim: prefixE)
    ultimately show ?thesis using s url by (auto simp: tarLocatorString_def wfTarLocator_def isSHA256Hex_def)
  qed (use s url in \<open>simp add: tarLocatorString_def wfTarLocator_def\<close>)
next
  assume r: "s = tarLocatorString l \<and> wfTarLocator N l"
  then have "hashSign \<notin> set (tl_url l)" using canonicalTarURL_hash by (auto simp: wfTarLocator_def)
  then have cut: "cutAt hashSign (drop 4 s) = Some (tl_url l, if tl_sha256 l \<noteq> [] then ''sha256:'' @ tl_sha256 l else [])"
    using r by (simp add: cutAt_Some tarLocatorString_def)
  show "parseTarLocator N s = Inr l"
    unfolding parseTarLocator_def cut option.case prod.case
    using r by (auto simp: wfTarLocator_def canonicalTarURL_def isTarLocator_def hasPrefix_def tarLocatorString_def split: sum.splits)
qed

section \<open>The fuel is enough\<close>

text \<open>
  Escaping at most triples a text, and a part of an escaped path that is itself a URL with a
  host has a shorter path.
\<close>

definition escapeLaws :: "netLib \<Rightarrow> bool" where
  "escapeLaws N \<longleftrightarrow>
     (\<forall>s p. nl_parse N s = Some p \<longrightarrow> length (pu_escapedPath p) \<le> 3 * length s) \<and>
     (\<forall>t p s q. nl_parse N t = Some p \<and> sublist s (pu_escapedPath p) \<and> nl_parse N s = Some q \<and> pu_hostname q \<noteq> [] \<longrightarrow>
        length (pu_escapedPath q) < length s)"

lemma embedded_suffix: "suffix (snd (splitEmbeddedPath path)) path"
  by (auto simp: splitEmbeddedPath_def Let_def suffix_drop split: option.splits)

lemma checkTarPath_err: "checkTarPath N path b \<noteq> Inl NestingExhausted"
  by (simp add: checkTarPath_def)

lemma step_exhausted:
  assumes "parseTarURLStep parse N raw = Inl NestingExhausted"
  shows "\<exists>q. nl_parse N (trimSpace raw) = Some q \<and> pu_hostname q \<noteq> [] \<and>
    parse (snd (splitEmbeddedPath (pu_escapedPath q))) = Inl NestingExhausted"
proof -
  from assms obtain q scheme where h: "parseSchemeHost N (trimSpace raw) = Inr (q, scheme)"
    and c: "checkSourcePath parse N (pu_escapedPath q) = Inl NestingExhausted"
    by (auto simp: parseTarURLStep_def parseSchemeHost_def checkQuery_def Let_def bindE_Inl_iff split: if_splits option.splits prod.splits)
  from h have "nl_parse N (trimSpace raw) = Some q" "pu_hostname q \<noteq> []"
    by (auto simp: parseSchemeHost_def Let_def split: if_splits option.splits)
  moreover from c have "parse (snd (splitEmbeddedPath (pu_escapedPath q))) = Inl NestingExhausted"
    by (cases "splitEmbeddedPath (pu_escapedPath q)") (auto simp: checkSourcePath_def bindE_Inl_iff checkTarPath_err split: if_splits)
  ultimately show ?thesis by blast
qed

lemma length_trimSpace: "length (trimSpace s) \<le> length s"
proof -
  have le: "length (trimLeftOf ws t) \<le> length t" for ws t
    using trimLeftOf_suffix [of ws t] by (auto dest: suffix_length_le)
  show ?thesis using le [of "List.map rev goSpaces" "rev (trimLeftOf goSpaces s)"] le [of goSpaces s] by (simp add: trimSpace_def)
qed

lemma sublist_trimSpace: "sublist (trimSpace s) s"
proof -
  have "suffix (trimLeftOf goSpaces s) s" by (rule trimLeftOf_suffix)
  moreover have "prefix (trimSpace s) (trimLeftOf goSpaces s)"
    using trimLeftOf_suffix [of "List.map rev goSpaces" "rev (trimLeftOf goSpaces s)"]
    by (simp add: trimSpace_def suffix_to_prefix)
  ultimately show ?thesis by (metis prefix_imp_sublist sublist_order.order.trans suffix_imp_sublist)
qed

lemma embedded_fuel:
  assumes laws: "escapeLaws N"
  shows "nl_parse N t = Some p \<Longrightarrow> sublist raw (pu_escapedPath p) \<Longrightarrow> length raw < fuel \<Longrightarrow>
    parseTarURLFuel fuel N raw \<noteq> Inl NestingExhausted"
proof (induction fuel arbitrary: t p raw)
  case 0
  then show ?case by simp
next
  case (Suc fuel)
  show ?case
  proof
    assume "parseTarURLFuel (Suc fuel) N raw = Inl NestingExhausted"
    then obtain q where q: "nl_parse N (trimSpace raw) = Some q" "pu_hostname q \<noteq> []"
      and e: "parseTarURLFuel fuel N (snd (splitEmbeddedPath (pu_escapedPath q))) = Inl NestingExhausted"
      using step_exhausted by fastforce
    have sub: "sublist (trimSpace raw) (pu_escapedPath p)" using sublist_trimSpace Suc.prems(2) by (rule sublist_order.order.trans)
    have "length (pu_escapedPath q) < length (trimSpace raw)" using laws Suc.prems(1) sub q unfolding escapeLaws_def by blast
    then have "length (snd (splitEmbeddedPath (pu_escapedPath q))) < fuel"
      using embedded_suffix [of "pu_escapedPath q"] length_trimSpace [of raw] Suc.prems(3) by (auto dest: suffix_length_le)
    from Suc.IH [OF q(1) suffix_imp_sublist [OF embedded_suffix] this] e show False by blast
  qed
qed

lemma parseTarURL_fuel:
  assumes "escapeLaws N"
  shows "parseTarURL N raw \<noteq> Inl NestingExhausted"
proof
  assume "parseTarURL N raw = Inl NestingExhausted"
  then have "parseTarURLStep (parseTarURLFuel (3 * length raw + 1) N) N raw = Inl NestingExhausted"
    by (simp add: parseTarURL_def)
  from step_exhausted [OF this] obtain q where q: "nl_parse N (trimSpace raw) = Some q"
    and e: "parseTarURLFuel (3 * length raw + 1) N (snd (splitEmbeddedPath (pu_escapedPath q))) = Inl NestingExhausted" by blast
  have "length (pu_escapedPath q) \<le> 3 * length (trimSpace raw)" using assms q unfolding escapeLaws_def by blast
  then have "length (snd (splitEmbeddedPath (pu_escapedPath q))) < 3 * length raw + 1"
    using embedded_suffix [of "pu_escapedPath q"] length_trimSpace [of raw] by (auto dest: suffix_length_le)
  from embedded_fuel [OF assms q suffix_imp_sublist [OF embedded_suffix] this] e show False by blast
qed

end
