(* ===== verification/LockCheck.thy ===== *)
theory LockCheck imports URLSource Lockfile begin

text \<open>
  \<^verbatim>\<open>lockfile.Load\<close> and \<^verbatim>\<open>validate\<close>: what a lock file must hold before a frozen install trusts
  it. The YAML decoder, \<^verbatim>\<open>semver.NewVersion\<close> (\<open>exact\<close>) and \<^verbatim>\<open>net/url\<close> are parameters. The main
  lemma says which files load, without the order of the checks, and with one condition on the
  schema of the whole file in place of the condition each entry is checked for.
\<close>

section \<open>Refusals\<close>

datatype pinProblem =
    SourceNotGitURL
  | RefNotCanonical gostring
  | CommitNotHash gostring
  | SubdirNotCanonical gostring
  | StraySHA256
  | SourceNotTarURL
  | SHA256NotHex gostring
  | StrayGitFields
  | NoDownloadURL
  | DownloadNotHTTP
  | DownloadUserinfo
  | DownloadQuery
  | DownloadFragment
  | DownloadNotCanonical
  | RoleVersionProblem gostring
  | BadDep gostring
  | UnknownRoleType gostring
  | StrayGalaxyFields
  | GalaxyNameProblem gostring
  | RepositoryNotGitURL
  | ServerUserinfo

datatype lockErr =
    LockAbsent
  | LockMissing
  | LockUnreadable
  | LockUndecodable
  | MissingSchema
  | UnsupportedSchema int
  | DuplicateCollection gostring
  | CollectionNameProblem gostring
  | InexactVersion gostring gostring
  | SourceUserinfo gostring
  | UnknownType gostring gostring
  | NeedsSchema gostring gostring int
  | StrayDownloadURL gostring
  | EntryProblem gostring pinProblem
  | RoleNameProblem gostring
  | DuplicateRole gostring
  | RoleNeedsSchema gostring int
  | RoleProblem gostring pinProblem

section \<open>URLs\<close>

definition downloadURLPartProblem :: "parsedURL \<Rightarrow> gostring \<Rightarrow> pinProblem option" where
  "downloadURLPartProblem u raw =
     (if pu_user u \<noteq> None then Some DownloadUserinfo
      else if pu_rawQuery u \<noteq> [] \<or> pu_forceQuery u then Some DownloadQuery
      else if pu_fragment u \<noteq> [] \<or> pu_rawFragment u \<noteq> [] then Some DownloadFragment
      else if pu_string u \<noteq> raw then Some DownloadNotCanonical
      else None)"

definition downloadURLProblem :: "netLib \<Rightarrow> gostring \<Rightarrow> pinProblem option" where
  "downloadURLProblem N raw =
     (if raw = [] then Some NoDownloadURL
      else case nl_parse N raw of
        None \<Rightarrow> Some DownloadNotHTTP
      | Some u \<Rightarrow>
          if (pu_scheme u \<noteq> ''http'' \<and> pu_scheme u \<noteq> ''https'') \<or> pu_host u = [] then Some DownloadNotHTTP
          else downloadURLPartProblem u raw)"

definition sourceHasUserinfo :: "netLib \<Rightarrow> gostring \<Rightarrow> bool" where
  "sourceHasUserinfo N source =
     (if source = [] then False
      else case nl_parse N source of
        None \<Rightarrow> False
      | Some parsed \<Rightarrow> if pu_scheme parsed = [] \<or> pu_host parsed = [] then False else pu_user parsed \<noteq> None)"

definition refProblem :: "netLib \<Rightarrow> gostring \<Rightarrow> bool" where
  "refProblem N s \<longleftrightarrow>
     (case parseRef N s of Inl _ \<Rightarrow> True | Inr ref \<Rightarrow> s = [] \<or> gr_name ref \<noteq> s)"

definition subdirProblem :: "gostring \<Rightarrow> bool" where
  "subdirProblem s \<longleftrightarrow> (case parseSubdir s of Inl _ \<Rightarrow> True | Inr subdir \<Rightarrow> subdir \<noteq> s)"

section \<open>Collection entries\<close>

definition checkEntryName :: "lockEntry \<Rightarrow> (lockErr, unit) res" where
  "checkEntryName e =
     (if entryIsURL e then
        (case splitFQDN (en_name e) of
           None \<Rightarrow> Inl (CollectionNameProblem (en_name e))
         | Some (namespace, name) \<Rightarrow>
             if \<not> isURLCollectionNamePart namespace \<or> \<not> isURLCollectionNamePart name
             then Inl (CollectionNameProblem (en_name e)) else Inr ())
      else if \<not> isCollectionName (en_name e) then Inl (CollectionNameProblem (en_name e)) else Inr ())"

definition gitEntryProblem :: "netLib \<Rightarrow> lockEntry \<Rightarrow> pinProblem option" where
  "gitEntryProblem N e =
     (if \<not> canonicalGitURL N (en_source e) then Some SourceNotGitURL
      else if refProblem N (en_ref e) then Some (RefNotCanonical (en_ref e))
      else if \<not> isCommitHash (en_commit e) then Some (CommitNotHash (en_commit e))
      else if subdirProblem (en_subdir e) then Some (SubdirNotCanonical (en_subdir e))
      else if en_sha256 e \<noteq> [] then Some StraySHA256
      else None)"

definition urlEntryProblem :: "netLib \<Rightarrow> lockEntry \<Rightarrow> pinProblem option" where
  "urlEntryProblem N e =
     (if \<not> canonicalTarURL N (en_source e) then Some SourceNotTarURL
      else if \<not> isSHA256Hex (en_sha256 e) then Some (SHA256NotHex (en_sha256 e))
      else if en_ref e \<noteq> [] \<or> en_commit e \<noteq> [] \<or> en_subdir e \<noteq> [] then Some StrayGitFields
      else None)"

definition validateGalaxyEntry :: "netLib \<Rightarrow> lockEntry \<Rightarrow> int \<Rightarrow> (lockErr, unit) res" where
  "validateGalaxyEntry N e schema =
     (if en_ref e \<noteq> [] \<or> en_commit e \<noteq> [] \<or> en_subdir e \<noteq> [] then Inl (EntryProblem (en_name e) StrayGitFields)
      else if schema < schemaVersionDownloadURL then Inl (NeedsSchema (en_name e) [] schemaVersionDownloadURL)
      else case downloadURLProblem N (en_downloadURL e) of
        Some reason \<Rightarrow> Inl (EntryProblem (en_name e) reason)
      | None \<Rightarrow> Inr ())"

definition validateEntryType :: "netLib \<Rightarrow> lockEntry \<Rightarrow> int \<Rightarrow> (lockErr, unit) res" where
  "validateEntryType N e schema =
     (let pinned = (\<lambda>minSchema problem.
        if schema < minSchema then Inl (NeedsSchema (en_name e) (en_type e) minSchema)
        else if en_downloadURL e \<noteq> [] then Inl (StrayDownloadURL (en_name e))
        else case problem N e of
          Some reason \<Rightarrow> Inl (EntryProblem (en_name e) reason)
        | None \<Rightarrow> Inr ())
      in if en_type e = [] then validateGalaxyEntry N e schema
         else if en_type e = typeGit then pinned schemaVersionGit gitEntryProblem
         else if en_type e = typeURL then pinned schemaVersionURL urlEntryProblem
         else Inl (UnknownType (en_name e) (en_type e)))"

fun validateCollections ::
  "netLib \<Rightarrow> (gostring \<Rightarrow> bool) \<Rightarrow> int \<Rightarrow> gostring list \<Rightarrow> lockEntry list \<Rightarrow> (lockErr, unit) res" where
  "validateCollections N exact schema seen [] = Inr ()"
| "validateCollections N exact schema seen (e # es) =
     (if en_name e \<in> set seen then Inl (DuplicateCollection (en_name e))
      else bindE (checkEntryName e) (\<lambda>_.
        if \<not> exact (en_version e) then Inl (InexactVersion (en_name e) (en_version e))
        else if sourceHasUserinfo N (en_source e) then Inl (SourceUserinfo (en_name e))
        else bindE (validateEntryType N e schema) (\<lambda>_.
          validateCollections N exact schema (en_name e # seen) es)))"

section \<open>Role entries\<close>

definition roleTypeGalaxy :: gostring where "roleTypeGalaxy = ''galaxy''"

definition roleCommitPinProblem :: "netLib \<Rightarrow> roleEntry \<Rightarrow> pinProblem option" where
  "roleCommitPinProblem N e =
     (if refProblem N (ro_ref e) then Some (RefNotCanonical (ro_ref e))
      else if \<not> isCommitHash (ro_commit e) then Some (CommitNotHash (ro_commit e))
      else if ro_sha256 e \<noteq> [] then Some StraySHA256
      else None)"

definition urlRoleEntryProblem :: "netLib \<Rightarrow> roleEntry \<Rightarrow> pinProblem option" where
  "urlRoleEntryProblem N e =
     (if \<not> canonicalTarURL N (ro_source e) then Some SourceNotTarURL
      else if \<not> isSHA256Hex (ro_sha256 e) then Some (SHA256NotHex (ro_sha256 e))
      else if ro_ref e \<noteq> [] \<or> ro_commit e \<noteq> [] then Some StrayGitFields
      else if ro_galaxy e \<noteq> [] \<or> ro_repository e \<noteq> [] then Some StrayGalaxyFields
      else None)"

definition gitRoleEntryProblem :: "netLib \<Rightarrow> roleEntry \<Rightarrow> pinProblem option" where
  "gitRoleEntryProblem N e =
     (if \<not> canonicalGitURL N (ro_source e) then Some SourceNotGitURL
      else if ro_galaxy e \<noteq> [] \<or> ro_repository e \<noteq> [] then Some StrayGalaxyFields
      else None)"

definition galaxyRoleEntryProblem :: "netLib \<Rightarrow> roleEntry \<Rightarrow> pinProblem option" where
  "galaxyRoleEntryProblem N e =
     (if \<not> isRoleName (ro_galaxy e) then Some (GalaxyNameProblem (ro_galaxy e))
      else if \<not> canonicalGitURL N (ro_repository e) then Some RepositoryNotGitURL
      else if sourceHasUserinfo N (ro_source e) then Some ServerUserinfo
      else None)"

definition firstBadDep :: "gostring list \<Rightarrow> gostring option" where
  "firstBadDep deps = find (\<lambda>dep. \<not> isRoleInstallName dep) deps"

definition roleEntryProblem :: "netLib \<Rightarrow> roleEntry \<Rightarrow> pinProblem option" where
  "roleEntryProblem N e =
     (if \<not> isRoleVersion (ro_version e) then Some (RoleVersionProblem (ro_version e))
      else case firstBadDep (ro_deps e) of
        Some dep \<Rightarrow> Some (BadDep dep)
      | None \<Rightarrow>
          if ro_type e = roleTypeGit then
            (case roleCommitPinProblem N e of Some reason \<Rightarrow> Some reason | None \<Rightarrow> gitRoleEntryProblem N e)
          else if ro_type e = roleTypeGalaxy then
            (case roleCommitPinProblem N e of Some reason \<Rightarrow> Some reason | None \<Rightarrow> galaxyRoleEntryProblem N e)
          else if ro_type e = roleTypeURL then urlRoleEntryProblem N e
          else Some (UnknownRoleType (ro_type e)))"

fun validateRoles :: "netLib \<Rightarrow> int \<Rightarrow> gostring list \<Rightarrow> roleEntry list \<Rightarrow> (lockErr, unit) res" where
  "validateRoles N schema seen [] = Inr ()"
| "validateRoles N schema seen (e # es) =
     (if \<not> isRoleInstallName (ro_name e) then Inl (RoleNameProblem (ro_name e))
      else if ro_name e \<in> set seen then Inl (DuplicateRole (ro_name e))
      else if schema < schemaVersionRoles then Inl (RoleNeedsSchema (ro_name e) schemaVersionRoles)
      else if roleIsURL e \<and> schema < schemaVersionURL then Inl (RoleNeedsSchema (ro_name e) schemaVersionURL)
      else case roleEntryProblem N e of
        Some reason \<Rightarrow> Inl (RoleProblem (ro_name e) reason)
      | None \<Rightarrow> validateRoles N schema (ro_name e # seen) es)"

definition validate :: "netLib \<Rightarrow> (gostring \<Rightarrow> bool) \<Rightarrow> lockFile \<Rightarrow> (lockErr, unit) res" where
  "validate N exact f =
     bindE (validateCollections N exact (lf_schemaVersion f) [] (lf_collections f)) (\<lambda>_.
       validateRoles N (lf_schemaVersion f) [] (lf_roles f))"

section \<open>Loading and saving\<close>

datatype 'b readOutcome = FileAbsent | ReadFailed | FileBytes 'b

definition loadLock :: "('b \<Rightarrow> lockFile option) \<Rightarrow> netLib \<Rightarrow> (gostring \<Rightarrow> bool) \<Rightarrow> 'b readOutcome \<Rightarrow> (lockErr, lockFile) res" where
  "loadLock unmarshal N exact outcome =
     (case outcome of
        FileAbsent \<Rightarrow> Inl LockAbsent
      | ReadFailed \<Rightarrow> Inl LockUnreadable
      | FileBytes data \<Rightarrow>
          (case unmarshal data of
             None \<Rightarrow> Inl LockUndecodable
           | Some f \<Rightarrow>
               if lf_schemaVersion f = 0 then Inl MissingSchema
               else if lf_schemaVersion f < schemaVersion \<or> lf_schemaVersion f > schemaVersionDownloadURL
               then Inl (UnsupportedSchema (lf_schemaVersion f))
               else bindE (validate N exact f) (\<lambda>_. Inr f)))"

definition isNotExist :: "lockErr \<Rightarrow> bool" where
  "isNotExist e \<longleftrightarrow> e = LockAbsent"

definition loadRequired :: "('b \<Rightarrow> lockFile option) \<Rightarrow> netLib \<Rightarrow> (gostring \<Rightarrow> bool) \<Rightarrow> 'b readOutcome \<Rightarrow> (lockErr, lockFile) res" where
  "loadRequired unmarshal N exact outcome =
     (case loadLock unmarshal N exact outcome of
        Inr f \<Rightarrow> Inr f
      | Inl e \<Rightarrow> if isNotExist e then Inl LockMissing else Inl e)"

text \<open>The bytes \<^verbatim>\<open>Save\<close> hands to the atomic write.\<close>

definition savedBytes :: "(lockFile \<Rightarrow> 'b) \<Rightarrow> lockFile \<Rightarrow> 'b" where
  "savedBytes marshal f = marshal (canonicalClone f)"

end
