(* ===== verification/LockSound.thy ===== *)
theory LockSound imports LockCheck begin

text \<open>
  What validation accepts, as one condition on a whole file: every name once, every entry
  pinned, and a schema that has every kind of entry in the file. The canonical form keeps
  the condition, so what is saved loads again.
\<close>

section \<open>Pinned entries\<close>

definition canonicalRef :: "netLib \<Rightarrow> gostring \<Rightarrow> bool" where
  "canonicalRef N s \<longleftrightarrow> s \<noteq> [] \<and> (\<exists>kind. parseRef N s = Inr \<lparr>gr_name = s, gr_kind = kind\<rparr>)"

definition plainDownload :: "netLib \<Rightarrow> gostring \<Rightarrow> bool" where
  "plainDownload N raw \<longleftrightarrow> raw \<noteq> [] \<and> (\<exists>u. nl_parse N raw = Some u \<and> pu_scheme u \<in> {''http'', ''https''} \<and>
     pu_host u \<noteq> [] \<and> pu_user u = None \<and> pu_rawQuery u = [] \<and> \<not> pu_forceQuery u \<and> pu_fragment u = [] \<and>
     pu_rawFragment u = [] \<and> pu_string u = raw)"

definition urlCollectionName :: "gostring \<Rightarrow> bool" where
  "urlCollectionName s \<longleftrightarrow>
     (\<exists>namespace name. splitFQDN s = Some (namespace, name) \<and> isURLCollectionNamePart namespace \<and> isURLCollectionNamePart name)"

definition pinnedEntry :: "netLib \<Rightarrow> lockEntry \<Rightarrow> bool" where
  "pinnedEntry N e \<longleftrightarrow>
     en_type e = [] \<and> isCollectionName (en_name e) \<and> en_ref e = [] \<and> en_commit e = [] \<and> en_subdir e = [] \<and>
       plainDownload N (en_downloadURL e) \<or>
     en_type e = typeGit \<and> isCollectionName (en_name e) \<and> en_downloadURL e = [] \<and> canonicalGitURL N (en_source e) \<and>
       canonicalRef N (en_ref e) \<and> isCommitHash (en_commit e) \<and> parseSubdir (en_subdir e) = Inr (en_subdir e) \<and> en_sha256 e = [] \<or>
     en_type e = typeURL \<and> urlCollectionName (en_name e) \<and> en_downloadURL e = [] \<and> canonicalTarURL N (en_source e) \<and>
       isSHA256Hex (en_sha256 e) \<and> en_ref e = [] \<and> en_commit e = [] \<and> en_subdir e = []"

definition pinnedRole :: "netLib \<Rightarrow> roleEntry \<Rightarrow> bool" where
  "pinnedRole N e \<longleftrightarrow>
     isRoleInstallName (ro_name e) \<and> isRoleVersion (ro_version e) \<and> list_all isRoleInstallName (ro_deps e) \<and>
     (ro_type e = roleTypeGit \<and> canonicalRef N (ro_ref e) \<and> isCommitHash (ro_commit e) \<and> ro_sha256 e = [] \<and>
        canonicalGitURL N (ro_source e) \<and> ro_galaxy e = [] \<and> ro_repository e = [] \<or>
      ro_type e = roleTypeGalaxy \<and> canonicalRef N (ro_ref e) \<and> isCommitHash (ro_commit e) \<and> ro_sha256 e = [] \<and>
        isRoleName (ro_galaxy e) \<and> canonicalGitURL N (ro_repository e) \<and> \<not> sourceHasUserinfo N (ro_source e) \<or>
      ro_type e = roleTypeURL \<and> canonicalTarURL N (ro_source e) \<and> isSHA256Hex (ro_sha256 e) \<and> ro_ref e = [] \<and>
        ro_commit e = [] \<and> ro_galaxy e = [] \<and> ro_repository e = [])"

definition installable :: "netLib \<Rightarrow> (gostring \<Rightarrow> bool) \<Rightarrow> lockFile \<Rightarrow> bool" where
  "installable N exact f \<longleftrightarrow> namedOnce f \<and>
     list_all (\<lambda>e. pinnedEntry N e \<and> exact (en_version e) \<and> \<not> sourceHasUserinfo N (en_source e)) (lf_collections f) \<and>
     list_all (pinnedRole N) (lf_roles f)"

section \<open>Fields\<close>

lemma refusal_cases [simp]:
  "(case p of None \<Rightarrow> a | Some r \<Rightarrow> Inl (f r)) = Inr b \<longleftrightarrow> p = None \<and> a = Inr b"
  "(case p of None \<Rightarrow> q | Some r \<Rightarrow> Some (g r)) = None \<longleftrightarrow> p = None \<and> q = None"
  by (simp_all split: option.splits)

lemma type_names [simp]: "typeGit \<noteq> []" "typeURL \<noteq> []" "[] \<noteq> typeGit" "[] \<noteq> typeURL" "typeGit \<noteq> typeURL" "typeURL \<noteq> typeGit"
  by (simp_all add: typeGit_def typeURL_def)

lemma role_type_names [simp]: "roleTypeGit \<noteq> roleTypeURL" "roleTypeURL \<noteq> roleTypeGit" "roleTypeGalaxy \<noteq> roleTypeURL"
  "roleTypeURL \<noteq> roleTypeGalaxy" "roleTypeGit \<noteq> roleTypeGalaxy" "roleTypeGalaxy \<noteq> roleTypeGit"
  by (simp_all add: roleTypeGit_def roleTypeURL_def roleTypeGalaxy_def)

lemma refProblem_iff [simp]: "refProblem N s \<longleftrightarrow> \<not> canonicalRef N s"
proof -
  have "(\<exists>kind. ref = \<lparr>gr_name = s, gr_kind = kind\<rparr>) \<longleftrightarrow> gr_name ref = s" for ref by (cases ref) auto
  then show ?thesis by (auto simp: refProblem_def canonicalRef_def split: sum.splits)
qed

lemma subdirProblem_iff [simp]: "subdirProblem s \<longleftrightarrow> parseSubdir s \<noteq> Inr s"
  by (auto simp: subdirProblem_def split: sum.splits)

lemma downloadURLProblem_iff [simp]: "downloadURLProblem N raw = None \<longleftrightarrow> plainDownload N raw"
  by (auto simp: downloadURLProblem_def downloadURLPartProblem_def plainDownload_def not_None_eq [symmetric] simp del: not_None_eq split: option.splits)

lemma firstBadDep_iff [simp]: "firstBadDep deps = None \<longleftrightarrow> list_all isRoleInstallName deps"
  by (auto simp: firstBadDep_def find_None_iff list_all_iff)

lemma checkEntryName_iff:
  "checkEntryName e = Inr () \<longleftrightarrow> (if entryIsURL e then urlCollectionName (en_name e) else isCollectionName (en_name e))"
  by (auto simp: checkEntryName_def urlCollectionName_def split: option.splits)

section \<open>One entry\<close>

definition entrySchema :: "lockEntry \<Rightarrow> int" where
  "entrySchema e = (if en_type e = [] then schemaVersionDownloadURL else if en_type e = typeURL then schemaVersionURL else schemaVersionGit)"

definition roleSchema :: "roleEntry \<Rightarrow> int" where
  "roleSchema e = (if roleIsURL e then schemaVersionURL else schemaVersionRoles)"

lemma gitEntryProblem_iff [simp]:
  "gitEntryProblem N e = None \<longleftrightarrow> canonicalGitURL N (en_source e) \<and> canonicalRef N (en_ref e) \<and>
     isCommitHash (en_commit e) \<and> parseSubdir (en_subdir e) = Inr (en_subdir e) \<and> en_sha256 e = []"
  by (simp add: gitEntryProblem_def)

lemma urlEntryProblem_iff [simp]:
  "urlEntryProblem N e = None \<longleftrightarrow> canonicalTarURL N (en_source e) \<and> isSHA256Hex (en_sha256 e) \<and>
     en_ref e = [] \<and> en_commit e = [] \<and> en_subdir e = []"
  by (simp add: urlEntryProblem_def)

lemma entry_iff:
  "checkEntryName e = Inr () \<and> validateEntryType N e schema = Inr () \<longleftrightarrow> pinnedEntry N e \<and> entrySchema e \<le> schema"
proof -
  consider "en_type e = []" | "en_type e = typeGit" | "en_type e = typeURL" | "en_type e \<notin> {[], typeGit, typeURL}" by blast
  then show ?thesis
    by cases (auto simp: checkEntryName_iff validateEntryType_def validateGalaxyEntry_def pinnedEntry_def entrySchema_def
      entryIsURL_def Let_def)
qed

lemma commitPin_iff [simp]:
  "roleCommitPinProblem N e = None \<longleftrightarrow> canonicalRef N (ro_ref e) \<and> isCommitHash (ro_commit e) \<and> ro_sha256 e = []"
  by (simp add: roleCommitPinProblem_def)

lemma role_iff:
  "isRoleInstallName (ro_name e) \<and> roleEntryProblem N e = None \<longleftrightarrow> pinnedRole N e"
proof -
  consider "ro_type e = roleTypeGit" | "ro_type e = roleTypeGalaxy" | "ro_type e = roleTypeURL"
    | "ro_type e \<notin> {roleTypeGit, roleTypeGalaxy, roleTypeURL}" by blast
  then show ?thesis
    by cases (auto simp: roleEntryProblem_def pinnedRole_def gitRoleEntryProblem_def galaxyRoleEntryProblem_def
      urlRoleEntryProblem_def simp del: not_None_eq)
qed

section \<open>The loops\<close>

lemma validateCollections_iff:
  "validateCollections N exact schema seen es = Inr () \<longleftrightarrow>
     distinct (map en_name es) \<and> set (map en_name es) \<inter> set seen = {} \<and>
     list_all (\<lambda>e. (pinnedEntry N e \<and> exact (en_version e) \<and> \<not> sourceHasUserinfo N (en_source e)) \<and> entrySchema e \<le> schema) es"
proof (induction es arbitrary: seen)
  case (Cons e es)
  have "validateCollections N exact schema seen (e # es) = Inr () \<longleftrightarrow>
      en_name e \<notin> set seen \<and> (checkEntryName e = Inr () \<and> validateEntryType N e schema = Inr ()) \<and> exact (en_version e) \<and>
      \<not> sourceHasUserinfo N (en_source e) \<and> validateCollections N exact schema (en_name e # seen) es = Inr ()"
    by (auto simp: bindE_Inr_iff)
  then show ?case unfolding entry_iff Cons.IH by auto
qed simp

lemma validateRoles_iff:
  "validateRoles N schema seen es = Inr () \<longleftrightarrow>
     distinct (map ro_name es) \<and> set (map ro_name es) \<inter> set seen = {} \<and>
     list_all (\<lambda>e. pinnedRole N e \<and> roleSchema e \<le> schema) es"
proof (induction es arbitrary: seen)
  case (Cons e es)
  have "validateRoles N schema seen (e # es) = Inr () \<longleftrightarrow>
      ro_name e \<notin> set seen \<and> (isRoleInstallName (ro_name e) \<and> roleEntryProblem N e = None) \<and> roleSchema e \<le> schema \<and>
      validateRoles N schema (ro_name e # seen) es = Inr ()"
    by (auto simp: roleSchema_def schemaVersionRoles_def schemaVersionURL_def)
  then show ?case unfolding role_iff Cons.IH by auto
qed simp

section \<open>The whole file\<close>

lemma schemas_le:
  assumes "list_all (pinnedEntry N) es" "1 \<le> schema"
  shows "list_all (\<lambda>e. entrySchema e \<le> schema) es \<and> list_all (\<lambda>e. roleSchema e \<le> schema) rs \<longleftrightarrow>
    schemaVersionFor es rs \<le> schema"
proof -
  have t: "en_type e \<in> {[], typeGit, typeURL}" if "e \<in> set es" for e
    using assms(1) that by (auto simp: list_all_iff pinnedEntry_def)
  show ?thesis
    using t assms(2)
    by (cases rs)
      (auto simp: list_all_iff schemaVersionFor_def anyURLEntry_def entrySchema_def roleSchema_def entryIsGalaxy_def entryIsURL_def
        entryIsGit_def schemaVersion_def schemaVersionGit_def schemaVersionRoles_def schemaVersionURL_def schemaVersionDownloadURL_def)
qed

lemma validate_iff:
  assumes "1 \<le> lf_schemaVersion f"
  shows "validate N exact f = Inr () \<longleftrightarrow>
    installable N exact f \<and> schemaVersionFor (lf_collections f) (lf_roles f) \<le> lf_schemaVersion f"
proof -
  have "validate N exact f = Inr () \<longleftrightarrow> installable N exact f \<and>
      (list_all (\<lambda>e. entrySchema e \<le> lf_schemaVersion f) (lf_collections f) \<and>
       list_all (\<lambda>e. roleSchema e \<le> lf_schemaVersion f) (lf_roles f))"
    by (auto simp: validate_def bindE_Inr_iff validateCollections_iff validateRoles_iff installable_def namedOnce_def list_all_iff)
  also have "\<dots> \<longleftrightarrow> installable N exact f \<and> schemaVersionFor (lf_collections f) (lf_roles f) \<le> lf_schemaVersion f"
    using schemas_le [OF _ assms, of N "lf_collections f" "lf_roles f"]
    by (auto simp: installable_def list_all_iff)
  finally show ?thesis .
qed

lemma schemaVersionFor_bounds: "schemaVersion \<le> schemaVersionFor es rs" "schemaVersionFor es rs \<le> schemaVersionDownloadURL"
  by (simp_all add: schemaVersionFor_def schemaVersion_def schemaVersionGit_def schemaVersionRoles_def schemaVersionURL_def
      schemaVersionDownloadURL_def)

lemma load_iff:
  "loadLock unmarshal N exact (FileBytes data) = Inr f \<longleftrightarrow>
     unmarshal data = Some f \<and> installable N exact f \<and>
     schemaVersionFor (lf_collections f) (lf_roles f) \<le> lf_schemaVersion f \<and> lf_schemaVersion f \<le> schemaVersionDownloadURL"
proof -
  have "loadLock unmarshal N exact (FileBytes data) = Inr f \<longleftrightarrow>
      unmarshal data = Some f \<and> (1 \<le> lf_schemaVersion f \<and> validate N exact f = Inr ()) \<and> lf_schemaVersion f \<le> schemaVersionDownloadURL"
    by (auto simp: loadLock_def bindE_Inr_iff schemaVersion_def split: option.splits)
  also have "(1 \<le> lf_schemaVersion f \<and> validate N exact f = Inr ()) \<longleftrightarrow>
      installable N exact f \<and> schemaVersionFor (lf_collections f) (lf_roles f) \<le> lf_schemaVersion f"
    using validate_iff schemaVersionFor_bounds(1) [of "lf_collections f" "lf_roles f"] by (auto simp: schemaVersion_def)
  finally show ?thesis by auto
qed

text \<open>No check of a file that was read calls it absent.\<close>

lemma validateEntryType_not_absent: "validateEntryType N e schema \<noteq> Inl LockAbsent" "validateEntryType N e schema \<noteq> Inl LockMissing"
  by (auto simp: validateEntryType_def validateGalaxyEntry_def Let_def split: option.splits)

lemma validateCollections_not_absent:
  "validateCollections N exact schema seen es \<noteq> Inl LockAbsent" "validateCollections N exact schema seen es \<noteq> Inl LockMissing"
  by (induction es arbitrary: seen)
    (auto simp: bindE_Inl_iff checkEntryName_def validateEntryType_not_absent split: option.splits)

lemma validateRoles_not_absent: "validateRoles N schema seen es \<noteq> Inl LockAbsent" "validateRoles N schema seen es \<noteq> Inl LockMissing"
  by (induction es arbitrary: seen) (auto split: option.splits)

lemma validate_not_absent: "validate N exact f \<noteq> Inl LockAbsent" "validate N exact f \<noteq> Inl LockMissing"
  using validateCollections_not_absent validateRoles_not_absent by (auto simp: validate_def bindE_Inl_iff)

section \<open>Saving\<close>

lemma pinned_canon:
  "pinnedEntry N (e\<lparr>en_deps := d\<rparr>) = pinnedEntry N e" 
  "list_all isRoleInstallName (sort (ro_deps r)) = list_all isRoleInstallName (ro_deps r)"
  "pinnedRole N (r\<lparr>ro_deps := sort (ro_deps r)\<rparr>) = pinnedRole N r"
  by (simp_all add: pinnedEntry_def pinnedRole_def list_all_iff)

lemma installable_canonical: "installable N exact (canonicalClone f) = installable N exact f"
  by (simp add: installable_def namedOnce_def canonicalize_sel entries.key_canonList roles.key_canonList list_all_iff
      entries.set_canonList roles.set_canonList pinned_canon)

lemma saved_loads:
  assumes "unmarshal (savedBytes marshal f) = Some (canonicalClone f)"
  shows "loadLock unmarshal N exact (FileBytes (savedBytes marshal f)) =
    (case validate N exact (canonicalClone f) of Inl e \<Rightarrow> Inl e | Inr _ \<Rightarrow> Inr (canonicalClone f))"
proof -
  have "schemaVersion \<le> lf_schemaVersion (canonicalClone f)" "lf_schemaVersion (canonicalClone f) \<le> schemaVersionDownloadURL"
    by (simp_all add: canonicalize_sel schemaVersionFor_bounds)
  then show ?thesis using assms by (auto simp: loadLock_def bindE_def schemaVersion_def)
qed

end
