(* ===== verification/SourceDemo.thy ===== *)
theory SourceDemo imports LockSound begin

text \<open>
  A concrete \<open>netLib\<close> for URLs without credentials, port, query, fragment and escapes: what
  the laws ask of \<^verbatim>\<open>net/url\<close> can hold. On it, locators and a lock file to run.
\<close>

definition demoParse :: "gostring \<Rightarrow> parsedURL option" where
  "demoParse s =
     (case indexStr s ''://'' of
        None \<Rightarrow> None
      | Some i \<Rightarrow>
          let rest = drop (i + 3) s;
              host = takeWhile (\<lambda>c. c \<noteq> CHR ''/'') rest;
              path = dropWhile (\<lambda>c. c \<noteq> CHR ''/'') rest
          in if list_ex (\<lambda>c. c \<in> {CHR ''?'', CHR ''#'', CHR ''@'', CHR '':'', CHR ''%''}) rest then None
             else Some \<lparr>pu_scheme = take i s, pu_user = None, pu_host = host, pu_hostname = host, pu_port = [], pu_path = path,
               pu_escapedPath = path, pu_rawQuery = [], pu_forceQuery = False, pu_fragment = [], pu_rawFragment = [],
               pu_string = s, pu_bareString = s\<rparr>)"

definition demoNet :: netLib where
  "demoNet = \<lparr>nl_parse = demoParse, nl_lower = List.map asciiLower\<rparr>"

lemma demoNet_laws: "netLaws demoNet"
  by (auto simp: netLaws_def demoNet_def demoParse_def Let_def split: option.splits if_splits)

lemma demoParse_path: "demoParse s = Some p \<Longrightarrow> length (pu_escapedPath p) \<le> length s - 3"
proof -
  assume "demoParse s = Some p"
  then obtain i where "pu_escapedPath p = dropWhile (\<lambda>c. c \<noteq> CHR ''/'') (drop (i + 3) s)"
    by (auto simp: demoParse_def Let_def split: option.splits if_splits)
  then have "length (pu_escapedPath p) \<le> length (drop (i + 3) s)" by (metis length_dropWhile_le)
  then show ?thesis by simp
qed

lemma demoNet_escape: "escapeLaws demoNet"
proof -
  have "length (pu_escapedPath q) < length s" if "demoParse s = Some q" "pu_hostname q \<noteq> []" for s q
  proof -
    from that have "s \<noteq> []" by (auto simp: demoParse_def Let_def split: option.splits if_splits)
    then show ?thesis using demoParse_path [OF that(1)] by (cases s) auto
  qed
  moreover have "length (pu_escapedPath p) \<le> 3 * length s" if "demoParse s = Some p" for s p
    using demoParse_path [OF that] by simp
  ultimately show ?thesis by (auto simp: escapeLaws_def demoNet_def)
qed

definition demoRepo :: gostring where "demoRepo = ''https://h.x/o/r.git''"

definition demoCommit :: gostring where "demoCommit = replicate 40 CHR ''a''"

definition demoSHA :: gostring where "demoSHA = replicate 64 CHR ''0''"

definition demoGitEntry :: lockEntry where
  "demoGitEntry = \<lparr>en_name = ''o.r'', en_type = typeGit, en_version = ''1.0.0'', en_source = demoRepo, en_downloadURL = [],
     en_ref = ''main'', en_commit = demoCommit, en_subdir = [], en_sha256 = [], en_deps = [''a.b'']\<rparr>"

definition demoGalaxyEntry :: lockEntry where
  "demoGalaxyEntry = \<lparr>en_name = ''a.b'', en_type = [], en_version = ''2.0.0'', en_source = [],
     en_downloadURL = ''https://h.x/d/a-b-2.0.0.tar.gz'', en_ref = [], en_commit = [], en_subdir = [], en_sha256 = demoSHA, en_deps = []\<rparr>"

definition demoFile :: lockFile where
  "demoFile = \<lparr>lf_server = ''https://h.x'', lf_collections = [demoGitEntry, demoGalaxyEntry], lf_roles = [], lf_schemaVersion = 5\<rparr>"

lemma demoRepo_canonical: "canonicalGitURL demoNet demoRepo"
  by code_simp

lemma demoFile_commit: "isCommitHash demoCommit"
  by code_simp

lemma demoFile_names: "isCollectionName ''o.r''" "isCollectionName ''a.b''"
  by code_simp+

lemma demoFile_ref: "parseRef demoNet ''main'' = Inr \<lparr>gr_name = ''main'', gr_kind = RefName\<rparr>"
  by code_simp

lemma demoFile_download: "downloadURLProblem demoNet ''https://h.x/d/a-b-2.0.0.tar.gz'' = None"
  by code_simp

lemma demoFile_userinfo: "\<not> sourceHasUserinfo demoNet demoRepo" "\<not> sourceHasUserinfo demoNet []"
  by code_simp+

lemma demoFile_subdir: "parseSubdir [] = Inr []"
  by code_simp

lemma demo_installable: "installable demoNet (\<lambda>_. True) demoFile"
proof -
  have "pinnedEntry demoNet demoGitEntry"
    using demoFile_names demoFile_ref demoRepo_canonical demoFile_commit demoFile_subdir
    by (simp add: pinnedEntry_def demoGitEntry_def canonicalRef_def)
  moreover have "pinnedEntry demoNet demoGalaxyEntry"
    using demoFile_names demoFile_download by (simp add: pinnedEntry_def demoGalaxyEntry_def)
  ultimately show ?thesis using demoFile_userinfo
    by (simp add: installable_def namedOnce_def demoFile_def demoGitEntry_def demoGalaxyEntry_def)
qed

end
