(* ===== verification/LevelsSound.thy ===== *)
theory LevelsSound imports Levels begin

text \<open>
  The install levels are right: every node once, its dependencies in earlier levels and one
  of them in the level before, and a refusal exactly when the graph has a cycle.
\<close>

section \<open>The index\<close>

definition nodesOf :: "depGraph \<Rightarrow> gostring set" where
  "nodesOf graph = fst ` set graph \<union> \<Union> (set ` snd ` set graph)"

definition dependsOn :: "depGraph \<Rightarrow> (gostring \<times> gostring) set" where
  "dependsOn graph = {(node, dep). dep \<in> set (listOf graph node)}"

lemma keys_update: "fst ` set (AList.update k v al) = insert k (fst ` set al)"
  by (simp add: dom_update flip: dom_map_of_conv_image_fst)

lemma keys_touch [simp]: "fst ` set (touch k al) = insert k (fst ` set al)"
  by (auto simp: touch_def keys_update map_of_eq_None_iff)

lemma distinct_touch [simp]: "distinct (map fst al) \<Longrightarrow> distinct (map fst (touch k al))"
  by (simp add: touch_def distinct_update)

lemma indexDeps:
  "(\<forall>m. degreeOf (fst (foldl (indexDep node) st ds)) m = degreeOf (fst st) m + (if m = node then int (length ds) else 0)) \<and>
   (\<forall>d m. count_list (listOf (snd (foldl (indexDep node) st ds)) d) m =
      count_list (listOf (snd st) d) m + (if m = node then count_list ds d else 0)) \<and>
   (distinct (map fst (fst st)) \<longrightarrow> distinct (map fst (fst (foldl (indexDep node) st ds)))) \<and>
   fst ` set (fst (foldl (indexDep node) st ds)) = fst ` set (fst st) \<union> set ds \<union> (if ds = [] then {} else {node})"
proof (induction ds arbitrary: st)
  case (Cons d ds)
  obtain indegree reverse where st: "st = (indegree, reverse)" by (cases st)
  show ?case using Cons.IH [of "indexDep node st d"] by (auto simp: st indexDep_def keys_update distinct_update)
qed simp

lemma listOf_snoc: "n \<notin> fst ` set graph \<Longrightarrow> listOf (graph @ [(n, ds)]) m = (if m = n then ds else listOf graph m)"
  by (auto simp: listOf_def map_add_def split: option.splits dest: map_of_SomeD)
    (metis fst_conv image_eqI map_of_SomeD)

lemma index_facts:
  assumes "distinct (map fst graph)"
  shows "degreeOf (fst (buildDependencyIndex graph)) n = int (length (listOf graph n))"
    "count_list (listOf (snd (buildDependencyIndex graph)) d) n = count_list (listOf graph n) d"
    "distinct (map fst (fst (buildDependencyIndex graph)))"
    "fst ` set (fst (buildDependencyIndex graph)) = nodesOf graph"
proof -
  have "(\<forall>n. degreeOf (fst (buildDependencyIndex graph)) n = int (length (listOf graph n))) \<and>
      (\<forall>d n. count_list (listOf (snd (buildDependencyIndex graph)) d) n = count_list (listOf graph n) d) \<and>
      distinct (map fst (fst (buildDependencyIndex graph))) \<and> fst ` set (fst (buildDependencyIndex graph)) = nodesOf graph"
    using assms
  proof (induction graph rule: rev_induct)
    case Nil
    show ?case by (simp add: buildDependencyIndex_def degreeOf_def listOf_def nodesOf_def)
  next
    case (snoc x graph)
    obtain n ds where x: "x = (n, ds)" by (cases x)
    with snoc.prems have n: "n \<notin> fst ` set graph" by auto
    then have none: "listOf graph n = []" by (simp add: listOf_def map_of_eq_None_iff [THEN iffD2])
    have step: "buildDependencyIndex (graph @ [x]) =
        foldl (indexDep n) (touch n (fst (buildDependencyIndex graph)), snd (buildDependencyIndex graph)) ds"
      by (simp add: buildDependencyIndex_def indexNode_def x split: prod.split)
    have IH: "\<forall>n. degreeOf (fst (buildDependencyIndex graph)) n = int (length (listOf graph n))"
      "\<forall>d n. count_list (listOf (snd (buildDependencyIndex graph)) d) n = count_list (listOf graph n) d"
      "distinct (map fst (fst (buildDependencyIndex graph)))" "fst ` set (fst (buildDependencyIndex graph)) = nodesOf graph"
      using snoc by simp_all
    note parts = indexDeps [of n "(touch n (fst (buildDependencyIndex graph)), snd (buildDependencyIndex graph))" ds, folded step]
    show ?case using parts IH none by (auto simp: x listOf_snoc [OF n] nodesOf_def)
  qed
  then show "degreeOf (fst (buildDependencyIndex graph)) n = int (length (listOf graph n))"
    "count_list (listOf (snd (buildDependencyIndex graph)) d) n = count_list (listOf graph n) d"
    "distinct (map fst (fst (buildDependencyIndex graph)))"
    "fst ` set (fst (buildDependencyIndex graph)) = nodesOf graph" by simp_all
qed

section \<open>The loop\<close>

definition pendingDeps :: "depGraph \<Rightarrow> gostring set \<Rightarrow> gostring \<Rightarrow> gostring list" where
  "pendingDeps graph placed n = filter (\<lambda>d. d \<notin> placed) (listOf graph n)"

text \<open>Every node comes after what it depends on, and no later than it must.\<close>

definition layered :: "depGraph \<Rightarrow> gostring list list \<Rightarrow> bool" where
  "layered graph levels \<longleftrightarrow>
     (\<forall>i < length levels. \<forall>n \<in> set (levels ! i). set (listOf graph n) \<subseteq> set (concat (take i levels)) \<and>
        (i = 0 \<or> (\<exists>d \<in> set (listOf graph n). d \<in> set (levels ! (i - 1)))))"

definition levelInv :: "depGraph \<Rightarrow> gostring list list \<Rightarrow> (gostring \<times> int) list \<Rightarrow> gostring list \<Rightarrow> bool" where
  "levelInv graph levels indegree current \<longleftrightarrow>
     distinct (concat levels) \<and> set (concat levels) \<subseteq> nodesOf graph \<and> list_all (\<lambda>l. sorted l \<and> l \<noteq> []) levels \<and>
     layered graph levels \<and>
     (\<forall>n. degreeOf indegree n = int (length (pendingDeps graph (set (concat levels)) n))) \<and>
     distinct current \<and>
     set current = {n \<in> nodesOf graph. n \<notin> set (concat levels) \<and> pendingDeps graph (set (concat levels)) n = []} \<and>
     (levels = [] \<or> (\<forall>n \<in> set current. \<exists>d \<in> set (listOf graph n). d \<in> set (last levels)))"

lemma layered_snoc:
  "layered graph (levels @ [l]) \<longleftrightarrow> layered graph levels \<and>
     (\<forall>n \<in> set l. set (listOf graph n) \<subseteq> set (concat levels) \<and>
        (levels = [] \<or> (\<exists>d \<in> set (listOf graph n). d \<in> set (last levels))))"
proof -
  define Q where "Q L i \<longleftrightarrow> (\<forall>n \<in> set (L ! i). set (listOf graph n) \<subseteq> set (concat (take i L)) \<and>
    (i = 0 \<or> (\<exists>d \<in> set (listOf graph n). d \<in> set (L ! (i - 1)))))" for L i
  have all: "(\<forall>i < Suc k. P i) \<longleftrightarrow> (\<forall>i < k. P i) \<and> P k" for P :: "nat \<Rightarrow> bool" and k by (auto simp: less_Suc_eq)
  have Q: "layered graph L \<longleftrightarrow> (\<forall>i < length L. Q L i)" for L unfolding layered_def Q_def by (rule refl)
  have "layered graph (levels @ [l]) \<longleftrightarrow> (\<forall>i < length levels. Q (levels @ [l]) i) \<and> Q (levels @ [l]) (length levels)"
    unfolding Q length_append_singleton all by (rule refl)
  moreover have "Q (levels @ [l]) i = Q levels i" if "i < length levels" for i
    using that less_imp_diff_less [OF that, of 1] by (simp add: Q_def nth_append)
  moreover note Q [of levels]
  moreover have "Q (levels @ [l]) (length levels) \<longleftrightarrow> (\<forall>n \<in> set l. set (listOf graph n) \<subseteq> set (concat levels) \<and>
      (levels = [] \<or> (\<exists>d \<in> set (listOf graph n). d \<in> set (last levels))))"
    by (cases levels rule: rev_cases) (simp_all add: Q_def nth_append)
  ultimately show ?thesis by auto
qed

lemma listOf_nodes: "d \<in> set (listOf graph n) \<Longrightarrow> n \<in> nodesOf graph \<and> d \<in> nodesOf graph"
proof -
  assume "d \<in> set (listOf graph n)"
  then obtain ds where "map_of graph n = Some ds" "d \<in> set ds" by (cases "map_of graph n") (auto simp: listOf_def)
  then show ?thesis using map_of_SomeD by (fastforce simp: nodesOf_def intro: rev_image_eqI)
qed

lemma count_children:
  assumes "\<And>d n. count_list (listOf reverse d) n = count_list (listOf graph n) d" "distinct C"
  shows "count_list (concat (map (listOf reverse) C)) n = length (filter (\<lambda>d. d \<in> set C) (listOf graph n))"
proof -
  have "(\<Sum>c \<in> set C. count_list ds c) = length (filter (\<lambda>d. d \<in> set C) ds)" for ds :: "gostring list"
  proof (induction ds)
    case (Cons d ds)
    have "count_list (d # ds) c = count_list ds c + (if c = d then 1 else 0)" for c by simp
    then show ?case using Cons.IH by (simp only: sum.distrib sum.delta finite_set) simp
  qed simp
  moreover have "count_list (concat (map (listOf reverse) C)) n = (\<Sum>c\<leftarrow>C. count_list (listOf reverse c) n)"
    by (induction C) simp_all
  ultimately show ?thesis using assms by (simp add: sum_list_distinct_conv_sum_set)
qed

lemma length_filter_split:
  "length (filter P xs) = length (filter (\<lambda>x. P x \<and> Q x) xs) + length (filter (\<lambda>x. P x \<and> \<not> Q x) xs)"
  by (induction xs) auto

lemma levelInv_step:
  assumes inv: "levelInv graph levels indegree current" and cur: "current \<noteq> []"
    and rev: "\<And>d n. count_list (listOf reverse d) n = count_list (listOf graph n) d"
  shows "levelInv graph (levels @ [sort current]) (fst (nextLevel reverse indegree (sort current)))
    (snd (nextLevel reverse indegree (sort current)))"
proof -
  define D where "D = set (concat levels)"
  define D' where "D' = set (concat (levels @ [sort current]))"
  have D': "D' = D \<union> set current" by (auto simp: D'_def D_def)
  have inv': "distinct (concat levels)" "D \<subseteq> nodesOf graph" "list_all (\<lambda>l. sorted l \<and> l \<noteq> []) levels" "layered graph levels"
    "\<And>n. degreeOf indegree n = int (length (pendingDeps graph D n))" "distinct current"
    "set current = {n \<in> nodesOf graph. n \<notin> D \<and> pendingDeps graph D n = []}"
    "levels = [] \<or> (\<forall>n \<in> set current. \<exists>d \<in> set (listOf graph n). d \<in> set (last levels))"
    using inv by (auto simp: levelInv_def D_def)
  have disj: "D \<inter> set current = {}" using inv'(7) by auto
  have closed: "set (listOf graph n) \<subseteq> D" if "n \<in> D \<or> n \<in> set current" for n
  proof (cases "n \<in> D")
    case True
    then obtain l where "l \<in> set levels" "n \<in> set l" by (auto simp: D_def)
    then obtain i where "i < length levels" "n \<in> set (levels ! i)" by (metis in_set_conv_nth)
    with inv'(4) have "set (listOf graph n) \<subseteq> set (concat (take i levels))" by (auto simp: layered_def)
    then show ?thesis unfolding D_def by (auto dest: in_set_takeD)
  next
    case False
    then show ?thesis using that inv'(7) by (auto simp: pendingDeps_def filter_empty_conv)
  qed
  let ?n = "\<lambda>n. length (filter (\<lambda>d. d \<in> set current) (listOf graph n))"
  have count: "count_list (concat (map (listOf reverse) (sort current))) n = ?n n" for n
    using count_children [where reverse = reverse and graph = graph and C = "sort current", OF rev] inv'(6) by simp
  have split: "length (pendingDeps graph D n) = ?n n + length (pendingDeps graph D' n)" for n
  proof -
    have "filter (\<lambda>d. d \<notin> D \<and> d \<in> set current) (listOf graph n) = filter (\<lambda>d. d \<in> set current) (listOf graph n)"
      using disj by (intro filter_cong) auto
    then show ?thesis
      unfolding pendingDeps_def D' length_filter_split [of "\<lambda>d. d \<notin> D" _ "\<lambda>d. d \<in> set current"] by simp
  qed
  let ?ind = "fst (nextLevel reverse indegree (sort current))" and ?new = "snd (nextLevel reverse indegree (sort current))"
  have degree: "degreeOf ?ind n = int (length (pendingDeps graph D' n))" for n
    unfolding nextLevel_facts count inv'(5) split by simp
  have ne: "sort current \<noteq> []" using cur by (metis length_0_conv length_sort)
  have mem: "n \<in> set ?new \<longleftrightarrow> pendingDeps graph D n \<noteq> [] \<and> pendingDeps graph D' n = []" for n
    unfolding nextLevel_facts mem_Collect_eq count inv'(5) using split [of n]
    by (cases "pendingDeps graph D n"; cases "pendingDeps graph D' n") auto
  have new: "set ?new = {n \<in> nodesOf graph. n \<notin> D' \<and> pendingDeps graph D' n = []}"
  proof (intro set_eqI iffI)
    fix n assume "n \<in> set ?new"
    then have p: "pendingDeps graph D n \<noteq> []" "pendingDeps graph D' n = []" by (simp_all add: mem)
    from p(1) obtain d where d: "d \<in> set (listOf graph n)" "d \<notin> D" by (auto simp: pendingDeps_def filter_empty_conv)
    have "n \<notin> D'" using closed [of n] d by (auto simp: D')
    with p(2) listOf_nodes [OF d(1)] show "n \<in> {n \<in> nodesOf graph. n \<notin> D' \<and> pendingDeps graph D' n = []}" by blast
  next
    fix n assume "n \<in> {n \<in> nodesOf graph. n \<notin> D' \<and> pendingDeps graph D' n = []}"
    then show "n \<in> set ?new" using inv'(7) by (auto simp: mem D')
  qed
  have after: "\<exists>d \<in> set (listOf graph n). d \<in> set (sort current)" if "n \<in> set ?new" for n
    using that unfolding mem by (auto simp: pendingDeps_def filter_empty_conv D')
  have lay: "layered graph (levels @ [sort current])"
    unfolding layered_snoc using inv'(4,8) closed by (auto simp: D_def)
  show ?thesis
    unfolding levelInv_def using inv'(1-3,6,7) disj lay degree new after nextLevel_facts(2) [of reverse indegree "sort current"] ne
    by (auto simp: D_def D'_def)
qed

text \<open>When the loop stops, what is left has a dependency among what is left.\<close>

lemma levelLoop_facts:
  assumes "levelInv graph levels indegree current" "remaining = int (card (nodesOf graph)) - int (length (concat levels))"
    and rev: "\<And>d n. count_list (listOf reverse d) n = count_list (listOf graph n) d"
    and "levelLoop reverse indegree remaining levels current = (levels', remaining')"
  shows "\<exists>indegree'. levelInv graph levels' indegree' [] \<and>
    remaining' = int (card (nodesOf graph)) - int (length (concat levels'))"
  using assms(1,2,4,3)
proof (induction reverse indegree remaining levels current arbitrary: levels' remaining' rule: levelLoop.induct)
  case (1 reverse indegree remaining levels current)
  show ?case
  proof (cases "current = []")
    case True
    with 1 show ?thesis by (subst (asm) levelLoop.simps) auto
  next
    case False
    let ?l = "sort current"
    let ?next = "nextLevel reverse indegree ?l"
    have inv: "levelInv graph (levels @ [?l]) (fst ?next) (snd ?next)"
      using "1.prems"(1) False by (rule levelInv_step) (rule "1.prems"(4))
    moreover have "levelLoop reverse (fst ?next) (remaining - int (length ?l)) (levels @ [?l]) (snd ?next) = (levels', remaining')"
      using "1.prems"(3) False by (subst (asm) levelLoop.simps) (simp add: case_prod_beta Let_def)
    ultimately show ?thesis using "1.IH" [OF False refl refl prod.collapse] "1.prems"(2,4) by simp
  qed
qed

section \<open>The result\<close>

lemma levelInv_start:
  assumes "distinct (map fst graph)"
  shows "levelInv graph [] (fst (buildDependencyIndex graph))
    (map fst (filter (\<lambda>(node, deg). deg = 0) (fst (buildDependencyIndex graph))))"
proof -
  let ?ind = "fst (buildDependencyIndex graph)"
  have dist: "distinct (map fst ?ind)" by (rule index_facts(3) [OF assms])
  have deg: "degreeOf ?ind n = v" if "(n, v) \<in> set ?ind" for n v
    using that dist by (simp add: degreeOf_def)
  have "set (map fst (filter (\<lambda>(node, deg). deg = 0) ?ind)) = {n \<in> nodesOf graph. degreeOf ?ind n = 0}"
    unfolding index_facts(4) [OF assms, symmetric]
  proof (intro set_eqI iffI)
    fix n assume "n \<in> {n \<in> fst ` set ?ind. degreeOf ?ind n = 0}"
    then obtain v where "(n, v) \<in> set ?ind" "degreeOf ?ind n = 0" by auto
    with deg have "(n, 0) \<in> set ?ind" by metis
    then show "n \<in> set (map fst (filter (\<lambda>(node, deg). deg = 0) ?ind))" by (force intro: rev_image_eqI)
  qed (auto simp: deg intro: rev_image_eqI)
  moreover have "distinct (map fst (filter (\<lambda>(node, deg). deg = 0) ?ind))" using dist by (rule distinct_map_filter)
  ultimately show ?thesis
    by (auto simp: levelInv_def layered_def index_facts(1) [OF assms] pendingDeps_def)
qed

lemma layered_acyclic:
  assumes "layered graph levels" "set (concat levels) = nodesOf graph" "distinct (concat levels)"
  shows "acyclic (dependsOn graph)"
proof -
  define rank where "rank n = (LEAST i. i < length levels \<and> n \<in> set (levels ! i))" for n
  have at: "rank n < length levels \<and> n \<in> set (levels ! rank n)" if "n \<in> nodesOf graph" for n
  proof -
    from that assms(2) obtain l where "l \<in> set levels" "n \<in> set l" by auto
    then have "\<exists>i. i < length levels \<and> n \<in> set (levels ! i)" by (metis in_set_conv_nth)
    then show ?thesis unfolding rank_def by (rule LeastI_ex)
  qed
  have "rank d < rank n" if "(n, d) \<in> dependsOn graph" for n d
  proof -
    from that have d: "d \<in> set (listOf graph n)" by (simp add: dependsOn_def)
    then have "d \<in> set (concat (take (rank n) levels))" 
      using at [of n] listOf_nodes [OF d] assms(1) d unfolding layered_def by blast
    then obtain i where i: "i < rank n" "i < length levels" "d \<in> set (levels ! i)"
      by (auto simp: in_set_conv_nth [of _ "take (rank n) levels"])
    then have "rank d \<le> i" unfolding rank_def by (intro Least_le) simp
    with i show ?thesis by simp
  qed
  then have "(dependsOn graph)\<inverse> \<subseteq> measure rank" by auto
  then have "wf ((dependsOn graph)\<inverse>)" using wf_measure wf_subset by blast
  then show ?thesis using wf_acyclic acyclic_converse by blast
qed

lemma buildInstallLevels_facts:
  assumes "distinct (map fst graph)"
  shows "case buildInstallLevels graph of
      Inr levels \<Rightarrow> set (concat levels) = nodesOf graph \<and> distinct (concat levels) \<and> list_all (\<lambda>l. sorted l \<and> l \<noteq> []) levels \<and>
        layered graph levels \<and> acyclic (dependsOn graph)
    | Inl e \<Rightarrow> \<not> acyclic (dependsOn graph)"
proof -
  let ?ind = "fst (buildDependencyIndex graph)" and ?rev = "snd (buildDependencyIndex graph)"
  let ?cur = "map fst (filter (\<lambda>(node, deg). deg = 0) ?ind)"
  obtain levels remaining where run: "levelLoop ?rev ?ind (int (length ?ind)) [] ?cur = (levels, remaining)" by (metis prod.exhaust)
  have "length ?ind = card (nodesOf graph)"
    using index_facts(3,4) [OF assms] by (metis distinct_card length_map list.set_map)
  then obtain ind where inv: "levelInv graph levels ind []"
    and rem: "remaining = int (card (nodesOf graph)) - int (length (concat levels))"
    using levelLoop_facts [OF levelInv_start [OF assms] _ index_facts(2) [OF assms] run] by auto
  define D where "D = set (concat levels)"
  have fin: "finite (nodesOf graph)" by (auto simp: nodesOf_def)
  have lay: "layered graph levels" and dist: "distinct (concat levels)" and sub: "D \<subseteq> nodesOf graph"
    and left: "{n \<in> nodesOf graph. n \<notin> D \<and> pendingDeps graph D n = []} = {}"
    and sorted: "list_all (\<lambda>l. sorted l \<and> l \<noteq> []) levels"
    using inv by (auto simp: levelInv_def D_def)
  have size: "length (concat levels) = card D" unfolding D_def using distinct_card [OF dist] by simp
  have out: "buildInstallLevels graph = (if 0 < remaining then Inl GraphHasCycle else Inr levels)"
    using run by (simp add: buildInstallLevels_def topologicalLevels_def case_prod_beta Let_def)
  show ?thesis
  proof (cases "0 < remaining")
    case False
    then have "D = nodesOf graph" using rem size card_mono [OF fin sub] card_subset_eq [OF fin sub] by simp
    with lay dist sorted layered_acyclic show ?thesis by (simp add: out False D_def)
  next
    case True
    then have "D \<noteq> nodesOf graph" using rem size by auto
    then obtain n0 where "n0 \<in> nodesOf graph - D" using sub by blast
    moreover have "\<exists>d \<in> nodesOf graph - D. (n, d) \<in> dependsOn graph" if "n \<in> nodesOf graph - D" for n
    proof -
      from that left obtain d where "d \<in> set (listOf graph n)" "d \<notin> D" by (auto simp: pendingDeps_def filter_empty_conv)
      then show ?thesis using listOf_nodes by (auto simp: dependsOn_def)
    qed
    ultimately have "\<not> wf ((dependsOn graph)\<inverse>)" by (meson converseI wfE_min)
    moreover have "finite ((dependsOn graph)\<inverse>)"
      by (rule finite_subset [OF _ finite_cartesian_product [OF fin fin]]) (auto simp: dependsOn_def dest: listOf_nodes)
    ultimately have "\<not> acyclic (dependsOn graph)" using finite_acyclic_wf acyclic_converse by blast
    then show ?thesis by (simp add: out True)
  qed
qed

end
