(* ===== verification/Spec2Isabelle.thy ===== *)
theory Spec2Isabelle
  imports Scenarios Fnmatch Lockfile Runes Helpers UrlText ArchiveDemo SigDemo S3Progress SourceDemo LevelsSound
begin

text \<open>
  A verification development for go-galaxy, an installer of Ansible collections and roles
  written in Go. It models the program's decision-making code: the version solver, the lock
  file comparison, the exclusion patterns, the name and text predicates, and what protects an
  installation, that is the manifest chain, the archive extraction and the signature policy.
  Paths below are under \<^verbatim>\<open>src/internal\<close>.

  \<^bold>\<open>How the parts interact.\<close> The requirements name packages and version constraints. The
  solver asks a provider for versions and dependencies and picks one version per package. An
  artifact is downloaded for each; its \<^verbatim>\<open>MANIFEST.json\<close> is verified against detached
  signatures, the manifest chain ties the rest of the archive to that document, and the
  archive is unpacked below a destination. The lock file records the outcome and is compared
  with a later one.

  \<^bold>\<open>Foundations.\<close> Prelude holds the sum type of fallible results, its sequencing \<open>bindE\<close>
  and \<open>mapE\<close>, and generic lemmas. GoStrings models the \<^verbatim>\<open>strings\<close> functions on byte strings.
  Regexp has the constraint regular expressions with a matcher and its correctness. Semver is
  the interface of Masterminds/semver: parsing and reading of a version are parameters (the
  record \<open>semver\<close>), and the locale of its laws is interpreted on a concrete instance.

  \<^bold>\<open>Solver\<close> (\<^verbatim>\<open>galaxy/solver\<close>), in the order of the code.
  VerSet and Pieces: \<^verbatim>\<open>verset.go\<close>, sets of versions as sorted pieces of a release line
  and a prerelease line, with 64-bit bounds that overflow as in the code. ConstraintSet:
  \<^verbatim>\<open>versetbuild.go\<close>, constraint text to sets. Term: \<^verbatim>\<open>term.go\<close>. Incompat:
  \<^verbatim>\<open>incompat.go\<close>, normal form and the deduplicating store. Partial: \<^verbatim>\<open>partial.go\<close>,
  the partial solution with its caches. SolveState: \<^verbatim>\<open>provider.go\<close> and the state of a run.
  Propagate, Conflict, Decide, Report, Solver: the files of those names; the functions carry
  their Go names, with the state passed in and returned. The provider's version lists and
  dependency lists are fields of the state's provider record.

  Solver lemmas. Solution relates the incompatibilities to solutions of the dependency
  problem; Accum the cached terms to the accumulated assignments; Refute and Backjump show that
  conflict resolution learns consequences and jumps where the code says; Saturate, Scan,
  Decision and Sound carry the run invariant through propagation and decisions; Extract reads
  the result; Terminate bounds every loop; Meaning gives constraint expressions a direct
  semantics and shows the parser's sets agree; Scenarios runs small problems.

  \<^bold>\<open>Bounds.\<close> The main loop stops at its step limit (1000000 in the code) and conflict
  resolution at its guard (10000); both limits are parameters or constants of the definitions
  and returning an error there is a branch of the model. Termination holds for every limit.
  \<open>unitPropagation\<close> returns an option because its loop has no bound in the source; property
  \<open>solve_terminates\<close> shows it always returns.

  \<^bold>\<open>Lock file\<close> (\<^verbatim>\<open>galaxy/lockfile\<close>): Lockfile has the entries, the canonical form,
  the schema version and \<^verbatim>\<open>Compare\<close>. The digest of a canonical file is a parameter.

  \<^bold>\<open>Patterns and text.\<close> Fnmatch: the memoised matcher of \<^verbatim>\<open>treearchive/fnmatch.go\<close> and
  the ignore rules. Helpers, Names, UrlText: \<^verbatim>\<open>helpers\<close>, constraint normalisation, the
  predicates on collection, role and path names, and the cuts that keep credentials out of
  messages. Runes: UTF-8 and \<^verbatim>\<open>safeout\<close>. Paths: \<^verbatim>\<open>path.Clean\<close>, \<^verbatim>\<open>Join\<close> and
  \<^verbatim>\<open>filepath.Rel\<close>.

  \<^bold>\<open>Manifest chain\<close> (\<^verbatim>\<open>galaxy/manifest\<close>): ChainScan reads the tar stream, a list of
  entries and how it ends, into the record of its keys, digests and links. Chain has the
  pointer in \<^verbatim>\<open>MANIFEST.json\<close>, the token walk over \<^verbatim>\<open>FILES.json\<close> and the checks of each
  row. ChainSound compares the streamed walk with a listing decoded whole. SHA-256 and the JSON
  tokenizer are the fields of \<open>chainLib\<close>; no law of theirs is assumed.

  \<^bold>\<open>Extraction\<close> (\<^verbatim>\<open>galaxy/archive\<close>): FileSystem is a store of nodes under paths with
  symbolic and hard links, and the system calls the code makes, with path resolution limited to
  40 links. Extractor is \<^verbatim>\<open>archive.go\<close>, entry by entry. ExtractSafe and Contained show that
  nothing outside the destination changes; Placed follows each entry to its file; ArchiveDemo
  runs a small archive. Other processes that change the tree at the same time are not modelled.

  \<^bold>\<open>Signatures\<close> (\<^verbatim>\<open>galaxy/signature\<close>): Framing walks OpenPGP packets; Armor cuts armored
  text and loads a keyring; SigVerify parses the policy, walks the gathered blobs and decides;
  SigDemo runs it. go-crypto's decoder, key reader and signature check are the fields of
  \<open>pgpLib\<close>; an error is the list of sentinels its chain holds.

  \<^bold>\<open>Not modelled.\<close> Network clients, caches, configuration, rendering to files and YAML,
  JSON and TOML decoding are I/O or third-party code; metrics and output are counters and
  printing. Concurrency inside the solver does not exist; the prefetching around it only warms
  the provider, which the model takes as a function.

  The properties C1 to C40 follow in this file: the solver's guarantees first, then sets, terms
  and the store, the lock file, text, artifacts and signatures.
\<close>

section \<open>The guarantees of a solve\<close>







section \<open>The steps of a solve\<close>







text \<open>
  C7: Backtracking rebuilds exactly the assignments of the levels kept, and the
  per-package caches agree with them afterwards; it never fails on a consistent partial
  solution.
\<close>

theorem backtrack_exact:
  assumes "psInv S ps"
  shows "\<exists>ps'. backtrackTo S ps level = (Inr ps' :: (('e, 'v) solveErr, 'v partialSolution) res) \<and> psInv S ps' \<and>
    ps_decisions ps' = level \<and>
    ps_assignments ps' = filter (\<lambda>a. a_level a \<le> level) (ps_assignments ps)"
proof -
  obtain ps' where "backtrackTo S ps level = (Inr ps' :: (('e, 'v) solveErr, 'v partialSolution) res)" "psInv S ps'"
    "ps_decisions ps' = level" "ps_assignments ps' = filter (\<lambda>a. a_level a \<le> level) (ps_assignments ps)"
    by (rule backtrackTo_result [OF assms])
  then show ?thesis by blast
qed

lemma backtrack_exact_witness:
  "\<exists>ps'. backtrackTo demoLib (ss_ps demoPropagated) 0 = (Inr ps' :: ((gostring, version20) solveErr, version20 partialSolution) res) \<and>
     psInv demoLib ps'"
proof -
  have "psInv demoLib (ss_ps demoPropagated)" using demo_propagated_inv by (simp add: solveInv_def coreInv_def)
  from backtrack_exact [OF this] show ?thesis by blast
qed

text \<open>
  C8: Recording an assignment keeps the bookkeeping of the partial solution: indices are
  positions, levels ascend up to the current one, and each package's cached index list,
  accumulated term and decision are what a recomputation from the assignments gives.
\<close>

theorem assignments_keep_bookkeeping:
  assumes "semver_lib S" "psInv S ps" "wfTerm S t" "wellParsed S v"
  shows "psInv S (derive S ps t c) \<and> psInv S (decide S ps pkg v)"
  using psInv_derive [OF assms(2,3)] semver_lib.psInv_decide [OF assms(1,2,4)] by blast

lemma assignments_keep_bookkeeping_witness:
  "psInv demoLib (derive demoLib newPartialSolution (mkTerm ''a'' demoPoint True) 0) \<and>
   psInv demoLib (decide demoLib newPartialSolution ''a'' demoV)"
  by (rule assignments_keep_bookkeeping [OF demo_lib(2) psInv_new _ demo_wellParsed]) simp

section \<open>Constraints as exact sets\<close>



text \<open>
  C10: The set operations are the Boolean operations on membership: intersection, union,
  complement and difference of well-formed sets contain exactly the versions they should.
\<close>

theorem set_algebra:
  assumes "semver_lib S" "wfVerSet S s" "wfVerSet S t"
  shows "vsContains S (vsIntersect S s t) v = (vsContains S s v \<and> vsContains S t v) \<and>
    vsContains S (vsUnion S s t) v = (vsContains S s v \<or> vsContains S t v) \<and>
    vsContains S (vsComplement S s) v = (\<not> vsContains S s v) \<and>
    vsContains S (vsDifference S s t) v = (vsContains S s v \<and> \<not> vsContains S t v)"
  using semver_lib.contains_intersect [OF assms] semver_lib.contains_union [OF assms]
    semver_lib.contains_complement [OF assms(1,2)] semver_lib.contains_difference [OF assms] by blast

lemma set_algebra_witness:
  "vsContains demoLib (vsIntersect demoLib demoPoint demoAll) demoV \<and> \<not> vsContains demoLib (vsComplement demoLib demoPoint) demoV"
  using set_algebra [OF demo_lib(2) demo_wf(1,2), of demoV] by simp

text \<open>
  C11: The tests on sets decide inclusion, disjointness, equality, emptiness and fullness
  exactly, over all versions.
\<close>

theorem set_tests_exact:
  assumes "semver_lib S" "wfVerSet S s" "wfVerSet S t"
  shows "vsSubsetOf S s t = (\<nexists>v. vsContains S s v \<and> \<not> vsContains S t v) \<and>
    vsDisjointFrom S s t = (\<nexists>v. vsContains S s v \<and> vsContains S t v) \<and>
    vsEqualSet S s t = (\<forall>v. vsContains S s v = vsContains S t v) \<and>
    vsIsEmpty s = (\<nexists>v. vsContains S s v) \<and> vsIsFull S s = (\<forall>v. vsContains S s v)"
  using semver_lib.subset_iff [OF assms] semver_lib.disjoint_iff [OF assms] semver_lib.equal_iff [OF assms]
    semver_lib.isEmpty_iff [OF assms(1,2)] semver_lib.isFull_iff [OF assms(1,2)] by blast

lemma set_tests_exact_witness:
  "vsIsFull demoLib demoAll \<and> \<not> vsIsEmpty demoPoint \<and> vsSubsetOf demoLib demoPoint demoAll"
  using set_tests_exact [OF demo_lib(2) demo_wf(1,2)] set_tests_exact [OF demo_lib(2) demo_wf(2,2)]
    demo_contains(1,2) by blast







section \<open>Terms, incompatibilities and the store\<close>

text \<open>
  C15: The term tests are logical. The intersection of two terms of one package holds of
  exactly the selections both hold of; \<^verbatim>\<open>termSubset\<close> decides implication; the relation of
  an accumulated term to a term is \<open>TermSatisfied\<close> just when it implies it, and
  \<open>TermContradicted\<close> just when it does not and no selection meets both.
\<close>

theorem terms_are_logical:
  assumes "semver_lib S" "wfTerm S a" "wfTerm S t" "t_pkg a = t_pkg t"
  shows "(\<forall>\<sigma>. holds S \<sigma> (termIntersect S a t) = (holds S \<sigma> a \<and> holds S \<sigma> t)) \<and>
    termSubset S a t = (\<nexists>\<sigma>. holds S \<sigma> a \<and> \<not> holds S \<sigma> t) \<and>
    (relateAccum S a t = TermSatisfied) = (\<nexists>\<sigma>. holds S \<sigma> a \<and> \<not> holds S \<sigma> t) \<and>
    (relateAccum S a t = TermContradicted) =
      ((\<exists>\<sigma>. holds S \<sigma> a \<and> \<not> holds S \<sigma> t) \<and> (\<nexists>\<sigma>. holds S \<sigma> a \<and> holds S \<sigma> t))"
  using semver_lib.holds_intersect [OF assms] semver_lib.termSubset_iff [OF assms]
    semver_lib.relateAccum_satisfied [OF assms(1)] semver_lib.relateAccum_contradicted [OF assms] by blast

lemma terms_are_logical_witness:
  "relateAccum demoLib (mkTerm ''a'' demoPoint True) (mkTerm ''a'' demoAll True) = TermSatisfied"
proof -
  have "holds demoLib \<sigma> (mkTerm ''a'' demoPoint True) \<longrightarrow> holds demoLib \<sigma> (mkTerm ''a'' demoAll True)" for \<sigma>
    by (auto simp: holds_def split: option.splits)
  with terms_are_logical [OF demo_lib(2), of "mkTerm ''a'' demoPoint True" "mkTerm ''a'' demoAll True"] show ?thesis
    by simp
qed







section \<open>Choosing and reporting\<close>

text \<open>
  C19: The result keeps what the requirements reach and nothing else: the walk over the
  dependency edges computes their reflexive transitive closure.
\<close>

theorem reach_is_closure: "set (reachLoop deps [] [start]) = {q. (start, q) \<in> (edgeRel deps)\<^sup>*}"
  by (rule set_reachLoop)



section \<open>The lock file\<close>

text \<open>
  C21: A comparison of two lock files partitions their collections. What it calls added is
  what only the second names, removed what only the first names, and updated the pairs of
  one name whose entries differ; each updated pair has a field to show. So nothing that
  changed is missing from the report and nothing unchanged is in it.
\<close>

theorem lock_diff_exact:
  assumes "namedOnce a" "namedOnce b"
  shows "set (df_added (compareFiles (Some a) (Some b))) =
      {e \<in> set (lf_collections b). en_name e \<notin> en_name ` set (lf_collections a)} \<and>
    set (df_removed (compareFiles (Some a) (Some b))) =
      {e \<in> set (lf_collections a). en_name e \<notin> en_name ` set (lf_collections b)} \<and>
    set (df_updated (compareFiles (Some a) (Some b))) =
      {c. ch_from c \<in> set (lf_collections a) \<and> ch_to c \<in> set (lf_collections b) \<and>
        en_name (ch_from c) = en_name (ch_to c) \<and> changeFields c \<noteq> []}"
proof -
  let ?A = "indexByName (Some b)" and ?B = "indexByName (Some a)"
  obtain added updated removed where d: "diffIndexes ?B ?A = (added, updated, removed)" by (metis prod_cases3)
  have A: "map_of ?A n = Some x \<longleftrightarrow> x \<in> set (lf_collections b) \<and> en_name x = n" for n x
    using assms(2) by (simp add: index_simps entries.map_of_indexOf namedOnce_def)
  have B: "map_of ?B n = Some x \<longleftrightarrow> x \<in> set (lf_collections a) \<and> en_name x = n" for n x
    using assms(1) by (simp add: index_simps entries.map_of_indexOf namedOnce_def)
  have same: "\<not> sameEntry (ch_to c) (ch_from c) \<longleftrightarrow> changeFields c \<noteq> []"
    if "en_name (ch_from c) = en_name (ch_to c)" for c
    using that entries.same_iff [of "ch_from c" "ch_to c"] entries.same_iff [of "ch_to c" "ch_from c"]
    by (auto simp: changeFields_empty_iff)
  have parts: "df_added (compareFiles (Some a) (Some b)) = added" "df_removed (compareFiles (Some a) (Some b)) = removed"
    "df_updated (compareFiles (Some a) (Some b)) = updated"
    using d by (simp_all add: compareFiles_def split: prod.split)
  note sets = diffNames_sets [OF d [unfolded diffIndexes_def] A B]
  show ?thesis unfolding parts sets using same by auto
qed

lemma lock_diff_exact_witness: "set (df_added (compareFiles (Some demoLockA) (Some demoLockB))) = {demoEntry ''c.d'' ''1.0.0''}"
  unfolding lock_diff_exact [OF demo_namedOnce, THEN conjunct1] by (auto simp: demoLockA_def demoLockB_def demoEntry_def)

text \<open>
  C22: Two lock files compare as unchanged just when they have one canonical form, and then
  one hash: order and the order of dependencies never count, everything else does.
\<close>

theorem lock_unchanged_iff:
  assumes "namedOnce a" "namedOnce b"
  shows "diffEmpty (compareFiles (Some a) (Some b)) = (canonicalClone a = canonicalClone b) \<and>
    (\<not> diffEmpty (compareFiles (Some a) (Some b)) \<or> fileHash marshal digest a = fileHash marshal digest b)"
  using compare_empty_iff [OF assms] by (simp add: fileHash_def)

lemma lock_unchanged_iff_witness: "\<not> diffEmpty (compareFiles (Some demoLockA) (Some demoLockB))"
proof -
  have "canonicalClone demoLockA \<noteq> canonicalClone demoLockB" by code_simp
  with lock_unchanged_iff [OF demo_namedOnce, of "\<lambda>_. ()" "\<lambda>_. []"] show ?thesis by simp
qed

text \<open>
  C23: Saving is stable: the canonical form is its own canonical form, has its collections
  and roles in ascending name order and their dependencies sorted, and keeps every entry
  up to that order.
\<close>

theorem lock_canonical_stable:
  assumes "namedOnce f"
  shows "canonicalClone (canonicalClone f) = canonicalClone f \<and>
    sorted (map en_name (lf_collections (canonicalClone f))) \<and> sorted (map ro_name (lf_roles (canonicalClone f))) \<and>
    set (lf_collections (canonicalClone f)) = (\<lambda>e. e\<lparr> en_deps := sort (en_deps e) \<rparr>) ` set (lf_collections f) \<and>
    set (lf_roles (canonicalClone f)) = (\<lambda>r. r\<lparr> ro_deps := sort (ro_deps r) \<rparr>) ` set (lf_roles f)"
  using canonicalClone_idem [OF assms]
  by (simp add: canonicalize_sel entries.sorted_keys roles.sorted_keys entries.set_canonList roles.set_canonList)

lemma lock_canonical_stable_witness: "canonicalClone (canonicalClone demoLockB) = canonicalClone demoLockB"
  by (rule lock_canonical_stable [OF demo_namedOnce(2), THEN conjunct1])


section \<open>Exclusion patterns\<close>

text \<open>
  C24: The memoised matcher decides the pattern. Whatever the pattern and the name,
  \<^verbatim>\<open>Fnmatch\<close> answers what the plain reading of the pattern says, in which a star stands
  for any string, every other token for one byte, and consecutive stars are not merged.
\<close>

theorem fnmatch_decides: "fnmatch pattern name = matches (translate pattern) name"
  by (simp add: fnmatch_matches matches_compilePattern)

section \<open>Printed text\<close>



section \<open>Artifacts: the manifest chain and extraction\<close>

text \<open>
  C26: What a passed chain check vouches for. When \<^verbatim>\<open>verifyChainStream\<close> accepts an artifact
  against a verified \<^verbatim>\<open>MANIFEST.json\<close>, the tar stream ended cleanly, no two retained entries
  share a cleaned name, every one of them is listed in \<^verbatim>\<open>FILES.json\<close> or is one of the two
  documents, and every regular file's content has the digest its row states; the archive's
  \<^verbatim>\<open>MANIFEST.json\<close> has the digest of the verified document and its \<^verbatim>\<open>FILES.json\<close> the digest
  that document points at.
\<close>

theorem accepted_archive_is_vouched:
  assumes "verifyChainStream L (Inr (es, end)) doc = Inr ()"
  shows "\<exists>files rows. parseChainPointer L doc = Inr (cl_sha256 L files) \<and> parseListing L (cl_tokens L files) = Some rows \<and>
    distinct (map rowKey rows) \<and> end = TarEOF \<and> distinct (List.map_filter entryKey es) \<and>
    (\<forall>e \<in> set es. \<forall>k. entryKey e = Some k \<longrightarrow>
       k \<in> rowKey ` set rows \<union> {manifestFileName, filesManifestFileName} \<and>
       (te_type e = TypeReg \<longrightarrow> (\<exists>body. tarContent e = Some body \<and>
          (k = manifestFileName \<longrightarrow> cl_sha256 L body = cl_sha256 L doc) \<and>
          (k = filesManifestFileName \<longrightarrow> body = files) \<and>
          (k \<noteq> manifestFileName \<and> k \<noteq> filesManifestFileName \<longrightarrow> vouched L rows k body))))"
  by (rule chain_covers_entries [OF assms]) blast

lemma accepted_archive_is_vouched_witness:
  "\<exists>files rows. parseChainPointer demoChain ''{}'' = Inr (demoSha files) \<and>
     parseListing demoChain (cl_tokens demoChain files) = Some rows \<and> distinct (map rowKey rows)"
  using accepted_archive_is_vouched [OF demo_verified] unfolding demo_chain_parts by blast

text \<open>
  C27: The streamed listing is the listing decoded whole. \<^verbatim>\<open>verifyListing\<close>, which checks
  rows one at a time while it reads, accepts exactly when the document decodes as a single
  object with at most one \<^verbatim>\<open>files\<close> array of at most 100000 rows and nothing after it, every
  row is admitted and no name is listed twice; it returns the names listed.
\<close>

theorem listing_streams:
  "verifyListing L a = Inr listed \<longleftrightarrow>
     (\<exists>rows. parseListing L (cl_tokens L (as_files a)) = Some rows \<and> (\<forall>row \<in> set rows. rowAdmitted a row) \<and>
        distinct (map rowKey rows) \<and> listed = rowKey ` set rows)"
  by (rule verifyListing_exact)

lemma listing_streams_witness:
  "\<exists>rows. parseListing demoChain (cl_tokens demoChain (as_files demoScan)) = Some rows \<and>
     (\<forall>row \<in> set rows. rowAdmitted demoScan row) \<and> distinct (map rowKey rows) \<and> {''a''} = rowKey ` set rows"
  using demo_listing unfolding listing_streams .

text \<open>
  C28: A scan is bounded and its keys stay inside the archive. An archive \<^verbatim>\<open>scanArchive\<close>
  accepts has at most 100000 headers, whose declared sizes are non-negative, at most 512
  MiB each and 4 GiB together, with names of at most 1024 bytes; every key it retains
  consists of plain elements only, so joined to any directory it names something below it.
\<close>

theorem scan_is_bounded:
  assumes "scanArchive sha es end = Inr a"
  shows "int (length es) \<le> archiveMaxEntryCount \<and> sum_list (map te_size es) \<le> archiveMaxTotalSize \<and>
    (\<forall>e \<in> set es. 0 \<le> te_size e \<and> te_size e \<le> archiveMaxEntrySize \<and> length (te_name e) \<le> archiveMaxEntryNameLen) \<and>
    (\<forall>k \<in> set (as_order a). \<forall>el \<in> set (splitStr k ''/''). plainElem el)"
proof -
  have "scanned sha es a" using scanArchive_scanned [OF assms] by simp
  then have "\<forall>k \<in> set (as_order a). \<forall>el \<in> set (splitStr k ''/''). plainElem el"
    using scanned_order entryKey_inside by blast
  with scanLoop_bounds [OF assms [unfolded scanArchive_def]] show ?thesis
    by (cases es) (auto simp: archiveMaxEntryCount_def archiveMaxTotalSize_def)
qed

lemma scan_is_bounded_witness:
  "int (length demoEntries) \<le> archiveMaxEntryCount \<and> list_all (\<lambda>k. list_all plainElem (splitStr k ''/'')) (as_order demoScan)"
  using scan_is_bounded [OF demo_scan] by (simp add: list_all_iff)

text \<open>
  C29: The manifest that was read is the manifest that was checked. \<^verbatim>\<open>ReadFromTarGz\<close> returns
  the first top-level \<^verbatim>\<open>MANIFEST.json\<close> of a stream; when \<^verbatim>\<open>verifyChainStream\<close> accepts the
  same stream against a document, what was read has that document's digest and is not
  empty, so an archive cannot show one manifest to the signature check and another to the
  chain check.
\<close>

theorem manifest_read_is_checked:
  assumes "readFromTarGzStream fault es end = Inr d" "verifyChainStream L (Inr (es, end)) doc = Inr ()"
  shows "cl_sha256 L d = cl_sha256 L doc \<and> d \<noteq> []"
proof -
  obtain e where e: "e \<in> set es" "topLevelManifest e" "tarContent e = Some d" "d \<noteq> []"
    using read_first [OF assms(1)] by blast
  from e(2) have k: "entryKey e = Some manifestFileName" "te_type e = TypeReg" by (simp_all add: top_key)
  show ?thesis
    using chain_covers_entries [OF assms(2)] e k by (metis option.inject)
qed

lemma manifest_read_is_checked_witness: "cl_sha256 demoChain ''{}'' = cl_sha256 demoChain ''{}'' \<and> ''{}'' \<noteq> ([] :: gostring)"
  by (rule manifest_read_is_checked [OF demo_read demo_verified])



text \<open>
  C31: A verified archive extracts to vouched content only. When the chain check accepts a
  stream and extracting it into an empty directory succeeds, every regular entry's file
  holds the entry's content, and every file below the directory, reached through whatever
  hard link, holds the verified manifest's content, the listing's, or a content whose
  digest a row of the listing states.
\<close>

theorem verified_extraction_is_vouched:
  assumes "verifyChainStream L (Inr (es, end)) doc = Inr ()"
    and "extractTarGzStream root dst (Inr (es, end)) fs = (Inr (), st)" "emptyDst dst fs" "plainPath dst"
  shows "placed dst es st \<and>
    (\<exists>files rows. parseChainPointer L doc = Inr (cl_sha256 L files) \<and> parseListing L (cl_tokens L files) = Some rows \<and>
      (\<forall>q i. fs_node (ex_fs st) (dst @ q) = Some (NFile i) \<longrightarrow>
         (let body = snd (fs_data (ex_fs st) i) in
          cl_sha256 L body = cl_sha256 L doc \<or> body = files \<or> (\<exists>k. vouched L rows k body))))"
proof
  have "distinct (List.map_filter entryKey es)" by (rule chain_covers_entries [OF assms(1)])
  with assms(2-4) show "placed dst es st" by (rule extraction_places)
qed (rule verified_extraction_files [OF assms])

lemma verified_extraction_is_vouched_witness:
  "placed [''d''] demoEntries (snd (extractTarGzStream False [''d''] (Inr (demoEntries, TarEOF)) demoFs))"
  using verified_extraction_is_vouched [OF demo_verified _ demo_dst] demo_extracted
  by (metis prod.collapse)

section \<open>Signatures\<close>

text \<open>
  C32: The framing gate admits exactly the well-framed streams. \<^verbatim>\<open>checkPacketFraming\<close>
  accepts a stream exactly when it is a concatenation of at most the profile's number of
  whole packets, each with a header that bounds it, a tag the profile admits that is no
  secret-key tag, a body the signature walk accepts when it is a signature, and nothing the
  third-party parser leaves unread.
\<close>

theorem framing_exact:
  "checkPacketFraming unread data p = Inr () \<longleftrightarrow>
     (\<exists>segs. data = concat segs \<and> length segs \<le> pp_maxPackets p \<and> (\<forall>s \<in> set segs. okSegment unread p s))"
  by (rule checkPacketFraming_exact)

lemma framing_exact_witness:
  "\<exists>segs. octetsOf (demoPacket CHR ''a'') = concat segs \<and> length segs \<le> pp_maxPackets signatureBlobProfile \<and>
     (\<forall>s \<in> set segs. okSegment (pl_unread demoPgp) signatureBlobProfile s)"
  using demo_framing unfolding framing_exact .

text \<open>
  C33: What decides a signature verdict. Over a pull that ends normally, \<^verbatim>\<open>Verify\<close>
  passes exactly when a strict policy has at least one valid signer and: under \<open>all\<close> every
  blob is valid or fails with an ignored status; under a count of 0 nothing verified; under a
  positive count there are no blobs or at least that many distinct signers among them. The
  early stop at the count and the order of the blobs do not matter.
\<close>

theorem verdict_exact:
  assumes "keys \<noteq> []"
  shows "snd (verify L doc blobs (PullDone :: 'e pullEnd) keys p) = None \<longleftrightarrow>
    (let valid = validSigners L doc keys blobs; required = po_required p in
      (cs_strict required \<longrightarrow> valid \<noteq> {}) \<and>
      (if cs_all required then \<forall>b \<in> set blobs. tolerated L doc keys p b
       else if cs_count required = 0 then valid = {}
       else blobs = [] \<or> cs_count required \<le> card valid))"
  unfolding verify_satisfied [OF assms] satisfied_def ..

lemma verdict_exact_witness:
  "2 \<le> card (validSigners demoPgp ''doc'' [()]
     [\<lparr>bl_origin = ''one'', bl_data = demoPacket CHR ''a''\<rparr>, \<lparr>bl_origin = ''two'', bl_data = demoPacket CHR ''b''\<rparr>])"
  using verdict_exact [THEN iffD1, OF _ demo_passes] by (simp add: demoPolicy_def Let_def)

text \<open>
  C34: A refusal is a verification failure that names the clause that fails. When
  \<^verbatim>\<open>Verify\<close> refuses over a pull that ends normally, its error is the verification failure and
  its reason is true of the blobs: no valid signer under a strict policy, a blob neither valid
  nor ignored under \<open>all\<close>, the number of signers under a count of 0, or the number of distinct
  signers, smaller than the required count.
\<close>

theorem refusal_names_clause:
  assumes "keys \<noteq> []" "snd (verify L doc blobs (PullDone :: 'e pullEnd) keys p) = Some err"
  shows "\<exists>reason failures. err = VerificationFailed reason failures \<and> clauseFails L doc keys p blobs reason"
  by (rule verify_refusal [OF assms])

lemma refusal_names_clause_witness:
  "\<exists>reason. clauseFails demoPgp ''doc'' [()] (demoPolicy 2)
     [\<lparr>bl_origin = ''one'', bl_data = demoPacket CHR ''a''\<rparr>, \<lparr>bl_origin = ''two'', bl_data = demoPacket CHR ''a''\<rparr>] reason"
  using refusal_names_clause [OF _ demo_refused] by blast

section \<open>The shared cache lock\<close>



text \<open>
  C36: A dead holder does not block. An acquirer that has not started, or sleeps between
  attempts, takes the lock in one attempt whenever the object is absent or its deadline has
  passed: there is a run of its own steps after which it holds the lock, the object carries its
  token, and its lease runs. This needs a lifetime of at least a second, since deadlines
  are written in whole seconds, and entity tags that are not empty.
\<close>

theorem dead_holder_does_not_block:
  assumes "1000000000 \<le> lt_ttl T" "tagsIdentify etagOf" "cl_pc (lw_client w c) \<in> {NotStarted, Sleeping}" "lockFree T etagOf w"
  shows "\<exists>w'. lockReach T etagOf tok w w' \<and> cl_pc (lw_client w' c) = Holding \<and> ownsObject tok w' c \<and> liveLease w' c"
  by (rule waiting_acquires [OF assms])

lemma dead_holder_does_not_block_witness:
  "\<exists>w'. lockReach demoTiming demoTag demoTok (demoBeat\<lparr>lw_now := 601000000000\<rparr>) w' \<and>
     cl_pc (lw_client w' False) = Holding \<and> ownsObject demoTok w' False \<and> liveLease w' False"
  using demoBeat_free
  by (intro dead_holder_does_not_block demo_tags) (simp_all add: demoTiming_def demoBeat_pc)

section \<open>Sources and pins\<close>

text \<open>
  C37: A source locator is read back as it was written. A text is a git locator exactly when
  a well-formed locator prints it, with a canonical repository URL, a subdirectory that
  parses and either no commit or a full one, and the same holds for tarball locators and
  their digests. So no two locators print one text and no other spelling is accepted. The
  bound on the nesting of embedded tarball URLs is never reached.
\<close>

theorem locators_round_trip:
  assumes "netLaws N" "escapeLaws N"
  shows "(parseGitLocator N s = Inr g) = (s = gitLocatorString g \<and> wfGitLocator N g) \<and>
    (parseTarLocator N s = Inr t) = (s = tarLocatorString t \<and> wfTarLocator N t) \<and>
    parseTarURL N raw \<noteq> Inl NestingExhausted"
proof (intro conjI)
  show "(parseGitLocator N s = Inr g) = (s = gitLocatorString g \<and> wfGitLocator N g)"
    using parseGitLocator_string [OF assms(1), of g] gitLocatorString_parse [of N s g] by auto
  show "parseTarURL N raw \<noteq> Inl NestingExhausted" using assms(2) by (rule parseTarURL_fuel)
qed (rule parseTarLocator_iff)

lemma locators_round_trip_witness:
  "parseGitLocator demoNet (gitLocatorString \<lparr>gl_url = demoRepo, gl_subdir = [], gl_commit = demoCommit\<rparr>) =
     Inr \<lparr>gl_url = demoRepo, gl_subdir = [], gl_commit = demoCommit\<rparr>"
proof -
  let ?l = "\<lparr>gl_url = demoRepo, gl_subdir = [], gl_commit = demoCommit\<rparr>"
  have "wfGitLocator demoNet ?l" using demoRepo_canonical demoFile_commit by (simp add: wfGitLocator_def)
  then show ?thesis using locators_round_trip [OF demoNet_laws demoNet_escape, of "gitLocatorString ?l" ?l] by simp
qed

text \<open>
  C38: What a lock file must hold to load. Loading succeeds exactly when the bytes decode to
  a file whose names are distinct, whose every entry is pinned to an exact version and to
  what its type asks for (a plain download URL, a canonical repository with ref and full
  commit, or a canonical tarball URL with its digest), without credentials in a source, and
  whose schema number is supported and has every kind of entry in the file; an absent file
  is told apart from a broken one.
\<close>

theorem lock_load_exact:
  "(loadRequired unmarshal N exact got = Inr f) =
     (\<exists>data. got = FileBytes data \<and> unmarshal data = Some f \<and> installable N exact f \<and>
       schemaVersionFor (lf_collections f) (lf_roles f) \<le> lf_schemaVersion f \<and> lf_schemaVersion f \<le> schemaVersionDownloadURL) \<and>
   (loadRequired unmarshal N exact got = Inl LockMissing) = (got = FileAbsent)"
proof (cases got)
  case (FileBytes data)
  have "loadLock unmarshal N exact (FileBytes data) \<noteq> Inl LockAbsent" "loadLock unmarshal N exact (FileBytes data) \<noteq> Inl LockMissing"
    using validate_not_absent by (auto simp: loadLock_def bindE_def split: option.splits sum.splits)
  then show ?thesis
    using load_iff [of unmarshal N exact data f]
    by (auto simp: loadRequired_def isNotExist_def FileBytes split: sum.splits)
qed (simp_all add: loadRequired_def loadLock_def isNotExist_def)

text \<open>
  C39: A saved lock file loads. When the file a run assembles is installable and its bytes
  decode to what was encoded, loading them gives its canonical form, and saving that again
  writes the same bytes; the schema number is never what refuses it.
\<close>

theorem saved_lock_loads:
  assumes "installable N exact f" "unmarshal (savedBytes marshal f) = Some (canonicalClone f)"
  shows "loadLock unmarshal N exact (FileBytes (savedBytes marshal f)) = Inr (canonicalClone f) \<and>
    savedBytes marshal (canonicalClone f) = savedBytes marshal f"
proof
  have "namedOnce f" using assms(1) by (simp add: installable_def)
  then show "savedBytes marshal (canonicalClone f) = savedBytes marshal f" by (simp add: savedBytes_def canonicalClone_idem)
  show "loadLock unmarshal N exact (FileBytes (savedBytes marshal f)) = Inr (canonicalClone f)"
    unfolding load_iff using assms
    by (simp add: installable_canonical canonicalize_sel schema_canonList schemaVersionFor_bounds)
qed

lemma saved_lock_loads_witness:
  "loadLock Some demoNet (\<lambda>_. True) (FileBytes (savedBytes (\<lambda>f. f) demoFile)) = Inr (canonicalClone demoFile)"
  using saved_lock_loads [OF demo_installable, of Some "\<lambda>f. f"] by (simp add: savedBytes_def)

section \<open>Installation\<close>

text \<open>
  C40: Install levels respect the dependency graph. Grouping fails exactly when the graph has
  a cycle. Otherwise every node is in exactly one level, each level is sorted and not empty,
  all dependencies of a node are in earlier levels, and a node after the first level has one
  in the level just before, so nothing waits longer than it must.
\<close>

theorem install_levels_exact:
  assumes "distinct (map fst graph)"
  shows "(buildInstallLevels graph = Inl GraphHasCycle) = (\<not> acyclic (dependsOn graph)) \<and>
    (\<forall>levels. buildInstallLevels graph = Inr levels \<longrightarrow> set (concat levels) = nodesOf graph \<and> distinct (concat levels) \<and>
      list_all (\<lambda>l. sorted l \<and> l \<noteq> []) levels \<and> layered graph levels)"
proof -
  have "e = GraphHasCycle" for e by (cases e) simp
  with buildInstallLevels_facts [OF assms] show ?thesis by (cases "buildInstallLevels graph") auto
qed

lemma install_levels_exact_witness:
  "buildInstallLevels [(''c'', [''b'', ''a'']), (''b'', [''a''])] = Inr [[''a''], [''b''], [''c'']] \<and>
   layered [(''c'', [''b'', ''a'']), (''b'', [''a''])] [[''a''], [''b''], [''c'']]"
proof -
  have run: "buildInstallLevels [(''c'', [''b'', ''a'']), (''b'', [''a''])] = Inr [[''a''], [''b''], [''c'']]" by code_simp
  have "distinct (map fst [(''c'', [''b'', ''a'']), (''b'', [''a'' :: gostring])])" by simp
  from install_levels_exact [OF this] run show ?thesis by blast
qed

end
